(* ===== verification/Prelude.thy ===== *)
theory Prelude
  imports Main "HOL-Library.Finite_Map" "HOL-Library.Word"
begin

text \<open>
  What the components share: the result type of fallible operations, the checked
  arithmetic of Rust's unsigned integers, the ordered containers of the standard
  library, and the two contracts that many operations follow (an operation that
  restores a snapshot when it fails, and a machine whose operations keep an invariant).

  A Rust \<open>Result\<close> is a sum: \<open>Inl\<close> is a failure, \<open>Inr\<close> a success. A failure is either
  an error value the function returns (\<open>Err\<close>) or a panic (\<open>Panic\<close>): an index out of
  range, an \<open>expect\<close> on \<open>None\<close>, an arithmetic overflow of a plain operator.
  Unsigned integers are natural numbers; every operation that can leave the range of
  its width is written with the width.
\<close>

section \<open>Results\<close>

datatype 'e fault = Err 'e | Panic

type_synonym ('e, 'a) result = "'e fault + 'a"

named_theorems result_simps \<open>unfolding successful results into their steps\<close>

definition rbind :: "('e, 'a) result \<Rightarrow> ('a \<Rightarrow> ('e, 'b) result) \<Rightarrow> ('e, 'b) result" where
  "rbind r f = (case r of Inl e \<Rightarrow> Inl e | Inr x \<Rightarrow> f x)"

definition ok_or :: "'a option \<Rightarrow> 'e \<Rightarrow> ('e, 'a) result" where
  "ok_or x e = (case x of None \<Rightarrow> Inl (Err e) | Some v \<Rightarrow> Inr v)"

definition expect :: "'a option \<Rightarrow> ('e, 'a) result" where
  "expect x = (case x of None \<Rightarrow> Inl Panic | Some v \<Rightarrow> Inr v)"

definition ensure :: "bool \<Rightarrow> 'e \<Rightarrow> ('e, unit) result" where
  "ensure b e = (if b then Inr () else Inl (Err e))"

definition map_err :: "('e \<Rightarrow> 'f) \<Rightarrow> ('e, 'a) result \<Rightarrow> ('f, 'a) result" where
  "map_err f r = (case r of Inl (Err e) \<Rightarrow> Inl (Err (f e)) | Inl Panic \<Rightarrow> Inl Panic | Inr x \<Rightarrow> Inr x)"

definition is_ok :: "('e, 'a) result \<Rightarrow> bool" where
  "is_ok r = (case r of Inl _ \<Rightarrow> False | Inr _ \<Rightarrow> True)"

lemma rbind_simps [simp]:
  "rbind (Inl e) f = Inl e" "rbind (Inr x) f = f x"
  by (simp_all add: rbind_def)

lemma rbind_cong [fundef_cong]:
  "r = r' \<Longrightarrow> (\<And>x. r' = Inr x \<Longrightarrow> f x = g x) \<Longrightarrow> rbind r f = rbind r' g"
  by (auto simp: rbind_def split: sum.splits)

lemma rbind_Inr [result_simps]: "rbind r f = Inr y \<longleftrightarrow> (\<exists>x. r = Inr x \<and> f x = Inr y)"
  by (auto simp: rbind_def split: sum.splits)

lemma rbind_Inl [result_simps]:
  "rbind r f = Inl e \<longleftrightarrow> r = Inl e \<or> (\<exists>x. r = Inr x \<and> f x = Inl e)"
  by (auto simp: rbind_def split: sum.splits)

lemma ok_or_simps [simp]: "ok_or None e = Inl (Err e)" "ok_or (Some v) e = Inr v"
  by (simp_all add: ok_or_def)

lemma ok_or_Inr [result_simps]: "ok_or x e = Inr v \<longleftrightarrow> x = Some v"
  by (auto simp: ok_or_def split: option.splits)

lemma ok_or_Inl [result_simps]: "ok_or x e = Inl f \<longleftrightarrow> x = None \<and> f = Err e"
  by (auto simp: ok_or_def split: option.splits)

lemma expect_simps [simp]: "expect None = Inl Panic" "expect (Some v) = Inr v"
  by (simp_all add: expect_def)

lemma expect_Inr [result_simps]: "expect x = Inr v \<longleftrightarrow> x = Some v"
  by (auto simp: expect_def split: option.splits)

lemma expect_Inl [result_simps]: "expect x = Inl f \<longleftrightarrow> x = None \<and> f = Panic"
  by (auto simp: expect_def split: option.splits)

lemma ensure_simps [simp]: "ensure True e = Inr ()" "ensure False e = Inl (Err e)"
  by (simp_all add: ensure_def)

lemma ensure_Inr [result_simps]: "ensure b e = Inr u \<longleftrightarrow> b"
  by (simp add: ensure_def)

lemma ensure_Inl [result_simps]: "ensure b e = Inl f \<longleftrightarrow> \<not> b \<and> f = Err e"
  by (auto simp: ensure_def)

lemma map_err_simps [simp]:
  "map_err f (Inr x) = Inr x" "map_err f (Inl (Err e)) = Inl (Err (f e))"
  "map_err f (Inl Panic) = Inl Panic"
  by (simp_all add: map_err_def)

lemma map_err_Inr [result_simps]: "map_err f r = Inr x \<longleftrightarrow> r = Inr x"
  by (auto simp: map_err_def split: sum.splits fault.splits)

lemma map_err_Panic [result_simps]: "map_err f r = Inl Panic \<longleftrightarrow> r = Inl Panic"
  by (auto simp: map_err_def split: sum.splits fault.splits)

lemma is_ok_simps [simp]: "is_ok (Inr x)" "\<not> is_ok (Inl e)"
  by (simp_all add: is_ok_def)

lemma is_okE [result_simps]: "is_ok r \<longleftrightarrow> (\<exists>x. r = Inr x)"
  by (auto simp: is_ok_def split: sum.splits)

subsection \<open>Loops that stop at the first failure\<close>

text \<open>
  \<open>for x in xs { ... ? ... }\<close> over an accumulator: the state runs through the body, and
  the first failure leaves the loop.
\<close>

fun rfold :: "('a \<Rightarrow> 's \<Rightarrow> ('e, 's) result) \<Rightarrow> 'a list \<Rightarrow> 's \<Rightarrow> ('e, 's) result" where
  "rfold f [] s = Inr s"
| "rfold f (x # xs) s = rbind (f x s) (rfold f xs)"

lemma rfold_append [simp]: "rfold f (xs @ ys) s = rbind (rfold f xs s) (rfold f ys)"
  by (induction xs arbitrary: s) (auto simp: rbind_def split: sum.splits)

lemma rfold_invariant:
  assumes "rfold f xs s = Inr t" and "P s"
    and "\<And>x s t. x \<in> set xs \<Longrightarrow> P s \<Longrightarrow> f x s = Inr t \<Longrightarrow> P t"
  shows "P t"
  using assms by (induction xs arbitrary: s) (auto simp: result_simps)

lemma rfold_no_panic:
  assumes "P s"
    and "\<And>x s t. x \<in> set xs \<Longrightarrow> P s \<Longrightarrow> f x s = Inr t \<Longrightarrow> P t"
    and "\<And>x s. x \<in> set xs \<Longrightarrow> P s \<Longrightarrow> f x s \<noteq> Inl Panic"
  shows "rfold f xs s \<noteq> Inl Panic"
  using assms by (induction xs arbitrary: s) (auto simp: result_simps)

text \<open>\<open>iter().map(f).collect::<Result<Vec<_>, _>>()\<close>.\<close>

fun rmap :: "('a \<Rightarrow> ('e, 'b) result) \<Rightarrow> 'a list \<Rightarrow> ('e, 'b list) result" where
  "rmap f [] = Inr []"
| "rmap f (x # xs) = rbind (f x) (\<lambda>y. rbind (rmap f xs) (\<lambda>ys. Inr (y # ys)))"

lemma rmap_Inr [result_simps]: "rmap f xs = Inr ys \<longleftrightarrow> list_all2 (\<lambda>x y. f x = Inr y) xs ys"
  by (induction xs arbitrary: ys) (auto simp: result_simps list_all2_Cons1)

lemma rmap_Inr_total: "(\<And>x. x \<in> set xs \<Longrightarrow> f x = Inr (g x)) \<Longrightarrow> rmap f xs = Inr (map g xs)"
  by (induction xs) auto

lemma rfold_enumerate:
  assumes "\<And>i. i < length xs \<Longrightarrow> f (n + i, xs ! i) (S i) = (if P i then Inr (S (Suc i)) else Inl e)"
  shows "rfold f (enumerate n xs) (S 0) = (if \<forall>i<length xs. P i then Inr (S (length xs)) else Inl e)"
  using assms
proof (induction xs arbitrary: n S P)
  case (Cons x xs)
  have head: "f (n, x) (S 0) = (if P 0 then Inr (S 1) else Inl e)" using Cons.prems [of 0] by simp
  have "rfold f (enumerate (Suc n) xs) (S (Suc 0)) =
      (if \<forall>i<length xs. P (Suc i) then Inr (S (Suc (length xs))) else Inl e)"
    using Cons.IH [of "Suc n" "\<lambda>i. S (Suc i)" "\<lambda>i. P (Suc i)"] Cons.prems [of "Suc _"] by simp
  then show ?case using head by (simp add: All_less_Suc2)
qed simp

lemma rmap_fuse:
  "(\<And>x. x \<in> set xs \<Longrightarrow> \<exists>y. f x = Inr y \<and> g y = h x) \<Longrightarrow> \<exists>ys. rmap f xs = Inr ys \<and> rmap g ys = rmap h xs"
proof (induction xs)
  case (Cons x xs)
  then obtain ys where "rmap f xs = Inr ys" "rmap g ys = rmap h xs" by auto
  moreover obtain y where "f x = Inr y" "g y = h x" using Cons.prems by auto
  ultimately show ?case by (intro exI [of _ "y # ys"]) simp
qed simp

lemma rmap_if:
  "(\<And>x. x \<in> set xs \<Longrightarrow> h x = (if P x then Inr (k x) else Inl e)) \<Longrightarrow>
     rmap h xs = (if \<forall>x\<in>set xs. P x then Inr (map k xs) else Inl e)"
  by (induction xs) auto

text \<open>\<open>for x in xs { check(x)?; }\<close>: the first check that fails is the result.\<close>

fun check_all :: "('a \<Rightarrow> ('e, unit) result) \<Rightarrow> 'a list \<Rightarrow> ('e, unit) result" where
  "check_all f [] = Inr ()"
| "check_all f (x # xs) = rbind (f x) (\<lambda>_. check_all f xs)"

lemma check_all_Inr [result_simps]: "check_all f xs = Inr u \<longleftrightarrow> (\<forall>x\<in>set xs. f x = Inr ())"
  by (induction xs) (auto simp: result_simps)

lemma check_all_Inl: "check_all f xs = Inl e \<Longrightarrow> \<exists>x\<in>set xs. f x = Inl e"
  by (induction xs) (auto simp: result_simps)

subsection \<open>Contracts of fallible computations\<close>

text \<open>
  \<open>returns E P r\<close>: the result \<open>r\<close> is either a value that satisfies \<open>P\<close> or one of the
  failures in \<open>E\<close>. It is the form in which the components state what an operation does on
  every path, and it composes along \<open>rbind\<close>.
\<close>

definition returns :: "'e fault set \<Rightarrow> ('a \<Rightarrow> bool) \<Rightarrow> ('e, 'a) result \<Rightarrow> bool" where
  "returns E P r = (case r of Inl f \<Rightarrow> f \<in> E | Inr x \<Rightarrow> P x)"

lemma returns_simps [simp]:
  "returns E P (Inl f) \<longleftrightarrow> f \<in> E" "returns E P (Inr x) \<longleftrightarrow> P x"
  by (simp_all add: returns_def)

lemma returns_Inr: "returns E P r \<Longrightarrow> r = Inr x \<Longrightarrow> P x"
  by simp

lemma returns_Inl: "returns E P r \<Longrightarrow> r = Inl f \<Longrightarrow> f \<in> E"
  by simp

lemma returns_rbind:
  "returns E Q r \<Longrightarrow> (\<And>x. Q x \<Longrightarrow> r = Inr x \<Longrightarrow> returns E P (f x)) \<Longrightarrow> returns E P (rbind r f)"
  by (cases r) auto

lemma returns_mono: "returns E P r \<Longrightarrow> E \<subseteq> E' \<Longrightarrow> (\<And>x. P x \<Longrightarrow> Q x) \<Longrightarrow> returns E' Q r"
  by (cases r) auto

lemma returns_ok_or:
  "(x = None \<Longrightarrow> Err e \<in> E) \<Longrightarrow> (\<And>v. x = Some v \<Longrightarrow> P v) \<Longrightarrow> returns E P (ok_or x e)"
  by (cases x) auto

lemma returns_expect: "x = Some v \<Longrightarrow> P v \<Longrightarrow> returns E P (expect x)"
  by simp

lemma returns_ensure: "(\<not> b \<Longrightarrow> Err e \<in> E) \<Longrightarrow> (b \<Longrightarrow> P ()) \<Longrightarrow> returns E P (ensure b e)"
  by (cases b) auto

lemma returns_rfold:
  assumes "I s" and "\<And>x s. x \<in> set xs \<Longrightarrow> I s \<Longrightarrow> returns E I (f x s)"
  shows "returns E I (rfold f xs s)"
  using assms by (induction xs arbitrary: s) (auto intro!: returns_rbind)

lemma returns_check_all: "(\<And>x. x \<in> set xs \<Longrightarrow> returns E (\<lambda>_. True) (f x)) \<Longrightarrow> returns E (\<lambda>_. True) (check_all f xs)"
  by (induction xs) (auto intro!: returns_rbind)

section \<open>Slices\<close>

text \<open>
  \<open>sort_by\<close> with a comparison that is a total preorder has one result, the stable sort; it is
  written as insertion. \<open>position\<close> and \<open>min_by_key\<close> give the first match.
\<close>

primrec insert_by :: "('a \<Rightarrow> 'a \<Rightarrow> bool) \<Rightarrow> 'a \<Rightarrow> 'a list \<Rightarrow> 'a list" where
  "insert_by le x [] = [x]"
| "insert_by le x (y # ys) = (if le x y then x # y # ys else y # insert_by le x ys)"

definition sort_by :: "('a \<Rightarrow> 'a \<Rightarrow> bool) \<Rightarrow> 'a list \<Rightarrow> 'a list" where
  "sort_by le xs = foldr (insert_by le) xs []"

lemma sort_by_simps [simp]: "sort_by le [] = []" "sort_by le (x # xs) = insert_by le x (sort_by le xs)"
  by (simp_all add: sort_by_def)

lemma set_insert_by [simp]: "set (insert_by le x xs) = insert x (set xs)"
  by (induction xs) auto

lemma length_insert_by [simp]: "length (insert_by le x xs) = Suc (length xs)"
  by (induction xs) auto

lemma distinct_insert_by [simp]: "distinct (insert_by le x xs) \<longleftrightarrow> x \<notin> set xs \<and> distinct xs"
  by (induction xs) auto

lemma set_sort_by [simp]: "set (sort_by le xs) = set xs"
  by (induction xs) auto

lemma length_sort_by [simp]: "length (sort_by le xs) = length xs"
  by (induction xs) auto

lemma distinct_sort_by [simp]: "distinct (sort_by le xs) \<longleftrightarrow> distinct xs"
  by (induction xs) auto

lemma sorted_insert_by:
  assumes "\<And>a b. a \<in> A \<Longrightarrow> b \<in> A \<Longrightarrow> le a b \<or> le b a"
    and "\<And>a b c. a \<in> A \<Longrightarrow> b \<in> A \<Longrightarrow> c \<in> A \<Longrightarrow> le a b \<Longrightarrow> le b c \<Longrightarrow> le a c"
    and "x \<in> A" and "set xs \<subseteq> A" and "sorted_wrt le xs"
  shows "sorted_wrt le (insert_by le x xs)"
  using assms(4,5)
proof (induction xs)
  case (Cons y ys)
  have y: "y \<in> A" "\<forall>z\<in>set ys. le y z" and ys: "set ys \<subseteq> A" "sorted_wrt le ys" using Cons.prems by auto
  show ?case
  proof (cases "le x y")
    case True
    then have "\<forall>z\<in>set ys. le x z" using assms(2) [OF assms(3) y(1)] y(2) ys(1) by blast
    then show ?thesis using True Cons.prems(2) by simp
  next
    case False
    then have "le y x" using assms(1) [OF assms(3) y(1)] by blast
    then show ?thesis using False Cons.IH [OF ys] y(2) by simp
  qed
qed simp

lemma sorted_sort_by:
  assumes "\<And>a b. a \<in> set xs \<Longrightarrow> b \<in> set xs \<Longrightarrow> le a b \<or> le b a"
    and "\<And>a b c. a \<in> set xs \<Longrightarrow> b \<in> set xs \<Longrightarrow> c \<in> set xs \<Longrightarrow> le a b \<Longrightarrow> le b c \<Longrightarrow> le a c"
  shows "sorted_wrt le (sort_by le xs)"
proof -
  have "sorted_wrt le (sort_by le ys)" if "set ys \<subseteq> set xs" for ys
    using that
  proof (induction ys)
    case (Cons y ys)
    then have y: "y \<in> set xs" "set (sort_by le ys) \<subseteq> set xs" "sorted_wrt le (sort_by le ys)" by auto
    show ?case unfolding sort_by_simps by (rule sorted_insert_by [OF assms y])
  qed simp
  then show ?thesis by simp
qed

primrec position :: "('a \<Rightarrow> bool) \<Rightarrow> 'a list \<Rightarrow> nat option" where
  "position P [] = None"
| "position P (x # xs) = (if P x then Some 0 else map_option Suc (position P xs))"

lemma position_Some: "position P xs = Some i \<Longrightarrow> i < length xs \<and> P (xs ! i) \<and> (\<forall>j<i. \<not> P (xs ! j))"
  by (induction xs arbitrary: i) (auto simp: nth_Cons less_Suc_eq_0_disj split: if_splits)

lemma position_None: "position P xs = None \<longleftrightarrow> (\<forall>x\<in>set xs. \<not> P x)"
  by (induction xs) auto

primrec min_by_key :: "('a \<Rightarrow> 'k::linorder) \<Rightarrow> 'a list \<Rightarrow> 'a option" where
  "min_by_key key [] = None"
| "min_by_key key (x # xs) = (case min_by_key key xs of
      None \<Rightarrow> Some x
    | Some y \<Rightarrow> if key x \<le> key y then Some x else Some y)"

lemma min_by_key_None: "min_by_key key xs = None \<longleftrightarrow> xs = []"
  by (cases xs) (auto split: option.splits)

lemma min_by_key_Some: "min_by_key key xs = Some x \<Longrightarrow> x \<in> set xs \<and> (\<forall>y\<in>set xs. key x \<le> key y)"
  by (induction xs arbitrary: x) (auto simp: min_by_key_None split: option.splits if_splits)

section \<open>Checked unsigned arithmetic\<close>

definition checked_add :: "nat \<Rightarrow> nat \<Rightarrow> nat \<Rightarrow> nat option" where
  "checked_add w a b = (if a + b < 2 ^ w then Some (a + b) else None)"

definition checked_sub :: "nat \<Rightarrow> nat \<Rightarrow> nat option" where
  "checked_sub a b = (if b \<le> a then Some (a - b) else None)"

definition checked_mul :: "nat \<Rightarrow> nat \<Rightarrow> nat \<Rightarrow> nat option" where
  "checked_mul w a b = (if a * b < 2 ^ w then Some (a * b) else None)"

text \<open>\<open>uN::try_from\<close> and \<open>saturating_add\<close>.\<close>

definition try_uint :: "nat \<Rightarrow> nat \<Rightarrow> nat option" where
  "try_uint w n = (if n < 2 ^ w then Some n else None)"

definition saturating_add :: "nat \<Rightarrow> nat \<Rightarrow> nat \<Rightarrow> nat" where
  "saturating_add w a b = min (a + b) (2 ^ w - 1)"

definition div_ceil :: "nat \<Rightarrow> nat \<Rightarrow> nat" where
  "div_ceil a b = (if a mod b = 0 then a div b else a div b + 1)"

lemma checked_add_Some [result_simps]: "checked_add w a b = Some c \<longleftrightarrow> c = a + b \<and> a + b < 2 ^ w"
  by (auto simp: checked_add_def)

lemma checked_add_None [result_simps]: "checked_add w a b = None \<longleftrightarrow> 2 ^ w \<le> a + b"
  by (auto simp: checked_add_def)

lemma checked_sub_Some [result_simps]: "checked_sub a b = Some c \<longleftrightarrow> c = a - b \<and> b \<le> a"
  by (auto simp: checked_sub_def)

lemma checked_sub_None [result_simps]: "checked_sub a b = None \<longleftrightarrow> a < b"
  by (auto simp: checked_sub_def)

lemma checked_mul_Some [result_simps]: "checked_mul w a b = Some c \<longleftrightarrow> c = a * b \<and> a * b < 2 ^ w"
  by (auto simp: checked_mul_def)

lemma checked_mul_None [result_simps]: "checked_mul w a b = None \<longleftrightarrow> 2 ^ w \<le> a * b"
  by (auto simp: checked_mul_def)

lemma try_uint_Some [result_simps]: "try_uint w n = Some m \<longleftrightarrow> m = n \<and> n < 2 ^ w"
  by (auto simp: try_uint_def)

lemma try_uint_None [result_simps]: "try_uint w n = None \<longleftrightarrow> 2 ^ w \<le> n"
  by (auto simp: try_uint_def)

lemma div_ceil_le_iff:
  assumes "0 < b" shows "div_ceil a b \<le> k \<longleftrightarrow> a \<le> k * b"
proof (cases "a mod b = 0")
  case True
  then obtain q where "a = b * q" by (auto elim: dvdE)
  with True assms show ?thesis by (simp add: div_ceil_def mult.commute)
next
  case False
  have "a div b + 1 \<le> k \<longleftrightarrow> a < k * b"
    using assms by (simp add: Suc_le_eq div_less_iff_less_mult)
  also have "\<dots> \<longleftrightarrow> a \<le> k * b"
    using False by (cases "a = k * b") auto
  finally show ?thesis using False by (simp add: div_ceil_def)
qed

lemma div_ceil_zero [simp]: "div_ceil 0 b = 0"
  by (simp add: div_ceil_def)

subsection \<open>Bytes\<close>

text \<open>\<open>to_le_bytes\<close> of an unsigned integer of \<open>n\<close> bytes.\<close>

primrec le_bytes :: "nat \<Rightarrow> nat \<Rightarrow> 8 word list" where
  "le_bytes 0 x = []"
| "le_bytes (Suc n) x = of_nat x # le_bytes n (x div 256)"

lemma length_le_bytes [simp]: "length (le_bytes n x) = n"
  by (induction n arbitrary: x) simp_all

lemma byte_eq_iff: "(of_nat x :: 8 word) = of_nat y \<longleftrightarrow> x mod 256 = y mod 256"
  by (simp add: word_of_nat_eq_iff take_bit_eq_mod)

lemma le_bytes_inject: "x < 256 ^ n \<Longrightarrow> y < 256 ^ n \<Longrightarrow> le_bytes n x = le_bytes n y \<longleftrightarrow> x = y"
proof (induction n arbitrary: x y)
  case (Suc n)
  have "x div 256 < 256 ^ n" "y div 256 < 256 ^ n"
    using Suc.prems by (simp_all add: less_mult_imp_div_less mult.commute)
  then have "le_bytes (Suc n) x = le_bytes (Suc n) y \<longleftrightarrow> x mod 256 = y mod 256 \<and> x div 256 = y div 256"
    using Suc.IH by (simp add: byte_eq_iff)
  then show ?case by (metis mod_mult_div_eq)
qed simp

text \<open>The bytes of an ASCII string literal.\<close>

definition ascii_bytes :: "string \<Rightarrow> 8 word list" where
  "ascii_bytes s = map of_char s"

lemma byte_inject: "x < 2 ^ 8 \<Longrightarrow> y < 2 ^ 8 \<Longrightarrow> (of_nat x :: 8 word) = of_nat y \<longleftrightarrow> x = y"
  by (simp add: byte_eq_iff)

lemma concat_map_inject:
  assumes "concat (map f xs) = concat (map g ys)" and "length xs = length ys"
    and "\<And>i. i < length xs \<Longrightarrow> length (f (xs ! i)) = length (g (ys ! i))"
  shows "map f xs = map g ys"
  using assms(1,2)
  by (subst (asm) concat_eq_concat_iff) (auto simp: set_zip assms(3))

lemma length_concat_map: "(\<And>x. length (f x) = k) \<Longrightarrow> length (concat (map f xs)) = k * length xs"
  by (induction xs) simp_all

text \<open>Two byte strings that are different and have the same hash.\<close>

definition collides :: "('a \<Rightarrow> 'b) \<Rightarrow> 'a \<Rightarrow> 'a \<Rightarrow> bool" where
  "collides sha x y \<longleftrightarrow> x \<noteq> y \<and> sha x = sha y"

section \<open>Ordered sets and maps\<close>

text \<open>\<open>BTreeSet::pop_first\<close>: the least element and the rest.\<close>

definition pop_first :: "nat set \<Rightarrow> (nat \<times> nat set) option" where
  "pop_first S = (if S = {} then None else Some (Min S, S - {Min S}))"

lemma pop_first_Some:
  assumes "pop_first S = Some (x, S')" and "finite S"
  shows "x \<in> S" and "S' = S - {x}" and "y \<in> S \<Longrightarrow> x \<le> y"
proof -
  from assms(1) have ne: "S \<noteq> {}" and x: "x = Min S" and s: "S' = S - {Min S}"
    by (auto simp: pop_first_def split: if_splits)
  show "x \<in> S" using Min_in [OF assms(2) ne] x by simp
  show "S' = S - {x}" using x s by simp
  show "y \<in> S \<Longrightarrow> x \<le> y" using x assms(2) by simp
qed

lemma pop_first_None: "pop_first S = None \<longleftrightarrow> S = {}"
  by (simp add: pop_first_def)

text \<open>
  A \<open>BTreeMap\<close> is a finite map; iterating it visits the keys in ascending order.
\<close>

definition keys_of :: "('k::linorder, 'v) fmap \<Rightarrow> 'k list" where
  "keys_of m = sorted_list_of_fset (fmdom m)"

definition entries_of :: "('k::linorder, 'v) fmap \<Rightarrow> ('k \<times> 'v) list" where
  "entries_of m = map (\<lambda>k. (k, the (fmlookup m k))) (keys_of m)"

lemma set_keys_of [simp]: "set (keys_of m) = fmdom' m"
  by (simp add: keys_of_def fmdom'_alt_def)

lemma distinct_keys_of [simp]: "distinct (keys_of m)"
  by (simp add: keys_of_def sorted_list_of_fset.rep_eq)

lemma sorted_keys_of [simp]: "sorted (keys_of m)"
  by (simp add: keys_of_def sorted_list_of_fset.rep_eq)

lemma set_entries_of [simp]: "(k, v) \<in> set (entries_of m) \<longleftrightarrow> fmlookup m k = Some v"
  by (auto simp: entries_of_def fmlookup_dom'_iff)

lemma map_fst_entries_of [simp]: "map fst (entries_of m) = keys_of m"
  by (simp add: entries_of_def comp_def)

lemma fmap_of_entries: "fmap_of_list (rev (map (\<lambda>(k, v). (k, f v)) (entries_of m))) = fmmap f m"
proof (rule fmap_ext)
  fix k
  let ?es = "rev (map (\<lambda>(k, v). (k, f v)) (entries_of m))"
  have "map fst ?es = rev (keys_of m)" by (simp add: rev_map entries_of_def comp_def)
  then have "distinct (map fst ?es)" by (metis distinct_keys_of distinct_rev)
  then have "map_of ?es k = Some v \<longleftrightarrow> (\<exists>u. fmlookup m k = Some u \<and> v = f u)" for v by auto
  then show "fmlookup (fmap_of_list ?es) k = fmlookup (fmmap f m) k"
    by (cases "fmlookup m k"; cases "map_of ?es k") (auto simp: fmlookup_of_list)
qed

lemma ball_entries_of: "(\<forall>x\<in>set (entries_of m). P x) \<longleftrightarrow> (\<forall>k v. fmlookup m k = Some v \<longrightarrow> P (k, v))"
  by (metis set_entries_of surj_pair)

lemma keys_fmmap [simp]: "keys_of (fmmap f m) = keys_of m"
  by (simp add: keys_of_def)

lemma strict_sorted_keys: "sorted_wrt (<) (keys_of m)"
  using sorted_keys_of [of m] distinct_keys_of [of m] by (simp add: strict_sorted_iff)

text \<open>A finite map that maps a key to a number summed over its keys.\<close>

definition fm_sum :: "('v \<Rightarrow> nat) \<Rightarrow> ('k, 'v) fmap \<Rightarrow> nat" where
  "fm_sum f m = (\<Sum>k\<in>fmdom' m. f (the (fmlookup m k)))"

lemma fm_sum_empty [simp]: "fm_sum f fmempty = 0"
  by (simp add: fm_sum_def)

lemma fm_sum_split: "fmlookup m x = Some u \<Longrightarrow> fm_sum f m = f u + fm_sum f (fmdrop x m)"
proof -
  assume x: "fmlookup m x = Some u"
  then have "x \<in> fmdom' m" by (rule fmdom'I)
  moreover have "(\<Sum>k\<in>fmdom' m - {x}. f (the (fmlookup (fmdrop x m) k))) =
      (\<Sum>k\<in>fmdom' m - {x}. f (the (fmlookup m k)))"
    by (rule sum.cong) auto
  ultimately show ?thesis
    using x by (simp add: fm_sum_def sum.remove)
qed

lemma fm_sum_new:
  assumes "fmlookup m x = None"
  shows "fm_sum f (fmupd x v m) = f v + fm_sum f m"
proof -
  have "fmdrop x (fmupd x v m) = m"
    using assms by (simp add: fmdrop_fmupd_same fmdrop_idle' fmdom'_notI)
  then show ?thesis using fm_sum_split [of "fmupd x v m" x v f] by simp
qed

lemma fm_sum_upd:
  assumes "fmlookup m x = Some u"
  shows "fm_sum f (fmupd x v m) + f u = fm_sum f m + f v"
proof -
  have "fmdrop x (fmupd x v m) = fmdrop x m" by (rule fmdrop_fmupd_same)
  then have "fm_sum f (fmupd x v m) = f v + fm_sum f (fmdrop x m)"
    using fm_sum_split [of "fmupd x v m" x v f] by simp
  with fm_sum_split [OF assms, of f] show ?thesis by simp
qed

lemma fm_sum_ge: "fmlookup m x = Some u \<Longrightarrow> f u \<le> fm_sum f m"
  by (simp add: fm_sum_split)

lemma fm_sum_0: "fm_sum f m = 0 \<longleftrightarrow> (\<forall>x u. fmlookup m x = Some u \<longrightarrow> f u = 0)"
  by (auto simp: fm_sum_def fmlookup_dom'_iff dest: bspec [OF _ fmdom'I])

section \<open>Shared contracts\<close>

text \<open>
  An operation that works on the state in place and, when it fails, restores the clone
  it took at entry (\<open>let snapshot = self.clone(); ... *self = snapshot\<close>). The inner
  computation is a function to a result; the outer operation returns the result and
  the state it leaves behind. Whatever the inner computation keeps on success, the
  operation keeps on every path, and an error leaves the state as it was.
\<close>

definition transact :: "('s \<Rightarrow> ('e, 's \<times> 'a) result) \<Rightarrow> 's \<Rightarrow> ('e, 'a) result \<times> 's" where
  "transact inner s = (case inner s of Inl f \<Rightarrow> (Inl f, s) | Inr (s', x) \<Rightarrow> (Inr x, s'))"

lemma transact_Inr: "transact inner s = (Inr x, s') \<longleftrightarrow> inner s = Inr (s', x)"
  by (auto simp: transact_def split: sum.splits)

lemma transact_Inl: "transact inner s = (Inl f, s') \<longleftrightarrow> inner s = Inl f \<and> s' = s"
  by (auto simp: transact_def split: sum.splits)

text \<open>The failure of a call, if any.\<close>

definition failure :: "('e, 'a) result \<Rightarrow> 'e fault option" where
  "failure r = (case r of Inl f \<Rightarrow> Some f | Inr _ \<Rightarrow> None)"

lemma transact_failure:
  "apfst failure (transact inner t) =
     (case rbind (inner t) (\<lambda>(t', _). Inr t') of Inl f \<Rightarrow> (Some f, t) | Inr t' \<Rightarrow> (None, t'))"
  by (auto simp: transact_def failure_def split: sum.splits prod.splits)

lemma returns_fst:
  "returns E (\<lambda>(t', _). P t') r \<Longrightarrow> E \<subseteq> E' \<Longrightarrow> (\<And>t'. P t' \<Longrightarrow> Q t') \<Longrightarrow> returns E' Q (rbind r (\<lambda>(t', _). Inr t'))"
  by (cases r) auto

locale transactional =
  fixes inv :: "'s \<Rightarrow> bool"
    and inner :: "'s \<Rightarrow> ('e, 's \<times> 'a) result"
  assumes inner_keeps: "inv s \<Longrightarrow> inner s = Inr (s', x) \<Longrightarrow> inv s'"
    and inner_safe: "inv s \<Longrightarrow> inner s \<noteq> Inl Panic"
begin

lemma keeps: "inv s \<Longrightarrow> inv (snd (transact inner s))"
  by (auto simp: transact_def split: sum.splits intro: inner_keeps)

lemma no_panic: "inv s \<Longrightarrow> fst (transact inner s) \<noteq> Inl Panic"
  by (auto simp: transact_def inner_safe split: sum.splits)

lemma atomic: "fst (transact inner s) = Inl f \<Longrightarrow> snd (transact inner s) = s"
  by (auto simp: transact_def split: sum.splits)

end

text \<open>
  A component driven by operations: a start state, an operation for every command, and
  an invariant. Every state a list of commands leads to satisfies the invariant.
\<close>

locale machine =
  fixes inv :: "'s \<Rightarrow> bool"
    and exec :: "'c \<Rightarrow> 's \<Rightarrow> 's"
  assumes exec_keeps: "inv s \<Longrightarrow> inv (exec c s)"
begin

lemma run_keeps: "inv s \<Longrightarrow> inv (fold exec cs s)"
  by (induction cs arbitrary: s) (auto intro: exec_keeps)

end

end
