(* ===== verification/Page.thy ===== *)
theory Page
  imports Prelude
begin

text \<open>
  \<open>crates/glm-cache/src/page.rs\<close>: the life cycle of a cache page, the rank that owns a
  page ordinal, and the generations of a page's attachments.
\<close>

section \<open>Page states\<close>

datatype page_state =
    Free | HbmMutable | HbmTentative | HbmSealed | DramWriting | DramResident
  | NvmeWriting | NvmeResident | Restoring | Invalid

record page_transition_error =
  pte_from :: page_state
  pte_to :: page_state

definition legal_transition :: "page_state \<Rightarrow> page_state \<Rightarrow> bool" where
  "legal_transition s next = (case s of
      Free \<Rightarrow> next = HbmMutable
    | HbmMutable \<Rightarrow> next \<in> {HbmTentative, HbmSealed, Invalid}
    | HbmTentative \<Rightarrow> next \<in> {HbmMutable, HbmSealed, Invalid}
    | HbmSealed \<Rightarrow> next \<in> {DramWriting, Invalid}
    | DramWriting \<Rightarrow> next \<in> {DramResident, Invalid}
    | DramResident \<Rightarrow> next \<in> {NvmeWriting, Restoring, Invalid}
    | NvmeWriting \<Rightarrow> next \<in> {NvmeResident, Invalid}
    | NvmeResident \<Rightarrow> next \<in> {Restoring, Invalid}
    | Restoring \<Rightarrow> next \<in> {HbmSealed, Invalid}
    | Invalid \<Rightarrow> next = Free)"

definition transition :: "page_state \<Rightarrow> page_state \<Rightarrow> (page_transition_error, page_state) result" where
  "transition s next =
     (if legal_transition s next then Inr next
      else Inl (Err \<lparr>pte_from = s, pte_to = next\<rparr>))"

lemma transition_Inr [result_simps]: "transition s n = Inr t \<longleftrightarrow> legal_transition s n \<and> t = n"
  by (auto simp: transition_def)

lemma transition_no_panic [simp]: "transition s n \<noteq> Inl Panic"
  by (simp add: transition_def)

lemma legal_transition_simps [simp]:
  "legal_transition Free HbmMutable"
  "legal_transition HbmMutable HbmSealed" "legal_transition HbmMutable HbmTentative"
  "legal_transition HbmTentative HbmMutable" "legal_transition HbmTentative HbmSealed"
  by (simp_all add: legal_transition_def)

lemma transition_legal [simp]: "legal_transition s n \<Longrightarrow> transition s n = Inr n"
  by (simp add: transition_def)

subsection \<open>Paths through the life cycle\<close>

text \<open>A page's history: the states it goes through, each by a successful transition.\<close>

inductive page_path :: "page_state \<Rightarrow> page_state list \<Rightarrow> page_state \<Rightarrow> bool" where
  here: "page_path s [] s"
| step: "transition s m = Inr m \<Longrightarrow> page_path m ms t \<Longrightarrow> page_path s (m # ms) t"

inductive_cases page_path_Nil: "page_path s [] t"
inductive_cases page_path_Cons: "page_path s (m # ms) t"

definition occupied :: "page_state \<Rightarrow> bool" where
  "occupied s \<longleftrightarrow> s \<noteq> Free \<and> s \<noteq> Invalid"

lemma occupied_step: "legal_transition s m \<Longrightarrow> occupied s \<Longrightarrow> occupied m \<or> m = Invalid"
  by (cases s) (auto simp: legal_transition_def occupied_def)

text \<open>The states in which a page's contents are frozen.\<close>

definition frozen_state :: "page_state \<Rightarrow> bool" where
  "frozen_state s \<longleftrightarrow>
     s \<in> {HbmSealed, DramWriting, DramResident, NvmeWriting, NvmeResident, Restoring}"

lemma frozen_step: "legal_transition s m \<Longrightarrow> frozen_state s \<Longrightarrow> frozen_state m \<or> m = Invalid"
  by (cases s) (auto simp: legal_transition_def frozen_state_def)

lemma frozen_path_prefix:
  "page_path s ms t \<Longrightarrow> frozen_state s \<Longrightarrow> Invalid \<notin> set ms \<Longrightarrow> frozen_state t"
  by (induction rule: page_path.induct) (auto simp: result_simps dest: frozen_step)

section \<open>Ownership and attachments\<close>

definition owner_rank :: "nat \<Rightarrow> nat" where
  "owner_rank page_ordinal = page_ordinal mod 4"

lemma owner_rank_less [simp]: "owner_rank n < 4"
  by (simp add: owner_rank_def)

record page_attachments =
  target_generation :: nat
  target_indexer_generation :: nat
  draft_kv_generation :: "nat option"
  draft_indexer_generation :: "nat option"

datatype attachment_error = Generation | MissingDraft

definition validate_attachments :: "page_attachments \<Rightarrow> bool \<Rightarrow> (attachment_error, unit) result" where
  "validate_attachments a mtp =
     (if target_generation a \<noteq> target_indexer_generation a then Inl (Err Generation)
      else case (draft_kv_generation a, draft_indexer_generation a) of
        (Some kv, Some indexer) \<Rightarrow>
          (if kv = indexer \<and> kv = target_generation a then Inr () else Inl (Err Generation))
      | (None, None) \<Rightarrow> (if \<not> mtp then Inr () else Inl (Err MissingDraft))
      | _ \<Rightarrow> Inl (Err Generation))"

section \<open>Properties\<close>

text \<open>
  A page whose contents are frozen (sealed in HBM, or on its way through DRAM and
  NVMe) becomes mutable again only after it was invalidated: on every path of successful
  transitions from a frozen state to a mutable or tentative one, the page was
  \<open>Invalid\<close> in between.
\<close>

theorem sealed_page_immutable:
  assumes "page_path s ms t" and "frozen_state s" and "t \<in> {HbmMutable, HbmTentative}"
  shows "Invalid \<in> set ms"
  using frozen_path_prefix [OF assms(1,2)] assms(3) by (auto simp: frozen_state_def)

lemma sealed_page_immutable_witness:
  "Invalid \<in> set [DramWriting, DramResident, Invalid, Free, HbmMutable]"
proof (rule sealed_page_immutable)
  show "page_path HbmSealed [DramWriting, DramResident, Invalid, Free, HbmMutable] HbmMutable"
    by (intro page_path.intros) (simp_all add: transition_def legal_transition_def)
qed (simp_all add: frozen_state_def)

text \<open>
  The page ordinals of a context are dealt out evenly: of the first \<open>4 * n\<close>
  ordinals every rank owns exactly \<open>n\<close>.
\<close>

theorem owner_rank_balanced:
  assumes "r < 4"
  shows "card {o' \<in> {..<4 * n}. owner_rank o' = r} = n"
proof -
  have "{o' \<in> {..<4 * n}. owner_rank o' = r} = (\<lambda>i. 4 * i + r) ` {..<n}"
  proof (intro set_eqI iffI)
    fix x assume "x \<in> {o' \<in> {..<4 * n}. owner_rank o' = r}"
    then have "x = 4 * (x div 4) + r" "x div 4 < n"
      by (auto simp: owner_rank_def)
    then show "x \<in> (\<lambda>i. 4 * i + r) ` {..<n}" by auto
  qed (use assms in \<open>auto simp: owner_rank_def\<close>)
  moreover have "inj_on (\<lambda>i. 4 * i + r) {..<n}" by (auto simp: inj_on_def)
  ultimately show ?thesis by (simp add: card_image)
qed

lemma owner_rank_balanced_witness: "card {o' \<in> {..<4 * 4096}. owner_rank o' = 3} = 4096"
  by (rule owner_rank_balanced) simp

end
