(* ===== verification/Tier.thy ===== *)
theory Tier
  imports Prelude "HOL-Library.Multiset"
begin

text \<open>
  \<open>crates/glm-cache/src/tier.rs\<close>: the records that describe a cache page on DRAM or
  NVMe, the interleaved draft sidecar payload, and the write-ahead journal whose replay
  decides which pages survive a crash.

  Hashes are byte lists. The journal is the list of its events in the order they were
  written; recovery replays them transaction by transaction and then publishes the
  finished transactions in ascending order of their number, as iterating the
  \<open>BTreeMap\<close> does.
\<close>

type_synonym hash32 = "8 word list"

section \<open>Page geometry\<close>

definition PAGE_TOKENS :: nat where [simp]: "PAGE_TOKENS = 64"
definition MODEL_POSITIONS :: nat where [simp]: "MODEL_POSITIONS = 1048576"
definition TARGET_LAYERS :: nat where [simp]: "TARGET_LAYERS = 78"
definition INDEXER_GROUPS :: nat where [simp]: "INDEXER_GROUPS = 21"
definition DRAFT_INDEXER_GROUPS :: nat where [simp]: "DRAFT_INDEXER_GROUPS = 1"
definition KV_RECORD_BYTES :: nat where [simp]: "KV_RECORD_BYTES = 368"
definition INDEXER_RECORD_BYTES :: nat where [simp]: "INDEXER_RECORD_BYTES = 132"

definition DRAFT_COMMITTED_RECORD_BYTES :: nat where
  [simp]: "DRAFT_COMMITTED_RECORD_BYTES = KV_RECORD_BYTES + INDEXER_RECORD_BYTES"
definition TARGET_KV_PAGE_BYTES :: nat where
  [simp]: "TARGET_KV_PAGE_BYTES = PAGE_TOKENS * TARGET_LAYERS * KV_RECORD_BYTES"
definition TARGET_INDEXER_PAGE_BYTES :: nat where
  [simp]: "TARGET_INDEXER_PAGE_BYTES = PAGE_TOKENS * INDEXER_GROUPS * INDEXER_RECORD_BYTES"
definition DRAFT_KV_PAGE_BYTES :: nat where
  [simp]: "DRAFT_KV_PAGE_BYTES = PAGE_TOKENS * KV_RECORD_BYTES"
definition DRAFT_INDEXER_PAGE_BYTES :: nat where
  [simp]: "DRAFT_INDEXER_PAGE_BYTES = PAGE_TOKENS * INDEXER_RECORD_BYTES"
definition DRAFT_SIDECAR_PAGE_BYTES :: nat where
  [simp]: "DRAFT_SIDECAR_PAGE_BYTES = PAGE_TOKENS * DRAFT_COMMITTED_RECORD_BYTES"

section \<open>Tier records\<close>

datatype tier = Dram | Nvme

datatype tier_piece = TargetKv | TargetIndexer | DraftSidecar

datatype tier_error =
    Identity | Pieces | Collision | Checksum | NotDurable | AlreadyPublished | Journal | Overflow

fun expected_bytes :: "tier_piece \<Rightarrow> nat" where
  "expected_bytes TargetKv = TARGET_KV_PAGE_BYTES"
| "expected_bytes TargetIndexer = TARGET_INDEXER_PAGE_BYTES"
| "expected_bytes DraftSidecar = DRAFT_SIDECAR_PAGE_BYTES"

record tier_piece_record =
  tp_piece :: tier_piece
  tp_byte_length :: nat
  tp_storage_offset :: nat
  tp_sha256 :: hash32

record tier_record =
  tr_namespace :: hash32
  tr_page_key :: hash32
  tr_generation :: nat
  tr_tier :: tier
  tr_mtp :: bool
  tr_pieces :: "tier_piece_record list"

datatype tier_record_relation = ExactDedup | MtpUpgrade | RetainMtp

definition zero_hash :: hash32 where
  "zero_hash = replicate 32 0"

definition required_pieces :: "bool \<Rightarrow> tier_piece list" where
  "required_pieces mtp =
     (if mtp then [TargetKv, TargetIndexer, DraftSidecar] else [TargetKv, TargetIndexer])"

definition tier_alignment :: "tier \<Rightarrow> nat" where
  "tier_alignment t = (case t of Dram \<Rightarrow> 64 | Nvme \<Rightarrow> 4096)"

text \<open>The body of the loop of \<open>TierRecord::validate\<close>: the pieces seen and the ranges taken.\<close>

definition validate_piece :: "tier_piece list \<Rightarrow> nat \<Rightarrow> tier_piece_record \<Rightarrow>
    tier_piece set \<times> (nat \<times> nat) list \<Rightarrow> (tier_error, tier_piece set \<times> (nat \<times> nat) list) result" where
  "validate_piece required alignment p st =
     (let (seen, ranges) = st in
      if tp_piece p \<notin> set required \<or> tp_piece p \<in> seen
         \<or> tp_byte_length p \<noteq> expected_bytes (tp_piece p)
         \<or> tp_storage_offset p mod alignment \<noteq> 0 \<or> tp_sha256 p = zero_hash
      then Inl (Err Pieces)
      else rbind (ok_or (checked_add 64 (tp_storage_offset p) (tp_byte_length p)) Overflow) (\<lambda>end'.
        if list_ex (\<lambda>(start, prior_end). tp_storage_offset p < prior_end \<and> start < end') ranges
        then Inl (Err Pieces)
        else Inr (insert (tp_piece p) seen, ranges @ [(tp_storage_offset p, end')])))"

definition validate_record :: "tier_record \<Rightarrow> (tier_error, unit) result" where
  "validate_record r =
     (if tr_namespace r = zero_hash \<or> tr_page_key r = zero_hash \<or> tr_generation r = 0
      then Inl (Err Identity)
      else let required = required_pieces (tr_mtp r) in
        if length (tr_pieces r) \<noteq> length required then Inl (Err Pieces)
        else rbind (rfold (validate_piece required (tier_alignment (tr_tier r))) (tr_pieces r) ({}, []))
               (\<lambda>_. Inr ()))"

definition logical_piece_identity :: "tier_record \<Rightarrow> tier_piece \<Rightarrow> (nat \<times> hash32) option" where
  "logical_piece_identity r piece =
     map_option (\<lambda>c. (tp_byte_length c, tp_sha256 c)) (find (\<lambda>c. tp_piece c = piece) (tr_pieces r))"

definition relation_to :: "tier_record \<Rightarrow> tier_record \<Rightarrow> (tier_error, tier_record_relation) result" where
  "relation_to r candidate =
     rbind (validate_record r) (\<lambda>_. rbind (validate_record candidate) (\<lambda>_.
       if tr_namespace r \<noteq> tr_namespace candidate \<or> tr_page_key r \<noteq> tr_page_key candidate
          \<or> list_ex (\<lambda>piece. logical_piece_identity r piece \<noteq> logical_piece_identity candidate piece)
              [TargetKv, TargetIndexer]
       then Inl (Err Collision)
       else if \<not> tr_mtp candidate
         then Inr (if tr_mtp r then RetainMtp else ExactDedup)
       else if \<not> tr_mtp r then Inr MtpUpgrade
       else if logical_piece_identity r DraftSidecar = logical_piece_identity candidate DraftSidecar
         then Inr ExactDedup
       else Inl (Err Collision)))"

section \<open>Draft sidecar payload\<close>

definition slice :: "'a list \<Rightarrow> nat \<Rightarrow> nat \<Rightarrow> 'a list" where
  "slice xs start len = take len (drop start xs)"

fun chunks_exact :: "nat \<Rightarrow> 'a list \<Rightarrow> 'a list list" where
  "chunks_exact k xs =
     (if k = 0 \<or> length xs < k then [] else take k xs # chunks_exact k (drop k xs))"

declare chunks_exact.simps [simp del]

definition encode_draft_sidecar_payload ::
    "8 word list \<Rightarrow> 8 word list \<Rightarrow> (tier_error, 8 word list) result" where
  "encode_draft_sidecar_payload draft_kv draft_indexer =
     (if length draft_kv \<noteq> DRAFT_KV_PAGE_BYTES \<or> length draft_indexer \<noteq> DRAFT_INDEXER_PAGE_BYTES
      then Inl (Err Pieces)
      else Inr (concat (map (\<lambda>token.
        slice draft_kv (token * KV_RECORD_BYTES) KV_RECORD_BYTES
        @ slice draft_indexer (token * INDEXER_RECORD_BYTES) INDEXER_RECORD_BYTES)
        [0..<PAGE_TOKENS])))"

definition decode_draft_sidecar_payload ::
    "8 word list \<Rightarrow> (tier_error, 8 word list \<times> 8 word list) result" where
  "decode_draft_sidecar_payload payload =
     (if length payload \<noteq> DRAFT_SIDECAR_PAGE_BYTES then Inl (Err Pieces)
      else let records = chunks_exact DRAFT_COMMITTED_RECORD_BYTES payload in
        Inr (concat (map (take KV_RECORD_BYTES) records),
             concat (map (drop KV_RECORD_BYTES) records)))"

section \<open>The journal\<close>

datatype journal_event =
    Begin nat tier_record
  | PieceDurable nat tier_piece hash32
  | Publish nat

record tier_journal =
  tj_events :: "journal_event list"
  tj_next_transaction :: nat

definition new_journal :: tier_journal where
  "new_journal = \<lparr>tj_events = [], tj_next_transaction = 1\<rparr>"

fun event_transaction :: "journal_event \<Rightarrow> nat" where
  "event_transaction (Begin t _) = t"
| "event_transaction (PieceDurable t _ _) = t"
| "event_transaction (Publish t) = t"

fun find_begin :: "nat \<Rightarrow> journal_event list \<Rightarrow> tier_record option" where
  "find_begin t [] = None"
| "find_begin t (Begin u r # es) = (if u = t then Some r else find_begin t es)"
| "find_begin t (_ # es) = find_begin t es"

definition open_record :: "tier_journal \<Rightarrow> nat \<Rightarrow> (tier_error, tier_record) result" where
  "open_record j t =
     (if Publish t \<in> set (tj_events j) then Inl (Err AlreadyPublished)
      else ok_or (find_begin t (tj_events j)) Journal)"

definition begin_inner :: "tier_record \<Rightarrow> tier_journal \<Rightarrow> (tier_error, tier_journal \<times> nat) result" where
  "begin_inner r j =
     rbind (validate_record r) (\<lambda>_.
     rbind (ok_or (checked_add 64 (tj_next_transaction j) 1) Overflow) (\<lambda>next.
       Inr (j\<lparr>tj_events := tj_events j @ [Begin (tj_next_transaction j) r],
              tj_next_transaction := next\<rparr>, tj_next_transaction j)))"

definition begin_transaction :: "tier_record \<Rightarrow> tier_journal \<Rightarrow> (tier_error, nat) result \<times> tier_journal" where
  "begin_transaction r = transact (begin_inner r)"

definition piece_inner ::
    "nat \<Rightarrow> tier_piece \<Rightarrow> hash32 \<Rightarrow> tier_journal \<Rightarrow> (tier_error, tier_journal \<times> unit) result" where
  "piece_inner t piece observed j =
     rbind (open_record j t) (\<lambda>r.
     rbind (ok_or (find (\<lambda>e. tp_piece e = piece) (tr_pieces r)) Pieces) (\<lambda>expected.
       if observed \<noteq> tp_sha256 expected then Inl (Err Checksum)
       else if list_ex (\<lambda>e. case e of PieceDurable u p _ \<Rightarrow> u = t \<and> p = piece | _ \<Rightarrow> False) (tj_events j)
         then Inl (Err Journal)
       else Inr (j\<lparr>tj_events := tj_events j @ [PieceDurable t piece observed]\<rparr>, ())))"

definition piece_durable ::
    "nat \<Rightarrow> tier_piece \<Rightarrow> hash32 \<Rightarrow> tier_journal \<Rightarrow> (tier_error, unit) result \<times> tier_journal" where
  "piece_durable t piece observed = transact (piece_inner t piece observed)"

fun durable_pieces :: "nat \<Rightarrow> journal_event list \<Rightarrow> tier_piece set" where
  "durable_pieces t [] = {}"
| "durable_pieces t (PieceDurable u p _ # es) =
     (if u = t then insert p (durable_pieces t es) else durable_pieces t es)"
| "durable_pieces t (_ # es) = durable_pieces t es"

definition publish_inner :: "nat \<Rightarrow> tier_journal \<Rightarrow> (tier_error, tier_journal \<times> unit) result" where
  "publish_inner t j =
     rbind (open_record j t) (\<lambda>r.
       if list_ex (\<lambda>p. tp_piece p \<notin> durable_pieces t (tj_events j)) (tr_pieces r)
       then Inl (Err NotDurable)
       else Inr (j\<lparr>tj_events := tj_events j @ [Publish t]\<rparr>, ()))"

definition publish :: "nat \<Rightarrow> tier_journal \<Rightarrow> (tier_error, unit) result \<times> tier_journal" where
  "publish t = transact (publish_inner t)"

subsection \<open>Recovery\<close>

text \<open>The replay state of one transaction: its record, its durable pieces, whether it is published.\<close>

type_synonym recovery_state = "tier_record \<times> (tier_piece, hash32) fmap \<times> bool"

fun replay_event :: "journal_event \<Rightarrow> (nat, recovery_state) fmap \<Rightarrow>
    (tier_error, (nat, recovery_state) fmap) result" where
  "replay_event (Begin t r) txs =
     rbind (validate_record r) (\<lambda>_.
       if fmlookup txs t \<noteq> None then Inl (Err Journal)
       else Inr (fmupd t (r, fmempty, False) txs))"
| "replay_event (PieceDurable t piece h) txs =
     rbind (ok_or (fmlookup txs t) Journal) (\<lambda>(r, durable, published).
       if published then Inl (Err Journal)
       else rbind (ok_or (find (\<lambda>e. tp_piece e = piece) (tr_pieces r)) Pieces) (\<lambda>expected.
         if tp_sha256 expected \<noteq> h \<or> fmlookup durable piece \<noteq> None then Inl (Err Checksum)
         else Inr (fmupd t (r, fmupd piece h durable, published) txs)))"
| "replay_event (Publish t) txs =
     rbind (ok_or (fmlookup txs t) Journal) (\<lambda>(r, durable, published).
       if published \<or> list_ex (\<lambda>p. fmlookup durable (tp_piece p) = None) (tr_pieces r)
       then Inl (Err NotDurable)
       else Inr (fmupd t (r, durable, True) txs))"

definition replay :: "journal_event list \<Rightarrow> (tier_error, (nat, recovery_state) fmap) result" where
  "replay es = rfold replay_event es fmempty"

fun recover_transaction :: "nat \<times> recovery_state \<Rightarrow> (hash32, tier_record) fmap \<Rightarrow>
    (tier_error, (hash32, tier_record) fmap) result" where
  "recover_transaction (_, r, _, published) recovered =
     (if \<not> published then Inr recovered
      else case fmlookup recovered (tr_page_key r) of
        None \<Rightarrow> Inr (fmupd (tr_page_key r) r recovered)
      | Some existing \<Rightarrow> rbind (relation_to existing r) (\<lambda>rel. case rel of
            ExactDedup \<Rightarrow> Inr recovered
          | RetainMtp \<Rightarrow> Inr recovered
          | MtpUpgrade \<Rightarrow>
              (if tr_generation r \<le> tr_generation existing then Inl (Err Journal)
               else Inr (fmupd (tr_page_key r) r recovered))))"

definition recover_events :: "journal_event list \<Rightarrow> (tier_error, (hash32, tier_record) fmap) result" where
  "recover_events es =
     rbind (replay es) (\<lambda>txs. rfold recover_transaction (entries_of txs) fmempty)"

definition recover :: "tier_journal \<Rightarrow> (tier_error, (hash32, tier_record) fmap) result" where
  "recover j = recover_events (tj_events j)"

definition from_events :: "journal_event list \<Rightarrow> (tier_error, tier_journal) result" where
  "from_events es =
     rbind (ok_or (checked_add 64 (fold max (map event_transaction es) 0) 1) Overflow) (\<lambda>next.
     let j = \<lparr>tj_events = es, tj_next_transaction = next\<rparr> in
     rbind (recover j) (\<lambda>_. Inr j))"

section \<open>Properties of records\<close>

definition piece_end :: "tier_piece_record \<Rightarrow> nat" where
  "piece_end p = tp_storage_offset p + tp_byte_length p"

definition piece_ok :: "tier_piece list \<Rightarrow> nat \<Rightarrow> tier_piece_record \<Rightarrow> bool" where
  "piece_ok required alignment p \<longleftrightarrow>
     tp_piece p \<in> set required \<and> tp_byte_length p = expected_bytes (tp_piece p)
     \<and> alignment dvd tp_storage_offset p \<and> tp_sha256 p \<noteq> zero_hash \<and> piece_end p < 2 ^ 64"

definition apart :: "nat \<Rightarrow> nat \<Rightarrow> nat \<Rightarrow> nat \<Rightarrow> bool" where
  "apart s e s' e' \<longleftrightarrow> e \<le> s' \<or> e' \<le> s"

lemma overlap_iff:
  "list_ex (\<lambda>(start, prior_end). off < prior_end \<and> start < end') ranges \<longleftrightarrow>
     \<not> (\<forall>(s, e)\<in>set ranges. apart off end' s e)"
  by (induction ranges) (auto simp: apart_def)

lemma validate_piece_Inr [result_simps]:
  "validate_piece required alignment p (seen, ranges) = Inr st \<longleftrightarrow>
     piece_ok required alignment p \<and> tp_piece p \<notin> seen
     \<and> (\<forall>(s, e)\<in>set ranges. apart (tp_storage_offset p) (piece_end p) s e)
     \<and> st = (insert (tp_piece p) seen, ranges @ [(tp_storage_offset p, piece_end p)])"
  by (auto simp: validate_piece_def piece_ok_def piece_end_def overlap_iff result_simps
      split: if_splits)

lemma validate_pieces_Inr:
  assumes "rfold (validate_piece required alignment) ps (seen, ranges) = Inr st"
  shows "distinct (map tp_piece ps) \<and> tp_piece ` set ps \<inter> seen = {}
    \<and> (\<forall>p\<in>set ps. piece_ok required alignment p)
    \<and> sorted_wrt (\<lambda>p q. apart (tp_storage_offset q) (piece_end q) (tp_storage_offset p) (piece_end p)) ps
    \<and> (\<forall>p\<in>set ps. \<forall>(s, e)\<in>set ranges. apart (tp_storage_offset p) (piece_end p) s e)"
  using assms
proof (induction ps arbitrary: seen ranges)
  case (Cons p ps)
  from Cons.prems have p: "piece_ok required alignment p" "tp_piece p \<notin> seen"
      "\<forall>(s, e)\<in>set ranges. apart (tp_storage_offset p) (piece_end p) s e"
    and rest: "rfold (validate_piece required alignment) ps
      (insert (tp_piece p) seen, ranges @ [(tp_storage_offset p, piece_end p)]) = Inr st"
    by (auto simp: result_simps)
  from Cons.IH [OF rest] p show ?case by auto
qed simp

lemma validate_record_fold:
  assumes "validate_record r = Inr u"
  obtains st where "rfold (validate_piece (required_pieces (tr_mtp r)) (tier_alignment (tr_tier r)))
      (tr_pieces r) ({}, []) = Inr st"
    and "length (tr_pieces r) = length (required_pieces (tr_mtp r))"
    and "tr_namespace r \<noteq> zero_hash" "tr_page_key r \<noteq> zero_hash" "0 < tr_generation r"
  using assms by (auto simp: validate_record_def Let_def result_simps split: if_splits)

lemma validate_record_distinct: "validate_record r = Inr u \<Longrightarrow> distinct (map tp_piece (tr_pieces r))"
  by (erule validate_record_fold) (auto dest: validate_pieces_Inr)

lemma validate_record_kinds:
  assumes "validate_record r = Inr u"
  shows "tp_piece ` set (tr_pieces r) = set (required_pieces (tr_mtp r))"
proof -
  obtain st where fold: "rfold (validate_piece (required_pieces (tr_mtp r)) (tier_alignment (tr_tier r)))
      (tr_pieces r) ({}, []) = Inr st"
    and len: "length (tr_pieces r) = length (required_pieces (tr_mtp r))"
    using assms by (rule validate_record_fold)
  have sub: "set (map tp_piece (tr_pieces r)) \<subseteq> set (required_pieces (tr_mtp r))"
    using validate_pieces_Inr [OF fold] by (auto simp: piece_ok_def)
  have "card (set (map tp_piece (tr_pieces r))) = length (tr_pieces r)"
    using distinct_card [OF validate_record_distinct [OF assms]] by simp
  also have "\<dots> = card (set (required_pieces (tr_mtp r)))"
    using len by (simp add: required_pieces_def)
  finally show ?thesis using card_subset_eq [OF _ sub] by simp
qed

lemma find_distinct:
  "distinct (map f xs) \<Longrightarrow> x \<in> set xs \<Longrightarrow> find (\<lambda>y. f y = f x) xs = Some x"
  by (induction xs) (auto simp: image_iff)

lemma validate_record_find:
  "validate_record r = Inr u \<Longrightarrow> p \<in> set (tr_pieces r) \<Longrightarrow>
     find (\<lambda>e. tp_piece e = tp_piece p) (tr_pieces r) = Some p"
  by (rule find_distinct [OF validate_record_distinct])

text \<open>
  A record that passes validation describes a page completely and without overlap:
  its pieces are exactly the ones its capability requires, each once, of the exact
  length, aligned for its tier, ending below \<open>2^64\<close>, and no two of them share a byte.
\<close>

theorem validated_record_layout:
  assumes "validate_record r = Inr u"
  shows "mset (map tp_piece (tr_pieces r)) = mset (required_pieces (tr_mtp r))
    \<and> (\<forall>p\<in>set (tr_pieces r). piece_ok (required_pieces (tr_mtp r)) (tier_alignment (tr_tier r)) p)
    \<and> (\<forall>p\<in>set (tr_pieces r). \<forall>q\<in>set (tr_pieces r). p \<noteq> q \<longrightarrow>
         {tp_storage_offset p..<piece_end p} \<inter> {tp_storage_offset q..<piece_end q} = {})"
proof -
  let ?apart = "\<lambda>p q. apart (tp_storage_offset q) (piece_end q) (tp_storage_offset p) (piece_end p)"
  obtain st where fold: "rfold (validate_piece (required_pieces (tr_mtp r)) (tier_alignment (tr_tier r)))
      (tr_pieces r) ({}, []) = Inr st"
    using assms by (rule validate_record_fold)
  note facts = validate_pieces_Inr [OF fold]
  have kinds: "mset (map tp_piece (tr_pieces r)) = mset (required_pieces (tr_mtp r))"
    using validate_record_kinds [OF assms] validate_record_distinct [OF assms]
    by (intro set_eq_iff_mset_eq_distinct [THEN iffD1]) (simp_all add: required_pieces_def)
  have "{tp_storage_offset p..<piece_end p} \<inter> {tp_storage_offset q..<piece_end q} = {}"
    if "p \<in> set (tr_pieces r)" "q \<in> set (tr_pieces r)" "p \<noteq> q" for p q
  proof -
    from that obtain i j where ij: "i < length (tr_pieces r)" "j < length (tr_pieces r)" "i \<noteq> j"
        "p = tr_pieces r ! i" "q = tr_pieces r ! j"
      by (metis in_set_conv_nth)
    have "?apart p q \<or> ?apart q p"
      using facts ij by (cases i j rule: linorder_cases) (auto simp: sorted_wrt_iff_nth_less)
    then show ?thesis by (auto simp: apart_def)
  qed
  with kinds facts show ?thesis by blast
qed

section \<open>Properties of the sidecar payload\<close>

lemma chunks_exact_concat:
  "\<forall>c\<in>set cs. length c = k \<Longrightarrow> 0 < k \<Longrightarrow> chunks_exact k (concat cs) = cs"
  by (induction cs) (simp_all add: chunks_exact.simps [of k "concat _"] chunks_exact.simps [of k "[]"]
     chunks_exact.simps [of k "_ @ _"])

lemma chunks_exact_props:
  "0 < k \<Longrightarrow> length xs = n * k \<Longrightarrow>
     length (chunks_exact k xs) = n \<and> (\<forall>c\<in>set (chunks_exact k xs). length c = k) \<and> concat (chunks_exact k xs) = xs"
proof (induction n arbitrary: xs)
  case 0
  then show ?case by (simp add: chunks_exact.simps)
next
  case (Suc n)
  then have "length (drop k xs) = n * k" by simp
  with Suc.IH [OF Suc.prems(1) this] Suc.prems show ?case
    by (subst (1 2 3) chunks_exact.simps) auto
qed

lemma concat_slices: "concat (map (\<lambda>t. slice xs (t * a) a) [0..<n]) = take (n * a) xs"
  by (induction n) (simp_all add: slice_def add.commute flip: take_add)

lemma slice_concat:
  "\<forall>c\<in>set cs. length c = a \<Longrightarrow> t < length cs \<Longrightarrow> slice (concat cs) (t * a) a = cs ! t"
proof (induction cs arbitrary: t)
  case (Cons c cs)
  then show ?case by (cases t) (auto simp: slice_def)
qed simp

lemma length_concat_const: "\<forall>c\<in>set cs. length c = a \<Longrightarrow> length (concat cs) = length cs * a"
  by (induction cs) auto

text \<open>
  The draft sidecar round trip: decoding the interleaved payload gives back the
  draft KV page and the draft indexer page it was encoded from.
\<close>

theorem decode_encode_sidecar:
  assumes "encode_draft_sidecar_payload kv ix = Inr payload"
  shows "decode_draft_sidecar_payload payload = Inr (kv, ix)"
proof -
  let ?rec = "\<lambda>t. slice kv (t * 368) 368 @ slice ix (t * 132) 132"
  define recs where "recs = map ?rec [0..<64]"
  from assms have len: "length kv = 64 * 368" "length ix = 64 * 132"
    and payload: "payload = concat recs"
    by (auto simp: encode_draft_sidecar_payload_def recs_def split: if_splits)
  have recs: "\<forall>c\<in>set recs. length c = 500"
    using len by (auto simp: recs_def slice_def)
  have chunks: "chunks_exact 500 payload = recs"
    unfolding payload by (rule chunks_exact_concat [OF recs]) simp
  have "map (take 368) recs = map (\<lambda>t. slice kv (t * 368) 368) [0..<64]"
    using len by (auto simp: recs_def slice_def)
  then have kv: "concat (map (take 368) recs) = kv"
    using len concat_slices [where a = 368 and n = 64 and xs = kv] by (simp only:) simp
  have "map (drop 368) recs = map (\<lambda>t. slice ix (t * 132) 132) [0..<64]"
    using len by (auto simp: recs_def slice_def)
  then have ix: "concat (map (drop 368) recs) = ix"
    using len concat_slices [where a = 132 and n = 64 and xs = ix] by (simp only:) simp
  have "length payload = 64 * 500"
    using length_concat_const [OF recs] by (simp add: payload) (simp add: recs_def)
  then show ?thesis
    by (simp add: decode_draft_sidecar_payload_def Let_def chunks kv ix)
qed

lemma decode_encode_sidecar_witness:
  "decode_draft_sidecar_payload
     (concat (replicate 64 (replicate 368 7 @ replicate 132 9)))
   = Inr (replicate (64 * 368) 7, replicate (64 * 132) 9)"
proof (rule decode_encode_sidecar)
  have kv: "slice (replicate (64 * 368) (7 :: 8 word)) (t * 368) 368 = replicate 368 7" if "t < 64" for t
    using that by (simp add: slice_def min_def)
  have ix: "slice (replicate (64 * 132) (9 :: 8 word)) (t * 132) 132 = replicate 132 9" if "t < 64" for t
    using that by (simp add: slice_def min_def)
  have "map (\<lambda>t. slice (replicate (64 * 368) (7 :: 8 word)) (t * 368) 368
          @ slice (replicate (64 * 132) 9) (t * 132) 132) [0..<64]
      = map (\<lambda>t. replicate 368 7 @ replicate 132 9) [0..<64]"
    using kv ix by (intro map_cong) simp_all
  also have "\<dots> = replicate 64 (replicate 368 7 @ replicate 132 9)"
    by (simp add: map_replicate_const)
  finally show "encode_draft_sidecar_payload (replicate (64 * 368) 7) (replicate (64 * 132) 9)
      = Inr (concat (replicate 64 (replicate 368 7 @ replicate 132 9)))"
    by (simp add: encode_draft_sidecar_payload_def del: mult_numeral_left_semiring_numeral)
qed

section \<open>Properties of the journal\<close>

lemma find_begin_append:
  "find_begin t (es @ es') = (case find_begin t es of None \<Rightarrow> find_begin t es' | Some r \<Rightarrow> Some r)"
  by (induction t es rule: find_begin.induct) auto

lemma find_begin_event: "find_begin t es = Some r \<Longrightarrow> Begin t r \<in> set es"
  by (induction t es rule: find_begin.induct) (auto split: if_splits)

lemma find_begin_None: "find_begin t es = None \<longleftrightarrow> (\<forall>r. Begin t r \<notin> set es)"
  by (induction t es rule: find_begin.induct) auto

lemma durable_pieces_append [simp]:
  "durable_pieces t (es @ es') = durable_pieces t es \<union> durable_pieces t es'"
  by (induction t es rule: durable_pieces.induct) auto

lemma durable_pieces_iff: "p \<in> durable_pieces t es \<longleftrightarrow> (\<exists>h. PieceDurable t p h \<in> set es)"
  by (induction t es rule: durable_pieces.induct) auto

text \<open>
  What a transaction's replay state says about the events: the record of its \<open>Begin\<close>,
  the hashes of its durable pieces, and whether it is published.
\<close>

definition tx_reflects :: "journal_event list \<Rightarrow> nat \<Rightarrow> recovery_state option \<Rightarrow> bool" where
  "tx_reflects es t st = (case st of
      None \<Rightarrow> (\<forall>e\<in>set es. event_transaction e \<noteq> t)
    | Some (r, durable, published) \<Rightarrow>
        find_begin t es = Some r \<and> is_ok (validate_record r)
        \<and> (published \<longleftrightarrow> Publish t \<in> set es)
        \<and> (\<forall>p h. fmlookup durable p = Some h \<longleftrightarrow> PieceDurable t p h \<in> set es)
        \<and> (\<forall>p h. fmlookup durable p = Some h \<longrightarrow>
              map_option tp_sha256 (find (\<lambda>e. tp_piece e = p) (tr_pieces r)) = Some h))"

lemma replay_snoc [simp]: "replay (es @ [e]) = rbind (replay es) (replay_event e)"
  by (simp add: replay_def rbind_def split: sum.splits)

lemma replay_event_frame:
  "replay_event e txs = Inr txs' \<Longrightarrow> event_transaction e \<noteq> t \<Longrightarrow> fmlookup txs' t = fmlookup txs t"
  by (cases e) (auto simp: result_simps split: prod.splits if_splits)

lemma tx_reflects_frame:
  assumes "event_transaction e \<noteq> t" and "tx_reflects es t st"
  shows "tx_reflects (es @ [e]) t st"
proof -
  have "find_begin t [e] = None" using assms(1) by (cases e) auto
  then have "find_begin t (es @ [e]) = find_begin t es"
    by (simp add: find_begin_append split: option.splits)
  with assms show ?thesis
    by (auto simp: tx_reflects_def split: option.splits prod.splits)
qed

lemma replay_event_reflects:
  assumes "replay_event e txs = Inr txs'" and "t = event_transaction e"
    and "tx_reflects es t (fmlookup txs t)"
  shows "tx_reflects (es @ [e]) t (fmlookup txs' t)"
proof (cases e)
  case (Begin u r)
  with assms show ?thesis
    by (auto simp: result_simps tx_reflects_def find_begin_append find_begin_None
        split: option.splits if_splits dest!: find_begin_event)
next
  case (PieceDurable u p h)
  with assms show ?thesis
    by (auto simp: result_simps tx_reflects_def find_begin_append
        split: option.splits prod.splits if_splits)
next
  case (Publish u)
  with assms show ?thesis
    by (auto simp: result_simps tx_reflects_def find_begin_append
        split: option.splits prod.splits if_splits)
qed

lemma replay_reflects: "replay es = Inr txs \<Longrightarrow> tx_reflects es t (fmlookup txs t)"
proof (induction es arbitrary: txs t rule: rev_induct)
  case Nil
  then show ?case by (auto simp: replay_def tx_reflects_def)
next
  case (snoc e es)
  from snoc.prems obtain txs0 where "replay es = Inr txs0" "replay_event e txs0 = Inr txs"
    by (auto simp: result_simps)
  with snoc.IH [of txs0 t] show ?case
    by (cases "event_transaction e = t")
       (auto intro: replay_event_reflects tx_reflects_frame simp: replay_event_frame)
qed

lemma begin_unique:
  "replay es = Inr txs \<Longrightarrow> Begin t r \<in> set es \<Longrightarrow> Begin t r' \<in> set es \<Longrightarrow> r = r'"
proof (induction es arbitrary: txs rule: rev_induct)
  case (snoc e es)
  from snoc.prems(1) obtain txs0 where pre: "replay es = Inr txs0" and e: "is_ok (replay_event e txs0)"
    by (auto simp: result_simps)
  have fresh: "Begin t r1 \<notin> set es" if "e = Begin t r2" for r1 r2
    using e that replay_reflects [OF pre, of t]
    by (auto simp: result_simps tx_reflects_def split: option.splits)
  show ?case
    using snoc.prems(2,3) fresh snoc.IH [OF pre] by auto
qed simp

subsection \<open>Every journal the interface writes replays\<close>

definition journal_ok :: "tier_journal \<Rightarrow> bool" where
  "journal_ok j \<longleftrightarrow> is_ok (replay (tj_events j))
     \<and> (\<forall>e\<in>set (tj_events j). event_transaction e < tj_next_transaction j)"

lemma open_record_state:
  assumes "open_record j t = Inr r" and "replay (tj_events j) = Inr txs"
  shows "\<exists>durable. fmlookup txs t = Some (r, durable, False)
    \<and> (\<forall>p h. fmlookup durable p = Some h \<longleftrightarrow> PieceDurable t p h \<in> set (tj_events j))"
proof -
  from assms(1) have np: "Publish t \<notin> set (tj_events j)" and b: "find_begin t (tj_events j) = Some r"
    by (auto simp: open_record_def result_simps split: if_splits)
  from b have "Begin t r \<in> set (tj_events j)" by (rule find_begin_event)
  with replay_reflects [OF assms(2), of t] np b show ?thesis
    by (cases "fmlookup txs t") (force simp: tx_reflects_def)+
qed

lemma begin_inner_ok:
  assumes ok: "journal_ok j" and run: "begin_inner r j = Inr (j', t)"
  shows "journal_ok j'"
proof -
  from ok obtain txs where txs: "replay (tj_events j) = Inr txs"
    by (auto simp: journal_ok_def result_simps)
  from ok have "\<forall>e\<in>set (tj_events j). event_transaction e \<noteq> tj_next_transaction j"
    by (auto simp: journal_ok_def)
  then have "fmlookup txs (tj_next_transaction j) = None"
    using replay_reflects [OF txs, of "tj_next_transaction j"]
    by (fastforce simp: tx_reflects_def dest!: find_begin_event split: option.splits)
  with ok run txs show ?thesis
    by (auto simp: begin_inner_def journal_ok_def result_simps less_Suc_eq)
qed

lemma piece_inner_ok:
  assumes ok: "journal_ok j" and run: "piece_inner t piece h j = Inr (j', u)"
  shows "journal_ok j'"
proof -
  from ok obtain txs where txs: "replay (tj_events j) = Inr txs"
    by (auto simp: journal_ok_def result_simps)
  from run obtain r where opened: "open_record j t = Inr r"
    and j': "j' = j\<lparr>tj_events := tj_events j @ [PieceDurable t piece h]\<rparr>"
    and find: "map_option tp_sha256 (find (\<lambda>e. tp_piece e = piece) (tr_pieces r)) = Some h"
    and new: "\<And>h'. PieceDurable t piece h' \<notin> set (tj_events j)"
    by (force simp: piece_inner_def result_simps list_ex_iff split: if_splits)
  obtain durable where st: "fmlookup txs t = Some (r, durable, False)"
    and dur: "\<And>p h. fmlookup durable p = Some h \<longleftrightarrow> PieceDurable t p h \<in> set (tj_events j)"
    using open_record_state [OF opened txs] by blast
  have "fmlookup durable piece = None" using dur new by (cases "fmlookup durable piece") auto
  then have "is_ok (replay (tj_events j'))"
    using txs st find by (auto simp: j' result_simps)
  moreover have "t < tj_next_transaction j"
    using opened ok by (fastforce simp: open_record_def result_simps journal_ok_def
        dest: find_begin_event split: if_splits)
  ultimately show ?thesis using ok by (auto simp: journal_ok_def j')
qed

lemma publish_inner_ok:
  assumes ok: "journal_ok j" and run: "publish_inner t j = Inr (j', u)"
  shows "journal_ok j'"
proof -
  from ok obtain txs where txs: "replay (tj_events j) = Inr txs"
    by (auto simp: journal_ok_def result_simps)
  from run obtain r where opened: "open_record j t = Inr r"
    and j': "j' = j\<lparr>tj_events := tj_events j @ [Publish t]\<rparr>"
    and all: "\<forall>p\<in>set (tr_pieces r). tp_piece p \<in> durable_pieces t (tj_events j)"
    by (auto simp: publish_inner_def result_simps list_ex_iff split: if_splits)
  obtain durable where st: "fmlookup txs t = Some (r, durable, False)"
    and dur: "\<And>p h. fmlookup durable p = Some h \<longleftrightarrow> PieceDurable t p h \<in> set (tj_events j)"
    using open_record_state [OF opened txs] by blast
  have "\<not> list_ex (\<lambda>p. fmlookup durable (tp_piece p) = None) (tr_pieces r)"
    using all dur by (force simp: list_ex_iff durable_pieces_iff)
  then have "is_ok (replay (tj_events j'))"
    using txs st by (auto simp: j' result_simps)
  moreover have "t < tj_next_transaction j"
    using opened ok by (fastforce simp: open_record_def result_simps journal_ok_def
        dest: find_begin_event split: if_splits)
  ultimately show ?thesis using ok by (auto simp: journal_ok_def j')
qed

lemma validate_record_no_panic [simp]: "validate_record r \<noteq> Inl Panic"
proof -
  have "rfold (validate_piece req al) ps st \<noteq> Inl Panic" for req al ps st
    by (rule rfold_no_panic [where P = "\<lambda>_. True"])
       (auto simp: validate_piece_def Let_def result_simps split: prod.splits if_splits)
  then show ?thesis by (simp add: validate_record_def Let_def result_simps)
qed

lemma open_record_no_panic [simp]: "open_record j t \<noteq> Inl Panic"
  by (simp add: open_record_def result_simps)

interpretation begin_tx: transactional journal_ok "begin_inner r" for r
  by unfold_locales (erule (1) begin_inner_ok, simp add: begin_inner_def result_simps)

interpretation piece_tx: transactional journal_ok "piece_inner t p h" for t p h
  by unfold_locales (erule (1) piece_inner_ok, auto simp: piece_inner_def result_simps)

interpretation publish_tx: transactional journal_ok "publish_inner t" for t
  by unfold_locales (erule (1) publish_inner_ok, auto simp: publish_inner_def result_simps)

datatype journal_command =
    CmdBegin tier_record
  | CmdPieceDurable nat tier_piece hash32
  | CmdPublish nat

fun journal_exec :: "journal_command \<Rightarrow> tier_journal \<Rightarrow> tier_journal" where
  "journal_exec (CmdBegin r) j = snd (begin_transaction r j)"
| "journal_exec (CmdPieceDurable t p h) j = snd (piece_durable t p h j)"
| "journal_exec (CmdPublish t) j = snd (publish t j)"

interpretation journal: machine journal_ok journal_exec
proof
  fix j c assume "journal_ok j"
  then show "journal_ok (journal_exec c j)"
    by (cases c)
       (simp_all add: begin_transaction_def piece_durable_def publish_def
         begin_tx.keeps piece_tx.keeps publish_tx.keeps)
qed

lemma replay_take: "is_ok (replay es) \<Longrightarrow> is_ok (replay (take k es))"
proof -
  assume "is_ok (replay es)"
  then have "is_ok (replay (take k es @ drop k es))" by simp
  then show ?thesis
    unfolding replay_def rfold_append by (auto simp: result_simps)
qed

text \<open>
  A crash never leaves an unreadable journal: whatever operations are called on a
  new journal, in any order and with any arguments, every prefix of the events it has
  written replays without an error.
\<close>

theorem journal_prefix_replays:
  "\<exists>txs. replay (take k (tj_events (fold journal_exec cs new_journal))) = Inr txs"
proof -
  have "journal_ok new_journal"
    by (simp add: journal_ok_def new_journal_def replay_def)
  then have "journal_ok (fold journal_exec cs new_journal)"
    by (rule journal.run_keeps)
  then show ?thesis
    using replay_take by (auto simp: journal_ok_def result_simps)
qed

subsection \<open>What recovery publishes\<close>

lemma recover_transaction_Inr:
  assumes "recover_transaction (t, r, d, p) m = Inr m'"
  shows "\<not> p \<and> m' = m
    \<or> p \<and> fmlookup m (tr_page_key r) = None \<and> m' = fmupd (tr_page_key r) r m
    \<or> p \<and> (\<exists>existing rel. fmlookup m (tr_page_key r) = Some existing
          \<and> relation_to existing r = Inr rel
          \<and> m' = (if rel = MtpUpgrade then fmupd (tr_page_key r) r m else m))"
proof (cases "p \<and> fmlookup m (tr_page_key r) \<noteq> None")
  case True
  then obtain existing where ex: "fmlookup m (tr_page_key r) = Some existing" by auto
  with True assms obtain rel where rel: "relation_to existing r = Inr rel"
    by (auto simp: result_simps)
  with True assms ex show ?thesis by (cases rel) (auto simp: result_simps split: if_splits)
qed (use assms in \<open>auto split: if_splits\<close>)

lemma recover_fold_sound:
  assumes "rfold recover_transaction xs m = Inr m'" and "fmlookup m' key = Some r"
  shows "fmlookup m key = Some r \<or> tr_page_key r = key \<and> (\<exists>t d. (t, r, d, True) \<in> set xs)"
  using assms
proof (induction xs arbitrary: m)
  case (Cons x xs)
  obtain t r0 d p where x: "x = (t, r0, d, p)" by (cases x)
  from Cons.prems(1) obtain m1 where step: "recover_transaction x m = Inr m1"
    and rest: "rfold recover_transaction xs m1 = Inr m'"
    by (auto simp: result_simps)
  have "m1 = m \<or> p \<and> m1 = fmupd (tr_page_key r0) r0 m"
    using recover_transaction_Inr [OF step [unfolded x]] by (auto split: if_splits)
  with Cons.IH [OF rest Cons.prems(2)] show ?case
    by (auto simp: x split: if_splits) blast
qed simp


text \<open>
  The order recovery publishes in: a later record for the same key replaces an earlier
  one only when it adds a draft sidecar to the same target pieces.
\<close>

definition covers :: "tier_record \<Rightarrow> tier_record \<Rightarrow> bool" where
  "covers r' r \<longleftrightarrow> tr_page_key r' = tr_page_key r
     \<and> logical_piece_identity r' TargetKv = logical_piece_identity r TargetKv
     \<and> logical_piece_identity r' TargetIndexer = logical_piece_identity r TargetIndexer
     \<and> (tr_mtp r \<longrightarrow> tr_mtp r'
          \<and> logical_piece_identity r' DraftSidecar = logical_piece_identity r DraftSidecar)"

lemma covers_refl [simp]: "covers r r"
  by (simp add: covers_def)

lemma covers_trans: "covers r2 r1 \<Longrightarrow> covers r1 r0 \<Longrightarrow> covers r2 r0"
  by (auto simp: covers_def)

lemma relation_to_covers:
  assumes "relation_to r candidate = Inr rel"
  shows "if rel = MtpUpgrade then covers candidate r else covers r candidate"
  using assms by (auto simp: relation_to_def covers_def result_simps split: if_splits)

lemma recover_step_covers:
  assumes "recover_transaction (t, r, d, p) m = Inr m'"
  shows "(fmlookup m key = Some r0 \<longrightarrow> (\<exists>r'. fmlookup m' key = Some r' \<and> covers r' r0))
    \<and> (p \<longrightarrow> (\<exists>r'. fmlookup m' (tr_page_key r) = Some r' \<and> covers r' r))"
  using recover_transaction_Inr [OF assms]
proof (elim disjE conjE exE)
  fix existing rel
  assume p and ex: "fmlookup m (tr_page_key r) = Some existing" and rel: "relation_to existing r = Inr rel"
    and m': "m' = (if rel = MtpUpgrade then fmupd (tr_page_key r) r m else m)"
  show ?thesis
    using relation_to_covers [OF rel] ex by (cases "rel = MtpUpgrade") (auto simp: m')
qed auto

lemma recover_fold_covers:
  assumes "rfold recover_transaction xs m = Inr m'"
  shows "(fmlookup m key = Some r0 \<longrightarrow> (\<exists>r'. fmlookup m' key = Some r' \<and> covers r' r0))
    \<and> (\<forall>t r d. (t, r, d, True) \<in> set xs \<longrightarrow> (\<exists>r'. fmlookup m' (tr_page_key r) = Some r' \<and> covers r' r))"
  using assms
proof (induction xs arbitrary: m key r0)
  case (Cons x xs)
  obtain t r d p where x: "x = (t, r, d, p)" by (cases x)
  from Cons.prems obtain m1 where step: "recover_transaction (t, r, d, p) m = Inr m1"
    and rest: "rfold recover_transaction xs m1 = Inr m'"
    by (auto simp: x result_simps simp del: recover_transaction.simps)
  note now = recover_step_covers [OF step]
  note later = Cons.IH [OF rest]
  have "\<exists>r'. fmlookup m' key = Some r' \<and> covers r' r0" if "fmlookup m key = Some r0"
    using now [of key r0] later that by (meson covers_trans)
  moreover have "\<exists>r'. fmlookup m' (tr_page_key r) = Some r' \<and> covers r' r" if p
    using now later that by (meson covers_trans)
  ultimately show ?case using later [of key r0] by (auto simp: x)
qed auto

text \<open>
  Recovery loses nothing that was published: for every transaction with a
  \<open>Begin\<close> and a \<open>Publish\<close> in the journal, the recovered map holds a record for its page
  key with the same target pieces, and with the same draft sidecar if the transaction
  had one.
\<close>

theorem recover_complete:
  assumes "recover_events es = Inr m" and "Begin t r \<in> set es" and "Publish t \<in> set es"
  shows "\<exists>r'. fmlookup m (tr_page_key r) = Some r' \<and> covers r' r"
proof -
  from assms(1) obtain txs where txs: "replay es = Inr txs"
    and fold: "rfold recover_transaction (entries_of txs) fmempty = Inr m"
    by (auto simp: recover_events_def result_simps)
  from replay_reflects [OF txs, of t] assms(3) obtain r1 d where st: "fmlookup txs t = Some (r1, d, True)"
    by (auto simp: tx_reflects_def split: option.splits)
  have "r1 = r"
    using begin_unique [OF txs] assms(2) st replay_reflects [OF txs, of t]
    by (auto simp: tx_reflects_def dest: find_begin_event)
  with st recover_fold_covers [OF fold] show ?thesis by auto
qed

section \<open>Concrete records\<close>

definition sample_hash :: "8 word \<Rightarrow> hash32" where
  "sample_hash b = replicate 32 b"

definition sample_record :: tier_record where
  "sample_record = \<lparr>tr_namespace = sample_hash 1, tr_page_key = sample_hash 2, tr_generation = 1,
     tr_tier = Dram, tr_mtp = False,
     tr_pieces = [\<lparr>tp_piece = TargetKv, tp_byte_length = 1837056, tp_storage_offset = 0,
                   tp_sha256 = sample_hash 3\<rparr>,
                  \<lparr>tp_piece = TargetIndexer, tp_byte_length = 177408, tp_storage_offset = 1837056,
                   tp_sha256 = sample_hash 4\<rparr>]\<rparr>"

definition sample_events :: "journal_event list" where
  "sample_events = [Begin 1 sample_record, PieceDurable 1 TargetKv (sample_hash 3),
     PieceDurable 1 TargetIndexer (sample_hash 4), Publish 1]"

lemma sample_hash_nonzero [simp]: "sample_hash b = zero_hash \<longleftrightarrow> b = 0"
  by (simp add: sample_hash_def zero_hash_def replicate_eq_replicate)

lemma sample_record_valid: "validate_record sample_record = Inr ()"
  by (simp add: validate_record_def sample_record_def required_pieces_def tier_alignment_def
      validate_piece_def checked_add_def)

lemma sample_recovered:
  "recover_events sample_events = Inr (fmupd (sample_hash 2) sample_record fmempty)"
proof -
  have pieces: "tr_pieces sample_record =
      [\<lparr>tp_piece = TargetKv, tp_byte_length = 1837056, tp_storage_offset = 0, tp_sha256 = sample_hash 3\<rparr>,
       \<lparr>tp_piece = TargetIndexer, tp_byte_length = 177408, tp_storage_offset = 1837056, tp_sha256 = sample_hash 4\<rparr>]"
    and key: "tr_page_key sample_record = sample_hash 2"
    by (simp_all add: sample_record_def)
  have "replay sample_events = Inr (fmupd 1 (sample_record,
      fmupd TargetIndexer (sample_hash 4) (fmupd TargetKv (sample_hash 3) fmempty), True) fmempty)"
    by (simp add: replay_def sample_events_def sample_record_valid pieces)
  then show ?thesis
    by (simp add: recover_events_def entries_of_def keys_of_def sorted_list_of_fset.rep_eq key)
qed

lemma validated_record_layout_witness:
  "validate_record sample_record = Inr ()
   \<and> mset (map tp_piece (tr_pieces sample_record)) = mset (required_pieces (tr_mtp sample_record))"
  using validated_record_layout [OF sample_record_valid] sample_record_valid by simp


lemma recover_complete_witness:
  "\<exists>r'. fmlookup (fmupd (sample_hash 2) sample_record fmempty) (tr_page_key sample_record) = Some r'
     \<and> covers r' sample_record"
  by (rule recover_complete [OF sample_recovered, of 1]) (simp_all add: sample_events_def)

end
