(* ===== verification/Page_Table.thy ===== *)
theory Page_Table
  imports Page Tier
begin

text \<open>
  \<open>crates/glm-cache/src/sequence.rs\<close>: the active page table. Sequences own lists of
  physical pages spread over four ranks; sealed pages are shared between sequences by
  reference count; speculative tokens are reserved, committed or rolled back; and the
  ids of released pages stay in quarantine until the ranks have acknowledged the
  generation that retired them.

  The four-element arrays of free and quarantined ids are functions from a rank to a set;
  indexing one with a rank of 4 or more is a panic. An operation that clones the table
  and restores the clone on an error is \<open>transact\<close> of its inner computation. The
  conversions between \<open>usize\<close> and \<open>u64\<close> cannot fail on the 64-bit targets the engine
  runs on and are not written.
\<close>

section \<open>Data\<close>

definition MAXIMUM_CONTEXT_TOKENS :: nat where [simp]: "MAXIMUM_CONTEXT_TOKENS = 1048576"
definition MAXIMUM_PHYSICAL_PAGES_PER_RANK :: nat where
  [simp]: "MAXIMUM_PHYSICAL_PAGES_PER_RANK = 1048576"

record physical_page_id =
  pid_owner_rank :: nat
  pid_target_local_page_id :: nat

record prefix_page_attachment =
  at_namespace :: hash32
  at_key :: hash32
  at_generation :: nat
  at_target_kv_sha256 :: hash32
  at_target_indexer_sha256 :: hash32
  at_draft_sidecar_sha256 :: "hash32 option"

datatype sequence_page_error =
    Config | Sequence | Prefix | MissingDraft | Capacity | State | Transaction | Invariant
  | Overflow | Transition page_transition_error | TierFailed tier_error

datatype attachment_relation = Exact | RetainDraft | DraftUpgrade

record page_table_config =
  target_pages_per_rank :: nat
  draft_pages_per_rank :: nat

record physical_page =
  pp_draft_local_page_id :: "nat option"
  pp_state :: page_state
  pp_valid_tokens :: nat
  pp_references :: nat
  pp_prefix :: "(prefix_page_attachment \<times> nat) option"

record sequence_page =
  sp_ordinal :: nat
  sp_physical :: physical_page_id

record tentative_tail =
  original_committed_tokens :: nat
  original_page_count :: nat
  original_tail_tokens :: nat
  reserved_tokens :: nat

record sequence =
  sq_mtp :: bool
  sq_committed_tokens :: nat
  sq_pages :: "sequence_page list"
  sq_tentative :: "tentative_tail option"

record page_table =
  pt_config :: page_table_config
  free_target :: "nat \<Rightarrow> nat set"
  free_draft :: "nat \<Rightarrow> nat set"
  quarantined_target :: "nat \<Rightarrow> nat set"
  quarantined_draft :: "nat \<Rightarrow> nat set"
  quarantine_generation :: "nat option"
  physical :: "(physical_page_id, physical_page) fmap"
  prefixes :: "(hash32, physical_page_id) fmap"
  sequences :: "(nat, sequence) fmap"

section \<open>Prefix attachments\<close>

definition piece_hash :: "tier_record \<Rightarrow> tier_piece \<Rightarrow> (sequence_page_error, hash32) result" where
  "piece_hash r piece =
     ok_or (map_option tp_sha256 (find (\<lambda>c. tp_piece c = piece) (tr_pieces r))) Prefix"

definition from_tier_record :: "tier_record \<Rightarrow> (sequence_page_error, prefix_page_attachment) result" where
  "from_tier_record r =
     rbind (map_err TierFailed (validate_record r)) (\<lambda>_.
     rbind (piece_hash r TargetKv) (\<lambda>kv.
     rbind (piece_hash r TargetIndexer) (\<lambda>indexer.
     rbind (if tr_mtp r then rbind (piece_hash r DraftSidecar) (\<lambda>d. Inr (Some d)) else Inr None) (\<lambda>draft.
       Inr \<lparr>at_namespace = tr_namespace r, at_key = tr_page_key r, at_generation = tr_generation r,
            at_target_kv_sha256 = kv, at_target_indexer_sha256 = indexer,
            at_draft_sidecar_sha256 = draft\<rparr>))))"

definition has_draft :: "prefix_page_attachment \<Rightarrow> bool" where
  "has_draft a \<longleftrightarrow> at_draft_sidecar_sha256 a \<noteq> None"

definition attachment_relation_to :: "prefix_page_attachment \<Rightarrow> prefix_page_attachment \<Rightarrow>
    (sequence_page_error, attachment_relation) result" where
  "attachment_relation_to a c =
     (if at_namespace a \<noteq> at_namespace c \<or> at_key a \<noteq> at_key c
         \<or> at_target_kv_sha256 a \<noteq> at_target_kv_sha256 c
         \<or> at_target_indexer_sha256 a \<noteq> at_target_indexer_sha256 c
      then Inl (Err Prefix)
      else case (at_draft_sidecar_sha256 a, at_draft_sidecar_sha256 c) of
        (None, None) \<Rightarrow> Inr Exact
      | (Some _, None) \<Rightarrow> Inr RetainDraft
      | (None, Some _) \<Rightarrow>
          (if at_generation c > at_generation a then Inr DraftUpgrade else Inl (Err Prefix))
      | (Some current, Some next) \<Rightarrow> (if current = next then Inr Exact else Inl (Err Prefix)))"

section \<open>Construction and quarantine\<close>

definition new_table :: "page_table_config \<Rightarrow> (sequence_page_error, page_table) result" where
  "new_table c =
     (if target_pages_per_rank c = 0
         \<or> target_pages_per_rank c > MAXIMUM_PHYSICAL_PAGES_PER_RANK
         \<or> draft_pages_per_rank c > target_pages_per_rank c
      then Inl (Err Config)
      else Inr \<lparr>pt_config = c,
        free_target = (\<lambda>_. {..<target_pages_per_rank c}),
        free_draft = (\<lambda>_. {..<draft_pages_per_rank c}),
        quarantined_target = (\<lambda>_. {}), quarantined_draft = (\<lambda>_. {}),
        quarantine_generation = None,
        physical = fmempty, prefixes = fmempty, sequences = fmempty\<rparr>)"

record quarantine_stats =
  qs_target_pages :: "nat list"
  qs_draft_pages :: "nat list"
  qs_bound_generation :: "nat option"

definition reuse_quarantine_stats :: "page_table \<Rightarrow> (sequence_page_error, quarantine_stats) result" where
  "reuse_quarantine_stats t =
     rbind (rmap (\<lambda>rank. expect (try_uint 32 (card (quarantined_target t rank)))) [0..<4]) (\<lambda>targets.
     rbind (rmap (\<lambda>rank. expect (try_uint 32 (card (quarantined_draft t rank)))) [0..<4]) (\<lambda>drafts.
       Inr \<lparr>qs_target_pages = targets, qs_draft_pages = drafts,
            qs_bound_generation = quarantine_generation t\<rparr>))"

definition quarantine_stats_empty :: "quarantine_stats \<Rightarrow> bool" where
  "quarantine_stats_empty s \<longleftrightarrow>
     qs_target_pages s = [0, 0, 0, 0] \<and> qs_draft_pages s = [0, 0, 0, 0]"

definition bind_quarantine_inner :: "nat \<Rightarrow> page_table \<Rightarrow> (sequence_page_error, page_table \<times> bool) result" where
  "bind_quarantine_inner generation t =
     (if generation = 0 \<or> quarantine_generation t \<noteq> None then Inl (Err Transaction)
      else
        rbind (reuse_quarantine_stats t) (\<lambda>retired.
        if quarantine_stats_empty retired then Inr (t, False)
        else Inr (t\<lparr>quarantine_generation := Some generation\<rparr>, True)))"

definition bind_reuse_quarantine ::
    "nat \<Rightarrow> page_table \<Rightarrow> (sequence_page_error, bool) result \<times> page_table" where
  "bind_reuse_quarantine generation = transact (bind_quarantine_inner generation)"

definition acknowledge_quarantine_inner ::
    "nat \<Rightarrow> page_table \<Rightarrow> (sequence_page_error, page_table \<times> quarantine_stats) result" where
  "acknowledge_quarantine_inner generation t =
     (if quarantine_generation t \<noteq> Some generation then Inl (Err Transaction)
      else
        rbind (reuse_quarantine_stats t) (\<lambda>retired.
        Inr (t\<lparr>free_target := (\<lambda>r. if r < 4 then free_target t r \<union> quarantined_target t r else free_target t r),
               free_draft := (\<lambda>r. if r < 4 then free_draft t r \<union> quarantined_draft t r else free_draft t r),
               quarantined_target := (\<lambda>r. if r < 4 then {} else quarantined_target t r),
               quarantined_draft := (\<lambda>r. if r < 4 then {} else quarantined_draft t r),
               quarantine_generation := None\<rparr>, retired)))"

definition acknowledge_reuse_quarantine ::
    "nat \<Rightarrow> page_table \<Rightarrow> (sequence_page_error, quarantine_stats) result \<times> page_table" where
  "acknowledge_reuse_quarantine generation = transact (acknowledge_quarantine_inner generation)"

definition require_unbound_quarantine :: "page_table \<Rightarrow> (sequence_page_error, unit) result" where
  "require_unbound_quarantine t = ensure (quarantine_generation t = None) Transaction"

section \<open>Pages\<close>

definition allocate_page ::
    "nat \<Rightarrow> bool \<Rightarrow> page_table \<Rightarrow> (sequence_page_error, page_table \<times> physical_page_id) result" where
  "allocate_page ordinal mtp t =
     (let rank = owner_rank ordinal in
      rbind (ok_or (pop_first (free_target t rank)) Capacity) (\<lambda>(target, targets).
      rbind (if mtp
             then rbind (ok_or (pop_first (free_draft t rank)) Capacity)
                    (\<lambda>(d, drafts). Inr (Some d, (free_draft t)(rank := drafts)))
             else Inr (None, free_draft t)) (\<lambda>(draft, drafts).
      rbind (map_err Transition (transition Free HbmMutable)) (\<lambda>st.
      let pid = \<lparr>pid_owner_rank = rank, pid_target_local_page_id = target\<rparr> in
      if fmlookup (physical t) pid \<noteq> None then Inl (Err Invariant)
      else Inr (t\<lparr>free_target := (free_target t)(rank := targets), free_draft := drafts,
                  physical := fmupd pid \<lparr>pp_draft_local_page_id = draft, pp_state = st,
                    pp_valid_tokens = 0, pp_references = 1, pp_prefix = None\<rparr> (physical t)\<rparr>, pid)))))"

text \<open>The last reference to a page is gone: unpublish its prefix and retire its ids.\<close>

definition retire_page ::
    "physical_page_id \<Rightarrow> physical_page \<Rightarrow> page_table \<Rightarrow> (sequence_page_error, page_table) result" where
  "retire_page pid page t =
     (let rank = pid_owner_rank pid; target = pid_target_local_page_id pid in
      rbind (case pp_prefix page of
               None \<Rightarrow> Inr (prefixes t)
             | Some (a, _) \<Rightarrow>
                 (if fmlookup (prefixes t) (at_key a) \<noteq> Some pid then Inl (Err Invariant)
                  else Inr (fmdrop (at_key a) (prefixes t)))) (\<lambda>ps.
      if 4 \<le> rank then Inl Panic
      else if target \<in> free_target t rank \<or> target \<in> quarantined_target t rank then Inl (Err Invariant)
      else
        let t' = t\<lparr>physical := fmdrop pid (physical t), prefixes := ps,
                   quarantined_target := (quarantined_target t)(rank := insert target (quarantined_target t rank))\<rparr>
        in case pp_draft_local_page_id page of
             None \<Rightarrow> Inr t'
           | Some d \<Rightarrow>
               (if d \<in> free_draft t rank \<or> d \<in> quarantined_draft t rank then Inl (Err Invariant)
                else Inr (t'\<lparr>quarantined_draft :=
                  (quarantined_draft t)(rank := insert d (quarantined_draft t rank))\<rparr>))))"

definition release_page ::
    "physical_page_id \<Rightarrow> page_table \<Rightarrow> (sequence_page_error, page_table) result" where
  "release_page pid t =
     rbind (ok_or (fmlookup (physical t) pid) Invariant) (\<lambda>page.
     rbind (ok_or (checked_sub (pp_references page) 1) Invariant) (\<lambda>references.
       if references \<noteq> 0
       then Inr (t\<lparr>physical := fmupd pid (page\<lparr>pp_references := references\<rparr>) (physical t)\<rparr>)
       else retire_page pid (page\<lparr>pp_references := references\<rparr>) t))"

section \<open>Admission\<close>

definition maximum_pages :: nat where
  "maximum_pages = MAXIMUM_CONTEXT_TOKENS div PAGE_TOKENS"

text \<open>Another reference to a page that is already resident under the attachment's key.\<close>

definition attach_shared :: "bool \<Rightarrow> nat \<Rightarrow> prefix_page_attachment \<Rightarrow> physical_page_id \<Rightarrow> page_table \<Rightarrow>
    (sequence_page_error, page_table) result" where
  "attach_shared mtp ordinal a pid t =
     rbind (ok_or (fmlookup (physical t) pid) Prefix) (\<lambda>page.
     rbind (ok_or (pp_prefix page) Prefix) (\<lambda>(current, current_ordinal).
     if \<not> (pp_state page = HbmSealed \<and> pp_valid_tokens page = PAGE_TOKENS
            \<and> pid_owner_rank pid = owner_rank ordinal \<and> current_ordinal = ordinal
            \<and> is_ok (attachment_relation_to current a))
     then Inl (Err Prefix)
     else
       rbind (attachment_relation_to current a) (\<lambda>relation.
       let page1 = (if relation = DraftUpgrade then page\<lparr>pp_prefix := Some (a, ordinal)\<rparr> else page) in
       rbind (if mtp \<and> pp_draft_local_page_id page1 = None
              then rbind (ok_or (pop_first (free_draft t (pid_owner_rank pid))) Capacity)
                     (\<lambda>(d, drafts). Inr (page1\<lparr>pp_draft_local_page_id := Some d\<rparr>,
                        (free_draft t)(pid_owner_rank pid := drafts)))
              else Inr (page1, free_draft t)) (\<lambda>(page2, drafts).
       rbind (ok_or (checked_add 32 (pp_references page2) 1) Overflow) (\<lambda>references.
         Inr (t\<lparr>free_draft := drafts,
                physical := fmupd pid (page2\<lparr>pp_references := references\<rparr>) (physical t)\<rparr>))))))"

text \<open>A page restored into a new slot under the attachment's key.\<close>

definition attach_restored :: "bool \<Rightarrow> nat \<Rightarrow> prefix_page_attachment \<Rightarrow> page_table \<Rightarrow>
    (sequence_page_error, page_table \<times> physical_page_id) result" where
  "attach_restored mtp ordinal a t =
     rbind (allocate_page ordinal mtp t) (\<lambda>(t1, pid).
     rbind (ok_or (fmlookup (physical t1) pid) Invariant) (\<lambda>page.
     rbind (map_err Transition (transition (pp_state page) HbmSealed)) (\<lambda>st.
       Inr (t1\<lparr>physical := fmupd pid (page\<lparr>pp_valid_tokens := PAGE_TOKENS, pp_state := st,
                 pp_prefix := Some (a, ordinal)\<rparr>) (physical t1),
               prefixes := fmupd (at_key a) pid (prefixes t1)\<rparr>, pid))))"

definition admit_page :: "bool \<Rightarrow> nat \<times> prefix_page_attachment \<Rightarrow>
    page_table \<times> sequence_page list \<times> hash32 set \<Rightarrow>
    (sequence_page_error, page_table \<times> sequence_page list \<times> hash32 set) result" where
  "admit_page mtp oa st =
     (let (ordinal, a) = oa; (t, pages, seen) = st in
      if mtp \<and> \<not> has_draft a then Inl (Err MissingDraft)
      else if at_key a \<in> seen then Inl (Err Prefix)
      else rbind (case fmlookup (prefixes t) (at_key a) of
                    Some pid \<Rightarrow> rbind (attach_shared mtp ordinal a pid t) (\<lambda>t'. Inr (t', pid))
                  | None \<Rightarrow> attach_restored mtp ordinal a t) (\<lambda>(t', pid).
        Inr (t', pages @ [\<lparr>sp_ordinal = ordinal, sp_physical = pid\<rparr>], insert (at_key a) seen)))"

definition admit_inner :: "nat \<Rightarrow> bool \<Rightarrow> prefix_page_attachment list \<Rightarrow> page_table \<Rightarrow>
    (sequence_page_error, page_table \<times> unit) result" where
  "admit_inner sequence_id mtp prefix_pages t =
     rbind (require_unbound_quarantine t) (\<lambda>_.
     if sequence_id = 0 \<or> fmlookup (sequences t) sequence_id \<noteq> None \<or> length prefix_pages > maximum_pages
     then Inl (Err Sequence)
     else
       rbind (rfold (admit_page mtp) (enumerate 0 prefix_pages) (t, [], {})) (\<lambda>(t', pages, _).
       rbind (ok_or (checked_mul 64 (length prefix_pages) PAGE_TOKENS) Overflow) (\<lambda>committed.
         Inr (t'\<lparr>sequences := fmupd sequence_id \<lparr>sq_mtp = mtp, sq_committed_tokens = committed,
                    sq_pages = pages, sq_tentative = None\<rparr> (sequences t')\<rparr>, ()))))"

definition admit_with_prefix :: "nat \<Rightarrow> bool \<Rightarrow> prefix_page_attachment list \<Rightarrow> page_table \<Rightarrow>
    (sequence_page_error, unit) result \<times> page_table" where
  "admit_with_prefix sequence_id mtp prefix_pages = transact (admit_inner sequence_id mtp prefix_pages)"

section \<open>Appending committed tokens\<close>

definition set_page :: "physical_page_id \<Rightarrow> physical_page \<Rightarrow> page_table \<Rightarrow> page_table" where
  "set_page pid page t = t\<lparr>physical := fmupd pid page (physical t)\<rparr>"

definition set_sequence :: "nat \<Rightarrow> sequence \<Rightarrow> page_table \<Rightarrow> page_table" where
  "set_sequence sequence_id sq t = t\<lparr>sequences := fmupd sequence_id sq (sequences t)\<rparr>"

text \<open>Fill the partial tail page; the result is the table and the tokens still to place.\<close>

definition fill_tail :: "sequence \<Rightarrow> nat \<Rightarrow> page_table \<Rightarrow> (sequence_page_error, page_table \<times> nat) result" where
  "fill_tail sq remaining t =
     (if sq_pages sq = [] then Inr (t, remaining)
      else let pid = sp_physical (last (sq_pages sq)) in
        rbind (ok_or (fmlookup (physical t) pid) Invariant) (\<lambda>page.
        if pp_state page = HbmMutable \<and> pp_references page = 1 \<and> pp_valid_tokens page < PAGE_TOKENS
        then
          rbind (ok_or (checked_sub PAGE_TOKENS (pp_valid_tokens page)) Invariant) (\<lambda>available.
          let appended = min remaining available in
          rbind (ok_or (try_uint 8 appended) Overflow) (\<lambda>added.
          rbind (ok_or (checked_add 8 (pp_valid_tokens page) added) Overflow) (\<lambda>valid.
          rbind (if valid = PAGE_TOKENS then map_err Transition (transition (pp_state page) HbmSealed)
                 else Inr (pp_state page)) (\<lambda>st.
          rbind (ok_or (checked_sub remaining appended) Invariant) (\<lambda>rest.
            Inr (set_page pid (page\<lparr>pp_valid_tokens := valid, pp_state := st\<rparr>) t, rest))))))
        else if pp_state page \<noteq> HbmSealed \<or> pp_valid_tokens page \<noteq> PAGE_TOKENS
          then Inl (Err State)
        else Inr (t, remaining)))"

function append_pages :: "nat \<Rightarrow> nat \<Rightarrow> page_table \<Rightarrow> (sequence_page_error, page_table) result" where
  "append_pages sequence_id remaining t =
     (if remaining = 0 then Inr t
      else
        rbind (expect (fmlookup (sequences t) sequence_id)) (\<lambda>sq.
        rbind (allocate_page (length (sq_pages sq)) (sq_mtp sq) t) (\<lambda>(t1, pid).
        let appended = min remaining PAGE_TOKENS in
        rbind (ok_or (fmlookup (physical t1) pid) Invariant) (\<lambda>page.
        rbind (ok_or (try_uint 8 appended) Overflow) (\<lambda>valid.
        rbind (if appended = PAGE_TOKENS then map_err Transition (transition (pp_state page) HbmSealed)
               else Inr (pp_state page)) (\<lambda>st.
        let t2 = set_page pid (page\<lparr>pp_valid_tokens := valid, pp_state := st\<rparr>) t1 in
        rbind (ok_or (fmlookup (sequences t2) sequence_id) Sequence) (\<lambda>sq2.
        append_pages sequence_id (remaining - appended)
          (set_sequence sequence_id
             (sq2\<lparr>sq_pages := sq_pages sq2 @ [\<lparr>sp_ordinal = length (sq_pages sq), sp_physical = pid\<rparr>]\<rparr>) t2))))))))"
  by pat_completeness auto
termination
  by (relation "measure (\<lambda>(_, remaining, _). remaining)") auto

declare append_pages.simps [simp del]

definition append_tokens :: "nat \<Rightarrow> nat \<Rightarrow> page_table \<Rightarrow> (sequence_page_error, page_table) result" where
  "append_tokens sequence_id token_count t =
     rbind (ok_or (fmlookup (sequences t) sequence_id) Sequence) (\<lambda>sq.
     rbind (ok_or (checked_add 64 (sq_committed_tokens sq) token_count) Transaction) (\<lambda>new_committed.
     if new_committed > MAXIMUM_CONTEXT_TOKENS then Inl (Err Transaction)
     else if sq_tentative sq \<noteq> None then Inl (Err Transaction)
     else
       rbind (fill_tail sq token_count t) (\<lambda>(t1, remaining).
       rbind (append_pages sequence_id remaining t1) (\<lambda>t2.
       rbind (ok_or (fmlookup (sequences t2) sequence_id) Sequence) (\<lambda>sq2.
         Inr (set_sequence sequence_id (sq2\<lparr>sq_committed_tokens := new_committed\<rparr>) t2))))))"

definition append_inner :: "nat \<Rightarrow> nat \<Rightarrow> page_table \<Rightarrow> (sequence_page_error, page_table \<times> unit) result" where
  "append_inner sequence_id token_count t =
     rbind (require_unbound_quarantine t) (\<lambda>_.
     if token_count = 0 then Inr (t, ())
     else rbind (append_tokens sequence_id token_count t) (\<lambda>t'. Inr (t', ())))"

definition append_committed :: "nat \<Rightarrow> nat \<Rightarrow> page_table \<Rightarrow>
    (sequence_page_error, unit) result \<times> page_table" where
  "append_committed sequence_id token_count = transact (append_inner sequence_id token_count)"

section \<open>Forking\<close>

definition fork_page :: "bool \<Rightarrow> sequence_page \<Rightarrow> page_table \<times> sequence_page list \<Rightarrow>
    (sequence_page_error, page_table \<times> sequence_page list) result" where
  "fork_page mtp source_page st =
     (let (t, pages) = st; pid = sp_physical source_page in
      rbind (ok_or (fmlookup (physical t) pid) Invariant) (\<lambda>page.
      if pp_state page = HbmSealed \<and> pp_valid_tokens page = PAGE_TOKENS
      then rbind (ok_or (checked_add 32 (pp_references page) 1) Overflow) (\<lambda>references.
             Inr (set_page pid (page\<lparr>pp_references := references\<rparr>) t, pages @ [source_page]))
      else if pp_state page = HbmMutable \<and> pp_valid_tokens page < PAGE_TOKENS \<and> pp_references page = 1
      then rbind (allocate_page (sp_ordinal source_page) mtp t) (\<lambda>(t1, pid1).
           rbind (ok_or (fmlookup (physical t1) pid1) Invariant) (\<lambda>page1.
             Inr (set_page pid1 (page1\<lparr>pp_valid_tokens := pp_valid_tokens page\<rparr>) t1,
                  pages @ [\<lparr>sp_ordinal = sp_ordinal source_page, sp_physical = pid1\<rparr>])))
      else Inl (Err State)))"

definition fork_inner :: "nat \<Rightarrow> nat \<Rightarrow> page_table \<Rightarrow> (sequence_page_error, page_table \<times> unit) result" where
  "fork_inner source_id destination_id t =
     rbind (require_unbound_quarantine t) (\<lambda>_.
     if destination_id = 0 \<or> fmlookup (sequences t) destination_id \<noteq> None then Inl (Err Sequence)
     else
       rbind (ok_or (fmlookup (sequences t) source_id) Sequence) (\<lambda>source.
       if sq_tentative source \<noteq> None then Inl (Err Transaction)
       else
         rbind (rfold (fork_page (sq_mtp source)) (sq_pages source) (t, [])) (\<lambda>(t', pages).
           Inr (set_sequence destination_id
                  \<lparr>sq_mtp = sq_mtp source, sq_committed_tokens = sq_committed_tokens source,
                   sq_pages = pages, sq_tentative = None\<rparr> t', ()))))"

definition fork_sequence :: "nat \<Rightarrow> nat \<Rightarrow> page_table \<Rightarrow>
    (sequence_page_error, unit) result \<times> page_table" where
  "fork_sequence source_id destination_id = transact (fork_inner source_id destination_id)"

section \<open>Tentative tokens\<close>

text \<open>One more token on the sequence's last page, which becomes tentative.\<close>

definition reserve_on_tail :: "sequence \<Rightarrow> page_table \<Rightarrow> (sequence_page_error, page_table) result" where
  "reserve_on_tail sq t =
     rbind (ensure (sq_pages sq \<noteq> []) Invariant) (\<lambda>_.
     let pid = sp_physical (last (sq_pages sq)) in
     rbind (ok_or (fmlookup (physical t) pid) Invariant) (\<lambda>page.
     if pp_references page \<noteq> 1 \<or> pp_state page \<notin> {HbmMutable, HbmTentative} then Inl (Err State)
     else
       rbind (if pp_state page = HbmMutable then map_err Transition (transition (pp_state page) HbmTentative)
              else Inr (pp_state page)) (\<lambda>st.
       rbind (ok_or (checked_add 8 (pp_valid_tokens page) 1) Overflow) (\<lambda>valid.
         Inr (set_page pid (page\<lparr>pp_state := st, pp_valid_tokens := valid\<rparr>) t)))))"

definition reserve_token :: "nat \<Rightarrow> page_table \<Rightarrow> (sequence_page_error, page_table) result" where
  "reserve_token sequence_id t =
     rbind (expect (fmlookup (sequences t) sequence_id)) (\<lambda>sq.
     rbind (if sq_pages sq = [] then Inr True
            else rbind (expect (fmlookup (physical t) (sp_physical (last (sq_pages sq))))) (\<lambda>page.
                   Inr (pp_valid_tokens page = PAGE_TOKENS))) (\<lambda>need_page.
     rbind (if need_page
            then rbind (allocate_page (length (sq_pages sq)) (sq_mtp sq) t) (\<lambda>(t1, pid).
                 rbind (ok_or (fmlookup (sequences t1) sequence_id) Sequence) (\<lambda>sq1.
                   Inr (set_sequence sequence_id (sq1\<lparr>sq_pages := sq_pages sq1 @
                     [\<lparr>sp_ordinal = length (sq_pages sq), sp_physical = pid\<rparr>]\<rparr>) t1)))
            else Inr t) (\<lambda>t2.
     rbind (expect (fmlookup (sequences t2) sequence_id)) (\<lambda>sq2. reserve_on_tail sq2 t2))))"

fun reserve_tentative :: "nat \<Rightarrow> nat \<Rightarrow> page_table \<Rightarrow> (sequence_page_error, page_table) result" where
  "reserve_tentative sequence_id 0 t = Inr t"
| "reserve_tentative sequence_id (Suc n) t =
     rbind (reserve_token sequence_id t) (reserve_tentative sequence_id n)"

definition begin_tentative_inner :: "nat \<Rightarrow> nat \<Rightarrow> page_table \<Rightarrow>
    (sequence_page_error, page_table \<times> unit) result" where
  "begin_tentative_inner sequence_id requested t =
     rbind (require_unbound_quarantine t) (\<lambda>_.
     if requested = 0 \<or> requested > 7 then Inl (Err Transaction)
     else
       rbind (ok_or (fmlookup (sequences t) sequence_id) Sequence) (\<lambda>sq.
       if sq_tentative sq \<noteq> None
          \<or> (case checked_add 64 (sq_committed_tokens sq) requested of
                None \<Rightarrow> True | Some tokens \<Rightarrow> tokens > MAXIMUM_CONTEXT_TOKENS)
       then Inl (Err Transaction)
       else
         let tail = (if sq_pages sq = [] then 0
               else case fmlookup (physical t) (sp_physical (last (sq_pages sq))) of
                      None \<Rightarrow> 0 | Some page \<Rightarrow> pp_valid_tokens page) in
         rbind (reserve_tentative sequence_id requested t) (\<lambda>t1.
         rbind (ok_or (fmlookup (sequences t1) sequence_id) Sequence) (\<lambda>sq1.
           Inr (set_sequence sequence_id (sq1\<lparr>sq_tentative := Some
             \<lparr>original_committed_tokens = sq_committed_tokens sq,
              original_page_count = length (sq_pages sq),
              original_tail_tokens = tail, reserved_tokens = requested\<rparr>\<rparr>) t1, ())))))"

definition begin_tentative :: "nat \<Rightarrow> nat \<Rightarrow> page_table \<Rightarrow>
    (sequence_page_error, unit) result \<times> page_table" where
  "begin_tentative sequence_id requested = transact (begin_tentative_inner sequence_id requested)"

text \<open>
  Drop the last page of a sequence and release it, \<open>n\<close> times. The loop of
  \<open>rollback_tentative_inner\<close> counts the extra pages; the one of \<open>commit_tentative_inner\<close>
  runs while the sequence has more pages than desired, and each turn drops one.
\<close>

fun pop_pages :: "nat \<Rightarrow> nat \<Rightarrow> page_table \<Rightarrow> (sequence_page_error, page_table) result" where
  "pop_pages sequence_id 0 t = Inr t"
| "pop_pages sequence_id (Suc n) t =
     rbind (ok_or (fmlookup (sequences t) sequence_id) Sequence) (\<lambda>sq.
     rbind (ensure (sq_pages sq \<noteq> []) Invariant) (\<lambda>_.
     rbind (release_page (sp_physical (last (sq_pages sq)))
              (set_sequence sequence_id (sq\<lparr>sq_pages := butlast (sq_pages sq)\<rparr>) t))
       (pop_pages sequence_id n)))"

definition restore_tail :: "nat \<Rightarrow> tentative_tail \<Rightarrow> page_table \<Rightarrow> (sequence_page_error, page_table) result" where
  "restore_tail sequence_id tx t =
     (if original_page_count tx = 0 then Inr t
      else
        rbind (expect (fmlookup (sequences t) sequence_id)) (\<lambda>sq.
        rbind (ensure (sq_pages sq \<noteq> []) Invariant) (\<lambda>_.
        let pid = sp_physical (last (sq_pages sq)) in
        rbind (ok_or (fmlookup (physical t) pid) Invariant) (\<lambda>page.
        if pp_state page = HbmTentative
        then rbind (map_err Transition (transition (pp_state page) HbmMutable)) (\<lambda>st.
               Inr (set_page pid (page\<lparr>pp_state := st, pp_valid_tokens := original_tail_tokens tx\<rparr>) t))
        else if pp_valid_tokens page \<noteq> PAGE_TOKENS \<or> pp_state page \<noteq> HbmSealed then Inl (Err State)
        else Inr t))))"

definition rollback_tokens :: "nat \<Rightarrow> page_table \<Rightarrow> (sequence_page_error, page_table) result" where
  "rollback_tokens sequence_id t =
     rbind (ok_or (fmlookup (sequences t) sequence_id) Transaction) (\<lambda>sq.
     rbind (ok_or (sq_tentative sq) Transaction) (\<lambda>tx.
     rbind (ok_or (checked_sub (length (sq_pages sq)) (original_page_count tx)) Invariant) (\<lambda>extra.
     rbind (pop_pages sequence_id extra (set_sequence sequence_id (sq\<lparr>sq_tentative := None\<rparr>) t)) (\<lambda>t1.
     rbind (restore_tail sequence_id tx t1) (\<lambda>t2.
     rbind (ok_or (fmlookup (sequences t2) sequence_id) Sequence) (\<lambda>sq2.
       Inr (set_sequence sequence_id
              (sq2\<lparr>sq_committed_tokens := original_committed_tokens tx\<rparr>) t2)))))))"

definition rollback_inner :: "nat \<Rightarrow> page_table \<Rightarrow> (sequence_page_error, page_table \<times> unit) result" where
  "rollback_inner sequence_id t =
     rbind (require_unbound_quarantine t) (\<lambda>_.
     rbind (rollback_tokens sequence_id t) (\<lambda>t'. Inr (t', ())))"

definition rollback_tentative :: "nat \<Rightarrow> page_table \<Rightarrow>
    (sequence_page_error, unit) result \<times> page_table" where
  "rollback_tentative sequence_id = transact (rollback_inner sequence_id)"

text \<open>Settle page \<open>ordinal\<close> of a sequence that now has \<open>committed\<close> tokens on \<open>desired\<close> pages.\<close>

definition settle_page :: "nat \<Rightarrow> nat \<Rightarrow> nat \<Rightarrow> nat \<Rightarrow> page_table \<Rightarrow>
    (sequence_page_error, page_table) result" where
  "settle_page sequence_id committed desired ordinal t =
     rbind (expect (fmlookup (sequences t) sequence_id)) (\<lambda>sq.
     rbind (expect (if ordinal < length (sq_pages sq) then Some (sq_pages sq ! ordinal) else None)) (\<lambda>entry.
     rbind (if ordinal + 1 = desired
            then let tail = committed mod PAGE_TOKENS in
                 if tail = 0 then Inr PAGE_TOKENS else ok_or (try_uint 8 tail) Overflow
            else Inr PAGE_TOKENS) (\<lambda>expected_valid.
     let expected_state = (if expected_valid = PAGE_TOKENS then HbmSealed else HbmMutable) in
     rbind (ok_or (fmlookup (physical t) (sp_physical entry)) Invariant) (\<lambda>page.
     if pp_state page = HbmTentative
     then rbind (map_err Transition (transition (pp_state page) expected_state)) (\<lambda>st.
            Inr (set_page (sp_physical entry)
                   (page\<lparr>pp_state := st, pp_valid_tokens := expected_valid\<rparr>) t))
     else if pp_state page \<noteq> expected_state \<or> pp_valid_tokens page \<noteq> expected_valid
       then Inl (Err State)
     else Inr t))))"

definition commit_tokens :: "nat \<Rightarrow> nat \<Rightarrow> tentative_tail \<Rightarrow> page_table \<Rightarrow>
    (sequence_page_error, page_table) result" where
  "commit_tokens sequence_id committed tx t =
     rbind (ok_or (checked_add 64 (original_committed_tokens tx) committed) Transaction) (\<lambda>new_committed.
     if new_committed > MAXIMUM_CONTEXT_TOKENS then Inl (Err Transaction)
     else
       let desired = div_ceil new_committed PAGE_TOKENS in
       rbind (ok_or (fmlookup (sequences t) sequence_id) Sequence) (\<lambda>sq.
       rbind (ok_or (sq_tentative sq) Transaction) (\<lambda>retained.
       if retained \<noteq> tx \<or> desired > length (sq_pages sq) then Inl (Err Invariant)
       else
         rbind (pop_pages sequence_id (length (sq_pages sq) - desired)
                  (set_sequence sequence_id (sq\<lparr>sq_tentative := None\<rparr>) t)) (\<lambda>t1.
         rbind (rfold (settle_page sequence_id new_committed desired) [0..<desired] t1) (\<lambda>t2.
         rbind (ok_or (fmlookup (sequences t2) sequence_id) Sequence) (\<lambda>sq2.
           Inr (set_sequence sequence_id (sq2\<lparr>sq_committed_tokens := new_committed\<rparr>) t2)))))))"

definition commit_inner :: "nat \<Rightarrow> nat \<Rightarrow> page_table \<Rightarrow> (sequence_page_error, page_table \<times> unit) result" where
  "commit_inner sequence_id committed t =
     rbind (require_unbound_quarantine t) (\<lambda>_.
     rbind (ok_or (Option.bind (fmlookup (sequences t) sequence_id) sq_tentative) Transaction) (\<lambda>tx.
     if committed = 0 \<or> committed > reserved_tokens tx then Inl (Err Transaction)
     else rbind (commit_tokens sequence_id committed tx t) (\<lambda>t'. Inr (t', ()))))"

definition commit_tentative :: "nat \<Rightarrow> nat \<Rightarrow> page_table \<Rightarrow>
    (sequence_page_error, unit) result \<times> page_table" where
  "commit_tentative sequence_id committed = transact (commit_inner sequence_id committed)"

section \<open>Removal\<close>

definition remove_inner :: "nat \<Rightarrow> page_table \<Rightarrow> (sequence_page_error, page_table \<times> unit) result" where
  "remove_inner sequence_id t =
     rbind (require_unbound_quarantine t) (\<lambda>_.
     rbind (ok_or (fmlookup (sequences t) sequence_id) Sequence) (\<lambda>sq.
     if sq_tentative sq \<noteq> None then Inl (Err Transaction)
     else
       rbind (rfold (\<lambda>page. release_page (sp_physical page)) (rev (sq_pages sq))
                (t\<lparr>sequences := fmdrop sequence_id (sequences t)\<rparr>)) (\<lambda>t'. Inr (t', ()))))"

definition remove_sequence :: "nat \<Rightarrow> page_table \<Rightarrow>
    (sequence_page_error, unit) result \<times> page_table" where
  "remove_sequence sequence_id = transact (remove_inner sequence_id)"

section \<open>Views\<close>

record sequence_page_view =
  pv_ordinal :: nat
  pv_physical :: physical_page_id
  pv_draft_local_page_id :: "nat option"
  pv_state :: page_state
  pv_valid_tokens :: nat
  pv_references :: nat
  pv_shared_prefix :: bool

record sequence_page_snapshot =
  sn_sequence_id :: nat
  sn_mtp :: bool
  sn_committed_tokens :: nat
  sn_tentative_tokens :: nat
  sn_pages :: "sequence_page_view list"

definition committed_tokens :: "page_table \<Rightarrow> nat \<Rightarrow> nat option" where
  "committed_tokens t sequence_id = map_option sq_committed_tokens (fmlookup (sequences t) sequence_id)"

definition page_view :: "page_table \<Rightarrow> sequence_page \<Rightarrow> (sequence_page_error, sequence_page_view) result" where
  "page_view t entry =
     rbind (ok_or (fmlookup (physical t) (sp_physical entry)) Invariant) (\<lambda>page.
       Inr \<lparr>pv_ordinal = sp_ordinal entry, pv_physical = sp_physical entry,
            pv_draft_local_page_id = pp_draft_local_page_id page, pv_state = pp_state page,
            pv_valid_tokens = pp_valid_tokens page, pv_references = pp_references page,
            pv_shared_prefix = (pp_prefix page \<noteq> None)\<rparr>)"

definition pages :: "page_table \<Rightarrow> nat \<Rightarrow> (sequence_page_error, sequence_page_view list) result" where
  "pages t sequence_id =
     rbind (ok_or (fmlookup (sequences t) sequence_id) Sequence) (\<lambda>sq. rmap (page_view t) (sq_pages sq))"

definition snapshot :: "page_table \<Rightarrow> nat \<times> sequence \<Rightarrow> (sequence_page_error, sequence_page_snapshot) result" where
  "snapshot t entry =
     (let (sequence_id, sq) = entry in
      rbind (pages t sequence_id) (\<lambda>views.
        Inr \<lparr>sn_sequence_id = sequence_id, sn_mtp = sq_mtp sq,
             sn_committed_tokens = sq_committed_tokens sq,
             sn_tentative_tokens = (case sq_tentative sq of None \<Rightarrow> 0 | Some tail \<Rightarrow> reserved_tokens tail),
             sn_pages = views\<rparr>))"

definition snapshots :: "page_table \<Rightarrow> (sequence_page_error, sequence_page_snapshot list) result" where
  "snapshots t = rmap (snapshot t) (entries_of (sequences t))"

definition maximum_sequence_tokens :: "nat \<Rightarrow> (sequence_page_error, nat) result" where
  "maximum_sequence_tokens pages_per_rank =
     ok_or (map_option (\<lambda>tokens. min tokens MAXIMUM_CONTEXT_TOKENS)
       (Option.bind (checked_mul 64 pages_per_rank 4) (\<lambda>n. checked_mul 64 n PAGE_TOKENS))) Overflow"

record page_table_stats =
  st_target_pages_used :: "nat list"
  st_draft_pages_used :: "nat list"
  st_active_sequences :: nat
  st_active_positions :: nat
  st_maximum_target_only_sequence_tokens :: nat
  st_maximum_mtp_sequence_tokens :: nat

definition pages_of_rank :: "page_table \<Rightarrow> (physical_page \<Rightarrow> bool) \<Rightarrow> nat \<Rightarrow> nat" where
  "pages_of_rank t P rank = card (fset (ffilter
     (\<lambda>pid. pid_owner_rank pid = rank \<and> P (the (fmlookup (physical t) pid))) (fmdom (physical t))))"

definition stats :: "page_table \<Rightarrow> (sequence_page_error, page_table_stats) result" where
  "stats t =
     (if fBex (fmdom (physical t)) (\<lambda>pid. 4 \<le> pid_owner_rank pid) then Inl Panic
      else
        rbind (rfold (\<lambda>(_, sq) total. ok_or (checked_add 64 total (sq_committed_tokens sq)) Overflow)
                 (entries_of (sequences t)) 0) (\<lambda>active_positions.
        rbind (ok_or (try_uint 32 (length (keys_of (sequences t)))) Overflow) (\<lambda>active_sequences.
        rbind (maximum_sequence_tokens (target_pages_per_rank (pt_config t))) (\<lambda>target_only.
        rbind (maximum_sequence_tokens (min (target_pages_per_rank (pt_config t))
                 (draft_pages_per_rank (pt_config t)))) (\<lambda>mtp.
          Inr \<lparr>st_target_pages_used = map (pages_of_rank t (\<lambda>_. True)) [0..<4],
               st_draft_pages_used = map (pages_of_rank t (\<lambda>page. pp_draft_local_page_id page \<noteq> None)) [0..<4],
               st_active_sequences = active_sequences, st_active_positions = active_positions,
               st_maximum_target_only_sequence_tokens = target_only,
               st_maximum_mtp_sequence_tokens = mtp\<rparr>)))))"

end
