(* ===== verification/Delta.thy ===== *)
theory Delta
  imports Page_Table
begin

text \<open>
  \<open>crates/glm-cache/src/delta.rs\<close>: the deltas by which the ranks follow the page table. A
  delta is the difference of two snapshots of the table, bound to a pair of generations and
  sealed by a digest; a mirror is the copy a rank keeps, moved on by applying deltas.

  SHA-256 is a third-party function and a parameter \<open>sha\<close> of the definitions: the bytes
  that are fed to the hasher are concatenated and hashed at once.
\<close>

section \<open>Data\<close>

definition MAXIMUM_DELTA_SEQUENCES :: nat where [simp]: "MAXIMUM_DELTA_SEQUENCES = 64"

definition GLOBAL_HASH_DOMAIN :: "8 word list" where
  "GLOBAL_HASH_DOMAIN = ascii_bytes ''glmaxx.page-table-delta.v1'' @ [0]"

definition LOCAL_HASH_DOMAIN :: "8 word list" where
  "LOCAL_HASH_DOMAIN = ascii_bytes ''glmaxx.page-table-delta.local.v1'' @ [0]"

record rank_page_entry =
  rp_ordinal :: nat
  rp_owner_rank :: nat
  rp_target_local_page_id :: nat
  rp_draft_local_page_id :: "nat option"
  rp_state :: page_state
  rp_valid_tokens :: nat

definition entry_from_view :: "sequence_page_view \<Rightarrow> rank_page_entry" where
  "entry_from_view page =
     \<lparr>rp_ordinal = pv_ordinal page,
      rp_owner_rank = pid_owner_rank (pv_physical page),
      rp_target_local_page_id = pid_target_local_page_id (pv_physical page),
      rp_draft_local_page_id = pv_draft_local_page_id page,
      rp_state = pv_state page,
      rp_valid_tokens = pv_valid_tokens page\<rparr>"

record sequence_page_update =
  up_request_id :: nat
  up_mtp :: bool
  up_committed_tokens :: nat
  up_tentative_tokens :: nat
  up_page_count_after :: nat
  up_first_changed_ordinal :: nat
  up_changed_pages :: "rank_page_entry list"

record page_table_delta =
  pd_generation_before :: nat
  pd_generation_after :: nat
  pd_updates :: "sequence_page_update list"
  pd_removed_sequence_ids :: "nat list"
  pd_global_digest :: hash32

record normalized_sequence =
  ns_mtp :: bool
  ns_committed_tokens :: nat
  ns_tentative_tokens :: nat
  ns_pages :: "rank_page_entry list"

record page_table_mirror =
  mi_config :: page_table_config
  mi_generation :: nat
  mi_sequences :: "(nat, normalized_sequence) fmap"

datatype page_table_delta_error =
    Generation | Shape | Sequence | Page | Rank | Collision | Digest | Overflow
  | Table sequence_page_error

section \<open>Validation\<close>

definition validate_generations :: "nat \<Rightarrow> nat \<Rightarrow> (page_table_delta_error, unit) result" where
  "validate_generations before after =
     (if before = 0 \<or> checked_add 64 before 1 \<noteq> Some after then Inl (Err Generation) else Inr ())"

definition common_prefix :: "rank_page_entry list \<Rightarrow> rank_page_entry list \<Rightarrow> nat" where
  "common_prefix left right = length (takeWhile (\<lambda>(l, r). l = r) (zip left right))"

definition validate_sequence_page :: "normalized_sequence \<Rightarrow> nat \<times> rank_page_entry \<Rightarrow>
    nat \<times> (nat \<times> nat) set \<times> (nat \<times> nat) set \<Rightarrow>
    (page_table_delta_error, nat \<times> (nat \<times> nat) set \<times> (nat \<times> nat) set) result" where
  "validate_sequence_page sq entry state =
     (let (ordinal, page) = entry; (valid_positions, target_ids, draft_ids) = state;
          target = (rp_owner_rank page, rp_target_local_page_id page);
          drafts = (case rp_draft_local_page_id page of None \<Rightarrow> {} | Some draft \<Rightarrow> {(rp_owner_rank page, draft)});
          is_last = (Some ordinal = checked_sub (length (ns_pages sq)) 1)
      in
      if rp_ordinal page \<noteq> ordinal \<or> rp_owner_rank page \<noteq> owner_rank ordinal
         \<or> rp_valid_tokens page = 0 \<or> rp_valid_tokens page > PAGE_TOKENS
         \<or> (rp_draft_local_page_id page \<noteq> None) \<noteq> ns_mtp sq
         \<or> target \<in> target_ids \<or> drafts \<inter> draft_ids \<noteq> {}
      then Inl (Err Page)
      else if (if ns_tentative_tokens sq = 0
               then rp_state page \<noteq> (if is_last \<and> rp_valid_tokens page < PAGE_TOKENS then HbmMutable else HbmSealed)
               else rp_state page \<noteq> HbmSealed \<and> rp_state page \<noteq> HbmTentative)
      then Inl (Err Page)
      else if \<not> is_last \<and> rp_valid_tokens page \<noteq> PAGE_TOKENS
      then Inl (Err Page)
      else
        rbind (ok_or (checked_add 64 valid_positions (rp_valid_tokens page)) Overflow) (\<lambda>valid_positions.
          Inr (valid_positions, insert target target_ids, drafts \<union> draft_ids)))"

definition validate_sequence :: "normalized_sequence \<Rightarrow> (page_table_delta_error, unit) result" where
  "validate_sequence sq =
     (case checked_add 64 (ns_committed_tokens sq) (ns_tentative_tokens sq) of
        None \<Rightarrow> Inl (Err Overflow)
      | Some positions \<Rightarrow>
          if positions > MAXIMUM_CONTEXT_TOKENS then Inl (Err Overflow)
          else if length (ns_pages sq) \<noteq> div_ceil positions PAGE_TOKENS then Inl (Err Shape)
          else
            rbind (rfold (validate_sequence_page sq) (enumerate 0 (ns_pages sq)) (0, {}, {})) (\<lambda>(valid_positions, _, _).
            if valid_positions \<noteq> positions
               \<or> (ns_tentative_tokens sq \<noteq> 0 \<and> \<not> list_ex (\<lambda>page. rp_state page = HbmTentative) (ns_pages sq))
            then Inl (Err Page) else Inr ()))"

definition normalize_snapshot :: "sequence_page_snapshot \<Rightarrow>
    (page_table_delta_error, nat \<times> normalized_sequence) result" where
  "normalize_snapshot sn =
     (let sq = \<lparr>ns_mtp = sn_mtp sn, ns_committed_tokens = sn_committed_tokens sn,
                ns_tentative_tokens = sn_tentative_tokens sn,
                ns_pages = map entry_from_view (sn_pages sn)\<rparr>
      in rbind (validate_sequence sq) (\<lambda>_. Inr (sn_sequence_id sn, sq)))"

definition normalized_snapshots :: "page_table \<Rightarrow>
    (page_table_delta_error, (nat, normalized_sequence) fmap) result" where
  "normalized_snapshots t =
     rbind (map_err Table (snapshots t)) (\<lambda>sns.
     rbind (rmap normalize_snapshot sns) (\<lambda>entries. Inr (fmap_of_list (rev entries))))"

section \<open>Deltas\<close>

definition validate_update_page :: "sequence_page_update \<Rightarrow> nat \<times> rank_page_entry \<Rightarrow>
    (page_table_delta_error, unit) result" where
  "validate_update_page update entry =
     (let (offset, page) = entry in
      rbind (ok_or (checked_add 64 (up_first_changed_ordinal update) offset) Overflow) (\<lambda>expected.
      if rp_ordinal page \<noteq> expected \<or> rp_owner_rank page \<noteq> owner_rank (rp_ordinal page)
         \<or> rp_valid_tokens page = 0 \<or> rp_valid_tokens page > PAGE_TOKENS
         \<or> (rp_draft_local_page_id page \<noteq> None) \<noteq> up_mtp update
         \<or> rp_state page \<notin> {HbmMutable, HbmTentative, HbmSealed}
      then Inl (Err Page) else Inr ()))"

definition validate_update :: "nat set \<Rightarrow> sequence_page_update \<Rightarrow> (page_table_delta_error, unit) result" where
  "validate_update removed update =
     (if up_request_id update = 0 \<or> up_request_id update \<in> removed
         \<or> up_tentative_tokens update > 7 \<or> up_committed_tokens update > MAXIMUM_CONTEXT_TOKENS
         \<or> up_first_changed_ordinal update > up_page_count_after update
         \<or> up_page_count_after update - up_first_changed_ordinal update \<noteq> length (up_changed_pages update)
      then Inl (Err Shape)
      else check_all (validate_update_page update) (enumerate 0 (up_changed_pages update)))"

definition validate_shape :: "page_table_delta \<Rightarrow> (page_table_delta_error, unit) result" where
  "validate_shape d =
     rbind (validate_generations (pd_generation_before d) (pd_generation_after d)) (\<lambda>_.
     if (pd_updates d = [] \<and> pd_removed_sequence_ids d = [])
        \<or> length (pd_updates d) > MAXIMUM_DELTA_SEQUENCES
        \<or> length (pd_removed_sequence_ids d) > MAXIMUM_DELTA_SEQUENCES
        \<or> \<not> successively (<) (map up_request_id (pd_updates d))
        \<or> \<not> successively (<) (pd_removed_sequence_ids d)
     then Inl (Err Shape)
     else check_all (validate_update (set (pd_removed_sequence_ids d))) (pd_updates d))"

subsection \<open>Digests\<close>

definition page_state_code :: "page_state \<Rightarrow> nat" where
  "page_state_code s = (case s of
      Free \<Rightarrow> 0 | HbmMutable \<Rightarrow> 1 | HbmTentative \<Rightarrow> 2 | HbmSealed \<Rightarrow> 3 | DramWriting \<Rightarrow> 4
    | DramResident \<Rightarrow> 5 | NvmeWriting \<Rightarrow> 6 | NvmeResident \<Rightarrow> 7 | Restoring \<Rightarrow> 8 | Invalid \<Rightarrow> 9)"

definition hash_page :: "rank_page_entry \<Rightarrow> 8 word list" where
  "hash_page page =
     le_bytes 8 (rp_ordinal page) @ [of_nat (rp_owner_rank page)]
     @ le_bytes 4 (rp_target_local_page_id page)
     @ le_bytes 4 (case rp_draft_local_page_id page of None \<Rightarrow> 2 ^ 32 - 1 | Some draft \<Rightarrow> draft)
     @ [of_nat (page_state_code (rp_state page))] @ [of_nat (rp_valid_tokens page)]"

definition hash_update :: "sequence_page_update \<Rightarrow> (page_table_delta_error, 8 word list) result" where
  "hash_update update =
     rbind (expect (try_uint 32 (length (up_changed_pages update)))) (\<lambda>changed.
       Inr (le_bytes 8 (up_request_id update) @ [of_bool (up_mtp update)]
         @ le_bytes 8 (up_committed_tokens update) @ [of_nat (up_tentative_tokens update)]
         @ le_bytes 4 (up_page_count_after update) @ le_bytes 4 (up_first_changed_ordinal update)
         @ le_bytes 4 changed))"

definition hash_invariant_fields :: "page_table_delta \<Rightarrow> (page_table_delta_error, 8 word list) result" where
  "hash_invariant_fields d =
     rbind (expect (try_uint 32 (length (pd_updates d)))) (\<lambda>updates.
     rbind (expect (try_uint 32 (length (pd_removed_sequence_ids d)))) (\<lambda>removed.
     rbind (rmap hash_update (pd_updates d)) (\<lambda>fields.
       Inr (le_bytes 8 (pd_generation_before d) @ le_bytes 8 (pd_generation_after d)
         @ le_bytes 4 updates @ le_bytes 4 removed @ concat fields
         @ concat (map (le_bytes 8) (pd_removed_sequence_ids d))))))"

definition compute_global_digest :: "(8 word list \<Rightarrow> hash32) \<Rightarrow> page_table_delta \<Rightarrow>
    (page_table_delta_error, hash32) result" where
  "compute_global_digest sha d =
     rbind (hash_invariant_fields d) (\<lambda>fields.
       Inr (sha (GLOBAL_HASH_DOMAIN @ fields
         @ concat (map (\<lambda>update. concat (map hash_page (up_changed_pages update))) (pd_updates d)))))"

definition verify :: "(8 word list \<Rightarrow> hash32) \<Rightarrow> page_table_delta \<Rightarrow> (page_table_delta_error, unit) result" where
  "verify sha d =
     rbind (validate_shape d) (\<lambda>_.
     rbind (compute_global_digest sha d) (\<lambda>digest.
       if digest \<noteq> pd_global_digest d then Inl (Err Digest) else Inr ()))"

definition rank_local_digest :: "(8 word list \<Rightarrow> hash32) \<Rightarrow> page_table_delta \<Rightarrow> nat \<Rightarrow>
    (page_table_delta_error, hash32) result" where
  "rank_local_digest sha d rank =
     rbind (verify sha d) (\<lambda>_.
     if 4 \<le> rank then Inl (Err Rank)
     else
       rbind (hash_invariant_fields d) (\<lambda>fields.
         Inr (sha (LOCAL_HASH_DOMAIN @ [of_nat rank] @ pd_global_digest d @ fields
           @ concat (map (\<lambda>update. concat (map hash_page
               (filter (\<lambda>page. rp_owner_rank page = rank) (up_changed_pages update)))) (pd_updates d))))))"

subsection \<open>The difference of two tables\<close>

definition update_between :: "(nat, normalized_sequence) fmap \<Rightarrow> nat \<times> normalized_sequence \<Rightarrow>
    (page_table_delta_error, sequence_page_update) result" where
  "update_between before entry =
     (let (request_id, next) = entry;
          first_changed = (case fmlookup before request_id of
              None \<Rightarrow> 0 | Some prior \<Rightarrow> common_prefix (ns_pages prior) (ns_pages next))
      in
      rbind (ok_or (try_uint 32 first_changed) Overflow) (\<lambda>first_changed_ordinal.
      rbind (ok_or (try_uint 32 (length (ns_pages next))) Overflow) (\<lambda>page_count_after.
        Inr \<lparr>up_request_id = request_id, up_mtp = ns_mtp next,
             up_committed_tokens = ns_committed_tokens next,
             up_tentative_tokens = ns_tentative_tokens next,
             up_page_count_after = page_count_after,
             up_first_changed_ordinal = first_changed_ordinal,
             up_changed_pages = drop first_changed (ns_pages next)\<rparr>)))"

definition between :: "(8 word list \<Rightarrow> hash32) \<Rightarrow> page_table \<Rightarrow> page_table \<Rightarrow> nat \<Rightarrow> nat \<Rightarrow>
    (page_table_delta_error, page_table_delta) result" where
  "between sha before after generation_before generation_after =
     rbind (validate_generations generation_before generation_after) (\<lambda>_.
     if pt_config before \<noteq> pt_config after then Inl (Err Shape)
     else
       rbind (normalized_snapshots before) (\<lambda>before.
       rbind (normalized_snapshots after) (\<lambda>after.
       rbind (rmap (update_between before)
                (filter (\<lambda>(request_id, next). fmlookup before request_id \<noteq> Some next) (entries_of after))) (\<lambda>updates.
       let d = \<lparr>pd_generation_before = generation_before, pd_generation_after = generation_after,
                pd_updates = updates,
                pd_removed_sequence_ids = filter (\<lambda>id. fmlookup after id = None) (keys_of before),
                pd_global_digest = replicate 32 0\<rparr>
       in
       rbind (validate_shape d) (\<lambda>_.
       rbind (compute_global_digest sha d) (\<lambda>digest.
         Inr (d\<lparr>pd_global_digest := digest\<rparr>)))))))"

section \<open>Mirrors\<close>

definition validate_mirror_page :: "page_table_config \<Rightarrow> rank_page_entry \<Rightarrow>
    (physical_page_id, rank_page_entry) fmap \<times> (nat \<times> nat, physical_page_id) fmap \<Rightarrow>
    (page_table_delta_error,
       (physical_page_id, rank_page_entry) fmap \<times> (nat \<times> nat, physical_page_id) fmap) result" where
  "validate_mirror_page config page state =
     (let (by_id, by_draft) = state;
          id = \<lparr>pid_owner_rank = rp_owner_rank page, pid_target_local_page_id = rp_target_local_page_id page\<rparr>
      in
      if rp_target_local_page_id page \<ge> target_pages_per_rank config
         \<or> (case rp_draft_local_page_id page of None \<Rightarrow> False | Some draft \<Rightarrow> draft \<ge> draft_pages_per_rank config)
      then Inl (Err Page)
      else if fmlookup by_id id \<notin> {None, Some page} then Inl (Err Collision)
      else case rp_draft_local_page_id page of
        None \<Rightarrow> Inr (fmupd id page by_id, by_draft)
      | Some draft_local_page_id \<Rightarrow>
          let key = (rp_owner_rank page, draft_local_page_id) in
          if fmlookup by_draft key \<notin> {None, Some id} then Inl (Err Collision)
          else Inr (fmupd id page by_id, fmupd key id by_draft))"

definition validate_mirror :: "page_table_mirror \<Rightarrow> (page_table_delta_error, unit) result" where
  "validate_mirror m =
     (if mi_generation m = 0 \<or> length (keys_of (mi_sequences m)) > MAXIMUM_DELTA_SEQUENCES
      then Inl (Err Shape)
      else
        rbind (rfold (\<lambda>(request_id, sq) state.
            if request_id = 0 then Inl (Err Sequence)
            else
              rbind (validate_sequence sq) (\<lambda>_.
              rfold (validate_mirror_page (mi_config m)) (ns_pages sq) state))
          (entries_of (mi_sequences m)) (fmempty, fmempty)) (\<lambda>_. Inr ()))"

definition from_table :: "page_table \<Rightarrow> nat \<Rightarrow> (page_table_delta_error, page_table_mirror) result" where
  "from_table t generation =
     (if generation = 0 then Inl (Err Generation)
      else
        rbind (normalized_snapshots t) (\<lambda>sqs.
        let m = \<lparr>mi_config = pt_config t, mi_generation = generation, mi_sequences = sqs\<rparr> in
        rbind (validate_mirror m) (\<lambda>_. Inr m)))"

definition remove_from_mirror :: "nat \<Rightarrow> (nat, normalized_sequence) fmap \<Rightarrow>
    (page_table_delta_error, (nat, normalized_sequence) fmap) result" where
  "remove_from_mirror request_id sqs =
     (if fmlookup sqs request_id = None then Inl (Err Sequence) else Inr (fmdrop request_id sqs))"

definition update_mirror :: "sequence_page_update \<Rightarrow> (nat, normalized_sequence) fmap \<Rightarrow>
    (page_table_delta_error, (nat, normalized_sequence) fmap) result" where
  "update_mirror update sqs =
     (let first_changed = up_first_changed_ordinal update in
      rbind (case fmlookup sqs (up_request_id update) of
          Some sq \<Rightarrow>
            if ns_mtp sq \<noteq> up_mtp update \<or> first_changed > length (ns_pages sq) then Inl (Err Sequence)
            else Inr (fmupd (up_request_id update)
                   (sq\<lparr>ns_pages := take first_changed (ns_pages sq) @ up_changed_pages update,
                       ns_committed_tokens := up_committed_tokens update,
                       ns_tentative_tokens := up_tentative_tokens update\<rparr>) sqs)
        | None \<Rightarrow>
            if first_changed \<noteq> 0 then Inl (Err Sequence)
            else Inr (fmupd (up_request_id update)
                   \<lparr>ns_mtp = up_mtp update, ns_committed_tokens = up_committed_tokens update,
                    ns_tentative_tokens = up_tentative_tokens update,
                    ns_pages = up_changed_pages update\<rparr> sqs)) (\<lambda>sqs.
      rbind (expect (fmlookup sqs (up_request_id update))) (\<lambda>sq.
        if length (ns_pages sq) \<noteq> up_page_count_after update then Inl (Err Shape) else Inr sqs)))"

definition apply_inner :: "(8 word list \<Rightarrow> hash32) \<Rightarrow> page_table_delta \<Rightarrow> page_table_mirror \<Rightarrow>
    (page_table_delta_error, page_table_mirror \<times> unit) result" where
  "apply_inner sha d m =
     rbind (verify sha d) (\<lambda>_.
     if mi_generation m \<noteq> pd_generation_before d then Inl (Err Generation)
     else
       rbind (rfold remove_from_mirror (pd_removed_sequence_ids d) (mi_sequences m)) (\<lambda>sqs.
       rbind (rfold update_mirror (pd_updates d) sqs) (\<lambda>sqs.
       let candidate = m\<lparr>mi_sequences := sqs, mi_generation := pd_generation_after d\<rparr> in
       rbind (validate_mirror candidate) (\<lambda>_. Inr (candidate, ())))))"

definition apply_delta :: "(8 word list \<Rightarrow> hash32) \<Rightarrow> page_table_delta \<Rightarrow> page_table_mirror \<Rightarrow>
    (page_table_delta_error, unit) result \<times> page_table_mirror" where
  "apply_delta sha d = transact (apply_inner sha d)"

end
