(* ===== verification/Page_Table_Inv.thy ===== *)
theory Page_Table_Inv
  imports Page_Table
begin

text \<open>
  The invariant of the active page table. Ownership: on every rank the target ids and
  the draft ids are split between free, quarantined and used, a page's reference count is
  the number of places that hold it, and the prefix map and the pages agree. Shape: a
  sequence's pages are exactly the ones its committed and reserved tokens need, each in
  its place, with the right owner, fill and state.

  Operations move pages through intermediate states in which a page is held but not yet
  in a sequence; \<open>owned xs\<close> is the ownership invariant with the held pages \<open>xs\<close> counted.
\<close>

section \<open>The ledger of a slot arena\<close>

definition ledger :: "nat \<Rightarrow> nat set \<Rightarrow> nat set \<Rightarrow> nat set \<Rightarrow> bool" where
  "ledger n free quarantined used \<longleftrightarrow>
     free \<union> quarantined \<union> used = {..<n} \<and> free \<inter> quarantined = {}
     \<and> free \<inter> used = {} \<and> quarantined \<inter> used = {}"

lemma ledger_new: "ledger n {..<n} {} {}"
  by (simp add: ledger_def)

lemma ledger_finite: "ledger n F Q U \<Longrightarrow> finite F"
  by (metis finite_Un finite_lessThan ledger_def)

lemma ledger_take: "ledger n F Q U \<Longrightarrow> x \<in> F \<Longrightarrow> ledger n (F - {x}) Q (insert x U)"
  by (auto simp: ledger_def)

lemma ledger_retire: "ledger n F Q U \<Longrightarrow> x \<in> U \<Longrightarrow> ledger n F (insert x Q) (U - {x})"
  by (auto simp: ledger_def)

lemma ledger_reclaim: "ledger n F Q U \<Longrightarrow> ledger n (F \<union> Q) {} U"
  by (auto simp: ledger_def)

lemma ledger_not_used: "ledger n F Q U \<Longrightarrow> x \<in> F \<or> x \<in> Q \<Longrightarrow> x \<notin> U"
  by (auto simp: ledger_def)

lemma ledger_used: "ledger n F Q U \<Longrightarrow> x \<in> U \<Longrightarrow> x \<notin> F \<and> x \<notin> Q"
  by (auto simp: ledger_def)

section \<open>Ownership\<close>

type_synonym page_map = "(physical_page_id, physical_page) fmap"

definition target_used :: "page_map \<Rightarrow> nat \<Rightarrow> nat set" where
  "target_used m r = pid_target_local_page_id ` {p \<in> fmdom' m. pid_owner_rank p = r}"

definition draft_used :: "page_map \<Rightarrow> nat \<Rightarrow> nat set" where
  "draft_used m r = {d. \<exists>p pg. fmlookup m p = Some pg \<and> pid_owner_rank p = r
     \<and> pp_draft_local_page_id pg = Some d}"

definition drafts_apart :: "page_map \<Rightarrow> bool" where
  "drafts_apart m \<longleftrightarrow> (\<forall>p pg q qg d. fmlookup m p = Some pg \<longrightarrow> fmlookup m q = Some qg
     \<longrightarrow> pid_owner_rank p = pid_owner_rank q \<longrightarrow> pp_draft_local_page_id pg = Some d
     \<longrightarrow> pp_draft_local_page_id qg = Some d \<longrightarrow> p = q)"

definition config_ok :: "page_table_config \<Rightarrow> bool" where
  "config_ok c \<longleftrightarrow> 0 < target_pages_per_rank c \<and> target_pages_per_rank c \<le> 1048576
     \<and> draft_pages_per_rank c \<le> target_pages_per_rank c"

definition slots_ok :: "page_table \<Rightarrow> bool" where
  "slots_ok t \<longleftrightarrow> config_ok (pt_config t)
     \<and> (\<forall>r<4. ledger (target_pages_per_rank (pt_config t)) (free_target t r)
               (quarantined_target t r) (target_used (physical t) r))
     \<and> (\<forall>r<4. ledger (draft_pages_per_rank (pt_config t)) (free_draft t r)
               (quarantined_draft t r) (draft_used (physical t) r))
     \<and> drafts_apart (physical t)
     \<and> (\<forall>p\<in>fmdom' (physical t). pid_owner_rank p < 4)"

definition page_wf :: "physical_page \<Rightarrow> bool" where
  "page_wf pg \<longleftrightarrow> pp_state pg \<in> {HbmMutable, HbmTentative, HbmSealed} \<and> pp_valid_tokens pg \<le> 64
     \<and> 0 < pp_references pg \<and> pp_references pg < 2 ^ 32
     \<and> (pp_state pg \<noteq> HbmSealed \<longrightarrow> pp_references pg = 1)
     \<and> (pp_prefix pg \<noteq> None \<longrightarrow> pp_state pg = HbmSealed \<and> pp_valid_tokens pg = 64)"

abbreviation page_ids :: "sequence \<Rightarrow> physical_page_id list" where
  "page_ids sq \<equiv> map sp_physical (sq_pages sq)"

definition refcount :: "(nat, sequence) fmap \<Rightarrow> physical_page_id \<Rightarrow> nat" where
  "refcount ss p = fm_sum (\<lambda>sq. count_list (page_ids sq) p) ss"

definition refs_ok :: "physical_page_id list \<Rightarrow> page_map \<Rightarrow> (nat, sequence) fmap \<Rightarrow> bool" where
  "refs_ok xs m ss \<longleftrightarrow> (\<forall>p. case fmlookup m p of
      None \<Rightarrow> refcount ss p + count_list xs p = 0
    | Some pg \<Rightarrow> page_wf pg \<and> pp_references pg = refcount ss p + count_list xs p)"

definition prefix_of :: "page_map \<Rightarrow> physical_page_id \<Rightarrow> (prefix_page_attachment \<times> nat) option" where
  "prefix_of m p = Option.bind (fmlookup m p) pp_prefix"

definition published :: "(physical_page_id \<Rightarrow> (prefix_page_attachment \<times> nat) option) \<Rightarrow>
    (hash32, physical_page_id) fmap \<Rightarrow> bool" where
  "published g ps \<longleftrightarrow>
     (\<forall>k p. fmlookup ps k = Some p \<longleftrightarrow> (\<exists>a ord. g p = Some (a, ord) \<and> at_key a = k))
     \<and> (\<forall>p a ord. g p = Some (a, ord) \<longrightarrow> pid_owner_rank p = owner_rank ord)"

abbreviation prefix_ok :: "page_map \<Rightarrow> (hash32, physical_page_id) fmap \<Rightarrow> bool" where
  "prefix_ok m \<equiv> published (prefix_of m)"

text \<open>A page has one position: in every sequence it is in, and in the prefix it carries.\<close>

definition positions :: "(nat, sequence) fmap \<Rightarrow> physical_page_id \<Rightarrow> nat set" where
  "positions ss p = {i. \<exists>s sq. fmlookup ss s = Some sq \<and> i < length (sq_pages sq) \<and> sp_physical (sq_pages sq ! i) = p}"

definition fits_at :: "page_map \<Rightarrow> (nat, sequence) fmap \<Rightarrow> physical_page_id \<Rightarrow> nat \<Rightarrow> bool" where
  "fits_at m ss p i \<longleftrightarrow> positions ss p \<subseteq> {i} \<and> (\<forall>a ord. prefix_of m p = Some (a, ord) \<longrightarrow> ord = i)"

definition aligned :: "page_map \<Rightarrow> (nat, sequence) fmap \<Rightarrow> bool" where
  "aligned m ss \<longleftrightarrow> (\<forall>p. \<exists>i. fits_at m ss p i)"

definition owned :: "physical_page_id list \<Rightarrow> page_table \<Rightarrow> bool" where
  "owned xs t \<longleftrightarrow> slots_ok t \<and> refs_ok xs (physical t) (sequences t)
     \<and> prefix_ok (physical t) (prefixes t) \<and> aligned (physical t) (sequences t)
     \<and> (\<forall>s sq. fmlookup (sequences t) s = Some sq \<longrightarrow> s \<noteq> 0 \<and> distinct (page_ids sq))"

subsection \<open>Reference counts\<close>

lemma refcount_upd:
  "fmlookup ss s = Some sq \<Longrightarrow>
     refcount (fmupd s sq' ss) p + count_list (page_ids sq) p = refcount ss p + count_list (page_ids sq') p"
  unfolding refcount_def by (rule fm_sum_upd)

lemma refcount_new:
  "fmlookup ss s = None \<Longrightarrow> refcount (fmupd s sq ss) p = count_list (page_ids sq) p + refcount ss p"
  unfolding refcount_def by (rule fm_sum_new)

lemma refcount_drop:
  "fmlookup ss s = Some sq \<Longrightarrow> refcount ss p = count_list (page_ids sq) p + refcount (fmdrop s ss) p"
  unfolding refcount_def by (rule fm_sum_split)

lemma refcount_two:
  assumes "fmlookup ss s = Some sq" "fmlookup ss s' = Some sq'" "s \<noteq> s'"
  shows "count_list (page_ids sq) p + count_list (page_ids sq') p \<le> refcount ss p"
proof -
  have "fmlookup (fmdrop s ss) s' = Some sq'" using assms by simp
  then have "count_list (page_ids sq') p \<le> refcount (fmdrop s ss) p"
    unfolding refcount_def by (rule fm_sum_ge)
  then show ?thesis using refcount_drop [OF assms(1), of p] by simp
qed

lemma count_list_pos: "0 < count_list xs x \<longleftrightarrow> x \<in> set xs"
  by (metis count_list_0_iff gr0I less_not_refl)

lemma refcount_pos: "fmlookup ss s = Some sq \<Longrightarrow> p \<in> set (page_ids sq) \<Longrightarrow> 0 < refcount ss p"
  using refcount_drop [of ss s sq p] by (simp add: count_list_pos flip: set_map)

lemma refs_okD: "refs_ok xs m ss \<Longrightarrow> fmlookup m p = Some pg \<Longrightarrow>
    page_wf pg \<and> pp_references pg = refcount ss p + count_list xs p"
  unfolding refs_ok_def by (drule spec [of _ p]) simp

lemma refs_ok_None: "refs_ok xs m ss \<Longrightarrow> fmlookup m p = None \<Longrightarrow> refcount ss p + count_list xs p = 0"
  unfolding refs_ok_def by (drule spec [of _ p]) simp

lemma counted_resident:
  assumes "refs_ok xs m ss" and "0 < refcount ss p + count_list xs p"
  shows "\<exists>pg. fmlookup m p = Some pg"
  using refs_ok_None [OF assms(1), of p] assms(2) by (cases "fmlookup m p") auto

lemma exclusive_page:
  assumes "refs_ok xs m ss" and "fmlookup m p = Some pg" and "pp_references pg = 1"
    and "fmlookup ss s = Some sq" and "p \<in> set (page_ids sq)"
  shows "p \<notin> set xs" and "fmlookup ss s' = Some sq' \<Longrightarrow> s' \<noteq> s \<Longrightarrow> p \<notin> set (page_ids sq')"
proof -
  have sum: "refcount ss p + count_list xs p = 1"
    using refs_okD [OF assms(1,2)] assms(3) by simp
  have one: "1 \<le> count_list (page_ids sq) p"
    using assms(5) count_list_pos [of "page_ids sq" p] by linarith
  with refcount_drop [OF assms(4), of p] sum have "count_list xs p = 0" by linarith
  then show "p \<notin> set xs" by (simp add: count_list_0_iff)
  assume "fmlookup ss s' = Some sq'" "s' \<noteq> s"
  then have "count_list (page_ids sq') p = 0"
    using refcount_two [OF assms(4), of s' sq' p] one sum by linarith
  then show "p \<notin> set (page_ids sq')" by (simp add: count_list_0_iff)
qed

lemma refs_okI:
  assumes "\<And>p pg. fmlookup m p = Some pg \<Longrightarrow>
      page_wf pg \<and> pp_references pg = refcount ss p + count_list xs p"
    and "\<And>p. fmlookup m p = None \<Longrightarrow> refcount ss p + count_list xs p = 0"
  shows "refs_ok xs m ss"
  using assms by (simp add: refs_ok_def split: option.splits)

subsection \<open>What an operation keeps of the other pages\<close>

text \<open>
  A page is kept when its state and fill are the same and it has not lost its draft slot.
\<close>

definition page_kept :: "physical_page \<Rightarrow> physical_page \<Rightarrow> bool" where
  "page_kept pg pg' \<longleftrightarrow> pp_state pg' = pp_state pg \<and> pp_valid_tokens pg' = pp_valid_tokens pg
     \<and> (pp_draft_local_page_id pg \<noteq> None \<longrightarrow> pp_draft_local_page_id pg' \<noteq> None)"

definition kept :: "physical_page_id set \<Rightarrow> page_map \<Rightarrow> page_map \<Rightarrow> bool" where
  "kept A m m' \<longleftrightarrow> (\<forall>p\<in>A. \<forall>pg. fmlookup m p = Some pg \<longrightarrow> (\<exists>pg'. fmlookup m' p = Some pg' \<and> page_kept pg pg'))"

lemma page_kept_refl [simp]: "page_kept pg pg"
  by (simp add: page_kept_def)

lemma page_kept_trans: "page_kept a b \<Longrightarrow> page_kept b c \<Longrightarrow> page_kept a c"
  by (auto simp: page_kept_def)

lemma kept_refl [simp]: "kept A m m"
  by (simp add: kept_def)

lemma kept_trans: "kept A m m' \<Longrightarrow> kept A m' m'' \<Longrightarrow> kept A m m''"
  by (fastforce simp: kept_def intro: page_kept_trans)

lemma kept_mono: "kept A m m' \<Longrightarrow> B \<subseteq> A \<Longrightarrow> kept B m m'"
  by (auto simp: kept_def)

lemma kept_upd: "fmlookup m p = Some pg \<Longrightarrow> page_kept pg pg' \<Longrightarrow> kept A m (fmupd p pg' m)"
  by (auto simp: kept_def)

lemma kept_upd_other: "p \<notin> A \<Longrightarrow> kept A m (fmupd p pg' m)"
  by (auto simp: kept_def)

lemma kept_upd_new: "fmlookup m p = None \<Longrightarrow> kept A m (fmupd p pg' m)"
  by (auto simp: kept_def)

lemma keptD: "kept A m m' \<Longrightarrow> p \<in> A \<Longrightarrow> fmlookup m p = Some pg \<Longrightarrow>
    \<exists>pg'. fmlookup m' p = Some pg' \<and> page_kept pg pg'"
  by (auto simp: kept_def)

subsection \<open>Shape of a sequence\<close>

text \<open>
  Entry \<open>e\<close> is page number \<open>i\<close> of its sequence and its physical page has fill \<open>v\<close> and state
  \<open>st\<close>; a layout gives the fill and the state of every page of a list.
\<close>

definition page_is :: "page_map \<Rightarrow> bool \<Rightarrow> nat \<Rightarrow> page_state \<Rightarrow> nat \<Rightarrow> sequence_page \<Rightarrow> bool" where
  "page_is m mtp v st i e \<longleftrightarrow> sp_ordinal e = i \<and> pid_owner_rank (sp_physical e) = owner_rank i
     \<and> (\<exists>pg. fmlookup m (sp_physical e) = Some pg \<and> pp_valid_tokens pg = v \<and> pp_state pg = st
          \<and> (mtp \<longrightarrow> pp_draft_local_page_id pg \<noteq> None))"

definition laid :: "page_map \<Rightarrow> bool \<Rightarrow> (nat \<Rightarrow> nat) \<Rightarrow> (nat \<Rightarrow> page_state) \<Rightarrow> sequence_page list \<Rightarrow> bool" where
  "laid m mtp V S es \<longleftrightarrow> (\<forall>i<length es. page_is m mtp (V i) (S i) i (es ! i))"

text \<open>The layout of \<open>c\<close> committed tokens followed by \<open>r\<close> reserved ones.\<close>

definition fill :: "nat \<Rightarrow> nat \<Rightarrow> nat \<Rightarrow> nat" where
  "fill c r i = min 64 (c + r - 64 * i)"

definition mode :: "nat \<Rightarrow> nat \<Rightarrow> nat \<Rightarrow> page_state" where
  "mode c r i = (if 64 * (i + 1) \<le> c then HbmSealed else if r = 0 then HbmMutable else HbmTentative)"

definition shape :: "page_map \<Rightarrow> bool \<Rightarrow> nat \<Rightarrow> nat \<Rightarrow> sequence_page list \<Rightarrow> bool" where
  "shape m mtp c r es \<longleftrightarrow> length es = div_ceil (c + r) 64 \<and> laid m mtp (fill c r) (mode c r) es"

definition reserved :: "sequence \<Rightarrow> nat" where
  "reserved sq = (case sq_tentative sq of None \<Rightarrow> 0 | Some tx \<Rightarrow> reserved_tokens tx)"

definition tentative_ok :: "nat \<Rightarrow> tentative_tail \<Rightarrow> bool" where
  "tentative_ok c tx \<longleftrightarrow> original_committed_tokens tx = c
     \<and> original_page_count tx = div_ceil c 64
     \<and> original_tail_tokens tx = c - 64 * (div_ceil c 64 - 1)
     \<and> 0 < reserved_tokens tx \<and> reserved_tokens tx \<le> 7"

definition seq_ok :: "page_map \<Rightarrow> sequence \<Rightarrow> bool" where
  "seq_ok m sq \<longleftrightarrow> shape m (sq_mtp sq) (sq_committed_tokens sq) (reserved sq) (sq_pages sq)
     \<and> sq_committed_tokens sq + reserved sq \<le> 1048576
     \<and> (case sq_tentative sq of None \<Rightarrow> True | Some tx \<Rightarrow> tentative_ok (sq_committed_tokens sq) tx)"

definition table_inv :: "page_table \<Rightarrow> bool" where
  "table_inv t \<longleftrightarrow> owned [] t
     \<and> (\<forall>s sq. fmlookup (sequences t) s = Some sq \<longrightarrow> seq_ok (physical t) sq)"

text \<open>All sequences but the one an operation works on.\<close>

definition others_ok :: "nat \<Rightarrow> page_table \<Rightarrow> bool" where
  "others_ok s t \<longleftrightarrow>
     (\<forall>s' sq. s' \<noteq> s \<longrightarrow> fmlookup (sequences t) s' = Some sq \<longrightarrow> seq_ok (physical t) sq)"

definition other_pages :: "nat \<Rightarrow> page_table \<Rightarrow> physical_page_id set" where
  "other_pages s t = {p. \<exists>s' sq. s' \<noteq> s \<and> fmlookup (sequences t) s' = Some sq \<and> p \<in> set (page_ids sq)}"

lemma page_is_kept: "page_is m mtp v st i e \<Longrightarrow> kept A m m' \<Longrightarrow> sp_physical e \<in> A \<Longrightarrow> page_is m' mtp v st i e"
  unfolding page_is_def using keptD [of A m m' "sp_physical e"] by (fastforce simp: page_kept_def)

lemma page_is_upd_other: "sp_physical e \<noteq> p \<Longrightarrow> page_is (fmupd p pg m) mtp v st i e = page_is m mtp v st i e"
  by (simp add: page_is_def)

lemma laid_kept:
  assumes "laid m mtp V S es" and "kept A m m'" and "sp_physical ` set es \<subseteq> A"
  shows "laid m' mtp V S es"
  using assms unfolding laid_def by (meson image_eqI nth_mem page_is_kept subset_iff)

lemma shape_kept: "shape m mtp c r es \<Longrightarrow> kept A m m' \<Longrightarrow> sp_physical ` set es \<subseteq> A \<Longrightarrow> shape m' mtp c r es"
  by (auto simp: shape_def intro: laid_kept)

lemma seq_ok_kept: "seq_ok m sq \<Longrightarrow> kept A m m' \<Longrightarrow> set (page_ids sq) \<subseteq> A \<Longrightarrow> seq_ok m' sq"
  unfolding seq_ok_def by (auto intro: shape_kept)

lemma others_ok_kept:
  assumes "others_ok s t" and "kept (other_pages s t) (physical t) (physical t')"
    and "\<And>s'. s' \<noteq> s \<Longrightarrow> fmlookup (sequences t') s' = fmlookup (sequences t) s'"
  shows "others_ok s t'"
  unfolding others_ok_def
proof (intro allI impI)
  fix s' sq assume s': "s' \<noteq> s" "fmlookup (sequences t') s' = Some sq"
  then have sq: "fmlookup (sequences t) s' = Some sq" using assms(3) by simp
  then have "set (page_ids sq) \<subseteq> other_pages s t" using s'(1) by (auto simp: other_pages_def)
  moreover have "seq_ok (physical t) sq" using assms(1) s' sq by (auto simp: others_ok_def)
  ultimately show "seq_ok (physical t') sq" using assms(2) by (blast intro: seq_ok_kept)
qed

lemma table_inv_split:
  "table_inv t \<longleftrightarrow> owned [] t \<and> others_ok s t
     \<and> (\<forall>sq. fmlookup (sequences t) s = Some sq \<longrightarrow> seq_ok (physical t) sq)"
  by (auto simp: table_inv_def others_ok_def)

section \<open>Slots under page updates\<close>

lemma pid_eqI:
  "pid_owner_rank p = pid_owner_rank q \<Longrightarrow> pid_target_local_page_id p = pid_target_local_page_id q \<Longrightarrow>
     p = (q::physical_page_id)"
  by simp

lemma target_used_upd:
  "target_used (fmupd p pg m) r =
     (if pid_owner_rank p = r then insert (pid_target_local_page_id p) (target_used m r) else target_used m r)"
  by (auto simp: target_used_def)

lemma target_used_upd_same: "fmlookup m p = Some pg \<Longrightarrow> target_used (fmupd p pg' m) r = target_used m r"
  by (auto simp: target_used_upd target_used_def fmdom'I)

lemma target_used_drop:
  "target_used (fmdrop p m) r =
     (if pid_owner_rank p = r then target_used m r - {pid_target_local_page_id p} else target_used m r)"
  by (auto simp: target_used_def intro: pid_eqI)

lemma target_used_mem: "fmlookup m p = Some pg \<Longrightarrow> pid_target_local_page_id p \<in> target_used m (pid_owner_rank p)"
  by (auto simp: target_used_def fmdom'I)

lemma draft_used_new:
  "fmlookup m p = None \<Longrightarrow>
     draft_used (fmupd p pg m) r =
       (if pid_owner_rank p = r then set_option (pp_draft_local_page_id pg) \<union> draft_used m r else draft_used m r)"
  by (auto simp: draft_used_def) (metis option.distinct(1))

lemma draft_used_upd_same:
  "fmlookup m p = Some pg \<Longrightarrow> pp_draft_local_page_id pg' = pp_draft_local_page_id pg \<Longrightarrow>
     draft_used (fmupd p pg' m) r = draft_used m r"
  unfolding draft_used_def by (rule Collect_cong) (metis fmupd_lookup option.inject)

lemma draft_used_upd_fill:
  "fmlookup m p = Some pg \<Longrightarrow> pp_draft_local_page_id pg = None \<Longrightarrow> pp_draft_local_page_id pg' = Some d \<Longrightarrow>
     draft_used (fmupd p pg' m) r =
       (if pid_owner_rank p = r then insert d (draft_used m r) else draft_used m r)"
  by (auto simp: draft_used_def split: if_splits) (metis option.distinct(1) option.inject)

lemma draft_used_mem:
  "fmlookup m p = Some pg \<Longrightarrow> pp_draft_local_page_id pg = Some d \<Longrightarrow> d \<in> draft_used m (pid_owner_rank p)"
  by (auto simp: draft_used_def)

lemma draft_used_drop:
  assumes "drafts_apart m" and "fmlookup m p = Some pg"
  shows "draft_used (fmdrop p m) r =
     (if pid_owner_rank p = r then draft_used m r - set_option (pp_draft_local_page_id pg) else draft_used m r)"
  using assms unfolding draft_used_def drafts_apart_def
  by (auto split: if_splits)

lemma drafts_apart_drop: "drafts_apart m \<Longrightarrow> drafts_apart (fmdrop p m)"
  by (auto simp: drafts_apart_def split: if_splits)

lemma drafts_apart_upd_same:
  assumes "drafts_apart m" and "fmlookup m p = Some pg"
    and "pp_draft_local_page_id pg' = pp_draft_local_page_id pg"
  shows "drafts_apart (fmupd p pg' m)"
  using assms unfolding drafts_apart_def by (auto split: if_splits)

lemma drafts_apart_fresh:
  assumes "drafts_apart m" and "set_option (pp_draft_local_page_id pg) \<inter> draft_used m (pid_owner_rank p) = {}"
  shows "drafts_apart (fmupd p pg m)"
  using assms unfolding drafts_apart_def draft_used_def by (auto split: if_splits)

section \<open>Moving ownership\<close>

lemma slots_ok_ledgers:
  assumes "slots_ok t" and "r < 4"
  shows "ledger (target_pages_per_rank (pt_config t)) (free_target t r) (quarantined_target t r)
           (target_used (physical t) r)"
    and "ledger (draft_pages_per_rank (pt_config t)) (free_draft t r) (quarantined_draft t r)
           (draft_used (physical t) r)"
  using assms by (simp_all add: slots_ok_def)

lemma slots_ok_rank: "slots_ok t \<Longrightarrow> fmlookup (physical t) p = Some pg \<Longrightarrow> pid_owner_rank p < 4"
  by (auto simp: slots_ok_def fmdom'I)

text \<open>Replacing a page by one with the same draft slot.\<close>

lemma slots_ok_replace:
  assumes "slots_ok t" and "fmlookup (physical t) p = Some pg"
    and "pp_draft_local_page_id pg' = pp_draft_local_page_id pg"
    and "physical t' = fmupd p pg' (physical t)" and "pt_config t' = pt_config t"
    and "free_target t' = free_target t" and "free_draft t' = free_draft t"
    and "quarantined_target t' = quarantined_target t" and "quarantined_draft t' = quarantined_draft t"
  shows "slots_ok t'"
  using assms slots_ok_rank [OF assms(1,2)]
  by (simp add: slots_ok_def target_used_upd_same draft_used_upd_same drafts_apart_upd_same)

text \<open>A free target id names no page.\<close>

lemma slots_ok_unused:
  assumes "slots_ok t" and "r < 4" and "i \<in> free_target t r"
  shows "fmlookup (physical t) \<lparr>pid_owner_rank = r, pid_target_local_page_id = i\<rparr> = None" (is "fmlookup _ ?p = None")
  using ledger_not_used [OF slots_ok_ledgers(1) [OF assms(1,2)]] assms(3) target_used_mem [of "physical t" ?p]
  by (cases "fmlookup (physical t) ?p") auto

text \<open>A free target id and, for MTP, a free draft id become a page.\<close>

lemma slots_ok_take:
  assumes "slots_ok t" and "r < 4" and "i \<in> free_target t r"
    and "case d of None \<Rightarrow> True | Some x \<Rightarrow> x \<in> free_draft t r"
    and "p = \<lparr>pid_owner_rank = r, pid_target_local_page_id = i\<rparr>" and "pp_draft_local_page_id pg = d"
    and "physical t' = fmupd p pg (physical t)" and "pt_config t' = pt_config t"
    and "free_target t' = (free_target t)(r := free_target t r - {i})"
    and "free_draft t' = (free_draft t)(r := free_draft t r - set_option d)"
    and "quarantined_target t' = quarantined_target t" and "quarantined_draft t' = quarantined_draft t"
  shows "slots_ok t'"
proof -
  note led = slots_ok_ledgers [OF assms(1)]
  have none: "fmlookup (physical t) p = None" using slots_ok_unused [OF assms(1-3)] assms(5) by simp
  have apart: "set_option d \<inter> draft_used (physical t) r = {}"
    using ledger_not_used [OF led(2) [OF assms(2)]] assms(4) by (auto split: option.splits)
  have d: "ledger (draft_pages_per_rank (pt_config t)) (free_draft t r - set_option d) (quarantined_draft t r)
      (set_option d \<union> draft_used (physical t) r)"
    using led(2) [OF assms(2)] ledger_take [OF led(2) [OF assms(2)]] assms(4) by (cases d) auto
  have t: "ledger (target_pages_per_rank (pt_config t)) (free_target t r - {i}) (quarantined_target t r)
      (insert i (target_used (physical t) r))"
    by (rule ledger_take [OF led(1) [OF assms(2)] assms(3)])
  have "drafts_apart (fmupd p pg (physical t))"
    using assms(1,5,6) apart by (intro drafts_apart_fresh) (auto simp: slots_ok_def)
  then show ?thesis
    using assms d t led none by (auto simp: slots_ok_def target_used_upd draft_used_new)
qed

text \<open>A resident page gets a free draft id.\<close>

lemma slots_ok_fill:
  assumes "slots_ok t" and "fmlookup (physical t) p = Some pg" and "pp_draft_local_page_id pg = None"
    and "d \<in> free_draft t (pid_owner_rank p)" and "pp_draft_local_page_id pg' = Some d"
    and "physical t' = fmupd p pg' (physical t)" and "pt_config t' = pt_config t"
    and "free_target t' = free_target t"
    and "free_draft t' = (free_draft t)(pid_owner_rank p := free_draft t (pid_owner_rank p) - {d})"
    and "quarantined_target t' = quarantined_target t" and "quarantined_draft t' = quarantined_draft t"
  shows "slots_ok t'"
proof -
  note r = slots_ok_rank [OF assms(1,2)]
  note led = slots_ok_ledgers(2) [OF assms(1) r]
  have "drafts_apart (fmupd p pg' (physical t))"
    using assms(1,4,5) ledger_not_used [OF led] by (intro drafts_apart_fresh) (auto simp: slots_ok_def)
  then show ?thesis
    using assms r ledger_take [OF led assms(4)]
    by (auto simp: slots_ok_def target_used_upd_same draft_used_upd_fill)
qed

text \<open>A page leaves the map and its ids go to quarantine.\<close>

lemma slots_ok_retire:
  assumes "slots_ok t" and "fmlookup (physical t) p = Some pg" and "r = pid_owner_rank p"
    and "physical t' = fmdrop p (physical t)" and "pt_config t' = pt_config t"
    and "free_target t' = free_target t" and "free_draft t' = free_draft t"
    and "quarantined_target t' = (quarantined_target t)(r := insert (pid_target_local_page_id p) (quarantined_target t r))"
    and "quarantined_draft t' = (quarantined_draft t)(r := set_option (pp_draft_local_page_id pg) \<union> quarantined_draft t r)"
  shows "slots_ok t'"
proof -
  have r: "r < 4" using slots_ok_rank [OF assms(1,2)] assms(3) by simp
  note led = slots_ok_ledgers [OF assms(1) r]
  have d: "ledger (draft_pages_per_rank (pt_config t)) (free_draft t r)
      (set_option (pp_draft_local_page_id pg) \<union> quarantined_draft t r)
      (draft_used (physical t) r - set_option (pp_draft_local_page_id pg))"
    using led(2) ledger_retire [OF led(2)] draft_used_mem [OF assms(2)] assms(3)
    by (cases "pp_draft_local_page_id pg") auto
  have t: "ledger (target_pages_per_rank (pt_config t)) (free_target t r)
      (insert (pid_target_local_page_id p) (quarantined_target t r))
      (target_used (physical t) r - {pid_target_local_page_id p})"
    using ledger_retire [OF led(1)] target_used_mem [OF assms(2)] assms(3) by simp
  have "drafts_apart (physical t)" using assms(1) by (simp add: slots_ok_def)
  then show ?thesis
    using assms d t by (auto simp: slots_ok_def target_used_drop draft_used_drop drafts_apart_drop)
qed

lemma refs_ok_replace:
  assumes "refs_ok xs m ss" and "page_wf pg'"
    and "pp_references pg' = refcount ss p + count_list xs' p"
    and "\<And>q. q \<noteq> p \<Longrightarrow> count_list xs' q = count_list xs q"
  shows "refs_ok xs' (fmupd p pg' m) ss"
proof (rule refs_okI)
  fix q pg assume "fmlookup (fmupd p pg' m) q = Some pg"
  then show "page_wf pg \<and> pp_references pg = refcount ss q + count_list xs' q"
    using assms refs_okD [OF assms(1)] by (cases "q = p") auto
next
  fix q assume "fmlookup (fmupd p pg' m) q = None"
  then show "refcount ss q + count_list xs' q = 0"
    using assms(4) refs_ok_None [OF assms(1), of q] by (cases "q = p") auto
qed

lemma refs_ok_drop:
  assumes "refs_ok (p # xs) m ss" and "fmlookup m p = Some pg" and "pp_references pg = 1"
  shows "refs_ok xs (fmdrop p m) ss"
proof (rule refs_okI)
  have zero: "refcount ss p + count_list xs p = 0"
    using refs_okD [OF assms(1,2)] assms(3) by simp
  fix q
  show "page_wf qg \<and> pp_references qg = refcount ss q + count_list xs q"
    if "fmlookup (fmdrop p m) q = Some qg" for qg
    using that refs_okD [OF assms(1), of q qg] by (auto split: if_splits)
  show "refcount ss q + count_list xs q = 0" if "fmlookup (fmdrop p m) q = None"
    using that zero refs_ok_None [OF assms(1), of q] by (auto split: if_splits)
qed

lemma refs_ok_counts:
  assumes "refs_ok xs m ss"
    and "\<And>p. refcount ss' p + count_list xs' p = refcount ss p + count_list xs p"
  shows "refs_ok xs' m ss'"
  using assms(1) unfolding refs_ok_def assms(2) .

lemma prefix_of_upd [simp]: "prefix_of (fmupd p pg m) = (prefix_of m)(p := pp_prefix pg)"
  by (auto simp: prefix_of_def)

lemma prefix_of_drop [simp]: "prefix_of (fmdrop p m) = (prefix_of m)(p := None)"
  by (auto simp: prefix_of_def)

lemma prefix_of_Some: "fmlookup m p = Some pg \<Longrightarrow> prefix_of m p = pp_prefix pg"
  by (simp add: prefix_of_def)

lemma prefix_of_None: "fmlookup m p = None \<Longrightarrow> prefix_of m p = None"
  by (simp add: prefix_of_def)

lemma published_upgrade:
  assumes "published g ps" and "g p = Some (a, ord)" and "at_key a' = at_key a"
  shows "published (g(p := Some (a', ord))) ps"
  using assms unfolding published_def by auto

lemma published_publish:
  assumes "published g ps" and "g p = None" and "fmlookup ps (at_key a) = None"
    and "pid_owner_rank p = owner_rank ord"
  shows "published (g(p := Some (a, ord))) (fmupd (at_key a) p ps)"
proof -
  have "at_key b \<noteq> at_key a" if "g q = Some (b, ord')" for q b ord'
    using assms(1,3) that unfolding published_def by (metis option.distinct(1))
  then show ?thesis using assms unfolding published_def by auto
qed

lemma published_key: "published g ps \<Longrightarrow> g p = Some (a, ord) \<Longrightarrow> fmlookup ps (at_key a) = Some p"
  by (auto simp: published_def)

lemma published_rank: "published g ps \<Longrightarrow> g p = Some (a, ord) \<Longrightarrow> pid_owner_rank p = owner_rank ord"
  by (auto simp: published_def)

lemma published_page: "published g ps \<Longrightarrow> fmlookup ps k = Some p \<Longrightarrow> \<exists>a ord. g p = Some (a, ord) \<and> at_key a = k"
  by (auto simp: published_def)

lemma published_unpublish:
  assumes "published g ps" and "g p = Some (a, ord)"
  shows "published (g(p := None)) (fmdrop (at_key a) ps)"
proof -
  have "at_key b = at_key a \<longleftrightarrow> q = p" if "g q = Some (b, ord')" for q b ord'
    using published_key [OF assms] published_key [OF assms(1) that] that assms(2) by auto
  then show ?thesis using assms unfolding published_def by auto
qed

section \<open>Positions\<close>

lemma fits_at_page:
  assumes "aligned m ss" and "fmlookup ss s = Some sq" and "i < length (sq_pages sq)"
  shows "fits_at m ss (sp_physical (sq_pages sq ! i)) i"
proof -
  let ?p = "sp_physical (sq_pages sq ! i)"
  obtain j where j: "fits_at m ss ?p j" using assms(1) by (auto simp: aligned_def)
  moreover have "i \<in> positions ss ?p" using assms(2,3) by (auto simp: positions_def)
  ultimately have "i = j" by (auto simp: fits_at_def)
  with j show ?thesis by simp
qed

lemma fits_at_mono:
  "fits_at m ss p i \<Longrightarrow> positions ss' p \<subseteq> positions ss p \<Longrightarrow> prefix_of m' p = prefix_of m p \<or> prefix_of m' p = None \<Longrightarrow>
     fits_at m' ss' p i"
  unfolding fits_at_def by (metis option.distinct(1) subset_trans)

lemma aligned_mono:
  assumes "aligned m ss" and "\<And>p. positions ss' p \<subseteq> positions ss p"
    and "\<And>p. prefix_of m' p = prefix_of m p \<or> prefix_of m' p = None"
  shows "aligned m' ss'"
  using assms fits_at_mono unfolding aligned_def by metis

lemma aligned_prefix:
  assumes "aligned m ss" and "fits_at m' ss p i" and "\<And>q. q \<noteq> p \<Longrightarrow> prefix_of m' q = prefix_of m q"
  shows "aligned m' ss"
  unfolding aligned_def
proof
  fix q show "\<exists>i. fits_at m' ss q i"
    using assms fits_at_mono [of m ss q _ ss m'] unfolding aligned_def by (cases "q = p") blast+
qed

lemma positions_drop: "positions (fmdrop s ss) p \<subseteq> positions ss p"
  by (auto simp: positions_def split: if_splits)

lemma positions_upd:
  "i \<in> positions (fmupd s sq ss) p \<Longrightarrow> i \<in> positions ss p \<or> (i < length (sq_pages sq) \<and> sp_physical (sq_pages sq ! i) = p)"
  by (auto simp: positions_def split: if_splits)

lemma positions_unreferenced:
  assumes "refcount ss p = 0" shows "positions ss p = {}"
proof -
  have "i \<notin> positions ss p" for i
  proof
    assume "i \<in> positions ss p"
    then obtain s sq where "fmlookup ss s = Some sq" "p \<in> set (page_ids sq)" by (auto simp: positions_def)
    then show False using refcount_pos [of ss s sq p] assms by simp
  qed
  then show ?thesis by blast
qed

lemma aligned_upd:
  assumes "aligned m ss" and "distinct (page_ids sq)"
    and "\<And>i. i < length (sq_pages sq) \<Longrightarrow> fits_at m ss (sp_physical (sq_pages sq ! i)) i"
  shows "aligned m (fmupd s sq ss)"
  unfolding aligned_def
proof
  fix p
  show "\<exists>i. fits_at m (fmupd s sq ss) p i"
  proof (cases "p \<in> set (page_ids sq)")
    case True
    then obtain i where i: "i < length (sq_pages sq)" "sp_physical (sq_pages sq ! i) = p"
      by (auto simp: in_set_conv_nth)
    have "j = i" if "j < length (sq_pages sq)" "sp_physical (sq_pages sq ! j) = p" for j
      using assms(2) i that nth_eq_iff_index_eq [of "page_ids sq" j i] by simp
    then have "positions (fmupd s sq ss) p \<subseteq> {i}"
      using assms(3) [OF i(1)] i(2) positions_upd [of _ s sq ss p] by (auto simp: fits_at_def)
    then show ?thesis using assms(3) [OF i(1)] i(2) by (auto simp: fits_at_def)
  next
    case False
    then have "positions (fmupd s sq ss) p \<subseteq> positions ss p"
      using positions_upd [of _ s sq ss p] by (force simp: in_set_conv_nth)
    then show ?thesis using assms(1) fits_at_mono [of m ss p] unfolding aligned_def by blast
  qed
qed

end
