(* ===== verification/Page_Table_Own.thy ===== *)
theory Page_Table_Own
  imports Page_Table_Inv
begin

text \<open>
  The page table's primitive moves and what each does to ownership: allocating a page,
  replacing one, taking another reference, releasing one, and putting pages into a
  sequence or taking them out. Every operation of the table is a composition of these.
\<close>

lemma ownedD:
  assumes "owned xs t"
  shows "slots_ok t" "refs_ok xs (physical t) (sequences t)" "prefix_ok (physical t) (prefixes t)"
    "aligned (physical t) (sequences t)"
  using assms by (simp_all add: owned_def)

lemma owned_distinct: "owned xs t \<Longrightarrow> fmlookup (sequences t) s = Some sq \<Longrightarrow> distinct (page_ids sq)"
  by (auto simp: owned_def)

lemma owned_free_finite:
  assumes "owned xs t" and "r < 4" shows "finite (free_target t r)" "finite (free_draft t r)"
  using slots_ok_ledgers [OF ownedD(1) [OF assms(1)] assms(2)] ledger_finite by blast+

lemma owned_resident:
  assumes "owned xs t" and "fmlookup (sequences t) s = Some sq" and "p \<in> set (page_ids sq)"
  shows "\<exists>pg. fmlookup (physical t) p = Some pg"
  using counted_resident [OF ownedD(2) [OF assms(1)]] refcount_pos [OF assms(2,3)] by simp

lemma owned_held: "owned (p # xs) t \<Longrightarrow> \<exists>pg. fmlookup (physical t) p = Some pg"
  by (rule counted_resident [OF ownedD(2)]) auto

lemma owned_wf: "owned xs t \<Longrightarrow> fmlookup (physical t) p = Some pg \<Longrightarrow> page_wf pg"
  using refs_okD [OF ownedD(2)] by blast

text \<open>What every page move keeps: the configuration and the bound generation; no id becomes
  free and no id leaves quarantine.\<close>

definition frame :: "page_table \<Rightarrow> page_table \<Rightarrow> bool" where
  "frame t t' \<longleftrightarrow> pt_config t' = pt_config t \<and> quarantine_generation t' = quarantine_generation t
     \<and> (\<forall>r. free_target t' r \<subseteq> free_target t r) \<and> (\<forall>r. free_draft t' r \<subseteq> free_draft t r)
     \<and> (\<forall>r. quarantined_target t r \<subseteq> quarantined_target t' r)
     \<and> (\<forall>r. quarantined_draft t r \<subseteq> quarantined_draft t' r)"

lemma frame_refl [simp]: "frame t t"
  by (simp add: frame_def)

lemma frame_trans: "frame t t' \<Longrightarrow> frame t' t'' \<Longrightarrow> frame t t''"
  unfolding frame_def by (simp, blast)

text \<open>An operation on sequence \<open>s\<close> leaves the other sequences as they were.\<close>

definition only :: "nat \<Rightarrow> page_table \<Rightarrow> page_table \<Rightarrow> bool" where
  "only s t t' \<longleftrightarrow> frame t t' \<and> (\<forall>s'. s' \<noteq> s \<longrightarrow> fmlookup (sequences t') s' = fmlookup (sequences t) s')"

lemma only_refl [simp]: "only s t t"
  by (simp add: only_def)

lemma only_trans: "only s t t' \<Longrightarrow> only s t' t'' \<Longrightarrow> only s t t''"
  by (simp add: only_def frame_trans [of t t' t''])

lemma set_page_simps [simp]:
  "physical (set_page p pg t) = fmupd p pg (physical t)" "sequences (set_page p pg t) = sequences t"
  "frame t (set_page p pg t)" "only s t (set_page p pg t)"
  by (simp_all add: set_page_def frame_def only_def)

lemma set_sequence_simps [simp]:
  "sequences (set_sequence s sq t) = fmupd s sq (sequences t)" "physical (set_sequence s sq t) = physical t"
  "prefixes (set_sequence s sq t) = prefixes t"
  "frame t (set_sequence s sq t)" "only s t (set_sequence s sq t)"
  by (simp_all add: set_sequence_def frame_def only_def)

section \<open>Pages\<close>

definition fresh_page :: "nat option \<Rightarrow> physical_page" where
  "fresh_page d = \<lparr>pp_draft_local_page_id = d, pp_state = HbmMutable, pp_valid_tokens = 0,
     pp_references = 1, pp_prefix = None\<rparr>"

lemma fresh_page_simps [simp]:
  "pp_draft_local_page_id (fresh_page d) = d" "pp_state (fresh_page d) = HbmMutable"
  "pp_valid_tokens (fresh_page d) = 0" "pp_references (fresh_page d) = 1" "pp_prefix (fresh_page d) = None"
  "page_wf (fresh_page d)"
  by (simp_all add: fresh_page_def page_wf_def)

text \<open>What a successful allocation gives: an id that was not in use, held by the caller.\<close>

definition allocated :: "physical_page_id list \<Rightarrow> nat \<Rightarrow> bool \<Rightarrow> page_table \<Rightarrow>
    page_table \<times> physical_page_id \<Rightarrow> bool" where
  "allocated xs ordinal mtp t r = (case r of (t', p) \<Rightarrow>
     owned (p # xs) t' \<and> fmlookup (physical t) p = None \<and> pid_owner_rank p = owner_rank ordinal
     \<and> (\<exists>d. physical t' = fmupd p (fresh_page d) (physical t) \<and> (mtp \<longleftrightarrow> d \<noteq> None))
     \<and> refcount (sequences t) p = 0 \<and> sequences t' = sequences t \<and> prefixes t' = prefixes t \<and> frame t t')"

lemma allocate_step:
  assumes "owned xs t" and "i \<in> free_target t (owner_rank n)"
    and "case d of None \<Rightarrow> True | Some x \<Rightarrow> x \<in> free_draft t (owner_rank n)" and "mtp \<longleftrightarrow> d \<noteq> None"
    and "p = \<lparr>pid_owner_rank = owner_rank n, pid_target_local_page_id = i\<rparr>"
    and "physical t' = fmupd p (fresh_page d) (physical t)"
    and "free_target t' = (free_target t)(owner_rank n := free_target t (owner_rank n) - {i})"
    and "free_draft t' = (free_draft t)(owner_rank n := free_draft t (owner_rank n) - set_option d)"
    and "quarantined_target t' = quarantined_target t" "quarantined_draft t' = quarantined_draft t"
    and "sequences t' = sequences t" "prefixes t' = prefixes t" "frame t t'"
  shows "allocated xs n mtp t (t', p)"
proof -
  have none: "fmlookup (physical t) p = None"
    using slots_ok_unused [OF ownedD(1) [OF assms(1)] owner_rank_less assms(2)] assms(5) by simp
  have "slots_ok t'"
    using slots_ok_take [OF ownedD(1) [OF assms(1)] owner_rank_less assms(2,3,5) _ assms(6)] assms(7-10,13)
    by (auto simp: frame_def)
  moreover have zero: "refcount (sequences t) p + count_list xs p = 0"
    by (rule refs_ok_None [OF ownedD(2) [OF assms(1)] none])
  then have "refs_ok (p # xs) (fmupd p (fresh_page d) (physical t)) (sequences t)"
    by (intro refs_ok_replace [OF ownedD(2) [OF assms(1)]]) auto
  moreover have "(prefix_of (physical t))(p := None) = prefix_of (physical t)"
    using prefix_of_None [OF none] by auto
  ultimately show ?thesis
    using assms none zero aligned_mono [OF ownedD(4) [OF assms(1)] subset_refl, of "fmupd p (fresh_page d) (physical t)"]
    by (auto simp: allocated_def owned_def)
qed

lemma allocate_page_ok:
  assumes "owned xs t"
  shows "returns {Err Capacity} (allocated xs n mtp t) (allocate_page n mtp t)"
proof -
  let ?r = "owner_rank n"
  note fin = owned_free_finite [OF assms owner_rank_less [of n]]
  have fresh: "\<lparr>pp_draft_local_page_id = d, pp_state = HbmMutable, pp_valid_tokens = 0,
     pp_references = 1, pp_prefix = None\<rparr> = fresh_page d" for d by (simp add: fresh_page_def)
  have free: "transition Free HbmMutable = Inr HbmMutable"
    by (simp add: transition_def legal_transition_def)
  have absent: "fmlookup (physical t) \<lparr>pid_owner_rank = ?r, pid_target_local_page_id = i\<rparr> = None"
    if "i \<in> free_target t ?r" for i
    by (rule slots_ok_unused [OF ownedD(1) [OF assms] owner_rank_less that])
  show ?thesis
    unfolding allocate_page_def Let_def
    apply (rule returns_rbind [where Q = "\<lambda>(i, S). i \<in> free_target t ?r \<and> S = free_target t ?r - {i}"])
     apply (rule returns_ok_or; auto dest: pop_first_Some(1,2) [OF _ fin(1)])
    apply clarify
    apply (rule returns_rbind [where Q = "\<lambda>(d, f). (mtp \<longleftrightarrow> d \<noteq> None) \<and> (case d of None \<Rightarrow> True | Some x \<Rightarrow> x \<in> free_draft t ?r)
        \<and> f = (free_draft t)(?r := free_draft t ?r - set_option d)"])
     apply (cases mtp)
      apply (simp, rule returns_rbind [where Q = "\<lambda>(i, S). i \<in> free_draft t ?r \<and> S = free_draft t ?r - {i}"])
       apply (rule returns_ok_or; auto dest: pop_first_Some(1,2) [OF _ fin(2)])
      apply auto[2]
    apply (clarsimp simp: free absent fresh)
    apply (rule allocate_step [OF assms]; simp add: frame_def fresh_page_def)
    done
qed

text \<open>Replacing a resident page: same slots, same prefix.\<close>

lemma owned_set_page:
  assumes "owned xs t" and "fmlookup (physical t) p = Some pg" and "page_wf pg'"
    and "pp_draft_local_page_id pg' = pp_draft_local_page_id pg" and "pp_prefix pg' = pp_prefix pg"
    and "pp_references pg' = pp_references pg"
  shows "owned xs (set_page p pg' t)"
proof -
  have "slots_ok (set_page p pg' t)"
    by (rule slots_ok_replace [OF ownedD(1) [OF assms(1)] assms(2,4)]) (simp_all add: set_page_def)
  moreover have "refs_ok xs (fmupd p pg' (physical t)) (sequences t)"
    using assms(3,6) refs_okD [OF ownedD(2) [OF assms(1)] assms(2)]
    by (intro refs_ok_replace [OF ownedD(2) [OF assms(1)]]) auto
  moreover have "(prefix_of (physical t))(p := pp_prefix pg') = prefix_of (physical t)"
    using prefix_of_Some [OF assms(2)] assms(5) by auto
  ultimately show ?thesis
    using assms(1) aligned_mono [OF ownedD(4) [OF assms(1)] subset_refl, of "fmupd p pg' (physical t)"]
    by (simp add: owned_def set_page_def)
qed

text \<open>Another reference to a sealed page.\<close>

lemma owned_hold:
  assumes "owned xs t" and "fmlookup (physical t) p = Some pg" and "pp_state pg = HbmSealed"
    and "pp_references pg + 1 < 2 ^ 32"
  shows "owned (p # xs) (set_page p (pg\<lparr>pp_references := pp_references pg + 1\<rparr>) t)" (is "owned _ (set_page _ ?pg t)")
proof -
  have "slots_ok (set_page p ?pg t)"
    by (rule slots_ok_replace [OF ownedD(1) [OF assms(1)] assms(2)]) (simp_all add: set_page_def)
  moreover have "refs_ok (p # xs) (fmupd p ?pg (physical t)) (sequences t)"
    using assms(3,4) refs_okD [OF ownedD(2) [OF assms(1)] assms(2)]
    by (intro refs_ok_replace [OF ownedD(2) [OF assms(1)]]) (auto simp: page_wf_def)
  moreover have "(prefix_of (physical t))(p := pp_prefix ?pg) = prefix_of (physical t)"
    using prefix_of_Some [OF assms(2)] by auto
  ultimately show ?thesis
    using assms(1) aligned_mono [OF ownedD(4) [OF assms(1)] subset_refl, of "fmupd p ?pg (physical t)"]
    by (simp add: owned_def set_page_def)
qed

text \<open>A resident page without draft gets a free draft slot.\<close>

lemma owned_fill_draft:
  assumes "owned xs t" and "fmlookup (physical t) p = Some pg" and "pp_draft_local_page_id pg = None"
    and "d \<in> free_draft t (pid_owner_rank p)"
  shows "owned xs (t\<lparr>free_draft := (free_draft t)(pid_owner_rank p := free_draft t (pid_owner_rank p) - {d}),
           physical := fmupd p (pg\<lparr>pp_draft_local_page_id := Some d\<rparr>) (physical t)\<rparr>)" (is "owned xs ?t")
proof -
  have "slots_ok ?t"
    by (rule slots_ok_fill [OF ownedD(1) [OF assms(1)] assms(2,3,4)]) simp_all
  moreover have "refs_ok xs (fmupd p (pg\<lparr>pp_draft_local_page_id := Some d\<rparr>) (physical t)) (sequences t)"
    using refs_okD [OF ownedD(2) [OF assms(1)] assms(2)]
    by (intro refs_ok_replace [OF ownedD(2) [OF assms(1)]]) (auto simp: page_wf_def)
  moreover have "(prefix_of (physical t))(p := pp_prefix pg) = prefix_of (physical t)"
    using prefix_of_Some [OF assms(2)] by auto
  ultimately show ?thesis
    using assms(1) aligned_mono [OF ownedD(4) [OF assms(1)] subset_refl, of "fmupd p (pg\<lparr>pp_draft_local_page_id := Some d\<rparr>) (physical t)"]
    by (simp add: owned_def)
qed

text \<open>A page's attachment is replaced by one under the same key.\<close>

lemma owned_upgrade:
  assumes "owned xs t" and "fmlookup (physical t) p = Some pg" and "pp_prefix pg = Some (a, ord)"
    and "at_key a' = at_key a"
  shows "owned xs (set_page p (pg\<lparr>pp_prefix := Some (a', ord)\<rparr>) t)" (is "owned xs (set_page p ?pg t)")
proof -
  have "slots_ok (set_page p ?pg t)"
    by (rule slots_ok_replace [OF ownedD(1) [OF assms(1)] assms(2)]) (simp_all add: set_page_def)
  moreover have "refs_ok xs (fmupd p ?pg (physical t)) (sequences t)"
    using refs_okD [OF ownedD(2) [OF assms(1)] assms(2)] assms(3)
    by (intro refs_ok_replace [OF ownedD(2) [OF assms(1)]]) (auto simp: page_wf_def)
  moreover have "published ((prefix_of (physical t))(p := Some (a', ord))) (prefixes t)"
    using published_upgrade [OF ownedD(3) [OF assms(1)] _ assms(4)] prefix_of_Some [OF assms(2)] assms(3) by simp
  moreover have "aligned (fmupd p ?pg (physical t)) (sequences t)"
  proof -
    obtain i where "fits_at (physical t) (sequences t) p i" using ownedD(4) [OF assms(1)] by (auto simp: aligned_def)
    then have "fits_at (fmupd p ?pg (physical t)) (sequences t) p i"
      using prefix_of_Some [OF assms(2)] assms(3) by (simp add: fits_at_def)
    then show ?thesis by (rule aligned_prefix [OF ownedD(4) [OF assms(1)]]) simp
  qed
  ultimately show ?thesis
    using assms(1) by (simp add: owned_def set_page_def)
qed

text \<open>A full page is sealed and published under a key nobody has.\<close>

lemma owned_publish:
  assumes "owned xs t" and "fmlookup (physical t) p = Some pg" and "pp_prefix pg = None"
    and "fmlookup (prefixes t) (at_key a) = None" and "pid_owner_rank p = owner_rank ord"
    and "refcount (sequences t) p = 0"
  shows "owned xs (t\<lparr>physical := fmupd p (pg\<lparr>pp_valid_tokens := 64, pp_state := HbmSealed,
           pp_prefix := Some (a, ord)\<rparr>) (physical t), prefixes := fmupd (at_key a) p (prefixes t)\<rparr>)"
    (is "owned xs ?t")
proof -
  have "slots_ok ?t"
    by (rule slots_ok_replace [OF ownedD(1) [OF assms(1)] assms(2)]) simp_all
  moreover have "refs_ok xs (physical ?t) (sequences t)"
    using refs_okD [OF ownedD(2) [OF assms(1)] assms(2)]
    by (simp, intro refs_ok_replace [OF ownedD(2) [OF assms(1)]]) (auto simp: page_wf_def)
  moreover have "published ((prefix_of (physical t))(p := Some (a, ord))) (fmupd (at_key a) p (prefixes t))"
    using published_publish [OF ownedD(3) [OF assms(1)] _ assms(4,5)] prefix_of_Some [OF assms(2)] assms(3) by simp
  moreover have "aligned (physical ?t) (sequences t)"
    using positions_unreferenced [OF assms(6)]
    by (intro aligned_prefix [OF ownedD(4) [OF assms(1)], of _ p ord]) (simp_all add: fits_at_def)
  ultimately show ?thesis
    using assms(1) by (simp add: owned_def)
qed

section \<open>Releasing a page\<close>

text \<open>What releasing a held page does: the free sets are untouched, and a page somebody still
  references stays as it was.\<close>

definition released :: "physical_page_id \<Rightarrow> physical_page_id list \<Rightarrow> page_table \<Rightarrow> page_table \<Rightarrow> bool" where
  "released p xs t t' \<longleftrightarrow> owned xs t' \<and> sequences t' = sequences t \<and> frame t t'
     \<and> free_target t' = free_target t \<and> free_draft t' = free_draft t
     \<and> kept {q. q \<noteq> p \<or> 0 < refcount (sequences t) q + count_list xs q} (physical t) (physical t')"

lemma release_shared:
  assumes "owned (p # xs) t" and "fmlookup (physical t) p = Some pg" and "pp_references pg \<noteq> 1"
  shows "released p xs t (t\<lparr>physical := fmupd p (pg\<lparr>pp_references := pp_references pg - 1\<rparr>) (physical t)\<rparr>)"
    (is "released p xs t ?t")
proof -
  note refs = refs_okD [OF ownedD(2) [OF assms(1)] assms(2)]
  have "slots_ok ?t"
    by (rule slots_ok_replace [OF ownedD(1) [OF assms(1)] assms(2)]) simp_all
  moreover have "refs_ok xs (physical ?t) (sequences t)"
    using refs assms(3)
    by (simp, intro refs_ok_replace [OF ownedD(2) [OF assms(1)]]) (auto simp: page_wf_def)
  moreover have "(prefix_of (physical t))(p := pp_prefix pg) = prefix_of (physical t)"
    using prefix_of_Some [OF assms(2)] by auto
  moreover have "kept {q. q \<noteq> p \<or> 0 < refcount (sequences t) q + count_list xs q} (physical t) (physical ?t)"
    using assms(2) by (simp, intro kept_upd) (auto simp: page_kept_def)
  ultimately show ?thesis
    using assms(1) aligned_mono [OF ownedD(4) [OF assms(1)] subset_refl, of "physical ?t"]
    by (simp add: released_def owned_def frame_def)
qed

lemma release_last:
  assumes "owned (p # xs) t" and "fmlookup (physical t) p = Some pg" and "pp_references pg = 1"
  shows "\<exists>t'. retire_page p (pg\<lparr>pp_references := 0\<rparr>) t = Inr t' \<and> released p xs t t'"
proof -
  let ?r = "pid_owner_rank p" and ?i = "pid_target_local_page_id p"
  let ?ps = "case pp_prefix pg of None \<Rightarrow> prefixes t | Some (a, _) \<Rightarrow> fmdrop (at_key a) (prefixes t)"
  let ?t = "t\<lparr>physical := fmdrop p (physical t), prefixes := ?ps,
    quarantined_target := (quarantined_target t)(?r := insert ?i (quarantined_target t ?r)),
    quarantined_draft := (quarantined_draft t)(?r := set_option (pp_draft_local_page_id pg) \<union> quarantined_draft t ?r)\<rparr>"
  have r: "?r < 4" by (rule slots_ok_rank [OF ownedD(1) [OF assms(1)] assms(2)])
  note led = slots_ok_ledgers [OF ownedD(1) [OF assms(1)] r]
  have i: "?i \<notin> free_target t ?r" "?i \<notin> quarantined_target t ?r"
    using ledger_used [OF led(1)] target_used_mem [OF assms(2)] by auto
  have d: "x \<notin> free_draft t ?r \<and> x \<notin> quarantined_draft t ?r" if "pp_draft_local_page_id pg = Some x" for x
    using ledger_used [OF led(2)] draft_used_mem [OF assms(2) that] by auto
  have key: "fmlookup (prefixes t) (at_key a) = Some p" if "pp_prefix pg = Some (a, ord)" for a ord
    using published_key [OF ownedD(3) [OF assms(1)]] prefix_of_Some [OF assms(2)] that by simp
  have "retire_page p (pg\<lparr>pp_references := 0\<rparr>) t = Inr ?t"
    using r i d key unfolding retire_page_def Let_def
    by (cases "pp_prefix pg"; cases "pp_draft_local_page_id pg") (auto simp: fun_upd_idem)
  moreover have "slots_ok ?t"
    by (rule slots_ok_retire [OF ownedD(1) [OF assms(1)] assms(2) refl]) simp_all
  moreover have refs: "refs_ok xs (fmdrop p (physical t)) (sequences t)"
    by (rule refs_ok_drop [OF ownedD(2) [OF assms(1)] assms(2,3)])
  moreover have "published ((prefix_of (physical t))(p := None)) ?ps"
    using ownedD(3) [OF assms(1)] published_unpublish [OF ownedD(3) [OF assms(1)]] prefix_of_Some [OF assms(2)]
    by (cases "pp_prefix pg") (auto simp: fun_upd_idem)
  moreover have "kept {q. q \<noteq> p \<or> 0 < refcount (sequences t) q + count_list xs q} (physical t) (fmdrop p (physical t))"
    using refs_ok_None [OF refs, of p] by (auto simp: kept_def)
  moreover have "aligned (fmdrop p (physical t)) (sequences t)"
    by (rule aligned_mono [OF ownedD(4) [OF assms(1)] subset_refl]) simp
  ultimately show ?thesis
    using assms(1) by (auto simp: released_def owned_def frame_def)
qed

lemma release_page_ok:
  assumes "owned (p # xs) t"
  shows "\<exists>t'. release_page p t = Inr t' \<and> released p xs t t'"
proof -
  obtain pg where pg: "fmlookup (physical t) p = Some pg" using owned_held [OF assms] by blast
  have pos: "1 \<le> pp_references pg" using owned_wf [OF assms pg] by (auto simp: page_wf_def)
  show ?thesis
  proof (cases "pp_references pg = 1")
    case True
    then show ?thesis using release_last [OF assms pg] pg by (simp add: release_page_def checked_sub_def)
  next
    case False
    then show ?thesis using release_shared [OF assms pg] pg pos by (simp add: release_page_def checked_sub_def)
  qed
qed

section \<open>Sequences\<close>

lemma owned_set_sequence:
  assumes "owned xs t" and "fmlookup (sequences t) s = Some sq" and "distinct (page_ids sq')"
    and "\<And>p. count_list (page_ids sq') p + count_list xs' p = count_list (page_ids sq) p + count_list xs p"
    and "\<And>i. i < length (sq_pages sq') \<Longrightarrow> fits_at (physical t) (sequences t) (sp_physical (sq_pages sq' ! i)) i"
  shows "owned xs' (set_sequence s sq' t)"
proof -
  have "refs_ok xs' (physical t) (fmupd s sq' (sequences t))"
  proof (rule refs_ok_counts [OF ownedD(2) [OF assms(1)]])
    fix p show "refcount (fmupd s sq' (sequences t)) p + count_list xs' p = refcount (sequences t) p + count_list xs p"
      using refcount_upd [OF assms(2), of sq' p] assms(4) [of p] by linarith
  qed
  moreover have "s \<noteq> 0" using assms(1,2) by (auto simp: owned_def)
  moreover have "slots_ok (set_sequence s sq' t)"
    using ownedD(1) [OF assms(1)] by (simp add: slots_ok_def set_sequence_def)
  moreover have "aligned (physical t) (fmupd s sq' (sequences t))"
    by (rule aligned_upd [OF ownedD(4) [OF assms(1)] assms(3,5)])
  ultimately show ?thesis
    using assms(1,3) by (auto simp: owned_def set_sequence_def)
qed

lemma owned_new_sequence:
  assumes "owned xs t" and "fmlookup (sequences t) s = None" and "s \<noteq> 0" and "distinct (page_ids sq)"
    and "\<And>p. count_list (page_ids sq) p + count_list xs' p = count_list xs p"
    and "\<And>i. i < length (sq_pages sq) \<Longrightarrow> fits_at (physical t) (sequences t) (sp_physical (sq_pages sq ! i)) i"
  shows "owned xs' (set_sequence s sq t)"
proof -
  have "refs_ok xs' (physical t) (fmupd s sq (sequences t))"
  proof (rule refs_ok_counts [OF ownedD(2) [OF assms(1)]])
    fix p show "refcount (fmupd s sq (sequences t)) p + count_list xs' p = refcount (sequences t) p + count_list xs p"
      using refcount_new [OF assms(2), of sq p] assms(5) [of p] by linarith
  qed
  moreover have "slots_ok (set_sequence s sq t)"
    using ownedD(1) [OF assms(1)] by (simp add: slots_ok_def set_sequence_def)
  moreover have "aligned (physical t) (fmupd s sq (sequences t))"
    by (rule aligned_upd [OF ownedD(4) [OF assms(1)] assms(4,6)])
  ultimately show ?thesis
    using assms(1,3,4) by (auto simp: owned_def set_sequence_def)
qed

lemma owned_drop_sequence:
  assumes "owned [] t" and "fmlookup (sequences t) s = Some sq"
    and "\<And>p. count_list xs p = count_list (page_ids sq) p"
  shows "owned xs (t\<lparr>sequences := fmdrop s (sequences t)\<rparr>)"
proof -
  have "refs_ok xs (physical t) (fmdrop s (sequences t))"
  proof (rule refs_ok_counts [OF ownedD(2) [OF assms(1)]])
    fix p show "refcount (fmdrop s (sequences t)) p + count_list xs p = refcount (sequences t) p + count_list [] p"
      using refcount_drop [OF assms(2), of p] assms(3) [of p] by simp
  qed
  moreover have "slots_ok (t\<lparr>sequences := fmdrop s (sequences t)\<rparr>)"
    using ownedD(1) [OF assms(1)] by (simp add: slots_ok_def)
  moreover have "aligned (physical t) (fmdrop s (sequences t))"
    by (rule aligned_mono [OF ownedD(4) [OF assms(1)] positions_drop]) simp
  ultimately show ?thesis
    using assms(1) by (auto simp: owned_def split: if_splits)
qed

end
