(* ===== verification/Page_Table_Ops.thy ===== *)
theory Page_Table_Ops
  imports Page_Table_Own
begin

text \<open>
  The operations of the active page table keep its invariant. An operation on one sequence
  goes through states in which that sequence's pages have a layout of their own, given by
  the fill \<open>V\<close> and the state \<open>S\<close> of each page, while the other sequences stay well formed;
  \<open>working\<close> is the invariant of those states. Each operation is stated as a contract: the
  failures it can return, and what holds of the table it returns.
\<close>

section \<open>Working on one sequence\<close>

definition working :: "nat \<Rightarrow> sequence \<Rightarrow> (nat \<Rightarrow> nat) \<Rightarrow> (nat \<Rightarrow> page_state) \<Rightarrow> page_table \<Rightarrow> bool" where
  "working s sq V S t \<longleftrightarrow> owned [] t \<and> others_ok s t \<and> fmlookup (sequences t) s = Some sq
     \<and> laid (physical t) (sq_mtp sq) V S (sq_pages sq)"

lemma workingD:
  assumes "working s sq V S t"
  shows "owned [] t" "others_ok s t" "fmlookup (sequences t) s = Some sq"
    "laid (physical t) (sq_mtp sq) V S (sq_pages sq)"
  using assms by (simp_all add: working_def)

lemma working_page:
  assumes "working s sq V S t" and "i < length (sq_pages sq)"
  shows "\<exists>pg. fmlookup (physical t) (sp_physical (sq_pages sq ! i)) = Some pg \<and> pp_valid_tokens pg = V i
    \<and> pp_state pg = S i \<and> page_wf pg \<and> (sq_mtp sq \<longrightarrow> pp_draft_local_page_id pg \<noteq> None)"
  using workingD(4) [OF assms(1)] assms(2) owned_wf [OF workingD(1) [OF assms(1)]]
  unfolding laid_def page_is_def by blast

lemma working_cong:
  "working s sq V S t \<Longrightarrow> (\<And>i. i < length (sq_pages sq) \<Longrightarrow> V' i = V i \<and> S' i = S i) \<Longrightarrow> working s sq V' S' t"
  by (simp add: working_def laid_def)

lemma table_inv_working:
  "table_inv t \<Longrightarrow> fmlookup (sequences t) s = Some sq \<Longrightarrow>
     working s sq (fill (sq_committed_tokens sq) (reserved sq)) (mode (sq_committed_tokens sq) (reserved sq)) t
     \<and> length (sq_pages sq) = div_ceil (sq_committed_tokens sq + reserved sq) 64"
  by (auto simp: table_inv_def working_def others_ok_def seq_ok_def shape_def)

lemma working_table_inv:
  assumes "working s sq V S t" and "length (sq_pages sq) = div_ceil (sq_committed_tokens sq + reserved sq) 64"
    and "\<And>i. i < length (sq_pages sq) \<Longrightarrow>
      V i = fill (sq_committed_tokens sq) (reserved sq) i \<and> S i = mode (sq_committed_tokens sq) (reserved sq) i"
    and "sq_committed_tokens sq + reserved sq \<le> 1048576"
    and "case sq_tentative sq of None \<Rightarrow> True | Some tx \<Rightarrow> tentative_ok (sq_committed_tokens sq) tx"
  shows "table_inv t"
  using assms by (auto simp: table_inv_split [of t s] working_def seq_ok_def shape_def laid_def)

lemma working_fits:
  assumes "working s sq V S t" and "i < length (sq_pages sq)"
  shows "fits_at (physical t) (sequences t) (sp_physical (sq_pages sq ! i)) i"
  by (rule fits_at_page [OF ownedD(4) [OF workingD(1) [OF assms(1)]] workingD(3) [OF assms(1)] assms(2)])

lemma working_set_fields:
  assumes "working s sq V S t" and "sq_pages sq' = sq_pages sq" and "sq_mtp sq' = sq_mtp sq"
  shows "working s sq' V S (set_sequence s sq' t)"
proof -
  have "owned [] (set_sequence s sq' t)"
    using assms(2) owned_distinct [OF workingD(1,3) [OF assms(1)]] working_fits [OF assms(1)]
    by (intro owned_set_sequence [OF workingD(1,3) [OF assms(1)]]) simp_all
  moreover have "others_ok s (set_sequence s sq' t)"
    using workingD(2) [OF assms(1)] by (simp add: others_ok_def)
  ultimately show ?thesis using assms by (simp add: working_def)
qed

text \<open>A page of the sequence that is not sealed belongs to it alone.\<close>

lemma working_own:
  assumes "working s sq V S t" and "i < length (sq_pages sq)" and "p = sp_physical (sq_pages sq ! i)"
    and "fmlookup (physical t) p = Some pg" and "S i \<noteq> HbmSealed" and "v \<le> 64"
    and "st \<in> {HbmMutable, HbmTentative, HbmSealed}"
  shows "working s sq (V(i := v)) (S(i := st)) (set_page p (pg\<lparr>pp_state := st, pp_valid_tokens := v\<rparr>) t)"
    (is "working s sq _ _ (set_page p ?pg t)")
proof -
  note own = workingD(1) [OF assms(1)] and sq = workingD(3) [OF assms(1)]
  have mem: "p \<in> set (page_ids sq)" using assms(2,3) by auto
  obtain pg0 where "fmlookup (physical t) p = Some pg0" "pp_state pg0 = S i" "page_wf pg0"
    using working_page [OF assms(1,2)] assms(3) by auto
  then have st: "pp_state pg = S i" and wf: "page_wf pg" using assms(4) by auto
  then have one: "pp_references pg = 1" using assms(5) by (auto simp: page_wf_def)
  have noprefix: "pp_prefix pg = None" using wf st assms(5) by (cases "pp_prefix pg") (auto simp: page_wf_def)
  have "owned [] (set_page p ?pg t)"
    using wf one noprefix assms(6,7) by (intro owned_set_page [OF own assms(4)]) (auto simp: page_wf_def)
  moreover have "p \<notin> other_pages s t"
    using exclusive_page(2) [OF ownedD(2) [OF own] assms(4) one sq mem] by (auto simp: other_pages_def)
  then have "others_ok s (set_page p ?pg t)"
    by (intro others_ok_kept [OF workingD(2) [OF assms(1)]]) (simp_all add: kept_upd_other)
  moreover have "sp_physical (sq_pages sq ! j) \<noteq> p" if "j < length (sq_pages sq)" "j \<noteq> i" for j
    using owned_distinct [OF own sq] that assms(2,3) nth_eq_iff_index_eq [of "page_ids sq" j i] by simp
  moreover have "page_is (physical t) (sq_mtp sq) (V i) (S i) i (sq_pages sq ! i)"
    using workingD(4) [OF assms(1)] assms(2) by (simp add: laid_def)
  then have "page_is (fmupd p ?pg (physical t)) (sq_mtp sq) v st i (sq_pages sq ! i)"
    using assms(3,4) by (simp add: page_is_def)
  ultimately have "laid (physical (set_page p ?pg t)) (sq_mtp sq) (V(i := v)) (S(i := st)) (sq_pages sq)"
    using workingD(4) [OF assms(1)] by (simp add: laid_def page_is_upd_other)
  moreover note \<open>owned [] (set_page p ?pg t)\<close> \<open>others_ok s (set_page p ?pg t)\<close>
  ultimately show ?thesis using sq by (simp add: working_def)
qed

text \<open>Pushing an allocated page onto the sequence.\<close>

lemma working_push:
  assumes "working s sq V S t" and "allocated [] (length (sq_pages sq)) (sq_mtp sq) t (t1, p)"
    and "sq' = sq\<lparr>sq_pages := sq_pages sq @ [\<lparr>sp_ordinal = length (sq_pages sq), sp_physical = p\<rparr>]\<rparr>"
  shows "working s sq' (V(length (sq_pages sq) := 0)) (S(length (sq_pages sq) := HbmMutable)) (set_sequence s sq' t1)"
proof -
  let ?n = "length (sq_pages sq)"
  note own = workingD(1) [OF assms(1)] and sq = workingD(3) [OF assms(1)]
  from assms(2) obtain d where own1: "owned [p] t1" and new: "fmlookup (physical t) p = None"
    and rank: "pid_owner_rank p = owner_rank ?n" and seqs: "sequences t1 = sequences t"
    and phys: "physical t1 = fmupd p (fresh_page d) (physical t)" and d: "sq_mtp sq \<longleftrightarrow> d \<noteq> None"
    and zero: "refcount (sequences t) p = 0"
    by (auto simp: allocated_def)
  have "fits_at (physical t1) (sequences t) (sp_physical (sq_pages sq ! i)) i" if "i < ?n" for i
    using prefix_of_None [OF new] by (intro fits_at_mono [OF working_fits [OF assms(1) that] subset_refl]) (simp add: phys)
  then have fits: "fits_at (physical t1) (sequences t1) (sp_physical (sq_pages sq' ! i)) i" if "i < length (sq_pages sq')" for i
    using that positions_unreferenced [OF zero]
    by (auto simp: assms(3) seqs nth_append less_Suc_eq) (simp add: fits_at_def phys)
  have fresh: "p \<notin> set (page_ids sq)" using owned_resident [OF own sq, of p] new by auto
  have "owned [] (set_sequence s sq' t1)"
    using fresh owned_distinct [OF own sq] sq seqs fits assms(3)
    by (intro owned_set_sequence [OF own1, of s sq]) auto
  moreover have "others_ok s t1"
    by (rule others_ok_kept [OF workingD(2) [OF assms(1)]]) (simp_all add: seqs phys kept_upd_new new)
  then have "others_ok s (set_sequence s sq' t1)" by (simp add: others_ok_def)
  moreover have "page_is (physical t1) (sq_mtp sq) 0 HbmMutable ?n \<lparr>sp_ordinal = ?n, sp_physical = p\<rparr>"
    using rank d by (simp add: page_is_def phys)
  then have "laid (physical t1) (sq_mtp sq) (V(?n := 0)) (S(?n := HbmMutable)) (sq_pages sq')"
    using laid_kept [OF workingD(4) [OF assms(1)] kept_upd_new [OF new] subset_refl, of "fresh_page d"]
    by (auto simp: laid_def assms(3) phys nth_append less_Suc_eq)
  ultimately show ?thesis by (simp add: working_def assms(3))
qed

subsection \<open>Dropping pages from the end\<close>

lemma working_pop:
  assumes "working s sq V S t" and "sq_pages sq \<noteq> []" and "sq' = sq\<lparr>sq_pages := butlast (sq_pages sq)\<rparr>"
  shows "\<exists>t'. release_page (sp_physical (last (sq_pages sq))) (set_sequence s sq' t) = Inr t' \<and> working s sq' V S t'
    \<and> only s t t' \<and> free_target t' = free_target t \<and> free_draft t' = free_draft t"
proof -
  let ?p = "sp_physical (last (sq_pages sq))"
  note own = workingD(1) [OF assms(1)] and sq = workingD(3) [OF assms(1)]
  have split: "sq_pages sq = sq_pages sq' @ [last (sq_pages sq)]" using assms(2,3) by simp
  then have ids: "page_ids sq = page_ids sq' @ [?p]" by (metis list.simps(8,9) map_append)
  let ?t1 = "set_sequence s sq' t"
  have own1: "owned [?p] ?t1"
  proof (rule owned_set_sequence [OF own sq])
    fix i assume "i < length (sq_pages sq')"
    then show "fits_at (physical t) (sequences t) (sp_physical (sq_pages sq' ! i)) i"
      using working_fits [OF assms(1), of i] by (simp add: assms(3) nth_butlast)
  qed (use owned_distinct [OF own sq] ids in auto)
  then obtain t' where rel: "release_page ?p ?t1 = Inr t'" and r: "released ?p [] ?t1 t'"
    using release_page_ok by blast
  from r have own': "owned [] t'" and seqs: "sequences t' = sequences ?t1" and fr: "frame ?t1 t'"
    and free: "free_target t' = free_target ?t1" "free_draft t' = free_draft ?t1"
    and kp: "kept {q. 0 < refcount (sequences ?t1) q} (physical t) (physical t')"
    by (auto simp: released_def elim: kept_mono)
  have sub: "set (page_ids q) \<subseteq> {q. 0 < refcount (sequences ?t1) q}"
    if "fmlookup (sequences ?t1) s' = Some q" for s' q
    using refcount_pos [OF that] by auto
  have "others_ok s ?t1" using workingD(2) [OF assms(1)] by (simp add: others_ok_def)
  moreover have "other_pages s ?t1 \<subseteq> {q. 0 < refcount (sequences ?t1) q}"
    unfolding other_pages_def using sub by blast
  then have "kept (other_pages s ?t1) (physical ?t1) (physical t')" using kept_mono [OF kp] by simp
  ultimately have "others_ok s t'" by (rule others_ok_kept) (simp add: seqs)
  moreover have "laid (physical t) (sq_mtp sq) V S (sq_pages sq')"
    using workingD(4) [OF assms(1)] by (auto simp: laid_def assms(3) nth_butlast)
  then have "laid (physical t') (sq_mtp sq) V S (sq_pages sq')"
    using sub [of s sq'] by (intro laid_kept [OF _ kp]) auto
  ultimately show ?thesis
    using rel own' seqs fr free by (auto simp: working_def assms(3) frame_def only_def set_sequence_def)
qed

lemma working_pops:
  assumes "working s sq V S t" and "n \<le> length (sq_pages sq)"
  shows "\<exists>t'. pop_pages s n t = Inr t'
    \<and> working s (sq\<lparr>sq_pages := take (length (sq_pages sq) - n) (sq_pages sq)\<rparr>) V S t'
    \<and> only s t t' \<and> free_target t' = free_target t \<and> free_draft t' = free_draft t"
  using assms
proof (induction n arbitrary: sq t)
  case (Suc n)
  then have ne: "sq_pages sq \<noteq> []" by auto
  let ?sq = "sq\<lparr>sq_pages := butlast (sq_pages sq)\<rparr>"
  obtain t1 where t1: "release_page (sp_physical (last (sq_pages sq))) (set_sequence s ?sq t) = Inr t1"
      "working s ?sq V S t1" "only s t t1" "free_target t1 = free_target t" "free_draft t1 = free_draft t"
    using working_pop [OF Suc.prems(1) ne refl] by blast
  have le: "n \<le> length (sq_pages ?sq)" using Suc.prems(2) by simp
  obtain t' where t': "pop_pages s n t1 = Inr t'" "only s t1 t'" "free_target t' = free_target t1"
      "free_draft t' = free_draft t1"
      "working s (?sq\<lparr>sq_pages := take (length (sq_pages ?sq) - n) (sq_pages ?sq)\<rparr>) V S t'"
    using Suc.IH [OF t1(2) le] by blast
  have "?sq\<lparr>sq_pages := take (length (sq_pages ?sq) - n) (sq_pages ?sq)\<rparr> =
      sq\<lparr>sq_pages := take (length (sq_pages sq) - Suc n) (sq_pages sq)\<rparr>"
    using Suc.prems(2) by (simp add: take_butlast)
  moreover have "pop_pages s (Suc n) t = Inr t'"
    using t1(1) t'(1) ne workingD(3) [OF Suc.prems(1)] by simp
  ultimately show ?case
    using t1 t' only_trans [OF t1(3) t'(2)] by (intro exI [of _ t']) (simp del: pop_pages.simps)
qed simp

section \<open>Layout arithmetic\<close>

lemma div_ceil_64: "div_ceil n 64 = (n + 63) div 64"
proof (cases "n mod 64 = 0")
  case True
  then show ?thesis unfolding div_ceil_def by (auto elim!: dvdE simp: mod_eq_0_iff_dvd)
next
  case False
  have "n + 63 = n div 64 * 64 + (n mod 64 + 63)" by simp
  then have "(n + 63) div 64 = n div 64 + (n mod 64 + 63) div 64"
    by (metis add.commute div_mult_self3 zero_neq_numeral)
  moreover have "(n mod 64 + 63) div 64 = 1"
    using False mod_less_divisor [of 64 n] by (intro div_nat_eqI) auto
  ultimately show ?thesis using False by (simp add: div_ceil_def)
qed

lemma last_at: "length xs = Suc n \<Longrightarrow> xs \<noteq> [] \<and> last xs = xs ! n"
  by (cases "xs = []") (simp_all add: last_conv_nth)

lemma page_upd_swap:
  "pg\<lparr>pp_valid_tokens := v, pp_state := st\<rparr> = pg\<lparr>pp_state := st, pp_valid_tokens := v\<rparr>"
  by simp

lemma set_page_sequence: "set_page p pg (set_sequence s sq t) = set_sequence s sq (set_page p pg t)"
  by (simp add: set_page_def set_sequence_def)

lemma reserved_simps [simp]:
  "sq_tentative sq = None \<Longrightarrow> reserved sq = 0" "sq_tentative sq = Some tx \<Longrightarrow> reserved sq = reserved_tokens tx"
  by (simp_all add: reserved_def)

lemmas page_moves = transition_legal legal_transition_def

section \<open>Appending committed tokens\<close>

lemma fill_tail_ok:
  assumes "working s sq (fill c 0) (mode c 0) t" and "length (sq_pages sq) = div_ceil c 64"
  shows "\<exists>t' a. fill_tail sq n t = Inr (t', n - a) \<and> a \<le> n \<and> (a < n \<longrightarrow> 64 dvd c + a)
    \<and> working s sq (fill (c + a) 0) (mode (c + a) 0) t' \<and> div_ceil (c + a) 64 = length (sq_pages sq) \<and> only s t t'"
proof (cases "64 dvd c")
  case True
  show ?thesis
  proof (cases "sq_pages sq = []")
    case pages: False
    let ?i = "length (sq_pages sq) - 1"
    have i: "?i < length (sq_pages sq)" and last: "last (sq_pages sq) = sq_pages sq ! ?i"
      using pages by (simp_all add: last_conv_nth)
    have "c = 64 * length (sq_pages sq)" using True assms(2) by (auto simp: div_ceil_64 elim!: dvdE)
    moreover have "?i + 1 = length (sq_pages sq)" using pages by (cases "sq_pages sq") auto
    ultimately have "c = 64 * (?i + 1)" by (simp only:)
    then have "fill c 0 ?i = 64" "mode c 0 ?i = HbmSealed" by (simp_all add: fill_def mode_def)
    with working_page [OF assms(1) i] True assms show ?thesis
      by (intro exI [of _ t] exI [of _ 0]) (auto simp: fill_tail_def last)
  qed (use True assms in \<open>auto simp: fill_tail_def intro!: exI [of _ t] exI [of _ "0::nat"]\<close>)
next
  case False
  obtain q m where c: "c = 64 * q + m" "0 < m" "m < 64"
    using False mult_div_mod_eq [of 64 c] mod_less_divisor [of 64 c]
    by (metis dvd_eq_mod_eq_0 gr0I zero_less_numeral)
  have len: "length (sq_pages sq) = q + 1" using c assms(2) by (simp add: div_ceil_def)
  let ?a = "min n (64 - m)"
  let ?st = "if m + ?a = 64 then HbmSealed else HbmMutable"
  have i: "q < length (sq_pages sq)" and last: "last (sq_pages sq) = sq_pages sq ! q" and ne: "sq_pages sq \<noteq> []"
    using len last_at [of "sq_pages sq" q] by auto
  have v: "fill c 0 q = m" "mode c 0 q = HbmMutable" using c by (simp_all add: fill_def mode_def)
  obtain pg where pg: "fmlookup (physical t) (sp_physical (sq_pages sq ! q)) = Some pg"
      "pp_valid_tokens pg = m" "pp_state pg = HbmMutable" "page_wf pg"
    using working_page [OF assms(1) i] v by auto
  let ?t = "set_page (sp_physical (sq_pages sq ! q)) (pg\<lparr>pp_state := ?st, pp_valid_tokens := m + ?a\<rparr>) t"
  have "fill_tail sq n t = Inr (?t, n - ?a)"
    using pg ne c by (auto simp: fill_tail_def last page_wf_def checked_sub_def checked_add_def try_uint_def Let_def page_upd_swap)
  moreover have "working s sq ((fill c 0)(q := m + ?a)) ((mode c 0)(q := ?st)) ?t"
    using v c by (intro working_own [OF assms(1) i refl pg(1)]) auto
  then have "working s sq (fill (c + ?a) 0) (mode (c + ?a) 0) ?t"
    by (rule working_cong) (use c in \<open>auto simp: len fill_def mode_def\<close>)
  ultimately show ?thesis
    using c by (intro exI [of _ ?t] exI [of _ ?a]) (auto simp: len div_ceil_64)
qed

lemma append_page_step:
  assumes "working s sq (fill (64 * length (sq_pages sq)) 0) (mode (64 * length (sq_pages sq)) 0) t"
    and "allocated [] (length (sq_pages sq)) (sq_mtp sq) t (t1, p)" and "0 < a" and "a \<le> 64"
    and "sq' = sq\<lparr>sq_pages := sq_pages sq @ [\<lparr>sp_ordinal = length (sq_pages sq), sp_physical = p\<rparr>]\<rparr>"
    and "fmlookup (physical t1) p = Some pg" and "st = (if a = 64 then HbmSealed else HbmMutable)"
  shows "working s sq' (fill (64 * length (sq_pages sq) + a) 0) (mode (64 * length (sq_pages sq) + a) 0)
    (set_sequence s sq' (set_page p (pg\<lparr>pp_valid_tokens := a, pp_state := st\<rparr>) t1))"
proof -
  let ?n = "length (sq_pages sq)"
  have n: "?n < length (sq_pages sq')" and p: "p = sp_physical (sq_pages sq' ! ?n)" by (simp_all add: assms(5))
  have "working s sq' ((fill (64 * ?n) 0)(?n := a)) ((mode (64 * ?n) 0)(?n := st))
      (set_page p (pg\<lparr>pp_state := st, pp_valid_tokens := a\<rparr>) (set_sequence s sq' t1))"
    using working_own [OF working_push [OF assms(1,2,5)] n p, of pg a st] assms by simp
  then have "working s sq' ((fill (64 * ?n) 0)(?n := a)) ((mode (64 * ?n) 0)(?n := st))
      (set_sequence s sq' (set_page p (pg\<lparr>pp_valid_tokens := a, pp_state := st\<rparr>) t1))"
    by (simp only: set_page_sequence page_upd_swap)
  then show ?thesis
    by (rule working_cong) (use assms(3,4,7) in \<open>auto simp: assms(5) less_Suc_eq fill_def mode_def\<close>)
qed

lemma append_pages_0 [simp]: "append_pages s 0 t = Inr t"
  by (simp add: append_pages.simps)

text \<open>The sequence has grown to \<open>k\<close> committed and \<open>r\<close> reserved tokens by pushing pages.\<close>

definition grown :: "nat \<Rightarrow> sequence \<Rightarrow> nat \<Rightarrow> nat \<Rightarrow> page_table \<Rightarrow> page_table \<Rightarrow> bool" where
  "grown s sq k r t t' \<longleftrightarrow> (\<exists>es. working s (sq\<lparr>sq_pages := sq_pages sq @ es\<rparr>) (fill k r) (mode k r) t'
     \<and> length (sq_pages sq @ es) = div_ceil (k + r) 64 \<and> only s t t')"

lemma grown_push:
  assumes "grown s (sq\<lparr>sq_pages := sq_pages sq @ [e]\<rparr>) k r t1 t'" and "only s t t1"
  shows "grown s sq k r t t'"
proof -
  obtain es where "working s (sq\<lparr>sq_pages := sq_pages sq @ e # es\<rparr>) (fill k r) (mode k r) t'"
    "length (sq_pages sq @ e # es) = div_ceil (k + r) 64" "only s t1 t'"
    using assms(1) by (auto simp: grown_def)
  then show ?thesis using only_trans [OF assms(2)] unfolding grown_def by blast
qed

lemma append_pages_ok:
  assumes "working s sq (fill k 0) (mode k 0) t" and "length (sq_pages sq) = div_ceil k 64"
    and "rest \<noteq> 0 \<Longrightarrow> 64 dvd k"
  shows "returns {Err Capacity} (grown s sq (k + rest) 0 t) (append_pages s rest t)"
  using assms
proof (induction rest arbitrary: sq t k rule: less_induct)
  case (less rest)
  show ?case
  proof (cases "rest = 0")
    case True
    then show ?thesis using less.prems by (auto simp: grown_def intro: exI [of _ "[]"])
  next
    case False
    let ?n = "length (sq_pages sq)" and ?a = "min rest 64"
    have k: "k = 64 * ?n" using less.prems(2,3) False by (auto simp: div_ceil_64 elim!: dvdE)
    note sq = workingD(3) [OF less.prems(1)]
    have step: "returns {Err Capacity} (grown s sq (k + rest) 0 t)
        (append_pages s (rest - ?a) (set_sequence s sq' (set_page p (pg\<lparr>pp_valid_tokens := ?a, pp_state := st\<rparr>) t1)))"
      (is "returns _ _ (append_pages _ _ ?t2)")
      if alloc: "allocated [] ?n (sq_mtp sq) t (t1, p)" and pg: "fmlookup (physical t1) p = Some pg"
        and st: "st = (if ?a = 64 then HbmSealed else HbmMutable)"
        and sq': "sq' = sq\<lparr>sq_pages := sq_pages sq @ [\<lparr>sp_ordinal = ?n, sp_physical = p\<rparr>]\<rparr>" for t1 p pg st sq'
    proof -
      have w: "working s sq' (fill (k + ?a) 0) (mode (k + ?a) 0) ?t2"
        using append_page_step [OF _ alloc _ _ sq' pg st] less.prems(1) False k by simp
      have fr: "only s t ?t2"
        using alloc by (auto simp: allocated_def frame_def only_def set_page_def set_sequence_def)
      have "returns {Err Capacity} (grown s sq' (k + ?a + (rest - ?a)) 0 ?t2) (append_pages s (rest - ?a) ?t2)"
        using False k by (intro less.IH [OF _ w]) (auto simp: sq' div_ceil_64)
      then show ?thesis
        by (rule returns_mono) (use grown_push [OF _ fr] sq' in auto)
    qed
    show ?thesis
      unfolding append_pages.simps [of s rest t]
      using False sq
      apply simp
      apply (rule returns_rbind [OF allocate_page_ok [OF workingD(1) [OF less.prems(1)]]])
      apply (clarsimp simp: Let_def try_uint_def)
      subgoal for t1 p
        using step [of t1 p] by (auto simp: allocated_def min_def split: if_splits)
      done
  qed
qed

text \<open>What a successful append of \<open>n\<close> tokens leaves behind.\<close>

definition appended :: "nat \<Rightarrow> nat \<Rightarrow> page_table \<Rightarrow> page_table \<Rightarrow> bool" where
  "appended s n t t' \<longleftrightarrow> table_inv t' \<and> only s t t' \<and> (\<exists>sq es. fmlookup (sequences t) s = Some sq
     \<and> fmlookup (sequences t') s = Some (sq\<lparr>sq_pages := sq_pages sq @ es,
          sq_committed_tokens := sq_committed_tokens sq + n\<rparr>))"

lemma append_tokens_core:
  assumes "table_inv t" and sq: "fmlookup (sequences t) s = Some sq" and tx: "sq_tentative sq = None"
    and bound: "sq_committed_tokens sq + n \<le> 1048576"
  shows "returns {Err Capacity} (appended s n t) (rbind (fill_tail sq n t) (\<lambda>(t1, remaining).
     rbind (append_pages s remaining t1) (\<lambda>t2. rbind (ok_or (fmlookup (sequences t2) s) Sequence) (\<lambda>sq2.
       Inr (set_sequence s (sq2\<lparr>sq_committed_tokens := sq_committed_tokens sq + n\<rparr>) t2)))))"
proof -
  let ?c = "sq_committed_tokens sq"
  have w0: "working s sq (fill ?c 0) (mode ?c 0) t" "length (sq_pages sq) = div_ceil ?c 64"
    using table_inv_working [OF assms(1) sq] tx by simp_all
  obtain t1 a where fill: "fill_tail sq n t = Inr (t1, n - a)" "a \<le> n" "a < n \<longrightarrow> 64 dvd ?c + a"
      and w: "working s sq (fill (?c + a) 0) (mode (?c + a) 0) t1" "div_ceil (?c + a) 64 = length (sq_pages sq)"
      and fr: "only s t t1"
    using fill_tail_ok [OF w0, of n] by blast
  have "returns {Err Capacity} (grown s sq (?c + n) 0 t1) (append_pages s (n - a) t1)"
    using append_pages_ok [OF w(1) w(2) [symmetric], of "n - a"] fill by simp
  then show ?thesis
    unfolding fill(1) rbind_simps prod.case
  proof (rule returns_rbind)
    fix t2 assume "grown s sq (?c + n) 0 t1 t2"
    then obtain es where w2: "working s (sq\<lparr>sq_pages := sq_pages sq @ es\<rparr>) (fill (?c + n) 0) (mode (?c + n) 0) t2"
        and len: "length (sq_pages sq @ es) = div_ceil (?c + n) 64" and fr2: "only s t1 t2"
      by (auto simp: grown_def)
    let ?sq = "sq\<lparr>sq_pages := sq_pages sq @ es, sq_committed_tokens := ?c + n\<rparr>"
    have "working s ?sq (fill (?c + n) 0) (mode (?c + n) 0) (set_sequence s ?sq t2)"
      by (rule working_set_fields [OF w2]) simp_all
    then have "table_inv (set_sequence s ?sq t2)"
      by (rule working_table_inv) (use len tx bound in auto)
    moreover have "only s t (set_sequence s ?sq t2)"
      using only_trans [OF only_trans [OF fr fr2]] by simp
    ultimately show "returns {Err Capacity} (appended s n t) (rbind (ok_or (fmlookup (sequences t2) s) Sequence)
        (\<lambda>sq2. Inr (set_sequence s (sq2\<lparr>sq_committed_tokens := ?c + n\<rparr>) t2)))"
      using workingD(3) [OF w2] sq by (auto simp: appended_def)
  qed
qed

lemma append_inner_ok:
  assumes "table_inv t" and "n \<noteq> 0"
  shows "returns {Err Sequence, Err Transaction, Err Capacity} (\<lambda>(t', _). appended s n t t') (append_inner s n t)"
proof (cases "\<exists>sq. fmlookup (sequences t) s = Some sq \<and> sq_tentative sq = None \<and> sq_committed_tokens sq + n \<le> 1048576")
  case True
  then obtain sq where sq: "fmlookup (sequences t) s = Some sq" "sq_tentative sq = None"
      "sq_committed_tokens sq + n \<le> 1048576" by blast
  then have tokens: "append_tokens s n t = rbind (fill_tail sq n t) (\<lambda>(t1, remaining).
     rbind (append_pages s remaining t1) (\<lambda>t2. rbind (ok_or (fmlookup (sequences t2) s) Sequence) (\<lambda>sq2.
       Inr (set_sequence s (sq2\<lparr>sq_committed_tokens := sq_committed_tokens sq + n\<rparr>) t2))))"
    by (simp add: append_tokens_def checked_add_def)
  have "returns {Err Capacity} (appended s n t) (append_tokens s n t)"
    unfolding tokens by (rule append_tokens_core [OF assms(1) sq])
  then show ?thesis
    using assms(2) by (cases "append_tokens s n t") (auto simp: append_inner_def require_unbound_quarantine_def ensure_def)
next
  case False
  then have "append_tokens s n t \<in> {Inl (Err Sequence), Inl (Err Transaction)}"
    by (cases "fmlookup (sequences t) s") (auto simp: append_tokens_def checked_add_def)
  then show ?thesis
    using assms(2) by (auto simp: append_inner_def require_unbound_quarantine_def ensure_def)
qed

section \<open>Reserving tokens\<close>

lemma grown_same:
  "working s sq (fill c r) (mode c r) t' \<Longrightarrow> length (sq_pages sq) = div_ceil (c + r) 64 \<Longrightarrow> only s t t' \<Longrightarrow> grown s sq c r t t'"
  by (auto simp: grown_def intro: exI [of _ "[]"])

lemma grown_trans:
  assumes "grown s (sq\<lparr>sq_pages := sq_pages sq @ es\<rparr>) c r t1 t'" and "only s t t1"
  shows "grown s sq c r t t'"
proof -
  obtain es' where "working s (sq\<lparr>sq_pages := sq_pages sq @ (es @ es')\<rparr>) (fill c r) (mode c r) t'"
    "length (sq_pages sq @ (es @ es')) = div_ceil (c + r) 64" "only s t1 t'"
    using assms(1) by (auto simp: grown_def)
  then show ?thesis using only_trans [OF assms(2)] unfolding grown_def by blast
qed

text \<open>The step on the tail page, once there is room on it.\<close>

lemma reserve_on_tail_ok:
  assumes "working s sq V S t" and "length (sq_pages sq) = Suc q" and "V q < 64" and "S q \<in> {HbmMutable, HbmTentative}"
  shows "\<exists>t'. reserve_on_tail sq t = Inr t'
     \<and> working s sq (V(q := V q + 1)) (S(q := HbmTentative)) t' \<and> only s t t'"
proof -
  have q: "q < length (sq_pages sq)" and last: "sq_pages sq \<noteq> []" "last (sq_pages sq) = sq_pages sq ! q"
    using assms(2) last_at [of "sq_pages sq" q] by auto
  obtain pg where pg: "fmlookup (physical t) (sp_physical (sq_pages sq ! q)) = Some pg"
      "pp_valid_tokens pg = V q" "pp_state pg = S q" "page_wf pg"
    using working_page [OF assms(1) q] by blast
  have one: "pp_references pg = 1" using pg(3,4) assms(4) by (auto simp: page_wf_def)
  have "working s sq (V(q := V q + 1)) (S(q := HbmTentative))
      (set_page (sp_physical (sq_pages sq ! q)) (pg\<lparr>pp_state := HbmTentative, pp_valid_tokens := V q + 1\<rparr>) t)"
    using assms(3,4) by (intro working_own [OF assms(1) q refl pg(1)]) auto
  then show ?thesis
    using pg one last assms(3,4) by (auto simp: reserve_on_tail_def checked_add_def Let_def)
qed

lemma reserve_new_page:
  assumes "working s sq (fill c r) (mode c r) t" and "length (sq_pages sq) = n" and "c + r = 64 * n"
    and "allocated [] n (sq_mtp sq) t (t1, p)"
    and "sq' = sq\<lparr>sq_pages := sq_pages sq @ [\<lparr>sp_ordinal = n, sp_physical = p\<rparr>]\<rparr>"
  shows "\<exists>t'. reserve_on_tail sq' (set_sequence s sq' t1) = Inr t' \<and> grown s sq c (Suc r) t t'"
proof -
  have "working s sq' ((fill c r)(n := 0)) ((mode c r)(n := HbmMutable)) (set_sequence s sq' t1)"
    using working_push [OF assms(1)] assms(2,4,5) by simp
  then obtain t' where t': "reserve_on_tail sq' (set_sequence s sq' t1) = Inr t'"
      "working s sq' (((fill c r)(n := 0))(n := 1)) (((mode c r)(n := HbmMutable))(n := HbmTentative)) t'"
      "only s (set_sequence s sq' t1) t'"
    using reserve_on_tail_ok [of s sq' _ _ _ n] assms(2,5) by force
  from t'(2) have "working s sq' (fill c (Suc r)) (mode c (Suc r)) t'"
    by (rule working_cong) (use assms(2,3,5) in \<open>auto simp: less_Suc_eq fill_def mode_def\<close>)
  moreover have "only s t t'"
    using assms(4) only_trans [OF _ t'(3), of t] by (auto simp: allocated_def only_def frame_def set_sequence_def)
  ultimately show ?thesis
    using t'(1) assms(2,3,5) unfolding grown_def
    by (intro exI [of _ t'] conjI exI [of _ "[\<lparr>sp_ordinal = n, sp_physical = p\<rparr>]"]) (auto simp: div_ceil_64)
qed

lemma reserve_old_page:
  assumes "working s sq (fill c r) (mode c r) t" and "length (sq_pages sq) = Suc q" and "c + r = 64 * q + m"
    and "0 < m" and "m < 64"
  shows "\<exists>t'. reserve_on_tail sq t = Inr t' \<and> grown s sq c (Suc r) t t'"
proof -
  have v: "fill c r q = m" "mode c r q \<in> {HbmMutable, HbmTentative}"
    using assms(3-5) by (auto simp: fill_def mode_def)
  obtain t' where t': "reserve_on_tail sq t = Inr t'" "only s t t'"
      "working s sq ((fill c r)(q := m + 1)) ((mode c r)(q := HbmTentative)) t'"
    using reserve_on_tail_ok [OF assms(1,2)] v assms(5) by auto
  from t'(3) have "working s sq (fill c (Suc r)) (mode c (Suc r)) t'"
    by (rule working_cong) (use assms(2-5) in \<open>auto simp: less_Suc_eq fill_def mode_def\<close>)
  then have "grown s sq c (Suc r) t t'"
    using assms t'(2) by (intro grown_same) (auto simp: div_ceil_64)
  then show ?thesis using t'(1) by blast
qed

lemma reserve_token_ok:
  assumes "working s sq (fill c r) (mode c r) t" and "length (sq_pages sq) = div_ceil (c + r) 64"
  shows "returns {Err Capacity} (grown s sq c (Suc r) t) (reserve_token s t)"
proof -
  note sq = workingD(3) [OF assms(1)]
  obtain q m where cr: "c + r = 64 * q + m" "m < 64"
    using mult_div_mod_eq [of 64 "c + r"] mod_less_divisor [of 64 "c + r"] by (metis zero_less_numeral)
  show ?thesis
  proof (cases "m = 0")
    case True
    then have len: "length (sq_pages sq) = q" and cr: "c + r = 64 * q" using assms(2) cr by (simp_all add: div_ceil_def)
    have need: "(if sq_pages sq = [] then Inr True
        else rbind (expect (fmlookup (physical t) (sp_physical (last (sq_pages sq))))) (\<lambda>page.
          Inr (pp_valid_tokens page = PAGE_TOKENS))) = (Inr True :: (sequence_page_error, bool) result)"
    proof (cases q)
      case (Suc i)
      then have "fill c r i = 64" using cr by (simp add: fill_def)
      then show ?thesis using working_page [OF assms(1), of i] last_at [of "sq_pages sq" i] len Suc by auto
    qed (use len in simp)
    show ?thesis
      unfolding reserve_token_def sq expect_simps rbind_simps need if_True
      apply (rule returns_rbind [where Q = "\<lambda>t2. \<exists>sq'. fmlookup (sequences t2) s = Some sq'
          \<and> (\<exists>t'. reserve_on_tail sq' t2 = Inr t' \<and> grown s sq c (Suc r) t t')"])
       apply (rule returns_rbind [OF allocate_page_ok [OF workingD(1) [OF assms(1)]]])
       apply clarsimp
      subgoal for t1 p
        using reserve_new_page [OF assms(1) len cr, of t1 p] sq len by (auto simp: allocated_def)
      apply auto
      done
  next
    case False
    then have len: "length (sq_pages sq) = Suc q" using assms(2) cr by (simp add: div_ceil_def)
    have "fill c r q = m" using cr by (simp add: fill_def)
    then have need: "(if sq_pages sq = [] then Inr True
        else rbind (expect (fmlookup (physical t) (sp_physical (last (sq_pages sq))))) (\<lambda>page.
          Inr (pp_valid_tokens page = PAGE_TOKENS))) = (Inr False :: (sequence_page_error, bool) result)"
      using working_page [OF assms(1), of q] last_at [of "sq_pages sq" q] len cr(2) by auto
    show ?thesis
      unfolding reserve_token_def sq expect_simps rbind_simps need if_False
      using reserve_old_page [OF assms(1) len cr(1) _ cr(2)] False by auto
  qed
qed

lemma reserve_tentative_ok:
  assumes "working s sq (fill c r) (mode c r) t" and "length (sq_pages sq) = div_ceil (c + r) 64"
  shows "returns {Err Capacity} (grown s sq c (r + n) t) (reserve_tentative s n t)"
  using assms
proof (induction n arbitrary: sq t r)
  case 0
  then show ?case by (simp add: grown_same)
next
  case (Suc n)
  show ?case
    unfolding reserve_tentative.simps
  proof (rule returns_rbind [OF reserve_token_ok [OF Suc.prems]])
    fix t1 assume "grown s sq c (Suc r) t t1"
    then obtain es where w: "working s (sq\<lparr>sq_pages := sq_pages sq @ es\<rparr>) (fill c (Suc r)) (mode c (Suc r)) t1"
        and len: "length (sq_pages sq @ es) = div_ceil (c + Suc r) 64" and fr: "only s t t1"
      by (auto simp: grown_def)
    show "returns {Err Capacity} (grown s sq c (r + Suc n) t) (reserve_tentative s n t1)"
      using Suc.IH [OF w] len by (intro returns_mono [OF _ subset_refl grown_trans [OF _ fr, of sq es]]) auto
  qed
qed

end
