(* ===== verification/Page_Table_Tx.thy ===== *)
theory Page_Table_Tx
  imports Page_Table_Ops
begin

text \<open>
  Tentative tokens: a reservation, and the two ways it ends. A commit keeps a prefix of the
  reserved tokens and a rollback none of them; both release the pages that are left over
  and put the tail page back into its resting state.
\<close>

section \<open>Reservation\<close>

text \<open>What a reservation of \<open>n\<close> tokens leaves behind.\<close>

definition begun :: "nat \<Rightarrow> nat \<Rightarrow> page_table \<Rightarrow> page_table \<Rightarrow> bool" where
  "begun s n t t' \<longleftrightarrow> table_inv t' \<and> only s t t' \<and> (\<exists>sq es tx. fmlookup (sequences t) s = Some sq
     \<and> sq_tentative sq = None \<and> reserved_tokens tx = n
     \<and> fmlookup (sequences t') s = Some (sq\<lparr>sq_pages := sq_pages sq @ es, sq_tentative := Some tx\<rparr>))"

lemma begin_core:
  assumes "table_inv t" and sq: "fmlookup (sequences t) s = Some sq" and tx: "sq_tentative sq = None"
    and bound: "sq_committed_tokens sq + n \<le> 1048576" and n: "0 < n" "n \<le> 7"
    and tail: "tail = sq_committed_tokens sq - 64 * (div_ceil (sq_committed_tokens sq) 64 - 1)"
  shows "returns {Err Capacity} (\<lambda>(t', _). begun s n t t') (rbind (reserve_tentative s n t) (\<lambda>t1.
     rbind (ok_or (fmlookup (sequences t1) s) Sequence) (\<lambda>sq1.
       Inr (set_sequence s (sq1\<lparr>sq_tentative := Some
             \<lparr>original_committed_tokens = sq_committed_tokens sq, original_page_count = length (sq_pages sq),
              original_tail_tokens = tail, reserved_tokens = n\<rparr>\<rparr>) t1, ()))))"
proof -
  let ?c = "sq_committed_tokens sq"
  let ?tx = "\<lparr>original_committed_tokens = ?c, original_page_count = length (sq_pages sq),
    original_tail_tokens = tail, reserved_tokens = n\<rparr>"
  have w0: "working s sq (fill ?c 0) (mode ?c 0) t" "length (sq_pages sq) = div_ceil (?c + 0) 64"
    using table_inv_working [OF assms(1) sq] tx by simp_all
  show ?thesis
  proof (rule returns_rbind [OF reserve_tentative_ok [OF w0]])
    fix t1 assume "grown s sq ?c (0 + n) t t1"
    then obtain es where w1: "working s (sq\<lparr>sq_pages := sq_pages sq @ es\<rparr>) (fill ?c n) (mode ?c n) t1"
        and len: "length (sq_pages sq @ es) = div_ceil (?c + n) 64" and fr: "only s t t1"
      by (auto simp: grown_def)
    let ?sq = "sq\<lparr>sq_pages := sq_pages sq @ es, sq_tentative := Some ?tx\<rparr>"
    have "working s ?sq (fill ?c n) (mode ?c n) (set_sequence s ?sq t1)"
      by (rule working_set_fields [OF w1]) simp_all
    then have "table_inv (set_sequence s ?sq t1)"
      by (rule working_table_inv) (use len bound n tail w0(2) in \<open>auto simp: tentative_ok_def\<close>)
    moreover have "only s t (set_sequence s ?sq t1)" using only_trans [OF fr] by simp
    ultimately have "begun s n t (set_sequence s ?sq t1)"
      using sq tx by (force simp: begun_def)
    then show "returns {Err Capacity} (\<lambda>(t', _). begun s n t t') (rbind (ok_or (fmlookup (sequences t1) s) Sequence)
        (\<lambda>sq1. Inr (set_sequence s (sq1\<lparr>sq_tentative := Some ?tx\<rparr>) t1, ())))"
      using workingD(3) [OF w1] by simp
  qed
qed

text \<open>The fill the reservation records for the tail page.\<close>

lemma tail_fill:
  assumes "table_inv t" and "fmlookup (sequences t) s = Some sq" and "sq_tentative sq = None"
  shows "(if sq_pages sq = [] then 0
      else case fmlookup (physical t) (sp_physical (last (sq_pages sq))) of None \<Rightarrow> 0 | Some page \<Rightarrow> pp_valid_tokens page)
    = sq_committed_tokens sq - 64 * (div_ceil (sq_committed_tokens sq) 64 - 1)"
proof -
  let ?c = "sq_committed_tokens sq"
  have w: "working s sq (fill ?c 0) (mode ?c 0) t" and len: "length (sq_pages sq) = div_ceil ?c 64"
    using table_inv_working [OF assms(1,2)] assms(3) by simp_all
  show ?thesis
  proof (cases "length (sq_pages sq)")
    case 0
    then show ?thesis using len by (auto simp: div_ceil_64)
  next
    case (Suc q)
    then have "?c \<le> 64 * Suc q" "64 * q < ?c" using len by (auto simp: div_ceil_64)
    then have "fill ?c 0 q = ?c - 64 * q" by (simp add: fill_def)
    then show ?thesis using working_page [OF w, of q] last_at [OF Suc] Suc len by auto
  qed
qed

lemma begin_tentative_inner_ok:
  assumes "table_inv t"
  shows "returns {Err Sequence, Err Transaction, Err Capacity} (\<lambda>(t', _). begun s n t t') (begin_tentative_inner s n t)"
proof (cases "\<exists>sq. fmlookup (sequences t) s = Some sq \<and> sq_tentative sq = None \<and> sq_committed_tokens sq + n \<le> 1048576
    \<and> 0 < n \<and> n \<le> 7 \<and> quarantine_generation t = None")
  case True
  then obtain sq where sq: "fmlookup (sequences t) s = Some sq" "sq_tentative sq = None"
      "sq_committed_tokens sq + n \<le> 1048576" "0 < n" "n \<le> 7" and q: "quarantine_generation t = None" by blast
  have "returns {Err Sequence, Err Transaction, Err Capacity} (\<lambda>(t', _). begun s n t t') (rbind (reserve_tentative s n t) (\<lambda>t1.
     rbind (ok_or (fmlookup (sequences t1) s) Sequence) (\<lambda>sq1.
       Inr (set_sequence s (sq1\<lparr>sq_tentative := Some
             \<lparr>original_committed_tokens = sq_committed_tokens sq, original_page_count = length (sq_pages sq),
              original_tail_tokens = sq_committed_tokens sq - 64 * (div_ceil (sq_committed_tokens sq) 64 - 1),
              reserved_tokens = n\<rparr>\<rparr>) t1, ()))))"
    by (rule returns_mono [OF begin_core [OF assms sq refl]]) auto
  then show ?thesis
    using sq q tail_fill [OF assms sq(1,2)]
    by (simp add: begin_tentative_inner_def require_unbound_quarantine_def checked_add_def Let_def)
next
  case False
  then have "begin_tentative_inner s n t \<in> {Inl (Err Sequence), Inl (Err Transaction)}"
    by (cases "fmlookup (sequences t) s")
      (auto simp: begin_tentative_inner_def require_unbound_quarantine_def ensure_def checked_add_def)
  then show ?thesis by auto
qed

section \<open>Rollback\<close>

lemma table_inv_seq: "table_inv t \<Longrightarrow> fmlookup (sequences t) s = Some sq \<Longrightarrow> seq_ok (physical t) sq"
  by (simp add: table_inv_def)

text \<open>The free sets are those of before: what an operation released is in quarantine.\<close>

definition nothing_freed :: "page_table \<Rightarrow> page_table \<Rightarrow> bool" where
  "nothing_freed t t' \<longleftrightarrow> free_target t' = free_target t \<and> free_draft t' = free_draft t"

lemma nothing_freed_simps [simp]:
  "nothing_freed t t" "nothing_freed t (set_page p pg t)" "nothing_freed t (set_sequence s sq t)"
  by (simp_all add: nothing_freed_def set_page_def set_sequence_def)

lemma nothing_freed_trans: "nothing_freed t t' \<Longrightarrow> nothing_freed t' t'' \<Longrightarrow> nothing_freed t t''"
  by (simp add: nothing_freed_def)

lemma restore_tail_ok:
  assumes "working s sq (fill c r) (mode c r) t" and "length (sq_pages sq) = div_ceil c 64"
    and "tentative_ok c tx" and "r = reserved_tokens tx"
  shows "\<exists>t'. restore_tail s tx t = Inr t' \<and> working s sq (fill c 0) (mode c 0) t' \<and> only s t t' \<and> nothing_freed t t'"
proof (cases "length (sq_pages sq)")
  case 0
  then show ?thesis
    using assms working_cong [OF assms(1), of "fill c 0" "mode c 0"] by (auto simp: restore_tail_def tentative_ok_def)
next
  case (Suc q)
  have c: "c \<le> 64 * Suc q" "64 * q < c" using Suc assms(2) by (auto simp: div_ceil_64)
  have q: "q < length (sq_pages sq)" and last: "sq_pages sq \<noteq> []" "last (sq_pages sq) = sq_pages sq ! q"
    using last_at [OF Suc] Suc by auto
  have count: "original_page_count tx = Suc q" and tail: "original_tail_tokens tx = c - 64 * q" and r: "0 < r"
    using assms(3,4) Suc assms(2) by (auto simp: tentative_ok_def)
  obtain pg where pg: "fmlookup (physical t) (sp_physical (sq_pages sq ! q)) = Some pg"
      "pp_valid_tokens pg = fill c r q" "pp_state pg = mode c r q"
    using working_page [OF assms(1) q] by blast
  have others: "fill c 0 i = fill c r i \<and> mode c 0 i = mode c r i" if "i < q" for i
    using that c by (auto simp: fill_def mode_def)
  show ?thesis
  proof (cases "c = 64 * Suc q")
    case True
    then have "fill c 0 q = fill c r q \<and> mode c 0 q = mode c r q" by (auto simp: fill_def mode_def)
    then have "working s sq (fill c 0) (mode c 0) t"
      using others Suc by (intro working_cong [OF assms(1)]) (auto simp: less_Suc_eq)
    then show ?thesis
      using pg last count workingD(3) [OF assms(1)] True by (auto simp: restore_tail_def fill_def mode_def Let_def)
  next
    case False
    then have m: "mode c r q = HbmTentative" "mode c 0 q = HbmMutable" "fill c 0 q = c - 64 * q"
      using c r by (auto simp: mode_def fill_def)
    let ?t = "set_page (sp_physical (sq_pages sq ! q)) (pg\<lparr>pp_state := HbmMutable, pp_valid_tokens := c - 64 * q\<rparr>) t"
    have "working s sq ((fill c r)(q := c - 64 * q)) ((mode c r)(q := HbmMutable)) ?t"
      using m c by (intro working_own [OF assms(1) q refl pg(1)]) auto
    then have "working s sq (fill c 0) (mode c 0) ?t"
      by (rule working_cong) (use others Suc m in \<open>auto simp: less_Suc_eq\<close>)
    moreover have "restore_tail s tx t = Inr ?t"
      using pg last count tail workingD(3) [OF assms(1)] m by (simp add: restore_tail_def Let_def)
    ultimately show ?thesis by simp
  qed
qed

definition rolled_back :: "nat \<Rightarrow> page_table \<Rightarrow> page_table \<Rightarrow> bool" where
  "rolled_back s t t' \<longleftrightarrow> table_inv t' \<and> only s t t' \<and> nothing_freed t t' \<and> (\<exists>sq. fmlookup (sequences t) s = Some sq
     \<and> fmlookup (sequences t') s = Some (sq\<lparr>sq_tentative := None,
          sq_pages := take (div_ceil (sq_committed_tokens sq) 64) (sq_pages sq)\<rparr>))"

lemma rollback_core:
  assumes "table_inv t" and sq: "fmlookup (sequences t) s = Some sq" and tx: "sq_tentative sq = Some tx"
  shows "\<exists>t'. rollback_tokens s t = Inr t' \<and> rolled_back s t t'"
proof -
  let ?c = "sq_committed_tokens sq" and ?r = "reserved_tokens tx"
  let ?n = "div_ceil ?c 64"
  have ok: "tentative_ok ?c tx" and bound: "?c + ?r \<le> 1048576"
    using table_inv_seq [OF assms(1) sq] tx by (simp_all add: seq_ok_def)
  have w0: "working s sq (fill ?c ?r) (mode ?c ?r) t" and len: "length (sq_pages sq) = div_ceil (?c + ?r) 64"
    using table_inv_working [OF assms(1) sq] tx by simp_all
  have le: "?n \<le> length (sq_pages sq)" using len by (auto simp: div_ceil_64)
  let ?sq1 = "sq\<lparr>sq_tentative := None\<rparr>" and ?sq2 = "sq\<lparr>sq_tentative := None, sq_pages := take ?n (sq_pages sq)\<rparr>"
  let ?t1 = "set_sequence s ?sq1 t"
  have w1: "working s ?sq1 (fill ?c ?r) (mode ?c ?r) ?t1"
    by (rule working_set_fields [OF w0]) simp_all
  obtain t2 where t2: "pop_pages s (length (sq_pages sq) - ?n) ?t1 = Inr t2" "only s ?t1 t2" "nothing_freed ?t1 t2"
      and w2: "working s ?sq2 (fill ?c ?r) (mode ?c ?r) t2"
    using working_pops [OF w1, of "length (sq_pages sq) - ?n"] le by (auto simp: nothing_freed_def)
  obtain t3 where t3: "restore_tail s tx t2 = Inr t3" "only s t2 t3" "nothing_freed t2 t3"
      and w3: "working s ?sq2 (fill ?c 0) (mode ?c 0) t3"
    using restore_tail_ok [OF w2 _ ok refl] le by auto
  have w4: "working s ?sq2 (fill ?c 0) (mode ?c 0) (set_sequence s ?sq2 t3)"
    by (rule working_set_fields [OF w3]) simp_all
  have "table_inv (set_sequence s ?sq2 t3)"
    by (rule working_table_inv [OF w4]) (use le bound in auto)
  moreover have "only s t (set_sequence s ?sq2 t3)"
    using only_trans [OF only_trans [OF only_trans [OF _ t2(2), of t] t3(2)]] by simp
  moreover have "nothing_freed t (set_sequence s ?sq2 t3)"
    using nothing_freed_trans [OF nothing_freed_trans [OF nothing_freed_trans [OF _ t2(3), of t] t3(3)]] by simp
  moreover have "?sq2\<lparr>sq_committed_tokens := ?c\<rparr> = ?sq2" by (cases sq) simp
  then have "rollback_tokens s t = Inr (set_sequence s ?sq2 t3)"
    using sq tx ok le t2(1) t3(1) workingD(3) [OF w3]
    by (simp add: rollback_tokens_def tentative_ok_def checked_sub_def)
  ultimately show ?thesis using sq by (auto simp: rolled_back_def)
qed

lemma rollback_inner_ok:
  assumes "table_inv t"
  shows "returns {Err Transaction} (\<lambda>(t', _). rolled_back s t t') (rollback_inner s t)"
proof (cases "\<exists>sq tx. fmlookup (sequences t) s = Some sq \<and> sq_tentative sq = Some tx")
  case True
  then show ?thesis
    using rollback_core [OF assms] by (force simp: rollback_inner_def require_unbound_quarantine_def ensure_def)
next
  case False
  then have "rollback_tokens s t = Inl (Err Transaction)"
    by (cases "fmlookup (sequences t) s") (auto simp: rollback_tokens_def)
  then show ?thesis by (simp add: rollback_inner_def require_unbound_quarantine_def ensure_def)
qed

section \<open>Commit\<close>

lemma expected_valid:
  assumes "i < div_ceil c 64"
  shows "(if i + 1 = div_ceil c 64
      then let tail = c mod PAGE_TOKENS in
           if tail = 0 then Inr PAGE_TOKENS else ok_or (try_uint 8 tail) e
      else Inr PAGE_TOKENS) = Inr (fill c 0 i)"
proof (cases "i + 1 = div_ceil c 64")
  case True
  obtain q m where c: "c = 64 * q + m" "m < 64"
    using mult_div_mod_eq [of 64 c] mod_less_divisor [of 64 c] by (metis zero_less_numeral)
  have "i + 1 = (if m = 0 then q else q + 1)" using True c by (simp add: div_ceil_def)
  then have "fill c 0 i = (if m = 0 then 64 else m)" using c by (auto simp: fill_def split: if_splits)
  then show ?thesis using True c by (simp add: try_uint_def)
next
  case False
  then have "64 * (i + 1) \<le> c" using assms by (simp add: div_ceil_64)
  then show ?thesis using False by (simp add: fill_def)
qed

lemma settle_page_ok:
  assumes "working s sq V S t" and len: "length (sq_pages sq) = div_ceil c' 64" and i: "i < length (sq_pages sq)"
    and "V i = fill c r i" and "S i = mode c r i" and "0 < r" and "c < c'" and "c' \<le> c + r"
  shows "\<exists>t'. settle_page s c' (div_ceil c' 64) i t = Inr t' \<and> only s t t' \<and> nothing_freed t t'
    \<and> working s sq (V(i := fill c' 0 i)) (S(i := mode c' 0 i)) t'"
proof -
  let ?p = "sp_physical (sq_pages sq ! i)"
  obtain pg where pg: "fmlookup (physical t) ?p = Some pg" "pp_valid_tokens pg = V i" "pp_state pg = S i"
    using working_page [OF assms(1) i] by blast
  note sq = workingD(3) [OF assms(1)]
  have st: "(if fill c' 0 i = 64 then HbmSealed else HbmMutable) = mode c' 0 i" by (auto simp: fill_def mode_def)
  have settle: "settle_page s c' (div_ceil c' 64) i t =
      (if S i = HbmTentative
       then Inr (set_page ?p (pg\<lparr>pp_state := mode c' 0 i, pp_valid_tokens := fill c' 0 i\<rparr>) t)
       else if S i \<noteq> mode c' 0 i \<or> V i \<noteq> fill c' 0 i then Inl (Err State) else Inr t)"
    unfolding settle_page_def sq expect_simps rbind_simps expected_valid [OF i [unfolded len]]
    using i pg st by (auto simp: Let_def mode_def)
  show ?thesis
  proof (cases "64 * (i + 1) \<le> c")
    case True
    then have "S i = mode c' 0 i" "V i = fill c' 0 i" "S i = HbmSealed"
      using assms(4,5,7) by (auto simp: mode_def fill_def)
    then show ?thesis using settle assms(1) by (auto simp: fun_upd_idem)
  next
    case False
    then have tent: "S i = HbmTentative" using assms(5,6) by (simp add: mode_def)
    have "working s sq (V(i := fill c' 0 i)) (S(i := mode c' 0 i))
        (set_page ?p (pg\<lparr>pp_state := mode c' 0 i, pp_valid_tokens := fill c' 0 i\<rparr>) t)"
      using tent by (intro working_own [OF assms(1) i refl pg(1)]) (auto simp: mode_def fill_def)
    then show ?thesis using settle tent by simp
  qed
qed

lemma settle_pages_ok:
  assumes "working s sq (fill c r) (mode c r) t" and "length (sq_pages sq) = div_ceil c' 64"
    and "0 < r" and "c < c'" and "c' \<le> c + r" and "n \<le> length (sq_pages sq)"
  shows "\<exists>t'. rfold (settle_page s c' (div_ceil c' 64)) [0..<n] t = Inr t' \<and> only s t t' \<and> nothing_freed t t'
    \<and> working s sq (\<lambda>i. if i < n then fill c' 0 i else fill c r i) (\<lambda>i. if i < n then mode c' 0 i else mode c r i) t'"
  using assms(6)
proof (induction n)
  case 0
  then show ?case using assms(1) by simp
next
  case (Suc n)
  let ?V = "\<lambda>i. if i < n then fill c' 0 i else fill c r i" and ?S = "\<lambda>i. if i < n then mode c' 0 i else mode c r i"
  obtain t1 where t1: "rfold (settle_page s c' (div_ceil c' 64)) [0..<n] t = Inr t1" "only s t t1" "nothing_freed t t1"
      and w1: "working s sq ?V ?S t1"
    using Suc.IH [OF Suc_leD [OF Suc.prems]] by blast
  have n: "n < length (sq_pages sq)" using Suc.prems by simp
  obtain t2 where t2: "settle_page s c' (div_ceil c' 64) n t1 = Inr t2" "only s t1 t2" "nothing_freed t1 t2"
      and w2: "working s sq (?V(n := fill c' 0 n)) (?S(n := mode c' 0 n)) t2"
    using settle_page_ok [OF w1 assms(2) n _ _ assms(3-5)] by auto
  have "working s sq (\<lambda>i. if i < Suc n then fill c' 0 i else fill c r i)
      (\<lambda>i. if i < Suc n then mode c' 0 i else mode c r i) t2"
    by (rule working_cong [OF w2]) (auto simp: less_Suc_eq)
  moreover have "rfold (settle_page s c' (div_ceil c' 64)) [0..<Suc n] t = Inr t2"
    using t1(1) t2(1) by simp
  ultimately show ?case
    using only_trans [OF t1(2) t2(2)] nothing_freed_trans [OF t1(3) t2(3)] by blast
qed

definition committed_to :: "nat \<Rightarrow> nat \<Rightarrow> page_table \<Rightarrow> page_table \<Rightarrow> bool" where
  "committed_to s k t t' \<longleftrightarrow> table_inv t' \<and> only s t t' \<and> nothing_freed t t' \<and> (\<exists>sq. fmlookup (sequences t) s = Some sq
     \<and> fmlookup (sequences t') s = Some (sq\<lparr>sq_tentative := None,
          sq_pages := take (div_ceil (sq_committed_tokens sq + k) 64) (sq_pages sq),
          sq_committed_tokens := sq_committed_tokens sq + k\<rparr>))"

lemma commit_core:
  assumes "table_inv t" and sq: "fmlookup (sequences t) s = Some sq" and tx: "sq_tentative sq = Some tx"
    and k: "0 < k" "k \<le> reserved_tokens tx"
  shows "\<exists>t'. commit_tokens s k tx t = Inr t' \<and> committed_to s k t t'"
proof -
  let ?c = "sq_committed_tokens sq" and ?r = "reserved_tokens tx"
  let ?c' = "?c + k"
  let ?n = "div_ceil ?c' 64"
  have ok: "tentative_ok ?c tx" and bound: "?c + ?r \<le> 1048576"
    using table_inv_seq [OF assms(1) sq] tx by (simp_all add: seq_ok_def)
  have w0: "working s sq (fill ?c ?r) (mode ?c ?r) t" and len: "length (sq_pages sq) = div_ceil (?c + ?r) 64"
    using table_inv_working [OF assms(1) sq] tx by simp_all
  have le: "?n \<le> length (sq_pages sq)" using len k by (auto simp: div_ceil_64 intro: div_le_mono)
  let ?sq1 = "sq\<lparr>sq_tentative := None\<rparr>" and ?sq2 = "sq\<lparr>sq_tentative := None, sq_pages := take ?n (sq_pages sq)\<rparr>"
  let ?t1 = "set_sequence s ?sq1 t" and ?sq3 = "?sq2\<lparr>sq_committed_tokens := ?c'\<rparr>"
  have w1: "working s ?sq1 (fill ?c ?r) (mode ?c ?r) ?t1"
    by (rule working_set_fields [OF w0]) simp_all
  obtain t2 where t2: "pop_pages s (length (sq_pages sq) - ?n) ?t1 = Inr t2" "only s ?t1 t2" "nothing_freed ?t1 t2"
      and w2: "working s ?sq2 (fill ?c ?r) (mode ?c ?r) t2"
    using working_pops [OF w1, of "length (sq_pages sq) - ?n"] le by (auto simp: nothing_freed_def)
  obtain t3 where t3: "rfold (settle_page s ?c' ?n) [0..<?n] t2 = Inr t3" "only s t2 t3" "nothing_freed t2 t3"
      and w3: "working s ?sq2 (\<lambda>i. if i < ?n then fill ?c' 0 i else fill ?c ?r i)
        (\<lambda>i. if i < ?n then mode ?c' 0 i else mode ?c ?r i) t3"
    using settle_pages_ok [OF w2, of ?c' ?n] le k by auto
  have w4: "working s ?sq3 (\<lambda>i. if i < ?n then fill ?c' 0 i else fill ?c ?r i)
        (\<lambda>i. if i < ?n then mode ?c' 0 i else mode ?c ?r i) (set_sequence s ?sq3 t3)"
    by (rule working_set_fields [OF w3]) simp_all
  have "table_inv (set_sequence s ?sq3 t3)"
    by (rule working_table_inv [OF w4]) (use le bound k in auto)
  moreover have "only s t (set_sequence s ?sq3 t3)"
    using only_trans [OF only_trans [OF only_trans [OF _ t2(2), of t] t3(2)]] by simp
  moreover have "nothing_freed t (set_sequence s ?sq3 t3)"
    using nothing_freed_trans [OF nothing_freed_trans [OF nothing_freed_trans [OF _ t2(3), of t] t3(3)]] by simp
  moreover have "commit_tokens s k tx t = Inr (set_sequence s ?sq3 t3)"
    using sq tx ok le t2(1) t3(1) workingD(3) [OF w3] bound k
    by (simp add: commit_tokens_def tentative_ok_def checked_add_def Let_def)
  ultimately show ?thesis using sq by (auto simp: committed_to_def)
qed

lemma commit_inner_ok:
  assumes "table_inv t"
  shows "returns {Err Transaction} (\<lambda>(t', _). committed_to s k t t') (commit_inner s k t)"
proof (cases "\<exists>sq tx. fmlookup (sequences t) s = Some sq \<and> sq_tentative sq = Some tx \<and> 0 < k \<and> k \<le> reserved_tokens tx")
  case True
  then obtain sq tx where sq: "fmlookup (sequences t) s = Some sq" "sq_tentative sq = Some tx"
      "0 < k" "k \<le> reserved_tokens tx" by blast
  then show ?thesis
    using commit_core [OF assms sq] by (auto simp: commit_inner_def require_unbound_quarantine_def ensure_def)
next
  case False
  then show ?thesis
    by (cases "Option.bind (fmlookup (sequences t) s) sq_tentative")
      (auto simp: commit_inner_def require_unbound_quarantine_def ensure_def bind_eq_Some_conv)
qed

end
