(* ===== verification/Page_Table_Adm.thy ===== *)
theory Page_Table_Adm
  imports Page_Table_Tx
begin

text \<open>
  Sequences that come and go: admission over prefix pages, forking, and removal. While a
  sequence is being built its pages are held by the operation; \<open>holding\<close> is the invariant
  of that phase.
\<close>

section \<open>Building a sequence\<close>

definition holding :: "nat \<Rightarrow> sequence_page list \<Rightarrow> nat \<Rightarrow> bool \<Rightarrow> page_table \<Rightarrow> bool" where
  "holding s acc c mtp t \<longleftrightarrow> owned (map sp_physical acc) t \<and> others_ok s t \<and> fmlookup (sequences t) s = None
     \<and> laid (physical t) mtp (fill c 0) (mode c 0) acc \<and> distinct (map sp_physical acc)
     \<and> (\<forall>i<length acc. fits_at (physical t) (sequences t) (sp_physical (acc ! i)) i)"

lemma owned_count_cong:
  "owned xs t \<Longrightarrow> (\<And>p. count_list ys p = count_list xs p) \<Longrightarrow> owned ys t"
  unfolding owned_def using refs_ok_counts [of xs "physical t" "sequences t" "sequences t" ys] by auto

lemma holding_start: "table_inv t \<Longrightarrow> fmlookup (sequences t) s = None \<Longrightarrow> holding s [] c mtp t"
  by (auto simp: holding_def table_inv_split [of t s] laid_def)

lemma holding_seq_ok:
  assumes "holding s acc c mtp t" and "fmlookup (sequences t) s0 = Some sq"
  shows "seq_ok (physical t) sq"
proof -
  have "s0 \<noteq> s" using assms by (auto simp: holding_def)
  then show ?thesis using assms by (auto simp: holding_def others_ok_def)
qed

lemma holding_extend:
  assumes "holding s acc c mtp t" and "owned (p # map sp_physical acc) t'"
    and "kept UNIV (physical t) (physical t')" and "sequences t' = sequences t"
    and "page_is (physical t') mtp (fill c 0 (length acc)) (mode c 0 (length acc)) (length acc) e"
    and "sp_physical e = p" and "p \<notin> set (map sp_physical acc)"
    and "fits_at (physical t') (sequences t) p (length acc)"
    and "\<And>q. q \<noteq> p \<Longrightarrow> prefix_of (physical t') q = prefix_of (physical t) q"
  shows "holding s (acc @ [e]) c mtp t'"
proof -
  have "fits_at (physical t') (sequences t) (sp_physical (acc ! i)) i" if i: "i < length acc" for i
  proof -
    have "sp_physical (acc ! i) \<noteq> p" using assms(7) i by auto
    moreover have "fits_at (physical t) (sequences t) (sp_physical (acc ! i)) i" using assms(1) i by (simp add: holding_def)
    ultimately show ?thesis using assms(9) by (auto intro: fits_at_mono)
  qed
  then have fits: "\<forall>i<length (acc @ [e]). fits_at (physical t') (sequences t') (sp_physical ((acc @ [e]) ! i)) i"
    using assms(4,6,8) by (auto simp: nth_append less_Suc_eq)
  have "owned (map sp_physical (acc @ [e])) t'"
    using assms(6) by (intro owned_count_cong [OF assms(2)]) auto
  moreover have "others_ok s t" using assms(1) by (simp add: holding_def)
  then have "others_ok s t'"
    by (rule others_ok_kept [OF _ kept_mono [OF assms(3) subset_UNIV]]) (simp add: assms(4))
  moreover have "laid (physical t') mtp (fill c 0) (mode c 0) acc"
    using assms(1) by (intro laid_kept [OF _ assms(3)]) (auto simp: holding_def)
  then have "laid (physical t') mtp (fill c 0) (mode c 0) (acc @ [e])"
    using assms(5) by (auto simp: laid_def nth_append less_Suc_eq)
  ultimately show ?thesis
    using assms(1,4,6,7) fits by (auto simp: holding_def)
qed

lemma holding_finish:
  assumes "holding s acc c mtp t" and "length acc = div_ceil c 64" and "c \<le> 1048576" and "s \<noteq> 0"
    and "sq = \<lparr>sq_mtp = mtp, sq_committed_tokens = c, sq_pages = acc, sq_tentative = None\<rparr>"
  shows "table_inv (set_sequence s sq t)"
proof -
  have "owned [] (set_sequence s sq t)"
    using assms(1,4,5) by (intro owned_new_sequence [of "map sp_physical acc"]) (auto simp: holding_def)
  then have "working s sq (fill c 0) (mode c 0) (set_sequence s sq t)"
    using assms(1,5) by (simp add: working_def holding_def others_ok_def)
  then show ?thesis
    by (rule working_table_inv) (use assms in auto)
qed

section \<open>Forking\<close>

lemma holding_share:
  assumes "holding s acc c mtp t" and "fmlookup (physical t) (sp_physical e) = Some pg"
    and "page_is (physical t) mtp 64 HbmSealed (length acc) e"
    and "64 * (length acc + 1) \<le> c" and "sp_physical e \<notin> set (map sp_physical acc)"
    and "fits_at (physical t) (sequences t) (sp_physical e) (length acc)"
    and "pp_references pg + 1 < 2 ^ 32"
  shows "holding s (acc @ [e]) c mtp (set_page (sp_physical e) (pg\<lparr>pp_references := pp_references pg + 1\<rparr>) t)"
    (is "holding s _ c mtp ?t")
proof (rule holding_extend [OF assms(1) _ _ _ _ refl assms(5)])
  have same: "prefix_of (physical ?t) = prefix_of (physical t)" using prefix_of_Some [OF assms(2)] by auto
  show "fits_at (physical ?t) (sequences t) (sp_physical e) (length acc)"
    by (rule fits_at_mono [OF assms(6) subset_refl]) (simp only: same simp_thms)
  show "prefix_of (physical ?t) q = prefix_of (physical t) q" for q by (simp only: same)
  have st: "pp_state pg = HbmSealed" using assms(2,3) by (auto simp: page_is_def)
  show "owned (sp_physical e # map sp_physical acc) ?t"
    using assms(1) by (intro owned_hold [OF _ assms(2) st assms(7)]) (simp add: holding_def)
  show kp: "kept UNIV (physical t) (physical ?t)"
    using assms(2) by (simp, intro kept_upd) (auto simp: page_kept_def)
  have "fill c 0 (length acc) = 64" "mode c 0 (length acc) = HbmSealed"
    using assms(4) by (auto simp: fill_def mode_def)
  then show "page_is (physical ?t) mtp (fill c 0 (length acc)) (mode c 0 (length acc)) (length acc) e"
    using page_is_kept [OF assms(3) kp] by simp
qed simp

lemma fork_sealed_ok:
  assumes "holding s acc c mtp t" and "64 * (length acc + 1) \<le> c" and "e = es ! length acc"
    and "length acc < length es" and "acc = take (length acc) es" and "distinct (map sp_physical es)"
    and "fmlookup (sequences t) s0 = Some sq" and "sq_pages sq = es" and "sq_mtp sq = mtp"
    and "sq_committed_tokens sq = c" and "sq_tentative sq = None"
  shows "returns {Err Overflow} (\<lambda>(t', acc'). holding s acc' c mtp t' \<and> acc' = take (Suc (length acc)) es
     \<and> sequences t' = sequences t \<and> frame t t') (fork_page mtp e (t, acc))"
proof -
  have "seq_ok (physical t) sq" by (rule holding_seq_ok [OF assms(1,7)])
  then have "page_is (physical t) mtp (fill c 0 (length acc)) (mode c 0 (length acc)) (length acc) e"
    using assms by (auto simp: seq_ok_def shape_def laid_def)
  then have sealed: "page_is (physical t) mtp 64 HbmSealed (length acc) e"
    using assms(2) by (simp add: fill_def mode_def)
  then obtain pg where pg: "fmlookup (physical t) (sp_physical e) = Some pg" "pp_valid_tokens pg = 64" "pp_state pg = HbmSealed"
    by (auto simp: page_is_def)
  have "sp_physical e \<notin> sp_physical ` set (take (length acc) es)"
  proof
    assume "sp_physical e \<in> sp_physical ` set (take (length acc) es)"
    then obtain j where "j < length acc" "sp_physical (es ! j) = sp_physical e"
      by (auto simp: in_set_conv_nth)
    then show False using assms(3,4,6) nth_eq_iff_index_eq [of "map sp_physical es" j "length acc"] by auto
  qed
  then have "sp_physical e \<notin> set (map sp_physical acc)" using assms(5) by (metis set_map)
  moreover have "fits_at (physical t) (sequences t) (sp_physical e) (length acc)"
    using fits_at_page [OF ownedD(4) assms(7)] assms(1,3,4,8) by (auto simp: holding_def)
  ultimately have share: "pp_references pg + 1 < 2 ^ 32 \<Longrightarrow> holding s (acc @ [e]) c mtp
      (set_page (sp_physical e) (pg\<lparr>pp_references := pp_references pg + 1\<rparr>) t)"
    by (rule holding_share [OF assms(1) pg(1) sealed assms(2)])
  have "acc @ [e] = take (Suc (length acc)) es" using assms(3,4,5) by (metis take_Suc_conv_app_nth)
  then show ?thesis
    using pg share by (auto simp: fork_page_def Let_def checked_add_def)
qed

lemma fork_prefix_ok:
  assumes "holding s [] c mtp t" and "64 * n \<le> c" and "n \<le> length es" and "distinct (map sp_physical es)"
    and "fmlookup (sequences t) s0 = Some sq" and "sq_pages sq = es" and "sq_mtp sq = mtp"
    and "sq_committed_tokens sq = c" and "sq_tentative sq = None"
  shows "returns {Err Overflow} (\<lambda>(t', acc). holding s acc c mtp t' \<and> acc = take n es
     \<and> sequences t' = sequences t \<and> frame t t') (rfold (fork_page mtp) (take n es) (t, []))"
  using assms(2,3)
proof (induction n)
  case 0
  then show ?case using assms(1) by simp
next
  case (Suc n)
  have split: "take (Suc n) es = take n es @ [es ! n]" using Suc.prems(2) by (simp add: take_Suc_conv_app_nth)
  show ?case
    unfolding split rfold_append
  proof (rule returns_rbind [OF Suc.IH], goal_cases)
    case (3 x)
    obtain t1 acc where x: "x = (t1, acc)" by (cases x)
    with 3 have h: "holding s acc c mtp t1" and acc: "acc = take n es" and seqs: "sequences t1 = sequences t"
      and fr: "frame t t1" by auto
    have n: "length acc = n" using acc Suc.prems(2) by simp
    have "returns {Err Overflow} (\<lambda>(t', acc'). holding s acc' c mtp t' \<and> acc' = take (Suc (length acc)) es
       \<and> sequences t' = sequences t1 \<and> frame t1 t') (fork_page mtp (es ! n) (t1, acc))"
      using assms Suc.prems acc seqs
      by (intro fork_sealed_ok [OF h, of "es ! n" es s0 sq]) (simp_all add: n)
    then show ?case
      unfolding x rfold.simps
      by (rule returns_rbind) (use split seqs n in \<open>auto intro: frame_trans [OF fr]\<close>)
  qed (use Suc.prems in auto)
qed

lemma fork_tail_ok:
  assumes "holding s acc c mtp t" and "c = 64 * length acc + m" and "0 < m" and "m < 64"
    and "page_is (physical t) mtp m HbmMutable (length acc) e"
  shows "returns {Err Capacity} (\<lambda>(t', acc'). holding s acc' c mtp t' \<and> length acc' = Suc (length acc)
     \<and> take (length acc) acc' = acc \<and> sequences t' = sequences t \<and> frame t t') (fork_page mtp e (t, acc))"
proof -
  let ?n = "length acc"
  have own: "owned (map sp_physical acc) t" using assms(1) by (simp add: holding_def)
  from assms(5) obtain pg where pg: "fmlookup (physical t) (sp_physical e) = Some pg" "pp_valid_tokens pg = m"
      "pp_state pg = HbmMutable" and ord: "sp_ordinal e = ?n" by (auto simp: page_is_def)
  have one: "pp_references pg = 1" using owned_wf [OF own pg(1)] pg(3) by (auto simp: page_wf_def)
  have step: "holding s (acc @ [\<lparr>sp_ordinal = ?n, sp_physical = p\<rparr>]) c mtp
      (set_page p (pg1\<lparr>pp_valid_tokens := m\<rparr>) t1) \<and> frame t t1 \<and> sequences t1 = sequences t"
    if alloc: "allocated (map sp_physical acc) ?n mtp t (t1, p)" and pg1: "fmlookup (physical t1) p = Some pg1" for t1 p pg1
  proof -
    from alloc obtain d where own1: "owned (p # map sp_physical acc) t1" and new: "fmlookup (physical t) p = None"
      and rank: "pid_owner_rank p = owner_rank ?n" and seqs: "sequences t1 = sequences t" and fr: "frame t t1"
      and phys: "physical t1 = fmupd p (fresh_page d) (physical t)" and d: "mtp \<longleftrightarrow> d \<noteq> None"
      and zero: "refcount (sequences t) p = 0"
      by (auto simp: allocated_def)
    have pg1': "pg1 = fresh_page d" using pg1 phys by simp
    have up: "physical (set_page p (pg1\<lparr>pp_valid_tokens := m\<rparr>) t1) = fmupd p (pg1\<lparr>pp_valid_tokens := m\<rparr>) (physical t)"
      by (rule fmap_ext) (simp add: phys)
    have "holding s (acc @ [\<lparr>sp_ordinal = ?n, sp_physical = p\<rparr>]) c mtp (set_page p (pg1\<lparr>pp_valid_tokens := m\<rparr>) t1)"
    proof (rule holding_extend [OF assms(1)])
      show "owned (p # map sp_physical acc) (set_page p (pg1\<lparr>pp_valid_tokens := m\<rparr>) t1)"
        using pg1' assms(4) by (intro owned_set_page [OF own1 pg1]) (auto simp: page_wf_def)
      show "kept UNIV (physical t) (physical (set_page p (pg1\<lparr>pp_valid_tokens := m\<rparr>) t1))"
        unfolding up by (rule kept_upd_new [OF new])
      show "page_is (physical (set_page p (pg1\<lparr>pp_valid_tokens := m\<rparr>) t1)) mtp (fill c 0 ?n) (mode c 0 ?n) ?n
          \<lparr>sp_ordinal = ?n, sp_physical = p\<rparr>"
        using rank d pg1' assms(2-4) by (auto simp: page_is_def fill_def mode_def)
      have "fmlookup (physical t) q \<noteq> None" if "q \<in> set (map sp_physical acc)" for q
        using counted_resident [OF ownedD(2) [OF own], of q] that by (auto simp: count_list_pos simp flip: set_map)
      then show "p \<notin> set (map sp_physical acc)" using new by blast
      show "fits_at (physical (set_page p (pg1\<lparr>pp_valid_tokens := m\<rparr>) t1)) (sequences t) p ?n"
        using positions_unreferenced [OF zero] by (simp add: fits_at_def pg1')
    qed (simp_all add: seqs phys)
    then show ?thesis using fr seqs by simp
  qed
  have "fork_page mtp e (t, acc) = rbind (allocate_page ?n mtp t) (\<lambda>(t1, p).
      rbind (ok_or (fmlookup (physical t1) p) Invariant) (\<lambda>pg1.
        Inr (set_page p (pg1\<lparr>pp_valid_tokens := m\<rparr>) t1, acc @ [\<lparr>sp_ordinal = ?n, sp_physical = p\<rparr>])))"
    using pg one assms(4) ord by (simp add: fork_page_def)
  also have "returns {Err Capacity} (\<lambda>(t', acc'). holding s acc' c mtp t' \<and> length acc' = Suc ?n
     \<and> take ?n acc' = acc \<and> sequences t' = sequences t \<and> frame t t') \<dots>"
  proof (rule returns_rbind [OF allocate_page_ok [OF own]], clarify)
    fix t1 p assume alloc: "allocated (map sp_physical acc) ?n mtp t (t1, p)"
    then obtain pg1 where pg1: "fmlookup (physical t1) p = Some pg1" by (auto simp: allocated_def)
    show "returns {Err Capacity} (\<lambda>(t', acc'). holding s acc' c mtp t' \<and> length acc' = Suc ?n
       \<and> take ?n acc' = acc \<and> sequences t' = sequences t \<and> frame t t')
       (rbind (ok_or (fmlookup (physical t1) p) Invariant) (\<lambda>pg1.
        Inr (set_page p (pg1\<lparr>pp_valid_tokens := m\<rparr>) t1, acc @ [\<lparr>sp_ordinal = ?n, sp_physical = p\<rparr>])))"
      using step [OF alloc pg1] pg1 by (simp add: frame_def set_page_def)
  qed
  finally show ?thesis .
qed

definition forked :: "nat \<Rightarrow> nat \<Rightarrow> page_table \<Rightarrow> page_table \<Rightarrow> bool" where
  "forked s0 s t t' \<longleftrightarrow> table_inv t' \<and> only s t t' \<and> (\<exists>sq acc. fmlookup (sequences t) s0 = Some sq
     \<and> length acc = length (sq_pages sq)
     \<and> take (sq_committed_tokens sq div 64) acc = take (sq_committed_tokens sq div 64) (sq_pages sq)
     \<and> fmlookup (sequences t') s = Some \<lparr>sq_mtp = sq_mtp sq, sq_committed_tokens = sq_committed_tokens sq,
          sq_pages = acc, sq_tentative = None\<rparr>)"

lemma fork_pages_ok:
  assumes "table_inv t" and none: "fmlookup (sequences t) s = None" and sq: "fmlookup (sequences t) s0 = Some sq"
    and tx: "sq_tentative sq = None" and c: "c = sq_committed_tokens sq" and es: "es = sq_pages sq"
  shows "returns {Err Overflow, Err Capacity} (\<lambda>(t', acc). holding s acc c (sq_mtp sq) t' \<and> length acc = length es
     \<and> take (c div 64) acc = take (c div 64) es \<and> sequences t' = sequences t \<and> frame t t')
     (rfold (fork_page (sq_mtp sq)) es (t, []))"
proof -
  obtain q m where cm: "c = 64 * q + m" "m < 64"
    using mult_div_mod_eq [of 64 c] mod_less_divisor [of 64 c] by (metis zero_less_numeral)
  have q: "c div 64 = q" using cm by simp
  have "length es = div_ceil c 64"
    using table_inv_working [OF assms(1) sq] tx by (simp add: c es)
  then have len: "length es = (if m = 0 then q else Suc q)" using cm by (simp add: div_ceil_def)
  have dist: "distinct (map sp_physical es)"
    using owned_distinct [OF _ sq, of "[]"] assms(1) es by (simp add: table_inv_def)
  have pre: "returns {Err Overflow, Err Capacity} (\<lambda>(t', acc). holding s acc c (sq_mtp sq) t' \<and> acc = take q es
     \<and> sequences t' = sequences t \<and> frame t t') (rfold (fork_page (sq_mtp sq)) (take q es) (t, []))"
    by (rule returns_mono [OF fork_prefix_ok [OF holding_start [OF assms(1) none] _ _ dist sq es [symmetric] refl c [symmetric] tx, of q]])
      (use cm len in auto)
  show ?thesis
  proof (cases "m = 0")
    case True
    then have "take q es = es" using len by simp
    with pre show ?thesis by (auto simp: q elim!: returns_mono)
  next
    case False
    have split: "es = take q es @ [es ! q]" using len False by (simp flip: take_Suc_conv_app_nth)
    have "returns {Err Overflow, Err Capacity} (\<lambda>(t', acc). holding s acc c (sq_mtp sq) t' \<and> length acc = length es
       \<and> take (c div 64) acc = take (c div 64) es \<and> sequences t' = sequences t \<and> frame t t')
       (rfold (fork_page (sq_mtp sq)) (take q es @ [es ! q]) (t, []))"
      unfolding rfold_append
    proof (rule returns_rbind [OF pre], clarify)
      fix t1 assume h: "holding s (take q es) c (sq_mtp sq) t1" and seqs: "sequences t1 = sequences t" and fr: "frame t t1"
      have "seq_ok (physical t1) sq" using holding_seq_ok [OF h] sq seqs by simp
      then have "page_is (physical t1) (sq_mtp sq) (fill c 0 q) (mode c 0 q) q (es ! q)"
        using tx c es len False by (simp add: seq_ok_def shape_def laid_def)
      then have "page_is (physical t1) (sq_mtp sq) m HbmMutable (length (take q es)) (es ! q)"
        using cm len False by (simp add: fill_def mode_def)
      then have "returns {Err Capacity} (\<lambda>(t', acc'). holding s acc' c (sq_mtp sq) t' \<and> length acc' = Suc (length (take q es))
          \<and> take (length (take q es)) acc' = take q es \<and> sequences t' = sequences t1 \<and> frame t1 t')
          (fork_page (sq_mtp sq) (es ! q) (t1, take q es))"
        using cm len False by (intro fork_tail_ok [OF h]) auto
      then show "returns {Err Overflow, Err Capacity} (\<lambda>(t', acc). holding s acc c (sq_mtp sq) t' \<and> length acc = length es
         \<and> take (c div 64) acc = take (c div 64) es \<and> sequences t' = sequences t \<and> frame t t')
         (rfold (fork_page (sq_mtp sq)) [es ! q] (t1, take q es))"
        using len False q seqs frame_trans [OF fr]
        by (cases "fork_page (sq_mtp sq) (es ! q) (t1, take q es)") auto
    qed
    then show ?thesis using split by simp
  qed
qed

lemma fork_inner_ok:
  assumes "table_inv t"
  shows "returns {Err Sequence, Err Transaction, Err Overflow, Err Capacity} (\<lambda>(t', _). forked s0 s t t') (fork_inner s0 s t)"
proof (cases "\<exists>sq. fmlookup (sequences t) s0 = Some sq \<and> sq_tentative sq = None
    \<and> s \<noteq> 0 \<and> fmlookup (sequences t) s = None \<and> quarantine_generation t = None")
  case True
  then obtain sq where sq: "fmlookup (sequences t) s0 = Some sq" "sq_tentative sq = None"
    and s: "s \<noteq> 0" "fmlookup (sequences t) s = None" "quarantine_generation t = None" by blast
  have w: "length (sq_pages sq) = div_ceil (sq_committed_tokens sq) 64" "sq_committed_tokens sq \<le> 1048576"
    using table_inv_working [OF assms sq(1)] table_inv_seq [OF assms sq(1)] sq(2) by (auto simp: seq_ok_def)
  have "fork_inner s0 s t = rbind (rfold (fork_page (sq_mtp sq)) (sq_pages sq) (t, [])) (\<lambda>(t', pages).
      Inr (set_sequence s \<lparr>sq_mtp = sq_mtp sq, sq_committed_tokens = sq_committed_tokens sq,
             sq_pages = pages, sq_tentative = None\<rparr> t', ()))"
    using sq s by (simp add: fork_inner_def require_unbound_quarantine_def)
  also have "returns {Err Overflow, Err Capacity} (\<lambda>(t', _). forked s0 s t t') \<dots>"
  proof (rule returns_rbind [OF fork_pages_ok [OF assms s(2) sq refl refl]], clarify)
    fix t1 acc
    assume h: "holding s acc (sq_committed_tokens sq) (sq_mtp sq) t1" and len: "length acc = length (sq_pages sq)"
      and shared: "take (sq_committed_tokens sq div 64) acc = take (sq_committed_tokens sq div 64) (sq_pages sq)"
      and fr: "sequences t1 = sequences t" "frame t t1"
    have "only s t t1" using fr by (simp add: only_def)
    then show "returns {Err Overflow, Err Capacity} (\<lambda>(t', _). forked s0 s t t')
      (Inr (set_sequence s \<lparr>sq_mtp = sq_mtp sq, sq_committed_tokens = sq_committed_tokens sq,
             sq_pages = acc, sq_tentative = None\<rparr> t1, ()))"
      using holding_finish [OF h _ w(2) s(1) refl] len shared w(1) sq(1) only_trans [of s t t1]
      by (auto simp: forked_def)
  qed
  finally show ?thesis by (rule returns_mono) auto
next
  case False
  then have "fork_inner s0 s t \<in> {Inl (Err Sequence), Inl (Err Transaction)}"
    by (cases "fmlookup (sequences t) s0") (auto simp: fork_inner_def require_unbound_quarantine_def ensure_def)
  then show ?thesis by auto
qed

section \<open>Removal\<close>

lemma others_ok_released:
  assumes "released p xs t t'" and "others_ok s t"
  shows "others_ok s t'"
proof (rule others_ok_kept [OF assms(2)])
  have "other_pages s t \<subseteq> {q. q \<noteq> p \<or> 0 < refcount (sequences t) q + count_list xs q}"
    unfolding other_pages_def using refcount_pos by fastforce
  then show "kept (other_pages s t) (physical t) (physical t')"
    using assms(1) kept_mono unfolding released_def by blast
qed (use assms(1) in \<open>simp add: released_def\<close>)

lemma releases_ok:
  assumes "owned (map sp_physical es) t" and "others_ok s t"
  shows "\<exists>t'. rfold (\<lambda>page. release_page (sp_physical page)) es t = Inr t' \<and> owned [] t' \<and> others_ok s t'
    \<and> sequences t' = sequences t \<and> frame t t' \<and> nothing_freed t t'"
  using assms
proof (induction es arbitrary: t)
  case (Cons e es)
  have "owned (sp_physical e # map sp_physical es) t" using Cons.prems(1) by simp
  then obtain t1 where t1: "release_page (sp_physical e) t = Inr t1" and r: "released (sp_physical e) (map sp_physical es) t t1"
    using release_page_ok by blast
  have "owned (map sp_physical es) t1" "others_ok s t1"
    using r others_ok_released [OF r Cons.prems(2)] by (auto simp: released_def)
  then obtain t' where "rfold (\<lambda>page. release_page (sp_physical page)) es t1 = Inr t'" "owned [] t'" "others_ok s t'"
      "sequences t' = sequences t1" "frame t1 t'" "nothing_freed t1 t'"
    using Cons.IH by blast
  moreover have "frame t t1" "sequences t1 = sequences t" "nothing_freed t t1"
    using r by (auto simp: released_def nothing_freed_def)
  ultimately show ?case
    using t1 frame_trans [of t t1 t'] nothing_freed_trans [of t t1 t'] by simp
qed auto

definition removed :: "nat \<Rightarrow> page_table \<Rightarrow> page_table \<Rightarrow> bool" where
  "removed s t t' \<longleftrightarrow> table_inv t' \<and> only s t t' \<and> nothing_freed t t' \<and> fmlookup (sequences t') s = None"

lemma remove_core:
  assumes "table_inv t" and sq: "fmlookup (sequences t) s = Some sq"
  shows "\<exists>t'. rfold (\<lambda>page. release_page (sp_physical page)) (rev (sq_pages sq))
     (t\<lparr>sequences := fmdrop s (sequences t)\<rparr>) = Inr t' \<and> removed s t t'"
proof -
  let ?t = "t\<lparr>sequences := fmdrop s (sequences t)\<rparr>"
  have "owned (map sp_physical (rev (sq_pages sq))) ?t"
    using assms(1) by (intro owned_drop_sequence [OF _ sq]) (simp_all add: table_inv_def count_list_rev flip: rev_map)
  moreover have "others_ok s ?t" using assms(1) by (auto simp: table_inv_def others_ok_def)
  ultimately obtain t' where "rfold (\<lambda>page. release_page (sp_physical page)) (rev (sq_pages sq)) ?t = Inr t'"
      "owned [] t'" "others_ok s t'" "sequences t' = sequences ?t" "frame ?t t'" "nothing_freed ?t t'"
    using releases_ok by blast
  then show ?thesis
    by (auto simp: removed_def table_inv_split [of t' s] only_def frame_def nothing_freed_def)
qed

lemma remove_inner_ok:
  assumes "table_inv t"
  shows "returns {Err Sequence, Err Transaction} (\<lambda>(t', _). removed s t t') (remove_inner s t)"
proof (cases "fmlookup (sequences t) s")
  case None
  then show ?thesis by (simp add: remove_inner_def require_unbound_quarantine_def ensure_def)
next
  case (Some sq)
  then show ?thesis
    using remove_core [OF assms Some] by (auto simp: remove_inner_def require_unbound_quarantine_def ensure_def)
qed

section \<open>Admission\<close>

text \<open>While pages are admitted, each held page carries the prefix with its position's key,
  bound to that position.\<close>

definition admitting :: "nat \<Rightarrow> sequence_page list \<Rightarrow> (nat \<Rightarrow> hash32) \<Rightarrow> nat \<Rightarrow> bool \<Rightarrow> page_table \<Rightarrow> bool" where
  "admitting s acc key c mtp t \<longleftrightarrow> holding s acc c mtp t
     \<and> (\<forall>j<length acc. \<exists>a. prefix_of (physical t) (sp_physical (acc ! j)) = Some (a, j) \<and> at_key a = key j)"

text \<open>A page attached at position \<open>n\<close>: held once more, sealed, full, and bound to \<open>n\<close>.\<close>

definition attached :: "physical_page_id list \<Rightarrow> nat \<Rightarrow> hash32 \<Rightarrow> bool \<Rightarrow> page_table \<Rightarrow>
    page_table \<times> physical_page_id \<Rightarrow> bool" where
  "attached xs n k mtp t r = (case r of (t', p) \<Rightarrow> owned (p # xs) t' \<and> sequences t' = sequences t \<and> frame t t'
     \<and> pid_owner_rank p = owner_rank n
     \<and> (\<exists>pg a. physical t' = fmupd p pg (physical t) \<and> pp_state pg = HbmSealed \<and> pp_valid_tokens pg = 64
          \<and> (mtp \<longrightarrow> pp_draft_local_page_id pg \<noteq> None) \<and> pp_prefix pg = Some (a, n) \<and> at_key a = k)
     \<and> kept UNIV (physical t) (physical t')
     \<and> positions (sequences t) p \<subseteq> {n}
     \<and> (\<forall>pg. fmlookup (physical t) p = Some pg \<longrightarrow> (\<exists>a. pp_prefix pg = Some (a, n))))"

lemma admitting_extend:
  assumes "admitting s acc key c mtp t"
    and "attached (map sp_physical acc) (length acc) (key (length acc)) mtp t (t', p)"
    and "64 * (length acc + 1) \<le> c"
  shows "admitting s (acc @ [\<lparr>sp_ordinal = length acc, sp_physical = p\<rparr>]) key c mtp t'"
proof -
  let ?n = "length acc"
  have h: "holding s acc c mtp t" using assms(1) by (simp add: admitting_def)
  from assms(2) obtain pg a where own: "owned (p # map sp_physical acc) t'" and seqs: "sequences t' = sequences t"
    and rank: "pid_owner_rank p = owner_rank ?n" and phys: "physical t' = fmupd p pg (physical t)"
    and pg: "pp_state pg = HbmSealed" "pp_valid_tokens pg = 64" "mtp \<longrightarrow> pp_draft_local_page_id pg \<noteq> None"
      "pp_prefix pg = Some (a, ?n)" "at_key a = key ?n"
    and kp: "kept UNIV (physical t) (physical t')"
    and bound: "\<forall>pg. fmlookup (physical t) p = Some pg \<longrightarrow> (\<exists>a. pp_prefix pg = Some (a, ?n))"
    and fits: "positions (sequences t) p \<subseteq> {?n}"
    by (auto simp: attached_def)
  have new: "sp_physical (acc ! j) \<noteq> p" if "j < ?n" for j
  proof
    assume "sp_physical (acc ! j) = p"
    moreover obtain b where "prefix_of (physical t) (sp_physical (acc ! j)) = Some (b, j)"
      using assms(1) \<open>j < ?n\<close> by (auto simp: admitting_def)
    ultimately show False using bound that by (auto simp: prefix_of_def bind_eq_Some_conv)
  qed
  have notin: "p \<notin> set (map sp_physical acc)"
  proof
    assume "p \<in> set (map sp_physical acc)"
    then obtain j where "j < ?n" "sp_physical (acc ! j) = p" by (auto simp: in_set_conv_nth)
    then show False using new by blast
  qed
  have "fits_at (physical t') (sequences t) p ?n" using fits pg(4) by (auto simp: fits_at_def phys)
  then have "holding s (acc @ [\<lparr>sp_ordinal = ?n, sp_physical = p\<rparr>]) c mtp t'"
    using pg rank assms(3)
    by (intro holding_extend [OF h own kp seqs _ _ notin]) (auto simp: page_is_def phys fill_def mode_def)
  moreover have "\<exists>a. prefix_of (physical t') (sp_physical ((acc @ [\<lparr>sp_ordinal = ?n, sp_physical = p\<rparr>]) ! j)) = Some (a, j)
      \<and> at_key a = key j"
    if "j < Suc ?n" for j
    using that new assms(1) pg(4,5) by (auto simp: phys nth_append less_Suc_eq admitting_def)
  ultimately show ?thesis by (simp add: admitting_def)
qed

lemma fmupd_same [simp]: "fmupd k v (fmupd k u m) = fmupd k v m"
  by (rule fmap_ext) simp

lemma attachment_relation_key: "attachment_relation_to a b = Inr rel \<Longrightarrow> at_key b = at_key a"
  by (auto simp: attachment_relation_to_def split: if_splits)

text \<open>Sharing a resident page: the attachment may be upgraded and a draft slot added first.\<close>

lemma attach_shared_ok:
  assumes "owned xs t"
  shows "returns {Err Prefix, Err Capacity, Err Overflow} (\<lambda>t'. attached xs n (at_key a) mtp t (t', p))
     (attach_shared mtp n a p t)"
proof (cases "\<exists>pg cur rel. fmlookup (physical t) p = Some pg \<and> pp_prefix pg = Some (cur, n)
    \<and> pp_state pg = HbmSealed \<and> pp_valid_tokens pg = 64 \<and> pid_owner_rank p = owner_rank n
    \<and> attachment_relation_to cur a = Inr rel")
  case False
  then have "attach_shared mtp n a p t = Inl (Err Prefix)"
    by (auto simp: attach_shared_def result_simps rbind_def ok_or_def split: option.splits prod.splits)
  then show ?thesis by simp
next
  case True
  then obtain pg cur rel where pg: "fmlookup (physical t) p = Some pg" "pp_prefix pg = Some (cur, n)"
      "pp_state pg = HbmSealed" "pp_valid_tokens pg = 64" "pid_owner_rank p = owner_rank n"
      "attachment_relation_to cur a = Inr rel" by blast
  let ?pg1 = "if rel = DraftUpgrade then pg\<lparr>pp_prefix := Some (a, n)\<rparr> else pg"
  let ?t1 = "set_page p ?pg1 t"
  have own1: "owned xs ?t1"
    using owned_upgrade [OF assms pg(1,2) attachment_relation_key [OF pg(6)]] owned_set_page [OF assms pg(1) owned_wf [OF assms pg(1)]]
    by auto
  have pg1: "pp_state ?pg1 = HbmSealed" "pp_valid_tokens ?pg1 = 64" "\<exists>b. pp_prefix ?pg1 = Some (b, n) \<and> at_key b = at_key a"
      "pp_draft_local_page_id ?pg1 = pp_draft_local_page_id pg" "pp_references ?pg1 = pp_references pg"
    using pg attachment_relation_key [OF pg(6)] by auto
  have rank: "pid_owner_rank p < 4" using pg(5) by simp
  obtain i where "fits_at (physical t) (sequences t) p i" using ownedD(4) [OF assms] by (auto simp: aligned_def)
  then have fits: "positions (sequences t) p \<subseteq> {n}" using prefix_of_Some [OF pg(1)] pg(2) by (auto simp: fits_at_def)
  have finish: "returns {Err Prefix, Err Capacity, Err Overflow} (\<lambda>t'. attached xs n (at_key a) mtp t (t', p))
      (rbind (ok_or (checked_add 32 (pp_references pg2) 1) Overflow) (\<lambda>references.
         Inr (t2\<lparr>physical := fmupd p (pg2\<lparr>pp_references := references\<rparr>) (physical t2)\<rparr>)))"
    if own2: "owned xs t2" and p2: "fmlookup (physical t2) p = Some pg2" "pp_state pg2 = HbmSealed" "pp_valid_tokens pg2 = 64"
      "\<exists>b. pp_prefix pg2 = Some (b, n) \<and> at_key b = at_key a" "mtp \<longrightarrow> pp_draft_local_page_id pg2 \<noteq> None"
      "pp_draft_local_page_id pg \<noteq> None \<longrightarrow> pp_draft_local_page_id pg2 \<noteq> None"
      and t2: "physical t2 = fmupd p pg2 (physical t)" "sequences t2 = sequences t" "frame t t2" for t2 pg2
  proof (cases "pp_references pg2 + 1 < 2 ^ 32")
    case True
    have "kept UNIV (physical t) (fmupd p (pg2\<lparr>pp_references := pp_references pg2 + 1\<rparr>) (physical t))"
      using p2 pg by (intro kept_upd) (auto simp: page_kept_def)
    then show ?thesis
      using True owned_hold [OF own2 p2(1,2) True] p2 t2 pg fits
      by (auto simp: checked_add_def attached_def set_page_def frame_def)
  next
    case False
    then show ?thesis by (simp add: checked_add_def)
  qed
  have unfold: "attach_shared mtp n a p t =
      rbind (if mtp \<and> pp_draft_local_page_id ?pg1 = None
             then rbind (ok_or (pop_first (free_draft t (pid_owner_rank p))) Capacity)
                    (\<lambda>(d, drafts). Inr (?pg1\<lparr>pp_draft_local_page_id := Some d\<rparr>, (free_draft t)(pid_owner_rank p := drafts)))
             else Inr (?pg1, free_draft t)) (\<lambda>(page2, drafts).
      rbind (ok_or (checked_add 32 (pp_references page2) 1) Overflow) (\<lambda>references.
         Inr (t\<lparr>free_draft := drafts, physical := fmupd p (page2\<lparr>pp_references := references\<rparr>) (physical t)\<rparr>)))"
    using pg by (simp add: attach_shared_def Let_def)
  show ?thesis
  proof (cases "mtp \<and> pp_draft_local_page_id pg = None")
    case False
    have same: "t\<lparr>free_draft := free_draft t, physical := m\<rparr> = t\<lparr>physical := m\<rparr>" for m by (cases t) simp
    show ?thesis
      using finish [OF own1, of ?pg1] False pg1 unfold by (auto simp: same set_page_def frame_def)
  next
    case True
    show ?thesis
    proof (cases "pop_first (free_draft t (pid_owner_rank p))")
      case None
      then show ?thesis using True pg1(4) unfold by simp
    next
      case (Some dS)
      obtain d S where dS: "dS = (d, S)" by (cases dS)
      have d: "d \<in> free_draft t (pid_owner_rank p)" "S = free_draft t (pid_owner_rank p) - {d}"
        using pop_first_Some [OF Some [unfolded dS]] owned_free_finite [OF assms rank] by auto
      let ?pg2 = "?pg1\<lparr>pp_draft_local_page_id := Some d\<rparr>"
      let ?t2 = "?t1\<lparr>free_draft := (free_draft ?t1)(pid_owner_rank p := free_draft ?t1 (pid_owner_rank p) - {d}),
        physical := fmupd p ?pg2 (physical ?t1)\<rparr>"
      have "owned xs ?t2"
        using d True pg1(4) by (intro owned_fill_draft [OF own1]) (auto simp: set_page_def)
      then show ?thesis
        using finish [of ?t2 ?pg2] True pg1 unfold Some dS d(2) by (auto simp: set_page_def frame_def)
    qed
  qed
qed

lemma attach_restored_ok:
  assumes "owned xs t" and "fmlookup (prefixes t) (at_key a) = None"
  shows "returns {Err Capacity} (attached xs n (at_key a) mtp t) (attach_restored mtp n a t)"
  unfolding attach_restored_def
proof (rule returns_rbind [OF allocate_page_ok [OF assms(1)]], clarify)
  fix t1 p assume "allocated xs n mtp t (t1, p)"
  then obtain d where own1: "owned (p # xs) t1" and new: "fmlookup (physical t) p = None"
    and rank: "pid_owner_rank p = owner_rank n" and seqs: "sequences t1 = sequences t" and fr: "frame t t1"
    and phys: "physical t1 = fmupd p (fresh_page d) (physical t)" and d: "mtp \<longleftrightarrow> d \<noteq> None"
    and ps: "prefixes t1 = prefixes t" and zero: "refcount (sequences t) p = 0"
    by (auto simp: allocated_def)
  have pg: "fmlookup (physical t1) p = Some (fresh_page d)" by (simp add: phys)
  let ?pg = "fresh_page d\<lparr>pp_valid_tokens := 64, pp_state := HbmSealed, pp_prefix := Some (a, n)\<rparr>"
  let ?t = "t1\<lparr>physical := fmupd p ?pg (physical t1), prefixes := fmupd (at_key a) p (prefixes t1)\<rparr>"
  have "owned (p # xs) ?t"
    using assms(2) rank ps zero seqs by (intro owned_publish [OF own1 pg]) auto
  moreover have "kept UNIV (physical t) (fmupd p ?pg (physical t))" by (rule kept_upd_new [OF new])
  ultimately have "attached xs n (at_key a) mtp t (?t, p)"
    using seqs fr phys d new rank positions_unreferenced [OF zero] by (auto simp: attached_def frame_def)
  then show "returns {Err Capacity} (attached xs n (at_key a) mtp t) (rbind (ok_or (fmlookup (physical t1) p) Invariant) (\<lambda>page.
      rbind (map_err Transition (transition (pp_state page) HbmSealed)) (\<lambda>st.
        Inr (t1\<lparr>physical := fmupd p (page\<lparr>pp_valid_tokens := PAGE_TOKENS, pp_state := st,
                 pp_prefix := Some (a, n)\<rparr>) (physical t1),
               prefixes := fmupd (at_key a) p (prefixes t1)\<rparr>, p))))"
    by (simp add: pg)
qed

abbreviation admission_errors :: "sequence_page_error fault set" where
  "admission_errors \<equiv> {Err MissingDraft, Err Prefix, Err Capacity, Err Overflow}"

lemma admit_page_ok:
  assumes "admitting s acc key c mtp t" and "64 * (length acc + 1) \<le> c" and "at_key a = key (length acc)"
  shows "returns admission_errors (\<lambda>(t', acc', _). admitting s acc' key c mtp t' \<and> length acc' = Suc (length acc)
     \<and> sequences t' = sequences t \<and> frame t t') (admit_page mtp (length acc, a) (t, acc, seen))"
proof -
  have own: "owned (map sp_physical acc) t" using assms(1) by (simp add: admitting_def holding_def)
  have attach: "returns admission_errors (attached (map sp_physical acc) (length acc) (at_key a) mtp t)
      (case fmlookup (prefixes t) (at_key a) of
         Some pid \<Rightarrow> rbind (attach_shared mtp (length acc) a pid t) (\<lambda>t'. Inr (t', pid))
       | None \<Rightarrow> attach_restored mtp (length acc) a t)"
  proof (cases "fmlookup (prefixes t) (at_key a)")
    case None
    then show ?thesis using returns_mono [OF attach_restored_ok [OF own None], of admission_errors] by auto
  next
    case (Some p)
    have "returns admission_errors (\<lambda>t'. attached (map sp_physical acc) (length acc) (at_key a) mtp t (t', p))
        (attach_shared mtp (length acc) a p t)"
      by (rule returns_mono [OF attach_shared_ok [OF own]]) auto
    then show ?thesis
      using Some by (cases "attach_shared mtp (length acc) a p t") auto
  qed
  show ?thesis
  proof (cases "(mtp \<and> \<not> has_draft a) \<or> at_key a \<in> seen")
    case True
    then show ?thesis by (auto simp: admit_page_def)
  next
    case False
    then have "admit_page mtp (length acc, a) (t, acc, seen) =
        rbind (case fmlookup (prefixes t) (at_key a) of
           Some pid \<Rightarrow> rbind (attach_shared mtp (length acc) a pid t) (\<lambda>t'. Inr (t', pid))
         | None \<Rightarrow> attach_restored mtp (length acc) a t) (\<lambda>(t', pid).
        Inr (t', acc @ [\<lparr>sp_ordinal = length acc, sp_physical = pid\<rparr>], insert (at_key a) seen))"
      by (auto simp: admit_page_def)
    also have "returns admission_errors (\<lambda>(t', acc', _). admitting s acc' key c mtp t' \<and> length acc' = Suc (length acc)
       \<and> sequences t' = sequences t \<and> frame t t') \<dots>"
    proof (rule returns_rbind [OF attach], clarify)
      fix t' p assume att: "attached (map sp_physical acc) (length acc) (at_key a) mtp t (t', p)"
      show "returns admission_errors (\<lambda>(t', acc', _). admitting s acc' key c mtp t' \<and> length acc' = Suc (length acc)
         \<and> sequences t' = sequences t \<and> frame t t')
         (Inr (t', acc @ [\<lparr>sp_ordinal = length acc, sp_physical = p\<rparr>], insert (at_key a) seen))"
        using admitting_extend [OF assms(1) att [unfolded assms(3)] assms(2)] att by (simp add: attached_def)
    qed
    finally show ?thesis .
  qed
qed

lemma admit_pages_ok:
  assumes "admitting s acc key c mtp t" and "64 * (length acc + length as) \<le> c"
    and "\<And>j. j < length as \<Longrightarrow> at_key (as ! j) = key (length acc + j)"
  shows "returns admission_errors (\<lambda>(t', acc', _). admitting s acc' key c mtp t' \<and> length acc' = length acc + length as
     \<and> sequences t' = sequences t \<and> frame t t') (rfold (admit_page mtp) (enumerate (length acc) as) (t, acc, seen))"
  using assms
proof (induction as arbitrary: t acc seen)
  case (Cons a as)
  have le: "64 * (length acc + 1) \<le> c" using Cons.prems(2) by simp
  show ?case
    unfolding enumerate_simps rfold.simps
  proof (rule returns_rbind [OF admit_page_ok [OF Cons.prems(1) le]], use Cons.prems(3) [of 0] in simp, clarify)
    fix t1 acc1 seen1
    assume s1: "admitting s acc1 key c mtp t1" "length acc1 = Suc (length acc)" "sequences t1 = sequences t" "frame t t1"
    have "64 * (length acc1 + length as) \<le> c" using Cons.prems(2) s1(2) by simp
    moreover have "at_key (as ! j) = key (length acc1 + j)" if "j < length as" for j
      using Cons.prems(3) [of "Suc j"] that s1(2) by simp
    ultimately have "returns admission_errors (\<lambda>(t', acc', _). admitting s acc' key c mtp t' \<and> length acc' = length acc1 + length as
       \<and> sequences t' = sequences t1 \<and> frame t1 t') (rfold (admit_page mtp) (enumerate (length acc1) as) (t1, acc1, seen1))"
      by (rule Cons.IH [OF s1(1)])
    then show "returns admission_errors (\<lambda>(t', acc', _). admitting s acc' key c mtp t' \<and> length acc' = length acc + length (a # as)
       \<and> sequences t' = sequences t \<and> frame t t') (rfold (admit_page mtp) (enumerate (Suc (length acc)) as) (t1, acc1, seen1))"
      unfolding s1(2) by (rule returns_mono) (use s1(3) frame_trans [OF s1(4)] in auto)
  qed
qed simp

definition admitted :: "nat \<Rightarrow> bool \<Rightarrow> prefix_page_attachment list \<Rightarrow> page_table \<Rightarrow> page_table \<Rightarrow> bool" where
  "admitted s mtp as t t' \<longleftrightarrow> table_inv t' \<and> only s t t' \<and> fmlookup (sequences t) s = None
     \<and> (\<exists>acc. length acc = length as
          \<and> (\<forall>j<length as. fmlookup (prefixes t') (at_key (as ! j)) = Some (sp_physical (acc ! j)))
          \<and> fmlookup (sequences t') s =
             Some \<lparr>sq_mtp = mtp, sq_committed_tokens = 64 * length as, sq_pages = acc, sq_tentative = None\<rparr>)"

lemma admit_inner_ok:
  assumes "table_inv t"
  shows "returns ({Err Sequence, Err Transaction} \<union> admission_errors) (\<lambda>(t', _). admitted s mtp as t t')
     (admit_inner s mtp as t)"
proof (cases "s \<noteq> 0 \<and> fmlookup (sequences t) s = None \<and> length as \<le> 16384 \<and> quarantine_generation t = None")
  case True
  then have s: "s \<noteq> 0" "fmlookup (sequences t) s = None" "length as \<le> 16384" "quarantine_generation t = None" by auto
  let ?c = "64 * length as"
  let ?key = "\<lambda>j. at_key (as ! j)"
  have "admitting s [] ?key ?c mtp t" using holding_start [OF assms s(2)] by (simp add: admitting_def)
  from admit_pages_ok [OF this, of as "{}"]
  have fold: "returns admission_errors (\<lambda>(t', acc', _). admitting s acc' ?key ?c mtp t' \<and> length acc' = length as
     \<and> sequences t' = sequences t \<and> frame t t') (rfold (admit_page mtp) (enumerate 0 as) (t, [], {}))" by simp
  have "admit_inner s mtp as t = rbind (rfold (admit_page mtp) (enumerate 0 as) (t, [], {})) (\<lambda>(t', pages, _).
      Inr (set_sequence s \<lparr>sq_mtp = mtp, sq_committed_tokens = ?c, sq_pages = pages, sq_tentative = None\<rparr> t', ()))"
    using s by (simp add: admit_inner_def require_unbound_quarantine_def maximum_pages_def checked_mul_def
        set_sequence_def mult.commute)
  also have "returns admission_errors (\<lambda>(t', _). admitted s mtp as t t') \<dots>"
  proof (rule returns_rbind [OF fold], clarify)
    fix t1 acc
    assume h: "admitting s acc ?key ?c mtp t1" and len: "length acc = length as" and fr: "sequences t1 = sequences t" "frame t t1"
    have "table_inv (set_sequence s \<lparr>sq_mtp = mtp, sq_committed_tokens = ?c, sq_pages = acc, sq_tentative = None\<rparr> t1)"
      using h len s by (intro holding_finish [OF _ _ _ _ refl]) (auto simp: admitting_def div_ceil_def)
    moreover have "only s t t1" using fr by (simp add: only_def)
    moreover have "fmlookup (prefixes t1) (at_key (as ! j)) = Some (sp_physical (acc ! j))" if j: "j < length as" for j
    proof -
      obtain a where "prefix_of (physical t1) (sp_physical (acc ! j)) = Some (a, j)" "at_key a = at_key (as ! j)"
        using h len j by (auto simp: admitting_def)
      moreover have "owned (map sp_physical acc) t1" using h by (simp add: admitting_def holding_def)
      ultimately show ?thesis using published_key [OF ownedD(3)] by fastforce
    qed
    ultimately show "returns admission_errors (\<lambda>(t', _). admitted s mtp as t t')
       (Inr (set_sequence s \<lparr>sq_mtp = mtp, sq_committed_tokens = ?c, sq_pages = acc, sq_tentative = None\<rparr> t1, ()))"
      using s(2) len only_trans [of s t t1] by (auto simp: admitted_def)
  qed
  finally show ?thesis by (rule returns_mono) auto
next
  case False
  then have "admit_inner s mtp as t \<in> {Inl (Err Sequence), Inl (Err Transaction)}"
    by (auto simp: admit_inner_def require_unbound_quarantine_def ensure_def maximum_pages_def)
  then show ?thesis by auto
qed

end
