(* ===== verification/Page_Table_Main.thy ===== *)
theory Page_Table_Main
  imports Page_Table_Adm
begin

text \<open>
  The active page table as a whole: every operation keeps the invariant on success and
  leaves the table alone on failure, so every table that a list of commands can lead to
  satisfies it; the failures the code calls invariant violations cannot happen; ids that
  were released wait for their acknowledgement; and what each operation does to the
  sequence it is called on.
\<close>

section \<open>Quarantine\<close>

lemma quarantine_small:
  assumes "table_inv t" and "r < 4"
  shows "card (quarantined_target t r) < 2 ^ 32" and "card (quarantined_draft t r) < 2 ^ 32"
proof -
  have slots: "slots_ok t" using assms(1) by (simp add: table_inv_def owned_def)
  have cfg: "target_pages_per_rank (pt_config t) \<le> 1048576" "draft_pages_per_rank (pt_config t) \<le> 1048576"
    using slots by (auto simp: slots_ok_def config_ok_def)
  have "quarantined_target t r \<subseteq> {..<target_pages_per_rank (pt_config t)}"
    "quarantined_draft t r \<subseteq> {..<draft_pages_per_rank (pt_config t)}"
    using slots_ok_ledgers [OF slots assms(2)] by (auto simp: ledger_def)
  then have "card (quarantined_target t r) \<le> target_pages_per_rank (pt_config t)"
    "card (quarantined_draft t r) \<le> draft_pages_per_rank (pt_config t)"
    using card_mono [OF finite_lessThan] by (metis card_lessThan)+
  with cfg show "card (quarantined_target t r) < 2 ^ 32" "card (quarantined_draft t r) < 2 ^ 32" by simp_all
qed

lemma quarantine_stats_ok:
  assumes "table_inv t"
  shows "\<exists>st. reuse_quarantine_stats t = Inr st"
proof -
  have "rmap (\<lambda>rank. expect (try_uint 32 (card (quarantined_target t rank)))) [0..<4] =
      (Inr (map (\<lambda>rank. card (quarantined_target t rank)) [0..<4]) :: (sequence_page_error, nat list) result)"
    using quarantine_small(1) [OF assms] by (intro rmap_Inr_total) (simp add: try_uint_def)
  moreover have "rmap (\<lambda>rank. expect (try_uint 32 (card (quarantined_draft t rank)))) [0..<4] =
      (Inr (map (\<lambda>rank. card (quarantined_draft t rank)) [0..<4]) :: (sequence_page_error, nat list) result)"
    using quarantine_small(2) [OF assms] by (intro rmap_Inr_total) (simp add: try_uint_def)
  ultimately show ?thesis by (simp only: reuse_quarantine_stats_def) simp
qed

lemma table_inv_generation [simp]: "table_inv (t\<lparr>quarantine_generation := g\<rparr>) \<longleftrightarrow> table_inv t"
  by (simp add: table_inv_def owned_def slots_ok_def)

lemma bind_inner_ok:
  assumes "table_inv t"
  shows "returns {Err Transaction} (\<lambda>(t', _). table_inv t') (bind_quarantine_inner g t)"
  using quarantine_stats_ok [OF assms] assms by (auto simp: bind_quarantine_inner_def)

lemma acknowledge_keeps:
  assumes "table_inv t" and "acknowledge_quarantine_inner g t = Inr (t', st)"
  shows "table_inv t'"
proof -
  have own: "owned [] t" using assms(1) by (simp add: table_inv_def)
  from assms(2) have t': "physical t' = physical t" "sequences t' = sequences t" "prefixes t' = prefixes t"
      "pt_config t' = pt_config t"
    and free: "\<And>r. r < 4 \<Longrightarrow> free_target t' r = free_target t r \<union> quarantined_target t r"
      "\<And>r. r < 4 \<Longrightarrow> free_draft t' r = free_draft t r \<union> quarantined_draft t r"
    and gone: "\<And>r. r < 4 \<Longrightarrow> quarantined_target t' r = {}" "\<And>r. r < 4 \<Longrightarrow> quarantined_draft t' r = {}"
    by (auto simp: acknowledge_quarantine_inner_def result_simps split: if_splits)
  have "slots_ok t'"
    using ownedD(1) [OF own] free gone t' ledger_reclaim unfolding slots_ok_def by auto
  then show ?thesis using assms(1) t' by (simp add: table_inv_def owned_def)
qed

lemma acknowledge_inner_ok:
  assumes "table_inv t"
  shows "returns {Err Transaction} (\<lambda>(t', _). table_inv t' \<and> quarantine_generation t = Some g) (acknowledge_quarantine_inner g t)"
  using quarantine_stats_ok [OF assms] acknowledge_keeps [OF assms, of g]
  by (auto simp: acknowledge_quarantine_inner_def)

lemma new_table_inv: "new_table c = Inr t \<Longrightarrow> table_inv t"
  by (auto simp: new_table_def table_inv_def owned_def slots_ok_def refs_ok_def refcount_def published_def prefix_of_def
      drafts_apart_def config_ok_def target_used_def draft_used_def ledger_def aligned_def fits_at_def
      positions_def split: if_splits)

section \<open>The operations as transactions\<close>

lemma transactional_returns:
  assumes "\<And>t. table_inv t \<Longrightarrow> returns E (\<lambda>(t', _). table_inv t') (inner t)" and "Panic \<notin> E"
  shows "transactional table_inv inner"
proof
  fix t t' x assume "table_inv t" "inner t = Inr (t', x)"
  then show "table_inv t'" using assms(1) [of t] by simp
next
  fix t assume "table_inv t"
  then show "inner t \<noteq> Inl Panic" using assms(1) [of t] assms(2) by auto
qed

lemma append_zero: "append_inner s 0 t = rbind (require_unbound_quarantine t) (\<lambda>_. Inr (t, ()))"
  by (simp add: append_inner_def)

lemma append_inner_keeps:
  assumes "table_inv t"
  shows "returns {Err Sequence, Err Transaction, Err Capacity} (\<lambda>(t', _). table_inv t' \<and> only s t t') (append_inner s n t)"
proof (cases "n = 0")
  case True
  then show ?thesis using assms by (simp add: append_zero require_unbound_quarantine_def ensure_def)
next
  case False
  show ?thesis by (rule returns_mono [OF append_inner_ok [OF assms False]]) (auto simp: appended_def)
qed

interpretation admit_tx: transactional table_inv "admit_inner s mtp as" for s mtp as
  by (rule transactional_returns, rule returns_mono [OF admit_inner_ok subset_refl]) (auto simp: admitted_def)

interpretation append_tx: transactional table_inv "append_inner s n" for s n
  by (rule transactional_returns, rule returns_mono [OF append_inner_keeps subset_refl]) auto

interpretation fork_tx: transactional table_inv "fork_inner s0 s" for s0 s
  by (rule transactional_returns, rule returns_mono [OF fork_inner_ok subset_refl]) (auto simp: forked_def)

interpretation begin_tentative_tx: transactional table_inv "begin_tentative_inner s n" for s n
  by (rule transactional_returns, rule returns_mono [OF begin_tentative_inner_ok subset_refl]) (auto simp: begun_def)

interpretation commit_tx: transactional table_inv "commit_inner s k" for s k
  by (rule transactional_returns, rule returns_mono [OF commit_inner_ok subset_refl]) (auto simp: committed_to_def)

interpretation rollback_tx: transactional table_inv "rollback_inner s" for s
  by (rule transactional_returns, rule returns_mono [OF rollback_inner_ok subset_refl]) (auto simp: rolled_back_def)

interpretation remove_tx: transactional table_inv "remove_inner s" for s
  by (rule transactional_returns, rule returns_mono [OF remove_inner_ok subset_refl]) (auto simp: removed_def)

interpretation bind_tx: transactional table_inv "bind_quarantine_inner g" for g
  by (rule transactional_returns, rule bind_inner_ok) auto

interpretation acknowledge_tx: transactional table_inv "acknowledge_quarantine_inner g" for g
  by (rule transactional_returns, rule returns_mono [OF acknowledge_inner_ok subset_refl]) auto

section \<open>Commands\<close>

datatype table_command =
    Admit nat bool "prefix_page_attachment list" | Append nat nat | Fork nat nat
  | BeginTentative nat nat | CommitTentative nat nat | RollbackTentative nat | Remove nat
  | BindQuarantine nat | AcknowledgeQuarantine nat

text \<open>The failure a call returns, if any, and the table it leaves behind.\<close>

fun table_call :: "table_command \<Rightarrow> page_table \<Rightarrow> sequence_page_error fault option \<times> page_table" where
  "table_call (Admit s mtp as) t = apfst failure (admit_with_prefix s mtp as t)"
| "table_call (Append s n) t = apfst failure (append_committed s n t)"
| "table_call (Fork s0 s) t = apfst failure (fork_sequence s0 s t)"
| "table_call (BeginTentative s n) t = apfst failure (begin_tentative s n t)"
| "table_call (CommitTentative s k) t = apfst failure (commit_tentative s k t)"
| "table_call (RollbackTentative s) t = apfst failure (rollback_tentative s t)"
| "table_call (Remove s) t = apfst failure (remove_sequence s t)"
| "table_call (BindQuarantine g) t = apfst failure (bind_reuse_quarantine g t)"
| "table_call (AcknowledgeQuarantine g) t = apfst failure (acknowledge_reuse_quarantine g t)"

definition table_exec :: "table_command \<Rightarrow> page_table \<Rightarrow> page_table" where
  "table_exec c t = snd (table_call c t)"

lemmas table_operations = admit_with_prefix_def append_committed_def fork_sequence_def begin_tentative_def
  commit_tentative_def rollback_tentative_def remove_sequence_def bind_reuse_quarantine_def
  acknowledge_reuse_quarantine_def

text \<open>Every operation is one of these inner computations run as a transaction.\<close>

fun table_inner :: "table_command \<Rightarrow> page_table \<Rightarrow> (sequence_page_error, page_table) result" where
  "table_inner (Admit s mtp as) t = rbind (admit_inner s mtp as t) (\<lambda>(t', _). Inr t')"
| "table_inner (Append s n) t = rbind (append_inner s n t) (\<lambda>(t', _). Inr t')"
| "table_inner (Fork s0 s) t = rbind (fork_inner s0 s t) (\<lambda>(t', _). Inr t')"
| "table_inner (BeginTentative s n) t = rbind (begin_tentative_inner s n t) (\<lambda>(t', _). Inr t')"
| "table_inner (CommitTentative s k) t = rbind (commit_inner s k t) (\<lambda>(t', _). Inr t')"
| "table_inner (RollbackTentative s) t = rbind (rollback_inner s t) (\<lambda>(t', _). Inr t')"
| "table_inner (Remove s) t = rbind (remove_inner s t) (\<lambda>(t', _). Inr t')"
| "table_inner (BindQuarantine g) t = rbind (bind_quarantine_inner g t) (\<lambda>(t', _). Inr t')"
| "table_inner (AcknowledgeQuarantine g) t = rbind (acknowledge_quarantine_inner g t) (\<lambda>(t', _). Inr t')"

lemma table_call_inner:
  "table_call c t = (case table_inner c t of Inl f \<Rightarrow> (Some f, t) | Inr t' \<Rightarrow> (None, t'))"
  by (cases c) (simp_all only: table_call.simps table_inner.simps table_operations transact_failure)

text \<open>The one statement about all of them.\<close>

abbreviation table_errors :: "sequence_page_error fault set" where
  "table_errors \<equiv> {Err Sequence, Err Transaction, Err Capacity, Err MissingDraft, Err Prefix, Err Overflow}"

lemma table_inner_ok:
  assumes "table_inv t"
  shows "returns table_errors (\<lambda>t'. table_inv t' \<and>
    (case c of AcknowledgeQuarantine g \<Rightarrow> quarantine_generation t = Some g
     | BindQuarantine g \<Rightarrow> t' = t \<or> t' = t\<lparr>quarantine_generation := Some g\<rparr>
     | _ \<Rightarrow> frame t t')) (table_inner c t)"
proof (cases c)
  case (Admit s mtp as)
  then show ?thesis by (auto simp: admitted_def only_def intro: returns_fst [OF admit_inner_ok [OF assms]])
next
  case (Append s n)
  then show ?thesis by (auto simp: only_def intro: returns_fst [OF append_inner_keeps [OF assms]])
next
  case (Fork s0 s)
  then show ?thesis by (auto simp: forked_def only_def intro: returns_fst [OF fork_inner_ok [OF assms]])
next
  case (BeginTentative s n)
  then show ?thesis by (auto simp: begun_def only_def intro: returns_fst [OF begin_tentative_inner_ok [OF assms]])
next
  case (CommitTentative s k)
  then show ?thesis by (auto simp: committed_to_def only_def intro: returns_fst [OF commit_inner_ok [OF assms]])
next
  case (RollbackTentative s)
  then show ?thesis by (auto simp: rolled_back_def only_def intro: returns_fst [OF rollback_inner_ok [OF assms]])
next
  case (Remove s)
  then show ?thesis by (auto simp: removed_def only_def intro: returns_fst [OF remove_inner_ok [OF assms]])
next
  case (BindQuarantine g)
  then show ?thesis
    using quarantine_stats_ok [OF assms] assms by (auto simp: bind_quarantine_inner_def)
next
  case (AcknowledgeQuarantine g)
  then show ?thesis by (auto intro: returns_fst [OF acknowledge_inner_ok [OF assms]])
qed

lemma table_exec_keeps: "table_inv t \<Longrightarrow> table_inv (table_exec c t)"
  by (cases c) (auto simp: table_exec_def table_operations intro: admit_tx.keeps append_tx.keeps fork_tx.keeps
      begin_tentative_tx.keeps commit_tx.keeps rollback_tx.keeps remove_tx.keeps bind_tx.keeps acknowledge_tx.keeps)

interpretation table: machine table_inv table_exec
  by unfold_locales (rule table_exec_keeps)

text \<open>The tables the code can reach from a new one.\<close>

inductive reachable :: "page_table_config \<Rightarrow> page_table \<Rightarrow> bool" for cfg where
  start: "new_table cfg = Inr t \<Longrightarrow> reachable cfg t"
| call: "reachable cfg t \<Longrightarrow> reachable cfg (table_exec c t)"

inductive_cases reachableE: "reachable cfg t"

lemma reachable_inv: "reachable cfg t \<Longrightarrow> table_inv t"
  by (induction rule: reachable.induct) (auto intro: new_table_inv table_exec_keeps)

lemma table_exec_config: "table_inv t \<Longrightarrow> pt_config (table_exec c t) = pt_config t"
  using table_inner_ok [of t c]
  by (cases c; cases "table_inner c t")
    (auto simp: table_exec_def table_call_inner frame_def acknowledge_quarantine_inner_def result_simps
      simp del: table_call.simps split: if_splits)

lemma reachable_config: "reachable cfg t \<Longrightarrow> pt_config t = cfg"
proof (induction rule: reachable.induct)
  case (start t)
  then show ?case by (auto simp: new_table_def split: if_splits)
qed (simp add: table_exec_config reachable_inv)

end
