(* ===== verification/Page_Table_Props.thy ===== *)
theory Page_Table_Props
  imports Page_Table_Main
begin

text \<open>
  What the active page table guarantees, over the tables its operations can reach.
\<close>

section \<open>Lemmas\<close>

lemma transact_ok: "transact inner t = (Inr x, t') \<Longrightarrow> inner t = Inr (t', x)"
  by (simp add: transact_Inr)

lemma table_exec_frame:
  assumes "table_inv t" and "\<forall>g. c \<noteq> AcknowledgeQuarantine g"
  shows "free_target (table_exec c t) r \<subseteq> free_target t r \<and> free_draft (table_exec c t) r \<subseteq> free_draft t r"
proof (cases "table_inner c t")
  case (Inl f)
  then show ?thesis by (simp add: table_exec_def table_call_inner del: table_call.simps)
next
  case (Inr t')
  then have exec: "table_exec c t = t'" by (simp add: table_exec_def table_call_inner del: table_call.simps)
  have "case c of AcknowledgeQuarantine g \<Rightarrow> quarantine_generation t = Some g
      | BindQuarantine g \<Rightarrow> t' = t \<or> t' = t\<lparr>quarantine_generation := Some g\<rparr>
      | _ \<Rightarrow> frame t t'"
    using table_inner_ok [OF assms(1), of c] Inr by simp
  then show ?thesis using assms(2) unfolding exec by (cases c) (auto simp: frame_def)
qed

lemma table_run_frame:
  assumes "table_inv t" and "\<forall>c\<in>set cs. \<forall>g. c \<noteq> AcknowledgeQuarantine g"
  shows "free_target (fold table_exec cs t) r \<subseteq> free_target t r \<and> free_draft (fold table_exec cs t) r \<subseteq> free_draft t r"
  using assms
proof (induction cs arbitrary: t)
  case (Cons c cs)
  have keep: "table_inv (table_exec c t)" by (rule table_exec_keeps [OF Cons.prems(1)])
  have step: "free_target (table_exec c t) r \<subseteq> free_target t r" "free_draft (table_exec c t) r \<subseteq> free_draft t r"
    using table_exec_frame [OF Cons.prems(1), of c] Cons.prems(2) by simp_all
  have "free_target (fold table_exec cs (table_exec c t)) r \<subseteq> free_target (table_exec c t) r
      \<and> free_draft (fold table_exec cs (table_exec c t)) r \<subseteq> free_draft (table_exec c t) r"
    using Cons.prems(2) by (intro Cons.IH [OF keep]) simp_all
  then show ?case using step by auto
qed simp

text \<open>Counting the slots of a rank.\<close>

lemma ledger_card:
  assumes "ledger n F Q U"
  shows "card F + card Q + card U = n"
proof -
  have un: "F \<union> Q \<union> U = {..<n}" and disj: "F \<inter> Q = {}" "(F \<union> Q) \<inter> U = {}"
    using assms by (auto simp: ledger_def)
  have fin: "finite F" "finite Q" "finite U"
    using un finite_lessThan [of n] by (metis finite_Un)+
  have "card (F \<union> Q \<union> U) = card F + card Q + card U"
    using fin disj by (simp add: card_Un_disjoint)
  then show ?thesis using un by simp
qed

lemma target_used_card: "card (target_used (physical t) r) = pages_of_rank t (\<lambda>_. True) r"
proof -
  have "inj_on pid_target_local_page_id {p \<in> fmdom' (physical t). pid_owner_rank p = r}"
    by (rule inj_onI) (auto intro: pid_eqI)
  then have "card (target_used (physical t) r) = card {p \<in> fmdom' (physical t). pid_owner_rank p = r}"
    unfolding target_used_def by (rule card_image)
  also have "{p \<in> fmdom' (physical t). pid_owner_rank p = r} =
      fset (ffilter (\<lambda>p. pid_owner_rank p = r \<and> True) (fmdom (physical t)))"
    by (auto simp: fmdom'_alt_def)
  finally show ?thesis by (simp add: pages_of_rank_def)
qed

lemma draft_used_card:
  assumes "drafts_apart (physical t)"
  shows "card (draft_used (physical t) r) = pages_of_rank t (\<lambda>page. pp_draft_local_page_id page \<noteq> None) r"
proof -
  let ?P = "{p. \<exists>pg. fmlookup (physical t) p = Some pg \<and> pid_owner_rank p = r \<and> pp_draft_local_page_id pg \<noteq> None}"
  let ?d = "\<lambda>p. the (pp_draft_local_page_id (the (fmlookup (physical t) p)))"
  have "inj_on ?d ?P" using assms by (fastforce simp: drafts_apart_def intro: inj_onI)
  moreover have "draft_used (physical t) r = ?d ` ?P" by (force simp: draft_used_def)
  ultimately have "card (draft_used (physical t) r) = card ?P" by (simp add: card_image)
  also have "?P = fset (ffilter (\<lambda>p. pid_owner_rank p = r \<and> pp_draft_local_page_id (the (fmlookup (physical t) p)) \<noteq> None)
      (fmdom (physical t)))"
    by (auto simp: fmlookup_dom_iff)
  finally show ?thesis by (simp add: pages_of_rank_def)
qed

text \<open>The fills of the pages add up to the tokens.\<close>

lemma sum_fill: "n \<le> 64 * k \<Longrightarrow> (\<Sum>i<k. fill n 0 i) = n"
proof (induction k arbitrary: n)
  case (Suc k)
  show ?case
  proof (cases "n \<le> 64 * k")
    case True
    then show ?thesis using Suc.IH [OF True] by (simp add: fill_def)
  next
    case False
    have "(\<Sum>i<k. fill n 0 i) = (\<Sum>i<k. 64)" using False by (intro sum.cong) (auto simp: fill_def)
    then show ?thesis using False Suc.prems by (simp add: fill_def)
  qed
qed simp

section \<open>A small table\<close>

text \<open>Three target and two draft slots per rank, and one MTP sequence of 70 tokens.\<close>

definition sample_config :: page_table_config where
  "sample_config = \<lparr>target_pages_per_rank = 3, draft_pages_per_rank = 2\<rparr>"

definition sample_start :: page_table where
  "sample_start = \<lparr>pt_config = sample_config, free_target = (\<lambda>_. {0, 1, 2}), free_draft = (\<lambda>_. {0, 1}),
     quarantined_target = (\<lambda>_. {}), quarantined_draft = (\<lambda>_. {}), quarantine_generation = None,
     physical = fmempty, prefixes = fmempty, sequences = fmempty\<rparr>"

definition sample_table :: page_table where
  "sample_table = table_exec (Append 1 70) (table_exec (Admit 1 True []) sample_start)"

lemma sample_new: "new_table sample_config = Inr sample_start"
  by (simp add: new_table_def sample_start_def sample_config_def lessThan_nat_numeral lessThan_Suc insert_commute
      numeral_2_eq_2 numeral_3_eq_3)

lemma sample_reachable: "reachable sample_config sample_table"
  unfolding sample_table_def by (intro reachable.call reachable.start sample_new)

lemmas table_eval = append_committed_def append_inner_def append_tokens_def admit_with_prefix_def admit_inner_def
  transact_def require_unbound_quarantine_def fill_tail_def append_pages.simps allocate_page_def pop_first_def
  checked_add_def checked_sub_def try_uint_def checked_mul_def set_page_def set_sequence_def Let_def owner_rank_def
  maximum_pages_def failure_def begin_tentative_def begin_tentative_inner_def reserve_token_def reserve_on_tail_def
  fork_sequence_def fork_inner_def fork_page_def

definition sample_page :: "nat \<Rightarrow> physical_page_id" where
  "sample_page r = \<lparr>pid_owner_rank = r, pid_target_local_page_id = 0\<rparr>"

definition sample_sequence :: sequence where
  "sample_sequence = \<lparr>sq_mtp = True, sq_committed_tokens = 70,
     sq_pages = [\<lparr>sp_ordinal = 0, sp_physical = sample_page 0\<rparr>, \<lparr>sp_ordinal = 1, sp_physical = sample_page 1\<rparr>],
     sq_tentative = None\<rparr>"

lemma sample_table_eq:
  "sample_table = \<lparr>pt_config = sample_config, free_target = (\<lambda>_. {0, 1, 2})(0 := {1, 2}, 1 := {1, 2}),
     free_draft = (\<lambda>_. {0, 1})(0 := {1}, 1 := {1}),
     quarantined_target = (\<lambda>_. {}), quarantined_draft = (\<lambda>_. {}), quarantine_generation = None,
     physical = fmupd (sample_page 1)
         \<lparr>pp_draft_local_page_id = Some 0, pp_state = HbmMutable, pp_valid_tokens = 6, pp_references = 1, pp_prefix = None\<rparr>
       (fmupd (sample_page 0)
         \<lparr>pp_draft_local_page_id = Some 0, pp_state = HbmSealed, pp_valid_tokens = 64, pp_references = 1, pp_prefix = None\<rparr>
         fmempty),
     prefixes = fmempty, sequences = fmupd 1 sample_sequence fmempty\<rparr>"
  by (simp add: sample_table_def table_exec_def sample_start_def table_eval sample_page_def sample_sequence_def)

section \<open>The invariant and the failures\<close>

text \<open>
  (C1) Every page table that the operations can reach is well formed: on each rank the ids are
  split between free, quarantined and in use with no overlap, every page is referenced exactly
  as often as its reference count says, the prefix map and the pages agree, a shared page has
  the same position in every sequence that holds it, and the pages of
  every sequence are exactly those its committed and reserved tokens need, in order, on the
  right ranks, with the right fill and state.
\<close>

theorem reachable_table_well_formed: "reachable cfg t \<Longrightarrow> table_inv t"
  by (rule reachable_inv)

lemma reachable_table_well_formed_witness: "reachable sample_config sample_table \<and> table_inv sample_table"
  using reachable_table_well_formed [OF sample_reachable] sample_reachable by simp

text \<open>
  (C2) No operation on a reachable table panics or reports a broken invariant, an unexpected
  page state or an illegal transition: the failures are a bad request, missing capacity and
  the counter limit. A call that fails leaves the table exactly as it was.
\<close>

theorem table_calls_safe:
  assumes "reachable cfg t"
  shows "case table_call c t of (None, _) \<Rightarrow> True
     | (Some f, t') \<Rightarrow> t' = t \<and> f \<noteq> Panic \<and> f \<noteq> Err Invariant \<and> f \<noteq> Err State \<and> (\<forall>e. f \<noteq> Err (Transition e))"
  using table_inner_ok [OF reachable_inv [OF assms], of c]
  by (cases "table_inner c t") (auto simp: table_call_inner simp del: table_call.simps)

lemma table_calls_safe_witness:
  "reachable sample_config sample_table \<and> table_call (Append 1 400000000000000000000) sample_table = (Some (Err Transaction), sample_table)
   \<and> Err Transaction \<noteq> (Panic :: sequence_page_error fault)"
proof -
  have "table_call (Append 1 400000000000000000000) sample_table = (Some (Err Transaction), sample_table)"
    by (simp add: sample_table_eq sample_sequence_def table_eval)
  then show ?thesis
    using table_calls_safe [OF sample_reachable, of "Append 1 400000000000000000000"] sample_reachable by simp
qed

section \<open>Reuse of page ids\<close>

text \<open>
  (C3) A page id that is in use or waiting in quarantine does not become free again, whatever
  operations follow, until a generation is acknowledged. So between two acknowledgements no
  id is handed out after it was in use, on any rank, for target and draft slots alike.
\<close>

theorem ids_wait_for_acknowledgement:
  assumes "reachable cfg t" and "\<forall>c\<in>set cs. \<forall>g. c \<noteq> AcknowledgeQuarantine g" and "r < 4"
  shows "(quarantined_target t r \<union> target_used (physical t) r) \<inter> free_target (fold table_exec cs t) r = {}
    \<and> (quarantined_draft t r \<union> draft_used (physical t) r) \<inter> free_draft (fold table_exec cs t) r = {}"
proof -
  have inv: "table_inv t" by (rule reachable_inv [OF assms(1)])
  then have slots: "slots_ok t" by (simp add: table_inv_def owned_def)
  show ?thesis
    using slots_ok_ledgers [OF slots assms(3)] table_run_frame [OF inv assms(2), of r] by (auto simp: ledger_def)
qed

lemma ids_wait_for_acknowledgement_witness:
  "0 \<in> target_used (physical sample_table) 0
     \<and> 0 \<notin> free_target (fold table_exec [Remove 1, BindQuarantine 5, Append 1 64] sample_table) 0"
proof -
  have "0 \<in> target_used (physical sample_table) 0"
    by (simp add: sample_table_eq target_used_upd sample_page_def)
  then show ?thesis
    using ids_wait_for_acknowledgement [OF sample_reachable, of "[Remove 1, BindQuarantine 5, Append 1 64]" 0] by auto
qed

text \<open>
  (C4) Once a generation is bound, the table does not change until exactly that generation is
  acknowledged: every other operation, another acknowledgement included, leaves it as it is.
  So the ids an acknowledgement frees are the ones that were retired when it was bound.
\<close>

theorem bound_table_frozen:
  assumes "quarantine_generation t = Some g" and "c \<noteq> AcknowledgeQuarantine g"
  shows "fst (table_call c t) \<noteq> None \<and> snd (table_call c t) = t"
  using assms
  by (cases c) (auto simp: table_call_inner require_unbound_quarantine_def admit_inner_def append_inner_def
      fork_inner_def begin_tentative_inner_def commit_inner_def rollback_inner_def remove_inner_def
      bind_quarantine_inner_def acknowledge_quarantine_inner_def simp del: table_call.simps)

lemma bound_table_frozen_witness:
  "snd (table_call (Append 1 64) (sample_table\<lparr>quarantine_generation := Some 5\<rparr>)) = sample_table\<lparr>quarantine_generation := Some 5\<rparr>"
  using bound_table_frozen [of "sample_table\<lparr>quarantine_generation := Some 5\<rparr>" 5 "Append 1 64"] by simp

text \<open>
  No slot is lost: on every rank the free, the quarantined and the used target slots add
  up to the configured number, and so do the draft slots. The used ones are those \<open>stats\<close> counts.
\<close>

theorem slots_conserved:
  assumes "reachable cfg t" and "r < 4"
  shows "card (free_target t r) + card (quarantined_target t r) + pages_of_rank t (\<lambda>_. True) r = target_pages_per_rank cfg
    \<and> card (free_draft t r) + card (quarantined_draft t r)
        + pages_of_rank t (\<lambda>page. pp_draft_local_page_id page \<noteq> None) r = draft_pages_per_rank cfg"
proof -
  have slots: "slots_ok t" using reachable_inv [OF assms(1)] by (simp add: table_inv_def owned_def)
  show ?thesis
    using ledger_card [OF slots_ok_ledgers(1) [OF slots assms(2)]] ledger_card [OF slots_ok_ledgers(2) [OF slots assms(2)]]
      target_used_card [of t r] draft_used_card [of t r] slots reachable_config [OF assms(1)]
    by (simp add: slots_ok_def)
qed

lemma slots_conserved_witness:
  "card (free_target sample_table 1) + card (quarantined_target sample_table 1) + pages_of_rank sample_table (\<lambda>_. True) 1 = 3"
  using slots_conserved [OF sample_reachable, of 1] by (simp add: sample_config_def)

section \<open>What the operations do\<close>

text \<open>
  The pages the table shows for a sequence account for every token: the view never fails,
  and the fills of the pages add up to the committed and the reserved tokens.
\<close>

theorem views_account_tokens:
  assumes "reachable cfg t" and "fmlookup (sequences t) s = Some sq"
  shows "\<exists>vs. pages t s = Inr vs \<and> length vs = div_ceil (sq_committed_tokens sq + reserved sq) 64
    \<and> sum_list (map pv_valid_tokens vs) = sq_committed_tokens sq + reserved sq"
proof -
  let ?c = "sq_committed_tokens sq" and ?r = "reserved sq"
  have w: "working s sq (fill ?c ?r) (mode ?c ?r) t" and len: "length (sq_pages sq) = div_ceil (?c + ?r) 64"
    using table_inv_working [OF reachable_inv [OF assms(1)] assms(2)] by simp_all
  let ?view = "\<lambda>e. case page_view t e of Inr v \<Rightarrow> v"
  have view: "page_view t (sq_pages sq ! i) = Inr (?view (sq_pages sq ! i))
      \<and> pv_valid_tokens (?view (sq_pages sq ! i)) = fill ?c ?r i" if "i < length (sq_pages sq)" for i
    using working_page [OF w that] by (auto simp: page_view_def)
  then have "page_view t e = Inr (?view e)" if "e \<in> set (sq_pages sq)" for e
    using that by (metis in_set_conv_nth)
  then have "pages t s = Inr (map ?view (sq_pages sq))"
    using assms(2) by (simp add: pages_def rmap_Inr_total [of _ _ ?view])
  moreover have "sum_list (map pv_valid_tokens (map ?view (sq_pages sq))) = (\<Sum>i<length (sq_pages sq). fill ?c ?r i)"
    using view by (simp add: sum_list_sum_nth atLeast0LessThan)
  moreover have "(\<Sum>i<length (sq_pages sq). fill ?c ?r i) = ?c + ?r"
    using sum_fill [of "?c + ?r" "length (sq_pages sq)"] len by (simp add: fill_def div_ceil_64)
  ultimately show ?thesis using len by auto
qed

lemma views_account_tokens_witness:
  "\<exists>vs. pages sample_table 1 = Inr vs \<and> sum_list (map pv_valid_tokens vs) = 70"
  using views_account_tokens [OF sample_reachable, of 1 sample_sequence]
  by (auto simp: sample_table_eq sample_sequence_def reserved_def)

text \<open>
  A successful append of \<open>n\<close> tokens adds exactly \<open>n\<close> committed tokens to its sequence, within
  the context limit, keeps the sequence's pages and adds new ones behind them, and does not
  touch any other sequence.
\<close>

theorem append_adds_tokens:
  assumes "reachable cfg t" and "0 < n" and "append_committed s n t = (Inr (), t')"
  shows "\<exists>k. committed_tokens t s = Some k \<and> committed_tokens t' s = Some (k + n) \<and> k + n \<le> MAXIMUM_CONTEXT_TOKENS
    \<and> (\<exists>es. map sp_physical (sq_pages (the (fmlookup (sequences t') s))) =
              map sp_physical (sq_pages (the (fmlookup (sequences t) s))) @ es)
    \<and> (\<forall>s'. s' \<noteq> s \<longrightarrow> fmlookup (sequences t') s' = fmlookup (sequences t) s')"
proof -
  have "appended s n t t'"
    using append_inner_ok [OF reachable_inv [OF assms(1)], of n s] assms(2) transact_ok [OF assms(3) [unfolded append_committed_def]]
    by simp
  then obtain sq es where inv: "table_inv t'" and fr: "only s t t'" and sq: "fmlookup (sequences t) s = Some sq"
    and sq': "fmlookup (sequences t') s = Some (sq\<lparr>sq_pages := sq_pages sq @ es, sq_committed_tokens := sq_committed_tokens sq + n\<rparr>)"
    by (auto simp: appended_def)
  have "sq_committed_tokens sq + n \<le> 1048576"
    using table_inv_seq [OF inv sq'] by (simp add: seq_ok_def)
  then show ?thesis using sq sq' fr by (auto simp: committed_tokens_def only_def)
qed

lemma append_adds_tokens_witness:
  "\<exists>t'. append_committed 1 100 sample_table = (Inr (), t') \<and> committed_tokens t' 1 = Some 170"
proof -
  obtain t' where t': "append_committed 1 100 sample_table = (Inr (), t')"
    by (simp add: sample_table_eq sample_sequence_def table_eval sample_page_def)
  then show ?thesis
    using append_adds_tokens [OF sample_reachable _ t'] by (auto simp: committed_tokens_def sample_table_eq sample_sequence_def)
qed

text \<open>
  (C5) A rollback undoes a reservation: after a successful \<open>begin_tentative\<close> the rollback succeeds,
  and every sequence, the reserved one with its page list included, is again what it was.
  The pages it drops are not free afterwards, they wait in quarantine.
\<close>

theorem rollback_undoes_begin:
  assumes "reachable cfg t" and "quarantine_generation t = None" and "begin_tentative s n t = (Inr (), t1)"
  shows "\<exists>t2. rollback_tentative s t1 = (Inr (), t2) \<and> sequences t2 = sequences t
    \<and> free_target t2 = free_target t1 \<and> free_draft t2 = free_draft t1"
proof -
  have inv: "table_inv t" by (rule reachable_inv [OF assms(1)])
  have "begun s n t t1"
    using begin_tentative_inner_ok [OF inv, of s n] transact_ok [OF assms(3) [unfolded begin_tentative_def]] by simp
  then obtain sq es tx where inv1: "table_inv t1" and fr: "only s t t1" and sq: "fmlookup (sequences t) s = Some sq"
    and none: "sq_tentative sq = None"
    and sq1: "fmlookup (sequences t1) s = Some (sq\<lparr>sq_pages := sq_pages sq @ es, sq_tentative := Some tx\<rparr>)"
    by (auto simp: begun_def)
  obtain t2 where t2: "rollback_tokens s t1 = Inr t2" and rb: "rolled_back s t1 t2"
    using rollback_core [OF inv1 sq1] by auto
  have "length (sq_pages sq) = div_ceil (sq_committed_tokens sq) 64"
    using table_inv_working [OF inv sq] none by simp
  then have "fmlookup (sequences t2) s = Some (sq\<lparr>sq_tentative := None\<rparr>)"
    using rb sq1 by (auto simp: rolled_back_def)
  moreover have "sq\<lparr>sq_tentative := None\<rparr> = sq" using none by (cases sq) simp
  ultimately have "fmlookup (sequences t2) s' = fmlookup (sequences t) s'" for s'
    using rb fr sq by (cases "s' = s") (auto simp: rolled_back_def only_def)
  then have "sequences t2 = sequences t" by (intro fmap_ext)
  moreover have "quarantine_generation t1 = None" using fr assms(2) by (simp add: only_def frame_def)
  then have "rollback_tentative s t1 = (Inr (), t2)"
    by (simp add: rollback_tentative_def rollback_inner_def require_unbound_quarantine_def transact_def t2)
  ultimately show ?thesis using rb by (auto simp: rolled_back_def nothing_freed_def)
qed

definition sample_reserved :: page_table where
  "sample_reserved = snd (begin_tentative 1 2 sample_table)"

lemma reserve_two: "reserve_tentative s 2 t = rbind (reserve_token s t) (\<lambda>t1. reserve_token s t1)"
  by (auto simp: numeral_2_eq_2 rbind_def split: sum.splits)

lemma sample_begin: "begin_tentative 1 2 sample_table = (Inr (), sample_reserved)"
proof -
  have "fst (begin_tentative 1 2 sample_table) = Inr ()"
    by (simp add: sample_table_eq sample_sequence_def sample_page_def table_eval reserve_two)
  then show ?thesis by (simp add: sample_reserved_def prod_eq_iff)
qed

lemma rollback_undoes_begin_witness:
  "\<exists>t2. rollback_tentative 1 sample_reserved = (Inr (), t2) \<and> sequences t2 = sequences sample_table"
  using rollback_undoes_begin [OF sample_reachable _ sample_begin] by (auto simp: sample_table_eq)

text \<open>
  (C6) A commit takes exactly the accepted tokens: after a reservation of \<open>n\<close> tokens, a commit of
  any \<open>k\<close> of them, at least one, succeeds, the sequence then has \<open>k\<close> more committed tokens on its
  first pages, nothing is reserved any more, and no other sequence has changed.
\<close>

theorem commit_takes_accepted:
  assumes "reachable cfg t" and "quarantine_generation t = None" and "begin_tentative s n t = (Inr (), t1)"
    and "0 < k" and "k \<le> n"
  shows "\<exists>t2 c es sq2. commit_tentative s k t1 = (Inr (), t2) \<and> committed_tokens t s = Some c
    \<and> fmlookup (sequences t2) s = Some sq2 \<and> sq_committed_tokens sq2 = c + k \<and> sq_tentative sq2 = None
    \<and> sq_pages sq2 = take (div_ceil (c + k) 64) (sq_pages (the (fmlookup (sequences t) s)) @ es)
    \<and> (\<forall>s'. s' \<noteq> s \<longrightarrow> fmlookup (sequences t2) s' = fmlookup (sequences t) s')"
proof -
  have inv: "table_inv t" by (rule reachable_inv [OF assms(1)])
  have "begun s n t t1"
    using begin_tentative_inner_ok [OF inv, of s n] transact_ok [OF assms(3) [unfolded begin_tentative_def]] by simp
  then obtain sq es tx where inv1: "table_inv t1" and fr: "only s t t1" and sq: "fmlookup (sequences t) s = Some sq"
    and tx: "reserved_tokens tx = n"
    and sq1: "fmlookup (sequences t1) s = Some (sq\<lparr>sq_pages := sq_pages sq @ es, sq_tentative := Some tx\<rparr>)"
    by (auto simp: begun_def)
  have "k \<le> reserved_tokens tx" using assms(5) tx by simp
  then obtain t2 where t2: "commit_tokens s k tx t1 = Inr t2" and cm: "committed_to s k t1 t2"
    using commit_core [OF inv1 sq1 _ assms(4)] by auto
  have "quarantine_generation t1 = None" using fr assms(2) by (simp add: only_def frame_def)
  then have "commit_tentative s k t1 = (Inr (), t2)"
    using sq1 tx assms(4,5) by (simp add: commit_tentative_def commit_inner_def require_unbound_quarantine_def transact_def t2)
  then show ?thesis
    using cm fr sq sq1 by (auto simp: committed_to_def committed_tokens_def only_def)
qed

lemma commit_takes_accepted_witness:
  "\<exists>t2 sq2. commit_tentative 1 1 sample_reserved = (Inr (), t2) \<and> fmlookup (sequences t2) 1 = Some sq2
     \<and> sq_committed_tokens sq2 = 71"
  using commit_takes_accepted [OF sample_reachable _ sample_begin, of 1]
  by (auto simp: sample_table_eq committed_tokens_def sample_sequence_def)

text \<open>A page that is not sealed is in one sequence only.\<close>

lemma mutable_not_shared:
  assumes "table_inv t" and "fmlookup (sequences t) s = Some sq" and "fmlookup (sequences t) s' = Some sq'" and "s \<noteq> s'"
    and "i < length (sq_pages sq)" and "mode (sq_committed_tokens sq) (reserved sq) i \<noteq> HbmSealed"
  shows "sp_physical (sq_pages sq ! i) \<notin> set (page_ids sq')"
proof -
  let ?p = "sp_physical (sq_pages sq ! i)"
  have w: "working s sq (fill (sq_committed_tokens sq) (reserved sq)) (mode (sq_committed_tokens sq) (reserved sq)) t"
    using table_inv_working [OF assms(1,2)] by simp
  obtain pg where pg: "fmlookup (physical t) ?p = Some pg" "pp_state pg \<noteq> HbmSealed" "page_wf pg"
    using working_page [OF w assms(5)] assms(6) by auto
  then have "pp_references pg = 1" by (auto simp: page_wf_def)
  moreover have "refs_ok [] (physical t) (sequences t)" using assms(1) by (simp add: table_inv_def owned_def)
  ultimately show ?thesis
    using exclusive_page(2) [OF _ pg(1) _ assms(2), of "[]" s' sq'] assms(3,4,5) by auto
qed

text \<open>
  A fork shares the full pages and copies the tail: the new sequence has the same tokens and
  as many pages, its full pages are the same physical pages, and where the source ends in a
  partial page the new sequence has a page of its own there.
\<close>

theorem fork_shares_sealed:
  assumes "reachable cfg t" and "fork_sequence s0 s t = (Inr (), t')"
  shows "\<exists>sq sq'. fmlookup (sequences t) s0 = Some sq \<and> fmlookup (sequences t') s0 = Some sq \<and> fmlookup (sequences t') s = Some sq'
    \<and> sq_committed_tokens sq' = sq_committed_tokens sq \<and> length (sq_pages sq') = length (sq_pages sq)
    \<and> (\<forall>i<length (sq_pages sq). sq_pages sq' ! i = sq_pages sq ! i \<longleftrightarrow> 64 * (i + 1) \<le> sq_committed_tokens sq)"
proof -
  have inner: "fork_inner s0 s t = Inr (t', ())" by (rule transact_ok [OF assms(2) [unfolded fork_sequence_def]])
  then have "forked s0 s t t'" using fork_inner_ok [OF reachable_inv [OF assms(1)], of s0 s] by simp
  then obtain sq acc where inv': "table_inv t'" and fr: "only s t t'" and sq: "fmlookup (sequences t) s0 = Some sq"
    and len: "length acc = length (sq_pages sq)"
    and shared: "take (sq_committed_tokens sq div 64) acc = take (sq_committed_tokens sq div 64) (sq_pages sq)"
    and sq': "fmlookup (sequences t') s = Some \<lparr>sq_mtp = sq_mtp sq, sq_committed_tokens = sq_committed_tokens sq,
          sq_pages = acc, sq_tentative = None\<rparr>" by (auto simp: forked_def)
  have ne: "s0 \<noteq> s" and none: "sq_tentative sq = None"
    using inner sq by (auto simp: fork_inner_def result_simps split: if_splits)
  have sq0: "fmlookup (sequences t') s0 = Some sq" using fr ne sq by (auto simp: only_def)
  have "acc ! i = sq_pages sq ! i \<longleftrightarrow> 64 * (i + 1) \<le> sq_committed_tokens sq" if i: "i < length (sq_pages sq)" for i
  proof (cases "64 * (i + 1) \<le> sq_committed_tokens sq")
    case True
    then have "i < sq_committed_tokens sq div 64" by simp
    then show ?thesis using True shared by (metis nth_take)
  next
    case False
    then have "sp_physical (sq_pages sq ! i) \<notin> set (map sp_physical acc)"
      using mutable_not_shared [OF inv' sq0 sq' ne i] none by (simp add: mode_def)
    then show ?thesis using False i len by (metis length_map nth_map nth_mem)
  qed
  then show ?thesis using sq sq0 sq' len by auto
qed

lemma fork_shares_sealed_witness:
  "\<exists>t' sq'. fork_sequence 1 2 sample_table = (Inr (), t') \<and> fmlookup (sequences t') 2 = Some sq'
     \<and> sq_pages sq' ! 0 = sq_pages sample_sequence ! 0 \<and> sq_pages sq' ! 1 \<noteq> sq_pages sample_sequence ! 1"
proof -
  obtain t' where t': "fork_sequence 1 2 sample_table = (Inr (), t')"
    by (simp add: sample_table_eq sample_sequence_def table_eval sample_page_def)
  have seq: "fmlookup (sequences sample_table) 1 = Some sample_sequence" by (simp add: sample_table_eq)
  obtain sq' where sq': "fmlookup (sequences t') 2 = Some sq'" and pages: "\<forall>i<length (sq_pages sample_sequence).
      sq_pages sq' ! i = sq_pages sample_sequence ! i \<longleftrightarrow> 64 * (i + 1) \<le> sq_committed_tokens sample_sequence"
    using fork_shares_sealed [OF sample_reachable t'] unfolding seq by auto
  then show ?thesis
    using t' pages [rule_format, of 0] pages [rule_format, of 1] by (auto simp: sample_sequence_def)
qed

text \<open>
  A sequence without a reservation can always be removed: while no generation is bound the
  call succeeds, and it removes that sequence and nothing else.
\<close>

theorem remove_always_succeeds:
  assumes "reachable cfg t" and "quarantine_generation t = None" and "fmlookup (sequences t) s = Some sq"
    and "sq_tentative sq = None"
  shows "\<exists>t'. remove_sequence s t = (Inr (), t') \<and> sequences t' = fmdrop s (sequences t)"
proof -
  obtain t' where t': "rfold (\<lambda>page. release_page (sp_physical page)) (rev (sq_pages sq))
     (t\<lparr>sequences := fmdrop s (sequences t)\<rparr>) = Inr t'" and r: "removed s t t'"
    using remove_core [OF reachable_inv [OF assms(1)] assms(3)] by blast
  have "fmlookup (sequences t') s' = fmlookup (fmdrop s (sequences t)) s'" for s'
    using r by (cases "s' = s") (auto simp: removed_def only_def)
  then have "sequences t' = fmdrop s (sequences t)" by (intro fmap_ext)
  then show ?thesis
    using assms t' by (simp add: remove_sequence_def remove_inner_def require_unbound_quarantine_def transact_def)
qed

lemma remove_always_succeeds_witness:
  "\<exists>t'. remove_sequence 1 sample_table = (Inr (), t') \<and> sequences t' = fmempty"
  using remove_always_succeeds [OF sample_reachable, of 1 sample_sequence]
  by (auto simp: sample_table_eq sample_sequence_def fmdrop_fmupd_same)

text \<open>
  (C30) Admission gives the new sequence exactly the prefix pages that were asked for: 64 tokens per
  page, and page number \<open>j\<close> is the one page published under key number \<open>j\<close>.
\<close>

theorem admission_attaches_prefix:
  assumes "reachable cfg t" and "admit_with_prefix s mtp as t = (Inr (), t')"
  shows "\<exists>sq. fmlookup (sequences t') s = Some sq \<and> sq_mtp sq = mtp \<and> sq_committed_tokens sq = 64 * length as
    \<and> length (sq_pages sq) = length as
    \<and> (\<forall>j<length as. fmlookup (prefixes t') (at_key (as ! j)) = Some (sp_physical (sq_pages sq ! j)))
    \<and> fmlookup (sequences t) s = None
    \<and> (\<forall>s'. s' \<noteq> s \<longrightarrow> fmlookup (sequences t') s' = fmlookup (sequences t) s')"
proof -
  have "admitted s mtp as t t'"
    using admit_inner_ok [OF reachable_inv [OF assms(1)], of s mtp as]
      transact_ok [OF assms(2) [unfolded admit_with_prefix_def]] by simp
  then show ?thesis by (auto simp: admitted_def only_def)
qed

definition sample_attachment :: prefix_page_attachment where
  "sample_attachment = \<lparr>at_namespace = replicate 32 1, at_key = replicate 32 2, at_generation = 1,
     at_target_kv_sha256 = replicate 32 3, at_target_indexer_sha256 = replicate 32 4,
     at_draft_sidecar_sha256 = Some (replicate 32 5)\<rparr>"

lemma admission_attaches_prefix_witness:
  "\<exists>t' sq. admit_with_prefix 7 True [sample_attachment] sample_table = (Inr (), t')
     \<and> fmlookup (sequences t') 7 = Some sq \<and> sq_committed_tokens sq = 64"
proof -
  obtain t' where t': "admit_with_prefix 7 True [sample_attachment] sample_table = (Inr (), t')"
    by (simp add: sample_table_eq table_eval sample_page_def admit_page_def attach_restored_def has_draft_def
        sample_attachment_def)
  then show ?thesis using admission_attaches_prefix [OF sample_reachable t'] by auto
qed

end
