(* ===== verification/Delta_Mirror.thy ===== *)
theory Delta_Mirror
  imports Delta Page_Table_Props
begin

text \<open>
  Lemmas on deltas and mirrors: the normal form of a sequence and of a table and which tables
  have one, that the mirror of such a table is valid, that the updates of a delta turn one
  normal form into the other, and that the bytes a digest is computed from determine the delta.
\<close>

section \<open>The normal form of a sequence\<close>

definition entry_of :: "page_table \<Rightarrow> sequence_page \<Rightarrow> rank_page_entry" where
  "entry_of t e = (let page = the (fmlookup (physical t) (sp_physical e)) in
     \<lparr>rp_ordinal = sp_ordinal e, rp_owner_rank = pid_owner_rank (sp_physical e),
      rp_target_local_page_id = pid_target_local_page_id (sp_physical e),
      rp_draft_local_page_id = pp_draft_local_page_id page, rp_state = pp_state page,
      rp_valid_tokens = pp_valid_tokens page\<rparr>)"

definition normal_of :: "page_table \<Rightarrow> sequence \<Rightarrow> normalized_sequence" where
  "normal_of t sq = \<lparr>ns_mtp = sq_mtp sq, ns_committed_tokens = sq_committed_tokens sq,
     ns_tentative_tokens = reserved sq, ns_pages = map (entry_of t) (sq_pages sq)\<rparr>"

text \<open>A sequence is uniform when its pages have a draft slot exactly if it is an MTP sequence.\<close>

definition uniform_sequence :: "page_table \<Rightarrow> sequence \<Rightarrow> bool" where
  "uniform_sequence t sq \<longleftrightarrow>
     (\<forall>e\<in>set (sq_pages sq). (rp_draft_local_page_id (entry_of t e) \<noteq> None) = sq_mtp sq)"

definition uniform :: "page_table \<Rightarrow> bool" where
  "uniform t \<longleftrightarrow> (\<forall>s sq. fmlookup (sequences t) s = Some sq \<longrightarrow> uniform_sequence t sq)"

lemma inv_page:
  assumes "table_inv t" and "fmlookup (sequences t) s = Some sq" and "i < length (sq_pages sq)"
  obtains pg where "fmlookup (physical t) (sp_physical (sq_pages sq ! i)) = Some pg"
    "pp_valid_tokens pg = fill (sq_committed_tokens sq) (reserved sq) i"
    "pp_state pg = mode (sq_committed_tokens sq) (reserved sq) i"
    "sq_mtp sq \<Longrightarrow> pp_draft_local_page_id pg \<noteq> None"
    "sp_ordinal (sq_pages sq ! i) = i" "pid_owner_rank (sp_physical (sq_pages sq ! i)) = owner_rank i"
  using table_inv_seq [OF assms(1,2)] assms(3)
  by (auto simp: seq_ok_def shape_def laid_def page_is_def)

lemma inv_pages_len:
  assumes "table_inv t" and "fmlookup (sequences t) s = Some sq"
  shows "length (sq_pages sq) = (sq_committed_tokens sq + reserved sq + 63) div 64"
    and "sq_committed_tokens sq + reserved sq \<le> 1048576" and "reserved sq \<le> 7"
  using table_inv_seq [OF assms]
  by (auto simp: seq_ok_def shape_def div_ceil_64 tentative_ok_def reserved_def split: option.splits)

lemma inv_distinct: "table_inv t \<Longrightarrow> fmlookup (sequences t) s = Some sq \<Longrightarrow> distinct (page_ids sq) \<and> s \<noteq> 0"
  by (auto simp: table_inv_def owned_def)

lemma inv_drafts_apart: "table_inv t \<Longrightarrow> drafts_apart (physical t)"
  by (simp add: table_inv_def owned_def slots_ok_def)

definition drafts_at :: "rank_page_entry \<Rightarrow> (nat \<times> nat) set" where
  "drafts_at p = (case rp_draft_local_page_id p of None \<Rightarrow> {} | Some d \<Rightarrow> {(rp_owner_rank p, d)})"

definition walked :: "page_table \<Rightarrow> sequence \<Rightarrow> nat \<Rightarrow> nat \<times> (nat \<times> nat) set \<times> (nat \<times> nat) set" where
  "walked t sq i = (\<Sum>j<i. fill (sq_committed_tokens sq) (reserved sq) j,
     (\<lambda>p. (rp_owner_rank p, rp_target_local_page_id p)) ` set (take i (ns_pages (normal_of t sq))),
     \<Union> (drafts_at ` set (take i (ns_pages (normal_of t sq)))))"

lemma fill_sum_le: "(\<Sum>j<i. fill c r j) \<le> c + r"
proof (induction i)
  case (Suc i)
  have "(\<Sum>j<i. fill c r j) \<le> 64 * i" by (induction i) (simp_all add: fill_def)
  with Suc show ?case by (auto simp: fill_def)
qed simp

lemma walk_step:
  assumes inv: "table_inv t" and sq: "fmlookup (sequences t) s = Some sq" and i: "i < length (sq_pages sq)"
  shows "validate_sequence_page (normal_of t sq) (0 + i, map (entry_of t) (sq_pages sq) ! i) (walked t sq i) =
     (if (rp_draft_local_page_id (entry_of t (sq_pages sq ! i)) \<noteq> None) = sq_mtp sq
      then Inr (walked t sq (Suc i)) else Inl (Err Page))"
proof -
  let ?es = "sq_pages sq" and ?c = "sq_committed_tokens sq" and ?r = "reserved sq"
  let ?p = "entry_of t (?es ! i)"
  obtain pg where pg: "fmlookup (physical t) (sp_physical (?es ! i)) = Some pg"
    and v: "pp_valid_tokens pg = fill ?c ?r i" and st: "pp_state pg = mode ?c ?r i"
    and ord: "sp_ordinal (?es ! i) = i" "pid_owner_rank (sp_physical (?es ! i)) = owner_rank i"
    using inv_page [OF inv sq i] by metis
  have len: "length ?es = (?c + ?r + 63) div 64" and lim: "?c + ?r \<le> 1048576"
    using inv_pages_len [OF inv sq] by simp_all
  have pos: "64 * i < ?c + ?r" using i len by linarith
  have last: "i = length ?es - 1 \<longleftrightarrow> ?c + ?r \<le> 64 * i + 64" using i len pos by linarith
  have apart: "(owner_rank i, pid_target_local_page_id (sp_physical (?es ! i))) \<noteq>
       (rp_owner_rank p, rp_target_local_page_id p)" if p: "p \<in> set (take i (map (entry_of t) ?es))" for p
  proof -
    obtain j where j: "j < i" "p = entry_of t (?es ! j)" using p i by (auto simp: in_set_conv_nth)
    have "sp_physical (?es ! j) \<noteq> sp_physical (?es ! i)"
      using inv_distinct [OF inv sq] j i by (auto simp: distinct_conv_nth)
    then show ?thesis using j ord by (auto simp: entry_of_def Let_def dest: pid_eqI)
  qed
  have dapart: "rp_owner_rank p \<noteq> owner_rank i \<or> rp_draft_local_page_id p \<noteq> Some d"
    if p: "p \<in> set (take i (map (entry_of t) ?es))" and d: "pp_draft_local_page_id pg = Some d" for p d
  proof -
    obtain j where j: "j < i" "p = entry_of t (?es ! j)" using p i by (auto simp: in_set_conv_nth)
    have ne: "sp_physical (?es ! j) \<noteq> sp_physical (?es ! i)"
      using inv_distinct [OF inv sq] j i by (auto simp: distinct_conv_nth)
    have "j < length ?es" using j i by simp
    then obtain qg where "fmlookup (physical t) (sp_physical (?es ! j)) = Some qg" using inv_page [OF inv sq] by metis
    then show ?thesis using inv_drafts_apart [OF inv] pg ne d j ord unfolding drafts_apart_def
      by (auto simp: entry_of_def Let_def)
  qed
  have take: "take (Suc i) (map (entry_of t) ?es) = take i (map (entry_of t) ?es) @ [entry_of t (?es ! i)]"
    using i by (simp add: take_Suc_conv_app_nth)
  have sum: "(\<Sum>j<i. fill ?c ?r j) + fill ?c ?r i < 2 ^ 64"
    using fill_sum_le [of ?c ?r "Suc i"] lim by simp
  have mtp: "ns_mtp (normal_of t sq) = sq_mtp sq" "ns_pages (normal_of t sq) = map (entry_of t) ?es"
    "ns_tentative_tokens (normal_of t sq) = ?r" by (simp_all add: normal_of_def)
  have ent: "entry_of t (?es ! i) = \<lparr>rp_ordinal = i, rp_owner_rank = owner_rank i,
      rp_target_local_page_id = pid_target_local_page_id (sp_physical (?es ! i)),
      rp_draft_local_page_id = pp_draft_local_page_id pg, rp_state = mode ?c ?r i, rp_valid_tokens = fill ?c ?r i\<rparr>"
    using pg v st ord by (simp add: entry_of_def)
  have f1: "0 < fill ?c ?r i" "fill ?c ?r i \<le> 64" "i \<noteq> length ?es - 1 \<Longrightarrow> fill ?c ?r i = 64"
    using pos last by (auto simp: fill_def)
  have m0: "mode ?c ?r i = (if i = length ?es - 1 \<and> fill ?c ?r i < 64 then HbmMutable else HbmSealed)" if "?r = 0"
    using that pos last by (auto simp: fill_def mode_def)
  have m1: "mode ?c ?r i = HbmSealed \<or> mode ?c ?r i = HbmTentative" if "?r \<noteq> 0"
    using that by (auto simp: mode_def)
  have islast: "(Some i = checked_sub (length ?es) 1) = (i = length ?es - 1)" using i by (auto simp: checked_sub_def)
  let ?d = "case pp_draft_local_page_id pg of None \<Rightarrow> {} | Some d \<Rightarrow> {(owner_rank i, d)}"
  obtain a T D where w: "walked t sq i = (a, T, D)" by (metis prod_cases3)
  have a: "a = (\<Sum>j<i. fill ?c ?r j)" using w by (simp add: walked_def)
  have tgt: "(owner_rank i, pid_target_local_page_id (sp_physical (?es ! i))) \<notin> T"
    using w apart by (auto simp: walked_def mtp)
  have dft: "?d \<inter> D = {}"
    using w dapart by (fastforce simp: walked_def mtp drafts_at_def split: option.splits)
  have nxt: "walked t sq (Suc i) = (a + fill ?c ?r i, insert (owner_rank i, pid_target_local_page_id (sp_physical (?es ! i))) T, ?d \<union> D)"
    using w by (cases "pp_draft_local_page_id pg") (auto simp: walked_def mtp take ent drafts_at_def)
  have add: "checked_add 64 a (fill ?c ?r i) = Some (a + fill ?c ?r i)" using sum a by (simp add: checked_add_def)
  have state: "\<not> (if ?r = 0 then mode ?c ?r i \<noteq> (if i = length ?es - 1 \<and> fill ?c ?r i < 64 then HbmMutable else HbmSealed)
      else mode ?c ?r i \<noteq> HbmSealed \<and> mode ?c ?r i \<noteq> HbmTentative)"
    using m0 m1 by auto
  have e: "rp_ordinal ?p = i" "rp_owner_rank ?p = owner_rank i"
    "rp_target_local_page_id ?p = pid_target_local_page_id (sp_physical (?es ! i))"
    "rp_draft_local_page_id ?p = pp_draft_local_page_id pg" "rp_state ?p = mode ?c ?r i" "rp_valid_tokens ?p = fill ?c ?r i"
    by (simp_all add: ent)
  have bound: "fill ?c ?r i \<noteq> 0" "\<not> 64 < fill ?c ?r i" "\<not> (i \<noteq> length ?es - 1 \<and> fill ?c ?r i \<noteq> 64)"
    using f1 by auto
  show ?thesis
    unfolding validate_sequence_page_def w nxt Let_def prod.case nth_map [OF i] mtp e length_map islast PAGE_TOKENS_def add_0
    by (cases "(pp_draft_local_page_id pg \<noteq> None) = sq_mtp sq")
      (simp_all only: if_not_P [OF state] if_not_P [OF bound(3)] bound(1,2) tgt dft add ok_or_simps rbind_simps
        simp_thms if_True if_False)
qed

lemma walk_end:
  assumes "table_inv t" and "fmlookup (sequences t) s = Some sq"
  shows "fst (walked t sq (length (sq_pages sq))) = sq_committed_tokens sq + reserved sq"
  using sum_fill [of "sq_committed_tokens sq + reserved sq" "length (sq_pages sq)"] inv_pages_len(1) [OF assms]
  by (simp add: walked_def fill_def)

lemma tentative_shown:
  assumes "table_inv t" and "fmlookup (sequences t) s = Some sq" and "reserved sq \<noteq> 0"
  shows "list_ex (\<lambda>page. rp_state page = HbmTentative) (ns_pages (normal_of t sq))"
proof -
  let ?n = "length (sq_pages sq)"
  have pos: "0 < ?n" and last: "sq_committed_tokens sq < 64 * ?n"
    using inv_pages_len(1) [OF assms(1,2)] assms(3) by linarith+
  then have i: "?n - 1 < ?n" by simp
  obtain pg where "fmlookup (physical t) (sp_physical (sq_pages sq ! (?n - 1))) = Some pg"
    "pp_state pg = mode (sq_committed_tokens sq) (reserved sq) (?n - 1)"
    using inv_page [OF assms(1,2) i] by metis
  then have "rp_state (entry_of t (sq_pages sq ! (?n - 1))) = HbmTentative"
    using pos last assms(3) by (simp add: entry_of_def mode_def)
  then show ?thesis using i nth_mem [OF i] by (auto simp: list_ex_iff normal_of_def)
qed

lemma validate_normal:
  assumes "table_inv t" and "fmlookup (sequences t) s = Some sq"
  shows "validate_sequence (normal_of t sq) = (if uniform_sequence t sq then Inr () else Inl (Err Page))"
proof -
  let ?n = "length (sq_pages sq)"
  have "rfold (validate_sequence_page (normal_of t sq)) (enumerate 0 (map (entry_of t) (sq_pages sq))) (walked t sq 0) =
      (if \<forall>i<?n. (rp_draft_local_page_id (entry_of t (sq_pages sq ! i)) \<noteq> None) = sq_mtp sq
       then Inr (walked t sq ?n) else Inl (Err Page))"
    using rfold_enumerate [where n = 0 and xs = "map (entry_of t) (sq_pages sq)" and S = "walked t sq"
        and f = "validate_sequence_page (normal_of t sq)", OF walk_step [OF assms]]
    by simp
  moreover have "(\<forall>i<?n. (rp_draft_local_page_id (entry_of t (sq_pages sq ! i)) \<noteq> None) = sq_mtp sq) \<longleftrightarrow> uniform_sequence t sq"
    by (auto simp: uniform_sequence_def all_set_conv_all_nth)
  moreover have "walked t sq 0 = (0, {}, {})" by (simp add: walked_def)
  moreover obtain T D where "walked t sq ?n = (sq_committed_tokens sq + reserved sq, T, D)"
    using walk_end [OF assms] by (metis prod.collapse)
  ultimately show ?thesis
    using inv_pages_len [OF assms] tentative_shown [OF assms]
    by (auto simp: validate_sequence_def checked_add_def normal_of_def div_ceil_64)
qed

section \<open>The normal form of a table\<close>

abbreviation normal_table :: "page_table \<Rightarrow> (nat, normalized_sequence) fmap" where
  "normal_table t \<equiv> fmmap (normal_of t) (sequences t)"

lemma snapshot_normal:
  assumes "table_inv t" and "fmlookup (sequences t) s = Some sq"
  shows "\<exists>sn. snapshot t (s, sq) = Inr sn
    \<and> normalize_snapshot sn = rbind (validate_sequence (normal_of t sq)) (\<lambda>_. Inr (s, normal_of t sq))"
proof -
  let ?view = "\<lambda>e. case page_view t e of Inr v \<Rightarrow> v"
  have view: "page_view t e = Inr (?view e) \<and> entry_from_view (?view e) = entry_of t e" if e: "e \<in> set (sq_pages sq)" for e
  proof -
    obtain i where i: "i < length (sq_pages sq)" "e = sq_pages sq ! i" using e by (metis in_set_conv_nth)
    then obtain pg where "fmlookup (physical t) (sp_physical e) = Some pg" using inv_page [OF assms] by metis
    then show ?thesis by (simp add: page_view_def entry_from_view_def entry_of_def)
  qed
  then have pages: "pages t s = Inr (map ?view (sq_pages sq))"
    using assms(2) by (simp add: pages_def rmap_Inr_total [of _ _ ?view])
  have "map entry_from_view (map ?view (sq_pages sq)) = map (entry_of t) (sq_pages sq)" using view by simp
  then show ?thesis by (simp add: snapshot_def pages normalize_snapshot_def normal_of_def reserved_def Let_def del: map_map)
qed

lemma normalized_snapshots_eq:
  assumes "table_inv t"
  shows "normalized_snapshots t = (if uniform t then Inr (normal_table t) else Inl (Err Page))"
proof -
  let ?h = "\<lambda>(s, sq). rbind (validate_sequence (normal_of t sq)) (\<lambda>_. Inr (s, normal_of t sq))"
  obtain sns where sns: "snapshots t = Inr sns" "rmap normalize_snapshot sns = rmap ?h (entries_of (sequences t))"
    using rmap_fuse [of "entries_of (sequences t)" "snapshot t" normalize_snapshot ?h] snapshot_normal [OF assms]
    by (auto simp: snapshots_def)
  have "rmap ?h (entries_of (sequences t)) = (if \<forall>x\<in>set (entries_of (sequences t)). uniform_sequence t (snd x)
      then Inr (map (\<lambda>(s, sq). (s, normal_of t sq)) (entries_of (sequences t))) else Inl (Err Page))"
    using validate_normal [OF assms] by (intro rmap_if) auto
  moreover have "(\<forall>x\<in>set (entries_of (sequences t)). uniform_sequence t (snd x)) \<longleftrightarrow> uniform t"
    by (simp add: uniform_def ball_entries_of)
  ultimately show ?thesis using sns by (simp add: normalized_snapshots_def fmap_of_entries)
qed

subsection \<open>The mirror of a table is valid\<close>

definition entry_id :: "rank_page_entry \<Rightarrow> physical_page_id" where
  "entry_id p = \<lparr>pid_owner_rank = rp_owner_rank p, pid_target_local_page_id = rp_target_local_page_id p\<rparr>"

definition consistent :: "page_table_config \<Rightarrow> rank_page_entry set \<Rightarrow> bool" where
  "consistent cfg E \<longleftrightarrow>
     (\<forall>p\<in>E. rp_target_local_page_id p < target_pages_per_rank cfg
        \<and> (\<forall>d. rp_draft_local_page_id p = Some d \<longrightarrow> d < draft_pages_per_rank cfg))
     \<and> (\<forall>p\<in>E. \<forall>q\<in>E. entry_id p = entry_id q \<longrightarrow> p = q)
     \<and> (\<forall>p\<in>E. \<forall>q\<in>E. \<forall>d. rp_draft_local_page_id p = Some d \<longrightarrow> rp_draft_local_page_id q = Some d
          \<longrightarrow> rp_owner_rank p = rp_owner_rank q \<longrightarrow> entry_id p = entry_id q)"

definition seen_from :: "rank_page_entry set \<Rightarrow>
    (physical_page_id, rank_page_entry) fmap \<times> (nat \<times> nat, physical_page_id) fmap \<Rightarrow> bool" where
  "seen_from E st \<longleftrightarrow> (\<forall>i p. fmlookup (fst st) i = Some p \<longrightarrow> p \<in> E \<and> entry_id p = i)
     \<and> (\<forall>r d i. fmlookup (snd st) (r, d) = Some i \<longrightarrow>
          (\<exists>p\<in>E. entry_id p = i \<and> rp_owner_rank p = r \<and> rp_draft_local_page_id p = Some d))"

lemma mirror_page_ok:
  assumes "consistent cfg E" and "p \<in> E" and "seen_from E st"
  shows "returns {} (seen_from E) (validate_mirror_page cfg p st)"
proof -
  obtain ids ds where st: "st = (ids, ds)" by (cases st)
  have range: "rp_target_local_page_id p < target_pages_per_rank cfg"
    "\<And>d. rp_draft_local_page_id p = Some d \<Longrightarrow> d < draft_pages_per_rank cfg"
    using assms(1,2) by (auto simp: consistent_def)
  have id: "fmlookup ids (entry_id p) \<in> {None, Some p}"
    using assms unfolding consistent_def seen_from_def st by (cases "fmlookup ids (entry_id p)") auto
  have dr: "fmlookup ds (rp_owner_rank p, d) \<in> {None, Some (entry_id p)}" if d: "rp_draft_local_page_id p = Some d" for d
  proof (cases "fmlookup ds (rp_owner_rank p, d)")
    case (Some i)
    then obtain q where q: "q \<in> E" "entry_id q = i" "rp_owner_rank q = rp_owner_rank p" "rp_draft_local_page_id q = Some d"
      using assms(3) unfolding seen_from_def st snd_conv by blast
    then have "entry_id q = entry_id p" using assms(1,2) d unfolding consistent_def by blast
    then show ?thesis using Some q(2) by simp
  qed simp
  have ids: "fmlookup (fmupd (entry_id p) p ids) i = Some q \<Longrightarrow> q \<in> E \<and> entry_id q = i" for i q
    using assms(2,3) by (auto simp: seen_from_def st split: if_splits)
  have old: "fmlookup ds (r, d) = Some i \<Longrightarrow>
      \<exists>q\<in>E. entry_id q = i \<and> rp_owner_rank q = r \<and> rp_draft_local_page_id q = Some d" for r d i
    using assms(3) unfolding seen_from_def st snd_conv by blast
  have new: "\<exists>q\<in>E. entry_id q = i \<and> rp_owner_rank q = r \<and> rp_draft_local_page_id q = Some d'"
    if d: "rp_draft_local_page_id p = Some d" and l: "fmlookup (fmupd (rp_owner_rank p, d) (entry_id p) ds) (r, d') = Some i" for d r d' i
  proof (cases "(r, d') = (rp_owner_rank p, d)")
    case True
    then show ?thesis using d l assms(2) by (intro bexI [of _ p]) simp_all
  next
    case False
    then have "fmlookup ds (r, d') = Some i" using l by (simp split: if_splits)
    then show ?thesis by (rule old)
  qed
  show ?thesis
  proof (cases "rp_draft_local_page_id p")
    case None
    then have "validate_mirror_page cfg p st = Inr (fmupd (entry_id p) p ids, ds)"
      using range id unfolding validate_mirror_page_def st entry_id_def Let_def by auto
    moreover have "seen_from E (fmupd (entry_id p) p ids, ds)"
      using ids old unfolding seen_from_def fst_conv snd_conv by blast
    ultimately show ?thesis by simp
  next
    case (Some d)
    then have "validate_mirror_page cfg p st = Inr (fmupd (entry_id p) p ids, fmupd (rp_owner_rank p, d) (entry_id p) ds)"
      using range id dr [OF Some] unfolding validate_mirror_page_def st entry_id_def Let_def by auto
    moreover have "seen_from E (fmupd (entry_id p) p ids, fmupd (rp_owner_rank p, d) (entry_id p) ds)"
      using ids new [OF Some] unfolding seen_from_def fst_conv snd_conv by blast
    ultimately show ?thesis by simp
  qed
qed

lemma validate_mirror_ok:
  assumes "mi_generation m \<noteq> 0" and "length (keys_of (mi_sequences m)) \<le> 64"
    and seqs: "\<And>s sq. fmlookup (mi_sequences m) s = Some sq \<Longrightarrow> s \<noteq> 0 \<and> validate_sequence sq = Inr () \<and> set (ns_pages sq) \<subseteq> E"
    and cons: "consistent (mi_config m) E"
  shows "validate_mirror m = Inr ()"
proof -
  let ?f = "\<lambda>(request_id, sq) state. if request_id = 0 then Inl (Err Sequence)
     else rbind (validate_sequence sq) (\<lambda>_. rfold (validate_mirror_page (mi_config m)) (ns_pages sq) state)"
  have "returns {} (seen_from E) (?f x st)" if x: "x \<in> set (entries_of (mi_sequences m))" and st: "seen_from E st" for x st
  proof -
    obtain s sq where sq: "x = (s, sq)" "fmlookup (mi_sequences m) s = Some sq" using x by (metis set_entries_of surj_pair)
    have "returns {} (seen_from E) (rfold (validate_mirror_page (mi_config m)) (ns_pages sq) st)"
      using seqs [OF sq(2)] by (intro returns_rfold mirror_page_ok [OF cons] st) auto
    then show ?thesis using seqs [OF sq(2)] sq by simp
  qed
  then have "returns {} (seen_from E) (rfold ?f (entries_of (mi_sequences m)) (fmempty, fmempty))"
    by (intro returns_rfold) (auto simp: seen_from_def)
  then show ?thesis using assms(1,2)
    by (cases "rfold ?f (entries_of (mi_sequences m)) (fmempty, fmempty)") (auto simp: validate_mirror_def)
qed

definition all_entries :: "page_table \<Rightarrow> rank_page_entry set" where
  "all_entries t = {entry_of t e |s sq e. fmlookup (sequences t) s = Some sq \<and> e \<in> set (sq_pages sq)}"

lemma all_entriesE:
  assumes "table_inv t" and "p \<in> all_entries t"
  obtains s sq i pg where "fmlookup (sequences t) s = Some sq" "i < length (sq_pages sq)" "p = entry_of t (sq_pages sq ! i)"
    "fmlookup (physical t) (sp_physical (sq_pages sq ! i)) = Some pg" "rp_ordinal p = i"
    "entry_id p = sp_physical (sq_pages sq ! i)" "rp_draft_local_page_id p = pp_draft_local_page_id pg" "rp_owner_rank p < 4"
proof -
  obtain s sq i where sq: "fmlookup (sequences t) s = Some sq" "i < length (sq_pages sq)" "p = entry_of t (sq_pages sq ! i)"
    using assms(2) by (auto simp: all_entries_def in_set_conv_nth)
  obtain pg where pg: "fmlookup (physical t) (sp_physical (sq_pages sq ! i)) = Some pg" "sp_ordinal (sq_pages sq ! i) = i"
    "pid_owner_rank (sp_physical (sq_pages sq ! i)) = owner_rank i"
    using inv_page [OF assms(1) sq(1,2)] by metis
  show ?thesis
    by (rule that [OF sq pg(1)]) (use sq pg in \<open>simp_all add: entry_of_def entry_id_def owner_rank_def\<close>)
qed

lemma all_entries_consistent:
  assumes inv: "table_inv t"
  shows "consistent (pt_config t) (all_entries t)"
proof -
  have slots: "slots_ok t" and al: "aligned (physical t) (sequences t)" using inv by (simp_all add: table_inv_def owned_def)
  have "rp_target_local_page_id p < target_pages_per_rank (pt_config t)
      \<and> (\<forall>d. rp_draft_local_page_id p = Some d \<longrightarrow> d < draft_pages_per_rank (pt_config t))" if p: "p \<in> all_entries t" for p
  proof -
    obtain pid pg where pg: "fmlookup (physical t) pid = Some pg" "entry_id p = pid"
      "rp_draft_local_page_id p = pp_draft_local_page_id pg" "rp_owner_rank p < 4"
      by (rule all_entriesE [OF inv p]) metis
    have id: "pid_owner_rank pid = rp_owner_rank p" "pid_target_local_page_id pid = rp_target_local_page_id p"
      using pg(2) by (auto simp: entry_id_def)
    then have "rp_target_local_page_id p \<in> target_used (physical t) (rp_owner_rank p)"
      using pg(1) by (force simp: target_used_def intro: fmdom'I)
    moreover have "d \<in> draft_used (physical t) (rp_owner_rank p)" if "rp_draft_local_page_id p = Some d" for d
      using pg id that by (auto simp: draft_used_def)
    ultimately show ?thesis using slots_ok_ledgers [OF slots pg(4)] by (fastforce simp: ledger_def)
  qed
  moreover have "p = q" if p: "p \<in> all_entries t" and q: "q \<in> all_entries t" and eq: "entry_id p = entry_id q" for p q
  proof -
    obtain s sq i where i: "fmlookup (sequences t) s = Some sq" "i < length (sq_pages sq)" "p = entry_of t (sq_pages sq ! i)"
      "rp_ordinal p = i" "entry_id p = sp_physical (sq_pages sq ! i)" by (rule all_entriesE [OF inv p]) metis
    obtain s' sq' j where j: "fmlookup (sequences t) s' = Some sq'" "j < length (sq_pages sq')" "q = entry_of t (sq_pages sq' ! j)"
      "rp_ordinal q = j" "entry_id q = sp_physical (sq_pages sq' ! j)" by (rule all_entriesE [OF inv q]) metis
    have "i \<in> positions (sequences t) (entry_id p)" "j \<in> positions (sequences t) (entry_id p)"
      using i(1,2,5) j(1,2,5) eq unfolding positions_def by auto
    then have "i = j" using al unfolding aligned_def fits_at_def by blast
    then show ?thesis using i j eq by (simp add: entry_of_def Let_def)
  qed
  moreover have "entry_id p = entry_id q" if p: "p \<in> all_entries t" and q: "q \<in> all_entries t"
    and d: "rp_draft_local_page_id p = Some d" "rp_draft_local_page_id q = Some d" "rp_owner_rank p = rp_owner_rank q" for p q d
  proof -
    obtain pg where pg: "fmlookup (physical t) (entry_id p) = Some pg" "rp_draft_local_page_id p = pp_draft_local_page_id pg"
      by (rule all_entriesE [OF inv p]) metis
    obtain qg where qg: "fmlookup (physical t) (entry_id q) = Some qg" "rp_draft_local_page_id q = pp_draft_local_page_id qg"
      by (rule all_entriesE [OF inv q]) metis
    have "pid_owner_rank (entry_id p) = pid_owner_rank (entry_id q)" using d(3) by (simp add: entry_id_def)
    then show ?thesis using inv_drafts_apart [OF inv] pg qg d(1,2) unfolding drafts_apart_def by metis
  qed
  ultimately show ?thesis unfolding consistent_def by blast
qed

definition mirror_of :: "page_table \<Rightarrow> nat \<Rightarrow> page_table_mirror" where
  "mirror_of t g = \<lparr>mi_config = pt_config t, mi_generation = g, mi_sequences = normal_table t\<rparr>"

lemma mirror_of_valid:
  assumes "table_inv t" and "uniform t" and "g \<noteq> 0" and "length (keys_of (sequences t)) \<le> 64"
  shows "validate_mirror (mirror_of t g) = Inr ()"
proof (rule validate_mirror_ok [where E = "all_entries t"])
  fix s ns assume "fmlookup (mi_sequences (mirror_of t g)) s = Some ns"
  then obtain sq where sq: "fmlookup (sequences t) s = Some sq" "ns = normal_of t sq" by (auto simp: mirror_of_def)
  have "uniform_sequence t sq" using assms(2) sq(1) by (auto simp: uniform_def)
  then show "s \<noteq> 0 \<and> validate_sequence ns = Inr () \<and> set (ns_pages ns) \<subseteq> all_entries t"
    using validate_normal [OF assms(1) sq(1)] inv_distinct [OF assms(1) sq(1)] sq
    by (auto simp: normal_of_def all_entries_def)
qed (use assms all_entries_consistent [OF assms(1)] in \<open>simp_all add: mirror_of_def\<close>)

lemma from_table_eq:
  assumes "table_inv t"
  shows "from_table t g =
     (if g = 0 then Inl (Err Generation) else if \<not> uniform t then Inl (Err Page)
      else if length (keys_of (sequences t)) > 64 then Inl (Err Shape) else Inr (mirror_of t g))"
  using mirror_of_valid [OF assms, of g]
  by (auto simp: from_table_def normalized_snapshots_eq [OF assms] mirror_of_def validate_mirror_def)

section \<open>A delta carries a mirror from one table to the next\<close>

lemma rfold_remove:
  "distinct ids \<Longrightarrow> set ids \<subseteq> fmdom' N \<Longrightarrow> rfold remove_from_mirror ids N = Inr (fmdrop_set (set ids) N)"
proof (induction ids arbitrary: N)
  case (Cons i ids)
  then obtain x where "fmlookup N i = Some x" by (auto simp: fmlookup_dom'_iff)
  then have "remove_from_mirror i N = Inr (fmdrop i N)" by (simp add: remove_from_mirror_def)
  moreover have "rfold remove_from_mirror ids (fmdrop i N) = Inr (fmdrop_set (set ids) (fmdrop i N))"
    using Cons.prems by (intro Cons.IH) auto
  moreover have "fmdrop_set (set ids) (fmdrop i N) = fmdrop_set (set (i # ids)) N"
    by (rule fmap_ext) auto
  ultimately show ?case by simp
qed simp

lemma take_common_prefix: "take (common_prefix l r) l = take (common_prefix l r) r"
proof (induction l arbitrary: r)
  case (Cons x l)
  then show ?case by (cases r) (auto simp: common_prefix_def)
qed (simp add: common_prefix_def)

lemma common_prefix_le: "common_prefix l r \<le> length l" "common_prefix l r \<le> length r"
  using length_takeWhile_le [of "\<lambda>(l, r). l = r" "zip l r"] by (simp_all add: common_prefix_def)

definition update_of :: "(nat, normalized_sequence) fmap \<Rightarrow> nat \<times> normalized_sequence \<Rightarrow> sequence_page_update" where
  "update_of N x = (let k = (case fmlookup N (fst x) of None \<Rightarrow> 0
       | Some prior \<Rightarrow> common_prefix (ns_pages prior) (ns_pages (snd x))) in
     \<lparr>up_request_id = fst x, up_mtp = ns_mtp (snd x), up_committed_tokens = ns_committed_tokens (snd x),
      up_tentative_tokens = ns_tentative_tokens (snd x), up_page_count_after = length (ns_pages (snd x)),
      up_first_changed_ordinal = k, up_changed_pages = drop k (ns_pages (snd x))\<rparr>)"

lemma update_of_first: "up_first_changed_ordinal (update_of N x) \<le> length (ns_pages (snd x))"
  by (auto simp: update_of_def Let_def common_prefix_le split: option.splits)

lemma update_between_eq:
  assumes "length (ns_pages (snd x)) < 2 ^ 32"
  shows "update_between N x = Inr (update_of N x)"
proof (cases x)
  case (Pair s n)
  have "common_prefix l (ns_pages n) < 2 ^ 32" for l
    using common_prefix_le(2) [of l "ns_pages n"] assms Pair by simp
  then show ?thesis using assms Pair
    by (cases "fmlookup N s") (simp_all add: update_between_def update_of_def try_uint_def Let_def)
qed

text \<open>A sequence that both maps have must keep its mode: a mirror rejects the change.\<close>

definition same_modes :: "(nat, normalized_sequence) fmap \<Rightarrow> (nat, normalized_sequence) fmap \<Rightarrow> bool" where
  "same_modes N M \<longleftrightarrow> (\<forall>s n m. fmlookup N s = Some n \<longrightarrow> fmlookup M s = Some m \<longrightarrow> ns_mtp n = ns_mtp m)"

lemma normalized_sequence_eqI:
  "\<lparr>ns_mtp = ns_mtp m, ns_committed_tokens = ns_committed_tokens m,
     ns_tentative_tokens = ns_tentative_tokens m, ns_pages = ns_pages m\<rparr> = m"
  "ns_mtp n = ns_mtp m \<Longrightarrow> n\<lparr>ns_pages := ns_pages m, ns_committed_tokens := ns_committed_tokens m,
     ns_tentative_tokens := ns_tentative_tokens m\<rparr> = (m :: normalized_sequence)"
  by (simp, cases n, cases m) simp

lemma update_mirror_of:
  assumes "fmlookup K (fst x) = fmlookup N (fst x)"
    and "\<And>n. fmlookup N (fst x) = Some n \<Longrightarrow> ns_mtp n = ns_mtp (snd x)"
  shows "update_mirror (update_of N x) K = Inr (fmupd (fst x) (snd x) K)"
proof (cases "fmlookup N (fst x)")
  case None
  then show ?thesis using assms(1) by (simp add: update_mirror_def update_of_def Let_def normalized_sequence_eqI)
next
  case (Some n)
  let ?k = "common_prefix (ns_pages n) (ns_pages (snd x))"
  have "take ?k (ns_pages n) @ drop ?k (ns_pages (snd x)) = ns_pages (snd x)"
    by (metis append_take_drop_id take_common_prefix)
  then show ?thesis using Some assms(1) assms(2) [OF Some] common_prefix_le(1) [of "ns_pages n" "ns_pages (snd x)"]
    by (simp add: update_mirror_def update_of_def Let_def normalized_sequence_eqI)
qed

lemma rfold_update:
  assumes "distinct (map fst xs)" and "\<And>x. x \<in> set xs \<Longrightarrow> fmlookup K (fst x) = fmlookup N (fst x)"
    and "\<And>x n. x \<in> set xs \<Longrightarrow> fmlookup N (fst x) = Some n \<Longrightarrow> ns_mtp n = ns_mtp (snd x)"
  shows "rfold update_mirror (map (update_of N) xs) K = Inr (fmadd K (fmap_of_list xs))"
  using assms
proof (induction xs arbitrary: K)
  case (Cons x xs)
  have step: "update_mirror (update_of N x) K = Inr (fmupd (fst x) (snd x) K)"
    using Cons.prems by (intro update_mirror_of) auto
  have "rfold update_mirror (map (update_of N) xs) (fmupd (fst x) (snd x) K) =
      Inr (fmadd (fmupd (fst x) (snd x) K) (fmap_of_list xs))"
  proof (rule Cons.IH)
    show "distinct (map fst xs)" using Cons.prems(1) by simp
    fix y assume y: "y \<in> set xs"
    then have "fst y \<noteq> fst x" using Cons.prems(1) by (metis distinct.simps(2) image_eqI list.map(2) set_map)
    then show "fmlookup (fmupd (fst x) (snd x) K) (fst y) = fmlookup N (fst y)" using Cons.prems(2) [of y] y by simp
    show "ns_mtp n = ns_mtp (snd y)" if n: "fmlookup N (fst y) = Some n" for n
      by (rule Cons.prems(3) [OF _ n]) (simp add: y)
  qed
  moreover have "fmadd (fmupd (fst x) (snd x) K) (fmap_of_list xs) = fmadd K (fmap_of_list (x # xs))"
  proof (rule fmap_ext)
    fix k
    have "map_of xs (fst x) = None" using Cons.prems(1) by (simp add: map_of_eq_None_iff)
    then show "fmlookup (fmadd (fmupd (fst x) (snd x) K) (fmap_of_list xs)) k = fmlookup (fmadd K (fmap_of_list (x # xs))) k"
      by (cases x, cases "k = fst x"; cases "map_of xs k")
        (simp_all add: fmadd.rep_eq fmlookup_of_list map_add_def del: fmlookup_add)
  qed
  ultimately show ?case by (simp add: step)
qed simp

abbreviation changed :: "(nat, normalized_sequence) fmap \<Rightarrow> (nat, normalized_sequence) fmap \<Rightarrow> (nat \<times> normalized_sequence) list" where
  "changed N M \<equiv> filter (\<lambda>(s, m). fmlookup N s \<noteq> Some m) (entries_of M)"

abbreviation gone :: "(nat, normalized_sequence) fmap \<Rightarrow> (nat, normalized_sequence) fmap \<Rightarrow> nat list" where
  "gone N M \<equiv> filter (\<lambda>s. fmlookup M s = None) (keys_of N)"

lemma in_changed: "(s, m) \<in> set (changed N M) \<longleftrightarrow> fmlookup M s = Some m \<and> fmlookup N s \<noteq> Some m"
  by auto

lemma changed_sorted: "sorted_wrt (<) (map fst (changed N M))"
proof -
  have "sorted_wrt (\<lambda>x y. fst x < fst y) (entries_of M)"
    using strict_sorted_keys [of M] by (simp add: sorted_wrt_map flip: map_fst_entries_of)
  then show ?thesis by (simp add: sorted_wrt_map sorted_wrt_filter)
qed

lemma gone_sorted: "sorted_wrt (<) (gone N M)"
  by (simp add: sorted_wrt_filter strict_sorted_keys)

lemma updates_follow:
  assumes "same_modes N M"
  shows "rbind (rfold remove_from_mirror (gone N M) N) (rfold update_mirror (map (update_of N) (changed N M))) = Inr M"
proof -
  let ?K = "fmdrop_set (set (gone N M)) N"
  have K: "fmlookup ?K s = (if fmlookup M s = None then None else fmlookup N s)" for s
    by (cases "fmlookup N s") (auto simp: fmlookup_dom'_iff)
  have dist: "distinct (map fst (changed N M))"
    using changed_sorted [of N M] by (simp add: strict_sorted_iff)
  have M: "fmlookup M (fst x) = Some (snd x)" if "x \<in> set (changed N M)" for x
    using that in_changed [of "fst x" "snd x"] by simp
  have "rfold update_mirror (map (update_of N) (changed N M)) ?K = Inr (fmadd ?K (fmap_of_list (changed N M)))"
  proof (rule rfold_update [OF dist])
    fix x assume x: "x \<in> set (changed N M)"
    show "fmlookup ?K (fst x) = fmlookup N (fst x)" using K M [OF x] by simp
    show "ns_mtp n = ns_mtp (snd x)" if "fmlookup N (fst x) = Some n" for n
      using assms M [OF x] that unfolding same_modes_def by blast
  qed
  moreover have "fmadd ?K (fmap_of_list (changed N M)) = M"
  proof (rule fmap_ext)
    fix s
    have look: "map_of (changed N M) s = Some m \<longleftrightarrow> fmlookup M s = Some m \<and> fmlookup N s \<noteq> Some m" for m
      using dist by (simp only: map_of_eq_Some_iff in_changed)
    show "fmlookup (fmadd ?K (fmap_of_list (changed N M))) s = fmlookup M s"
    proof (cases "map_of (changed N M) s")
      case None
      then have "fmlookup M s = None \<or> fmlookup N s = fmlookup M s" using look by (cases "fmlookup M s") force+
      then show ?thesis using None K [of s] by (auto simp: fmadd.rep_eq fmlookup_of_list map_add_def simp del: fmlookup_add)
    next
      case (Some m)
      then have "fmlookup M s = Some m" by (simp only: look)
      then show ?thesis using Some by (simp add: fmadd.rep_eq fmlookup_of_list map_add_def del: fmlookup_add)
    qed
  qed
  moreover have "rfold remove_from_mirror (gone N M) N = Inr ?K" by (rule rfold_remove) auto
  ultimately show ?thesis by simp
qed

lemma page_starts: "i < (n + 63) div 64 \<Longrightarrow> 64 * i < n" for i n :: nat
  by linarith

lemma update_valid:
  assumes inv: "table_inv t" and sq: "fmlookup (sequences t) s = Some sq" and uni: "uniform_sequence t sq" and "s \<notin> R"
  shows "validate_update R (update_of N (s, normal_of t sq)) = Inr ()"
proof -
  let ?u = "update_of N (s, normal_of t sq)" and ?ps = "map (entry_of t) (sq_pages sq)"
  let ?k = "up_first_changed_ordinal ?u"
  have u: "up_request_id ?u = s" "up_mtp ?u = sq_mtp sq" "up_committed_tokens ?u = sq_committed_tokens sq"
    "up_tentative_tokens ?u = reserved sq" "up_page_count_after ?u = length (sq_pages sq)" "up_changed_pages ?u = drop ?k ?ps"
    by (simp_all add: update_of_def Let_def normal_of_def)
  have k: "?k \<le> length (sq_pages sq)" using update_of_first [of N "(s, normal_of t sq)"] by (simp add: normal_of_def)
  have len: "length (sq_pages sq) \<le> 1048576" "sq_committed_tokens sq \<le> 1048576" "reserved sq \<le> 7"
    using inv_pages_len [OF inv sq] by linarith+
  have page: "validate_update_page ?u (off, drop ?k ?ps ! off) = Inr ()" if off: "off < length (sq_pages sq) - ?k" for off
  proof -
    let ?i = "?k + off"
    have i: "?i < length (sq_pages sq)" using off by linarith
    then have p: "drop ?k ?ps ! off = entry_of t (sq_pages sq ! ?i)" using k by simp
    obtain pg where pg: "fmlookup (physical t) (sp_physical (sq_pages sq ! ?i)) = Some pg"
      "pp_valid_tokens pg = fill (sq_committed_tokens sq) (reserved sq) ?i"
      "pp_state pg = mode (sq_committed_tokens sq) (reserved sq) ?i"
      "sp_ordinal (sq_pages sq ! ?i) = ?i" "pid_owner_rank (sp_physical (sq_pages sq ! ?i)) = owner_rank ?i"
      using inv_page [OF inv sq i] by metis
    have "64 * ?i < sq_committed_tokens sq + reserved sq" using i inv_pages_len(1) [OF inv sq] by (intro page_starts) simp
    then have "0 < fill (sq_committed_tokens sq) (reserved sq) ?i" "fill (sq_committed_tokens sq) (reserved sq) ?i \<le> 64"
      by (simp_all add: fill_def)
    moreover have "(pp_draft_local_page_id pg \<noteq> None) = sq_mtp sq"
      using uni nth_mem [OF i] pg(1) by (auto simp: uniform_sequence_def entry_of_def)
    moreover have "mode (sq_committed_tokens sq) (reserved sq) ?i \<in> {HbmMutable, HbmTentative, HbmSealed}"
      by (simp add: mode_def)
    moreover have "checked_add 64 ?k off = Some ?i" using i len by (simp add: checked_add_def)
    ultimately show ?thesis unfolding p validate_update_page_def u using pg by (simp add: entry_of_def)
  qed
  have "\<forall>x\<in>set (enumerate 0 (drop ?k ?ps)). validate_update_page ?u x = Inr ()"
    using page by (auto simp: in_set_enumerate_eq)
  then have "check_all (validate_update_page ?u) (enumerate 0 (drop ?k ?ps)) = Inr ()" by (simp add: result_simps)
  then show ?thesis unfolding validate_update_def u using k len assms(4) inv_distinct [OF inv sq] by simp
qed

subsection \<open>Digests of valid deltas\<close>

definition delta_bytes :: "page_table_delta \<Rightarrow> 8 word list" where
  "delta_bytes d = (case hash_invariant_fields d of Inl _ \<Rightarrow> [] | Inr bs \<Rightarrow> GLOBAL_HASH_DOMAIN @ bs
     @ concat (map (\<lambda>update. concat (map hash_page (up_changed_pages update))) (pd_updates d)))"

text \<open>The integers of a delta fit the widths of their fields.\<close>

definition entry_typed :: "rank_page_entry \<Rightarrow> bool" where
  "entry_typed p \<longleftrightarrow> rp_ordinal p < 2 ^ 64 \<and> rp_owner_rank p < 2 ^ 8 \<and> rp_target_local_page_id p < 2 ^ 32
     \<and> (\<forall>d. rp_draft_local_page_id p = Some d \<longrightarrow> d < 2 ^ 32) \<and> rp_valid_tokens p < 2 ^ 8"

definition update_typed :: "sequence_page_update \<Rightarrow> bool" where
  "update_typed u \<longleftrightarrow> up_request_id u < 2 ^ 64 \<and> up_committed_tokens u < 2 ^ 64 \<and> up_tentative_tokens u < 2 ^ 8
     \<and> up_page_count_after u < 2 ^ 32 \<and> up_first_changed_ordinal u < 2 ^ 32 \<and> (\<forall>p\<in>set (up_changed_pages u). entry_typed p)"

definition delta_typed :: "page_table_delta \<Rightarrow> bool" where
  "delta_typed d \<longleftrightarrow> pd_generation_before d < 2 ^ 64 \<and> pd_generation_after d < 2 ^ 64
     \<and> (\<forall>u\<in>set (pd_updates d). update_typed u) \<and> (\<forall>i\<in>set (pd_removed_sequence_ids d). i < 2 ^ 64)"

lemma shape_parts:
  assumes "validate_shape d = Inr ()"
  shows "length (pd_updates d) \<le> 64" and "length (pd_removed_sequence_ids d) \<le> 64"
    and "pd_generation_before d \<noteq> 0" and "pd_generation_after d = pd_generation_before d + 1"
    and "u \<in> set (pd_updates d) \<Longrightarrow> validate_update (set (pd_removed_sequence_ids d)) u = Inr ()"
  using assms by (auto simp: validate_shape_def validate_generations_def result_simps checked_add_def split: if_splits)

lemma update_parts:
  assumes "validate_update R u = Inr ()"
  shows "length (up_changed_pages u) = up_page_count_after u - up_first_changed_ordinal u"
    and "p \<in> set (up_changed_pages u) \<Longrightarrow> (rp_draft_local_page_id p \<noteq> None) = up_mtp u
       \<and> rp_state p \<in> {HbmMutable, HbmTentative, HbmSealed}"
proof -
  have checks: "\<forall>x\<in>set (enumerate 0 (up_changed_pages u)). validate_update_page u x = Inr ()"
    using assms by (auto simp: validate_update_def result_simps split: if_splits)
  show "length (up_changed_pages u) = up_page_count_after u - up_first_changed_ordinal u"
    using assms by (auto simp: validate_update_def split: if_splits)
  assume "p \<in> set (up_changed_pages u)"
  then obtain i where "i < length (up_changed_pages u)" "p = up_changed_pages u ! i" by (metis in_set_conv_nth)
  then have "(i, p) \<in> set (enumerate 0 (up_changed_pages u))" by (simp add: in_set_enumerate_eq)
  then have "validate_update_page u (i, p) = Inr ()" using checks by blast
  then show "(rp_draft_local_page_id p \<noteq> None) = up_mtp u \<and> rp_state p \<in> {HbmMutable, HbmTentative, HbmSealed}"
    by (auto simp: validate_update_page_def result_simps split: if_splits)
qed

lemma hash_fields_total:
  assumes "validate_shape d = Inr ()" and "\<And>u. u \<in> set (pd_updates d) \<Longrightarrow> up_page_count_after u < 2 ^ 32"
  shows "\<exists>bs. hash_invariant_fields d = Inr bs"
proof -
  have "\<exists>b. hash_update u = Inr b" if u: "u \<in> set (pd_updates d)" for u
    using update_parts(1) [OF shape_parts(5) [OF assms(1) u]] assms(2) [OF u] by (simp add: hash_update_def try_uint_def)
  then have "rmap hash_update (pd_updates d) = Inr (map (\<lambda>u. case hash_update u of Inr b \<Rightarrow> b) (pd_updates d))"
    by (intro rmap_Inr_total) fastforce
  moreover have "length (pd_updates d) < 2 ^ 32" "length (pd_removed_sequence_ids d) < 2 ^ 32"
    using shape_parts(1,2) [OF assms(1)] by simp_all
  ultimately show ?thesis by (simp add: hash_invariant_fields_def try_uint_def)
qed

lemma digest_total:
  assumes "validate_shape d = Inr ()" and "\<And>u. u \<in> set (pd_updates d) \<Longrightarrow> up_page_count_after u < 2 ^ 32"
  shows "compute_global_digest sha d = Inr (sha (delta_bytes d))"
  using hash_fields_total [OF assms] by (auto simp: compute_global_digest_def delta_bytes_def)

lemma delta_bytes_digest [simp]: "delta_bytes (d\<lparr>pd_global_digest := h\<rparr>) = delta_bytes d"
  by (simp add: delta_bytes_def hash_invariant_fields_def cong: sum.case_cong)

lemma validate_shape_digest [simp]: "validate_shape (d\<lparr>pd_global_digest := h\<rparr>) = validate_shape d"
  by (simp add: validate_shape_def)

lemma verify_sealed:
  assumes "validate_shape d = Inr ()" and "\<And>u. u \<in> set (pd_updates d) \<Longrightarrow> up_page_count_after u < 2 ^ 32"
  shows "verify sha (d\<lparr>pd_global_digest := sha (delta_bytes d)\<rparr>) = Inr ()"
  using assms digest_total [of "d\<lparr>pd_global_digest := sha (delta_bytes d)\<rparr>" sha] by (simp add: verify_def)

lemma length_hash_page: "length (hash_page p) = 19"
  by (simp add: hash_page_def)

lemma page_state_code_inject: "page_state_code s = page_state_code s' \<longleftrightarrow> s = s'"
  by (cases s; cases s') (simp_all add: page_state_code_def)

lemma page_state_code_small: "page_state_code s < 2 ^ 8"
  by (cases s) (simp_all add: page_state_code_def)

lemma hash_page_inject:
  assumes "entry_typed p" and "entry_typed q" and "(rp_draft_local_page_id p \<noteq> None) = (rp_draft_local_page_id q \<noteq> None)"
    and "hash_page p = hash_page q"
  shows "p = (q :: rank_page_entry)"
proof -
  have "rp_ordinal p = rp_ordinal q" "rp_owner_rank p = rp_owner_rank q"
    "rp_target_local_page_id p = rp_target_local_page_id q" "rp_state p = rp_state q" "rp_valid_tokens p = rp_valid_tokens q"
    using assms
    by (simp_all add: hash_page_def entry_typed_def le_bytes_inject byte_inject [simplified] page_state_code_inject
        page_state_code_small [simplified])
  moreover have "rp_draft_local_page_id p = rp_draft_local_page_id q"
    using assms by (cases "rp_draft_local_page_id p"; cases "rp_draft_local_page_id q")
      (simp_all add: hash_page_def entry_typed_def le_bytes_inject)
  ultimately show ?thesis by (cases p; cases q) simp
qed

definition update_bytes :: "sequence_page_update \<Rightarrow> 8 word list" where
  "update_bytes u = le_bytes 8 (up_request_id u) @ [of_bool (up_mtp u)]
     @ le_bytes 8 (up_committed_tokens u) @ [of_nat (up_tentative_tokens u)]
     @ le_bytes 4 (up_page_count_after u) @ le_bytes 4 (up_first_changed_ordinal u)
     @ le_bytes 4 (length (up_changed_pages u))"

lemma length_update_bytes: "length (update_bytes u) = 30"
  by (simp add: update_bytes_def)

lemma update_bytes_inject:
  assumes "update_typed u" and "update_typed v" and "length (up_changed_pages u) < 2 ^ 32" and "length (up_changed_pages v) < 2 ^ 32"
    and "update_bytes u = update_bytes v"
  shows "length (up_changed_pages u) = length (up_changed_pages v)" and "up_mtp u = up_mtp v"
    and "up_changed_pages u = up_changed_pages v \<Longrightarrow> u = v"
proof -
  have eqs: "up_request_id u = up_request_id v" "up_mtp u = up_mtp v" "up_committed_tokens u = up_committed_tokens v"
    "up_tentative_tokens u = up_tentative_tokens v" "up_page_count_after u = up_page_count_after v"
    "up_first_changed_ordinal u = up_first_changed_ordinal v" "length (up_changed_pages u) = length (up_changed_pages v)"
    using assms by (simp_all add: update_bytes_def update_typed_def le_bytes_inject byte_inject [simplified] of_bool_eq_iff)
  then show "length (up_changed_pages u) = length (up_changed_pages v)" "up_mtp u = up_mtp v" by simp_all
  show "u = v" if "up_changed_pages u = up_changed_pages v"
    using eqs that by (cases u; cases v) simp
qed

lemma delta_bytes_eq:
  assumes "validate_shape d = Inr ()" and "delta_typed d"
  shows "delta_bytes d = GLOBAL_HASH_DOMAIN @ le_bytes 8 (pd_generation_before d) @ le_bytes 8 (pd_generation_after d)
    @ le_bytes 4 (length (pd_updates d)) @ le_bytes 4 (length (pd_removed_sequence_ids d))
    @ concat (map update_bytes (pd_updates d)) @ concat (map (le_bytes 8) (pd_removed_sequence_ids d))
    @ concat (map (\<lambda>u. concat (map hash_page (up_changed_pages u))) (pd_updates d))"
proof -
  have "hash_update u = Inr (update_bytes u)" if u: "u \<in> set (pd_updates d)" for u
    using update_parts(1) [OF shape_parts(5) [OF assms(1) u]] assms(2) u
    by (auto simp: hash_update_def try_uint_def update_bytes_def delta_typed_def update_typed_def)
  then have "rmap hash_update (pd_updates d) = Inr (map update_bytes (pd_updates d))" by (rule rmap_Inr_total)
  then show ?thesis using shape_parts(1,2) [OF assms(1)]
    by (simp add: delta_bytes_def hash_invariant_fields_def try_uint_def)
qed

definition page_bytes :: "sequence_page_update \<Rightarrow> 8 word list" where
  "page_bytes u = concat (map hash_page (up_changed_pages u))"

lemma length_page_bytes: "length (page_bytes u) = 19 * length (up_changed_pages u)"
  by (simp add: page_bytes_def length_concat_map length_hash_page)

definition update_good :: "sequence_page_update \<Rightarrow> bool" where
  "update_good u \<longleftrightarrow> update_typed u \<and> (\<exists>R. validate_update R u = Inr ())"

lemma update_goodD:
  assumes "update_good u"
  shows "update_typed u" and "length (up_changed_pages u) < 2 ^ 32"
    and "p \<in> set (up_changed_pages u) \<Longrightarrow> entry_typed p \<and> (rp_draft_local_page_id p \<noteq> None) = up_mtp u"
  using assms update_parts by (fastforce simp: update_good_def update_typed_def)+

lemma update_inject:
  assumes u: "update_good u" and v: "update_good v" and eq: "update_bytes u = update_bytes v" "page_bytes u = page_bytes v"
  shows "u = v"
proof -
  note inj = update_bytes_inject [OF update_goodD(1) [OF u] update_goodD(1) [OF v] update_goodD(2) [OF u] update_goodD(2) [OF v] eq(1)]
  have hp: "map hash_page (up_changed_pages u) = map hash_page (up_changed_pages v)"
    using eq(2) inj(1) unfolding page_bytes_def by (intro concat_map_inject) (simp_all add: length_hash_page)
  have "up_changed_pages u ! k = up_changed_pages v ! k" if k: "k < length (up_changed_pages u)" for k
  proof -
    have "up_changed_pages u ! k \<in> set (up_changed_pages u)" "up_changed_pages v ! k \<in> set (up_changed_pages v)"
      using k inj(1) by simp_all
    moreover have "hash_page (up_changed_pages u ! k) = hash_page (up_changed_pages v ! k)"
      using hp k inj(1) by (metis nth_map)
    ultimately show ?thesis using update_goodD(3) [OF u] update_goodD(3) [OF v] inj(2) hash_page_inject by metis
  qed
  then have "up_changed_pages u = up_changed_pages v" using inj(1) by (simp add: nth_equalityI)
  then show ?thesis by (rule inj(3))
qed

lemma updates_inject:
  assumes us: "\<And>u. u \<in> set us \<Longrightarrow> update_good u" and vs: "\<And>v. v \<in> set vs \<Longrightarrow> update_good v" and len: "length us = length vs"
    and head: "map update_bytes us = map update_bytes vs" and pages: "concat (map page_bytes us) = concat (map page_bytes vs)"
  shows "us = vs"
proof -
  have same: "update_bytes (us ! i) = update_bytes (vs ! i)" if "i < length us" for i
    using head len that by (metis nth_map)
  have size: "length (up_changed_pages (us ! i)) = length (up_changed_pages (vs ! i))" if i: "i < length us" for i
    using update_bytes_inject(1) [OF _ _ _ _ same [OF i]] update_goodD(1,2) [OF us] update_goodD(1,2) [OF vs] i len by simp
  have "map page_bytes us = map page_bytes vs"
    by (rule concat_map_inject [OF pages len]) (simp add: length_page_bytes size)
  then have "page_bytes (us ! i) = page_bytes (vs ! i)" if "i < length us" for i
    using len that by (metis nth_map)
  then have "us ! i = vs ! i" if "i < length us" for i
    using update_inject [OF us vs same] len that by simp
  then show ?thesis using len by (simp add: nth_equalityI)
qed

lemma ids_inject:
  assumes "map (le_bytes 8) is = map (le_bytes 8) js" and "\<forall>i\<in>set is. i < 2 ^ 64" and "\<forall>j\<in>set js. j < 2 ^ 64"
  shows "is = js"
proof (rule map_inj_on [OF assms(1)])
  show "inj_on (le_bytes 8) (set is \<union> set js)"
    using assms(2,3) by (intro inj_onI) (auto simp: le_bytes_inject)
qed

lemma delta_bytes_inject:
  assumes d: "validate_shape d = Inr ()" "delta_typed d" and e: "validate_shape e = Inr ()" "delta_typed e"
    and eq: "delta_bytes d = delta_bytes e"
  shows "d\<lparr>pd_global_digest := h\<rparr> = e\<lparr>pd_global_digest := h\<rparr>"
proof -
  let ?us = "pd_updates d" and ?vs = "pd_updates e" and ?is = "pd_removed_sequence_ids d" and ?js = "pd_removed_sequence_ids e"
  have typed: "pd_generation_before d < 256 ^ 8" "pd_generation_after d < 256 ^ 8" "pd_generation_before e < 256 ^ 8"
    "pd_generation_after e < 256 ^ 8" "length ?us < 256 ^ 4" "length ?vs < 256 ^ 4" "length ?is < 256 ^ 4" "length ?js < 256 ^ 4"
    using d(2) e(2) shape_parts(1,2) [OF d(1)] shape_parts(1,2) [OF e(1)] by (simp_all add: delta_typed_def)
  have head: "pd_generation_before d = pd_generation_before e" "pd_generation_after d = pd_generation_after e"
    and len: "length ?us = length ?vs" "length ?is = length ?js"
    and rest: "concat (map update_bytes ?us) @ concat (map (le_bytes 8) ?is) @ concat (map page_bytes ?us) =
        concat (map update_bytes ?vs) @ concat (map (le_bytes 8) ?js) @ concat (map page_bytes ?vs)"
    using eq unfolding delta_bytes_eq [OF d] delta_bytes_eq [OF e] page_bytes_def
    by (simp_all add: le_bytes_inject [OF typed(1,3)] le_bytes_inject [OF typed(2,4)] le_bytes_inject [OF typed(5,6)]
        le_bytes_inject [OF typed(7,8)])
  have parts: "concat (map update_bytes ?us) = concat (map update_bytes ?vs)" "concat (map (le_bytes 8) ?is) = concat (map (le_bytes 8) ?js)"
      "concat (map page_bytes ?us) = concat (map page_bytes ?vs)"
    using rest len by (simp_all add: length_concat_map [OF length_update_bytes] length_concat_map [OF length_le_bytes])
  have "map update_bytes ?us = map update_bytes ?vs"
    using parts(1) len(1) by (rule concat_map_inject) (simp add: length_update_bytes)
  moreover have "update_good u" if "u \<in> set ?us" for u
    using d that shape_parts(5) [OF d(1) that] by (auto simp: update_good_def delta_typed_def)
  moreover have "update_good v" if "v \<in> set ?vs" for v
    using e that shape_parts(5) [OF e(1) that] by (auto simp: update_good_def delta_typed_def)
  ultimately have us: "?us = ?vs" using len(1) parts(3) by (intro updates_inject) simp_all
  have "map (le_bytes 8) ?is = map (le_bytes 8) ?js" using parts(2) len(2) by (rule concat_map_inject) simp
  then have "?is = ?js" using d(2) e(2) by (intro ids_inject) (simp_all add: delta_typed_def)
  then show ?thesis using head us by (cases d; cases e) simp
qed

end
