(* ===== verification/Delta_Props.thy ===== *)
theory Delta_Props
  imports Delta_Mirror
begin

text \<open>
  What the deltas guarantee: the mirror follows the table through the deltas, which tables
  have no delta, an application is atomic and happens once, and a digest binds the contents
  of a delta.
\<close>

lemma no_difference:
  assumes "changed N M = []" and "gone N M = []"
  shows "N = M"
proof (rule fmap_ext)
  fix s
  have "(s, m) \<notin> set (changed N M)" "s \<notin> set (gone N M)" for m using assms by simp_all
  then show "fmlookup N s = fmlookup M s"
    unfolding in_changed by (cases "fmlookup M s"; cases "fmlookup N s") (auto simp: fmlookup_dom'_iff)
qed

definition difference :: "(nat, normalized_sequence) fmap \<Rightarrow> (nat, normalized_sequence) fmap \<Rightarrow> nat \<Rightarrow> page_table_delta" where
  "difference N M g = \<lparr>pd_generation_before = g, pd_generation_after = g + 1,
     pd_updates = map (update_of N) (changed N M), pd_removed_sequence_ids = gone N M, pd_global_digest = replicate 32 0\<rparr>"

lemma difference_shape:
  assumes "length (keys_of N) \<le> 64" and "length (keys_of M) \<le> 64" and "N \<noteq> M" and "0 < g" and "g + 1 < 2 ^ 64"
    and "\<And>x. x \<in> set (changed N M) \<Longrightarrow> validate_update (set (gone N M)) (update_of N x) = Inr ()"
  shows "validate_shape (difference N M g) = Inr ()"
proof -
  have "length (gone N M) \<le> 64" by (rule order_trans [OF length_filter_le assms(1)])
  moreover have "length (changed N M) \<le> 64"
    using assms(2) by (intro order_trans [OF length_filter_le]) (simp add: entries_of_def)
  moreover have "map up_request_id (map (update_of N) xs) = map fst xs" for xs by (simp add: update_of_def Let_def)
  then have "successively (<) (map up_request_id (map (update_of N) (changed N M)))"
    using changed_sorted [of N M] by (simp only: successively_conv_sorted_wrt transp_on_less)
  moreover have "successively (<) (gone N M)"
    using gone_sorted [where N = N and M = M] by (simp only: successively_conv_sorted_wrt transp_on_less)
  moreover have "changed N M \<noteq> [] \<or> gone N M \<noteq> []" using assms(3) no_difference by blast
  moreover have "check_all (validate_update (set (gone N M))) (map (update_of N) (changed N M)) = Inr ()"
    using assms(6) by (simp only: check_all_Inr set_map) blast
  ultimately show ?thesis using assms(1,2,4,5)
    by (auto simp: difference_def validate_shape_def validate_generations_def checked_add_def)
qed

lemma between_eq:
  assumes a: "table_inv a" "uniform a" "length (keys_of (sequences a)) \<le> 64"
    and b: "table_inv b" "uniform b" "length (keys_of (sequences b)) \<le> 64"
    and cfg: "pt_config a = pt_config b" and g: "0 < g" "g + 1 < 2 ^ 64" and ne: "normal_table a \<noteq> normal_table b"
  defines "d \<equiv> difference (normal_table a) (normal_table b) g"
  shows "validate_shape d = Inr ()" and "\<And>u. u \<in> set (pd_updates d) \<Longrightarrow> up_page_count_after u < 2 ^ 32"
    and "between sha a b g (g + 1) = Inr (d\<lparr>pd_global_digest := sha (delta_bytes d)\<rparr>)"
proof -
  let ?N = "normal_table a" and ?M = "normal_table b"
  have upd: "validate_update (set (gone ?N ?M)) (update_of ?N x) = Inr ()" "length (ns_pages (snd x)) < 2 ^ 32"
    if x: "x \<in> set (changed ?N ?M)" for x
  proof -
    obtain s m where sm: "x = (s, m)" "fmlookup ?M s = Some m" using x in_changed by (metis surj_pair)
    then obtain sq where sq: "fmlookup (sequences b) s = Some sq" "m = normal_of b sq" by auto
    have out: "s \<notin> set (gone ?N ?M)" using sm(2) by auto
    show "length (ns_pages (snd x)) < 2 ^ 32" using inv_pages_len [OF b(1) sq(1)] sm(1) sq(2) by (simp add: normal_of_def)
    have "uniform_sequence b sq" using b(2) sq(1) by (auto simp: uniform_def)
    then show "validate_update (set (gone ?N ?M)) (update_of ?N x) = Inr ()"
      unfolding sm(1) sq(2) by (rule update_valid [OF b(1) sq(1) _ out])
  qed
  show shape: "validate_shape d = Inr ()"
    unfolding d_def by (rule difference_shape [OF _ _ ne g upd(1)]) (simp_all add: a(3) b(3))
  show small: "up_page_count_after u < 2 ^ 32" if u: "u \<in> set (pd_updates d)" for u
  proof -
    obtain x where "x \<in> set (changed ?N ?M)" "u = update_of ?N x" using u unfolding d_def difference_def by auto
    then show ?thesis using upd(2) by (simp add: update_of_def Let_def)
  qed
  have "rmap (update_between ?N) (changed ?N ?M) = Inr (map (update_of ?N) (changed ?N ?M))"
    using upd(2) by (intro rmap_Inr_total update_between_eq)
  then show "between sha a b g (g + 1) = Inr (d\<lparr>pd_global_digest := sha (delta_bytes d)\<rparr>)"
    using shape digest_total [OF shape small, of sha] g cfg a(2) b(2)
    unfolding between_def normalized_snapshots_eq [OF a(1)] normalized_snapshots_eq [OF b(1)] d_def difference_def
    by (simp only: rbind_simps if_True Let_def validate_generations_def checked_add_def) simp
qed

lemma apply_sealed:
  assumes "validate_shape d = Inr ()" and "\<And>u. u \<in> set (pd_updates d) \<Longrightarrow> up_page_count_after u < 2 ^ 32"
    and "mi_generation m = pd_generation_before d"
    and "rbind (rfold remove_from_mirror (pd_removed_sequence_ids d) (mi_sequences m)) (rfold update_mirror (pd_updates d)) = Inr M"
    and "validate_mirror (m\<lparr>mi_sequences := M, mi_generation := pd_generation_after d\<rparr>) = Inr ()"
  shows "apply_delta sha (d\<lparr>pd_global_digest := sha (delta_bytes d)\<rparr>) m =
    (Inr (), m\<lparr>mi_sequences := M, mi_generation := pd_generation_after d\<rparr>)"
proof -
  obtain K where K: "rfold remove_from_mirror (pd_removed_sequence_ids d) (mi_sequences m) = Inr K"
    "rfold update_mirror (pd_updates d) K = Inr M" using assms(4) by (auto simp: result_simps)
  show ?thesis
    using verify_sealed [OF assms(1,2), of sha] assms(3,5) K
    by (simp add: apply_delta_def transact_def apply_inner_def)
qed


definition sample_hash :: "8 word list \<Rightarrow> hash32" where
  "sample_hash bytes = take 32 (bytes @ replicate 32 0)"

lemma sample_start_reachable: "reachable sample_config sample_start"
  by (rule reachable.start [OF sample_new])


text \<open>
  (C29) A table in which a sequence without MTP holds a page that has a draft slot cannot be
  replicated: building a mirror and building a delta to it, from any reachable table, fail with
  \<open>Page\<close>. Such tables are reachable, because the page table shares a prefix page between
  sequences of both modes.
\<close>

theorem shared_draft_page_blocks_delta:
  assumes "reachable cfg t" and "fmlookup (sequences t) s = Some sq" and "\<not> sq_mtp sq" and "e \<in> set (sq_pages sq)"
    and "fmlookup (physical t) (sp_physical e) = Some pg" and "pp_draft_local_page_id pg \<noteq> None" and "0 < g" and "g + 1 < 2 ^ 64"
  shows "from_table t g = Inl (Err Page) \<and> (\<forall>a. reachable cfg a \<longrightarrow> between sha a t g (g + 1) = Inl (Err Page))"
proof -
  have "\<not> uniform_sequence t sq" using assms(3-6) by (auto simp: uniform_sequence_def entry_of_def Let_def intro!: bexI [of _ e])
  then have u: "\<not> uniform t" using assms(2) by (auto simp: uniform_def)
  have inv: "table_inv t" by (rule reachable_inv [OF assms(1)])
  have "between sha a t g (g + 1) = Inl (Err Page)" if a: "reachable cfg a" for a
    using u assms(7,8) reachable_config [OF a] reachable_config [OF assms(1)]
    by (simp add: between_def validate_generations_def checked_add_def normalized_snapshots_eq [OF reachable_inv [OF a]]
        normalized_snapshots_eq [OF inv])
  then show ?thesis using u assms(7) by (simp add: from_table_eq [OF inv])
qed

text \<open>An MTP sequence and a sequence without MTP on one restored prefix page.\<close>

definition mixed_table :: page_table where
  "mixed_table = table_exec (Admit 2 False [sample_attachment]) (table_exec (Admit 1 True [sample_attachment]) sample_start)"

lemma mixed_reachable: "reachable sample_config mixed_table"
  unfolding mixed_table_def by (intro reachable.call sample_start_reachable)

lemma mixed_table_parts:
  "fmlookup (sequences mixed_table) 2 = Some \<lparr>sq_mtp = False, sq_committed_tokens = 64,
     sq_pages = [\<lparr>sp_ordinal = 0, sp_physical = sample_page 0\<rparr>], sq_tentative = None\<rparr>
   \<and> (\<exists>pg. fmlookup (physical mixed_table) (sample_page 0) = Some pg \<and> pp_draft_local_page_id pg = Some 0)"
  by (simp add: mixed_table_def table_exec_def sample_start_def table_eval sample_page_def admit_page_def attach_restored_def
      attach_shared_def attachment_relation_to_def has_draft_def sample_attachment_def)

lemma shared_draft_page_blocks_delta_witness:
  "reachable sample_config mixed_table \<and> from_table mixed_table 5 = Inl (Err Page)
   \<and> between sample_hash sample_start mixed_table 5 6 = Inl (Err Page)"
proof -
  obtain pg where "fmlookup (physical mixed_table) (sample_page 0) = Some pg" "pp_draft_local_page_id pg = Some 0"
    using mixed_table_parts by blast
  then show ?thesis
    using shared_draft_page_blocks_delta [OF mixed_reachable conjunct1 [OF mixed_table_parts],
        of "\<lparr>sp_ordinal = 0, sp_physical = sample_page 0\<rparr>" pg 5 sample_hash] mixed_reachable sample_start_reachable by simp
qed

text \<open>
  Applying a delta to a mirror is all or nothing, and happens once: on a failure the mirror
  is unchanged; on success it has the next generation and is valid, and applying the same delta
  again is refused with \<open>Generation\<close>.
\<close>

theorem apply_delta_once:
  "case apply_delta sha d m of
     (Inl f, m') \<Rightarrow> m' = m
   | (Inr _, m') \<Rightarrow> mi_generation m' = mi_generation m + 1 \<and> validate_mirror m' = Inr ()
       \<and> apply_delta sha d m' = (Inl (Err Generation), m')"
proof (cases "apply_inner sha d m")
  case (Inl f)
  then show ?thesis by (simp add: apply_delta_def transact_def)
next
  case (Inr r)
  then obtain m' where m': "apply_inner sha d m = Inr (m', ())" by (cases r) auto
  then have ver: "verify sha d = Inr ()" and gen: "mi_generation m = pd_generation_before d" "mi_generation m' = pd_generation_after d"
    and val: "validate_mirror m' = Inr ()"
    by (auto simp: apply_inner_def result_simps Let_def split: if_splits)
  have "pd_generation_after d = pd_generation_before d + 1"
    using ver shape_parts(4) by (auto simp: verify_def result_simps)
  then show ?thesis using m' ver gen val by (simp add: apply_delta_def transact_def apply_inner_def)
qed

text \<open>
  (C28) A digest binds the contents of a delta: two deltas that verify, whose integers fit their
  fields, and that carry the same digest are equal, or the bytes that were hashed for them are
  different and collide under the hash function. In particular the encoding itself is injective,
  although an absent draft id is hashed as the largest one.
\<close>

theorem digest_binds_delta:
  assumes "verify sha d = Inr ()" and "verify sha e = Inr ()" and "delta_typed d" and "delta_typed e"
    and "pd_global_digest d = pd_global_digest e"
  shows "d = e \<or> (delta_bytes d \<noteq> delta_bytes e \<and> sha (delta_bytes d) = sha (delta_bytes e))"
proof (cases "delta_bytes d = delta_bytes e")
  have shape: "validate_shape d = Inr ()" "validate_shape e = Inr ()" using assms(1,2) by (simp_all add: verify_def result_simps)
  {
    case True
    have "d\<lparr>pd_global_digest := pd_global_digest d\<rparr> = e\<lparr>pd_global_digest := pd_global_digest d\<rparr>"
      by (rule delta_bytes_inject [OF shape(1) assms(3) shape(2) assms(4) True])
    then have "d = e" using assms(5) by (cases d; cases e) simp
    then show ?thesis by simp
  next
    case False
    have "up_page_count_after u < 2 ^ 32" if "u \<in> set (pd_updates d) \<union> set (pd_updates e)" for u
      using that assms(3,4) by (auto simp: delta_typed_def update_typed_def)
    then have "pd_global_digest d = sha (delta_bytes d)" "pd_global_digest e = sha (delta_bytes e)"
      using assms(1,2) digest_total [OF shape(1), of sha] digest_total [OF shape(2), of sha]
      by (auto simp: verify_def result_simps split: if_splits)
    then show ?thesis using assms(5) False by simp
  }
qed

text \<open>Two deltas that remove a different sequence collide under a constant hash.\<close>

definition removal :: "nat \<Rightarrow> page_table_delta" where
  "removal s = \<lparr>pd_generation_before = 1, pd_generation_after = 2, pd_updates = [], pd_removed_sequence_ids = [s],
     pd_global_digest = replicate 32 0\<rparr>"

lemma digest_binds_delta_witness:
  "verify (\<lambda>_. replicate 32 0) (removal 3) = Inr () \<and> verify (\<lambda>_. replicate 32 0) (removal 4) = Inr ()
   \<and> delta_bytes (removal 3) \<noteq> delta_bytes (removal 4)"
proof -
  have "verify (\<lambda>_. replicate 32 0) (removal s) = Inr ()" for s
    by (simp add: removal_def verify_def validate_shape_def validate_generations_def checked_add_def compute_global_digest_def
        hash_invariant_fields_def try_uint_def)
  moreover have "delta_typed (removal 3)" "delta_typed (removal 4)" "removal 3 \<noteq> removal 4"
    "pd_global_digest (removal 3) = pd_global_digest (removal 4)"
    by (simp_all add: removal_def delta_typed_def)
  ultimately show ?thesis using digest_binds_delta [of "\<lambda>_. replicate 32 0" "removal 3" "removal 4"] by blast
qed

end
