(* ===== verification/Step.thy ===== *)
theory Step
  imports Tier
begin

text \<open>
  \<open>crates/glm-engine/src/step.rs\<close>: the step plan that all ranks must agree on, the schedule of
  its collective operations, the canonical bytes that are hashed, and the rules a plan must
  satisfy. SHA-256 is the parameter \<open>sha\<close>.
\<close>

unbundle bit_operations_syntax

section \<open>Data\<close>

definition STEP_PLAN_HASH_INPUT_BYTES :: nat where [simp]: "STEP_PLAN_HASH_INPUT_BYTES = 85"
definition MAX_ACTIVE_SEQUENCES :: nat where [simp]: "MAX_ACTIVE_SEQUENCES = 64"
definition MAX_VERIFIER_ROWS :: nat where [simp]: "MAX_VERIFIER_ROWS = 448"
definition MAX_MTP_DEPTH :: nat where [simp]: "MAX_MTP_DEPTH = 6"
definition TP_RANK_MASK :: "8 word" where [simp]: "TP_RANK_MASK = 15"

definition STEP_PLAN_ABI :: string where "STEP_PLAN_ABI = ''glmaxx.step-plan.v1''"

definition PLAN_HASH_DOMAIN :: "8 word list" where
  "PLAN_HASH_DOMAIN = ascii_bytes ''glmaxx.step-plan.v1'' @ [0]"

definition COLLECTIVE_HASH_DOMAIN :: "8 word list" where
  "COLLECTIVE_HASH_DOMAIN = ascii_bytes ''glmaxx.collective-schedule.v1'' @ [0]"

datatype step_mode = Prefill | Decode | Verify | Mixed | CacheOnly

datatype attention_transport = NoTransport | PrefillCkv | PrefillQuery | DecodeQueryLse

datatype collective_kind =
    TpReduce | DcpPackedCkv | DcpQueryGather | DcpCandidateExchange | DcpPartialStateReturn
  | LogitsArgmax | LogitsTopK | LogitsMass

text \<open>The \<open>repr(u8)\<close> discriminants.\<close>

definition mode_code :: "step_mode \<Rightarrow> nat" where
  "mode_code m = (case m of Prefill \<Rightarrow> 1 | Decode \<Rightarrow> 2 | Verify \<Rightarrow> 3 | Mixed \<Rightarrow> 4 | CacheOnly \<Rightarrow> 5)"

definition transport_code :: "attention_transport \<Rightarrow> nat" where
  "transport_code a = (case a of NoTransport \<Rightarrow> 0 | PrefillCkv \<Rightarrow> 1 | PrefillQuery \<Rightarrow> 2 | DecodeQueryLse \<Rightarrow> 3)"

definition kind_code :: "collective_kind \<Rightarrow> nat" where
  "kind_code k = (case k of TpReduce \<Rightarrow> 1 | DcpPackedCkv \<Rightarrow> 2 | DcpQueryGather \<Rightarrow> 3 | DcpCandidateExchange \<Rightarrow> 4
     | DcpPartialStateReturn \<Rightarrow> 5 | LogitsArgmax \<Rightarrow> 6 | LogitsTopK \<Rightarrow> 7 | LogitsMass \<Rightarrow> 8)"

record collective_op =
  op_ordinal :: nat
  op_kind :: collective_kind
  op_route_id :: nat
  op_payload_bytes :: nat
  op_participant_mask :: "8 word"

record collective_schedule =
  cs_operations :: "collective_op list"
  cs_hash :: hash32

record step_plan_request =
  rq_epoch :: nat
  rq_step_id :: nat
  rq_mode :: step_mode
  rq_active_sequences :: nat
  rq_sequence_bucket :: nat
  rq_scheduled_prompt_tokens :: nat
  rq_query_rows :: nat
  rq_verifier_row_bucket :: nat
  rq_mtp_depth :: nat
  rq_graph_id :: nat
  rq_tp_route_id :: nat
  rq_dcp_route_id :: nat
  rq_attention_transport :: attention_transport
  rq_sampling_route_id :: nat
  rq_sequence_table_generation :: nat

record step_plan =
  pl_epoch :: nat
  pl_step_id :: nat
  pl_mode :: step_mode
  pl_active_sequences :: nat
  pl_sequence_bucket :: nat
  pl_scheduled_prompt_tokens :: nat
  pl_query_rows :: nat
  pl_verifier_row_bucket :: nat
  pl_mtp_depth :: nat
  pl_graph_id :: nat
  pl_tp_route_id :: nat
  pl_dcp_route_id :: nat
  pl_attention_transport :: attention_transport
  pl_sampling_route_id :: nat
  pl_sequence_table_generation :: nat
  pl_collective_schedule_hash :: hash32
  pl_plan_hash :: hash32

datatype plan_error =
    CollectiveCount | CollectiveOrdinal | CollectiveOperation | CollectiveHash | PlanHash | MtpDepth
  | Shape | Mode | NonCanonicalUnused | MixedContractUnreviewed

section \<open>Collective schedules\<close>

definition hash_operation :: "collective_op \<Rightarrow> 8 word list" where
  "hash_operation operation =
     le_bytes 2 (op_ordinal operation) @ [of_nat (kind_code (op_kind operation))]
     @ le_bytes 2 (op_route_id operation) @ le_bytes 4 (op_payload_bytes operation)
     @ [op_participant_mask operation]"

definition collective_hash :: "(8 word list \<Rightarrow> hash32) \<Rightarrow> collective_op list \<Rightarrow> hash32" where
  "collective_hash sha operations =
     sha (COLLECTIVE_HASH_DOMAIN
       @ le_bytes 2 (case try_uint 16 (length operations) of None \<Rightarrow> 2 ^ 16 - 1 | Some n \<Rightarrow> n)
       @ concat (map hash_operation operations))"

definition check_operation :: "nat \<times> collective_op \<Rightarrow> (plan_error, unit) result" where
  "check_operation entry =
     (let (expected, operation) = entry in
      if op_ordinal operation \<noteq> expected then Inl (Err CollectiveOrdinal)
      else if op_route_id operation = 0 \<or> op_payload_bytes operation = 0
        \<or> op_participant_mask operation = 0 \<or> op_participant_mask operation AND NOT TP_RANK_MASK \<noteq> 0
      then Inl (Err CollectiveOperation)
      else Inr ())"

definition new_schedule :: "(8 word list \<Rightarrow> hash32) \<Rightarrow> collective_op list \<Rightarrow> (plan_error, collective_schedule) result" where
  "new_schedule sha operations =
     (if length operations > 2 ^ 16 - 1 then Inl (Err CollectiveCount)
      else
        rbind (check_all check_operation (enumerate 0 operations)) (\<lambda>_.
          Inr \<lparr>cs_operations = operations, cs_hash = collective_hash sha operations\<rparr>))"

definition empty_schedule :: "(8 word list \<Rightarrow> hash32) \<Rightarrow> collective_schedule" where
  "empty_schedule sha = \<lparr>cs_operations = [], cs_hash = collective_hash sha []\<rparr>"

definition verify_schedule :: "(8 word list \<Rightarrow> hash32) \<Rightarrow> collective_schedule \<Rightarrow> (plan_error, unit) result" where
  "verify_schedule sha schedule =
     (if collective_hash sha (cs_operations schedule) \<noteq> cs_hash schedule then Inl (Err CollectiveHash)
      else rbind (new_schedule sha (cs_operations schedule)) (\<lambda>_. Inr ()))"

section \<open>The rules for a plan\<close>

definition is_sequence_bucket :: "nat \<Rightarrow> bool" where
  "is_sequence_bucket v \<longleftrightarrow> v \<in> {1, 2, 4, 8, 16, 32, 64}"

definition validate_cache_only :: "step_plan_request \<Rightarrow> collective_schedule \<Rightarrow> (plan_error, unit) result" where
  "validate_cache_only request schedule =
     (if rq_active_sequences request \<noteq> 0 \<or> rq_sequence_bucket request \<noteq> 0
         \<or> rq_scheduled_prompt_tokens request \<noteq> 0 \<or> rq_query_rows request \<noteq> 0
         \<or> rq_verifier_row_bucket request \<noteq> 0 \<or> rq_mtp_depth request \<noteq> 0 \<or> rq_graph_id request \<noteq> 0
         \<or> rq_tp_route_id request \<noteq> 0 \<or> rq_dcp_route_id request \<noteq> 0
         \<or> rq_attention_transport request \<noteq> NoTransport \<or> rq_sampling_route_id request \<noteq> 0
         \<or> rq_sequence_table_generation request \<noteq> 0 \<or> cs_operations schedule \<noteq> []
      then Inl (Err NonCanonicalUnused) else Inr ())"

definition validate_prefill :: "step_plan_request \<Rightarrow> (plan_error, unit) result" where
  "validate_prefill request =
     (if rq_scheduled_prompt_tokens request = 0
         \<or> rq_query_rows request \<noteq> rq_scheduled_prompt_tokens request
         \<or> rq_verifier_row_bucket request \<noteq> 0 \<or> rq_mtp_depth request \<noteq> 0
         \<or> rq_attention_transport request \<notin> {PrefillCkv, PrefillQuery}
         \<or> rq_sampling_route_id request \<noteq> 0
      then Inl (Err Mode) else Inr ())"

definition validate_decode :: "step_plan_request \<Rightarrow> (plan_error, unit) result" where
  "validate_decode request =
     (if rq_scheduled_prompt_tokens request \<noteq> 0
         \<or> rq_query_rows request \<noteq> rq_active_sequences request
         \<or> rq_verifier_row_bucket request < rq_query_rows request
         \<or> rq_verifier_row_bucket request > MAX_VERIFIER_ROWS \<or> rq_mtp_depth request \<noteq> 0
         \<or> rq_attention_transport request \<noteq> DecodeQueryLse \<or> rq_sampling_route_id request = 0
      then Inl (Err Mode) else Inr ())"

definition validate_verify :: "step_plan_request \<Rightarrow> (plan_error, unit) result" where
  "validate_verify request =
     rbind (ok_or (checked_mul 32 (rq_active_sequences request) (rq_mtp_depth request + 1)) Shape) (\<lambda>expected_rows.
     if rq_scheduled_prompt_tokens request \<noteq> 0 \<or> rq_mtp_depth request = 0
        \<or> rq_query_rows request \<noteq> expected_rows
        \<or> rq_verifier_row_bucket request < rq_query_rows request
        \<or> rq_verifier_row_bucket request > MAX_VERIFIER_ROWS
        \<or> rq_attention_transport request \<noteq> DecodeQueryLse \<or> rq_sampling_route_id request = 0
     then Inl (Err Mode) else Inr ())"

definition validate_request :: "step_plan_request \<Rightarrow> collective_schedule \<Rightarrow> (plan_error, unit) result" where
  "validate_request request schedule =
     (if rq_mtp_depth request > MAX_MTP_DEPTH then Inl (Err MtpDepth)
      else case rq_mode request of
        CacheOnly \<Rightarrow> validate_cache_only request schedule
      | Mixed \<Rightarrow> Inl (Err MixedContractUnreviewed)
      | mode \<Rightarrow>
          if rq_active_sequences request = 0 \<or> rq_active_sequences request > MAX_ACTIVE_SEQUENCES
             \<or> \<not> is_sequence_bucket (rq_sequence_bucket request)
             \<or> rq_sequence_bucket request < rq_active_sequences request
             \<or> rq_query_rows request = 0 \<or> rq_query_rows request > MAX_VERIFIER_ROWS
             \<or> rq_graph_id request = 0 \<or> rq_tp_route_id request = 0 \<or> rq_dcp_route_id request = 0
             \<or> rq_sequence_table_generation request = 0 \<or> cs_operations schedule = []
          then Inl (Err Shape)
          else case mode of
            Prefill \<Rightarrow> validate_prefill request
          | Decode \<Rightarrow> validate_decode request
          | Verify \<Rightarrow> validate_verify request
          | _ \<Rightarrow> Inl Panic)"

section \<open>Plans\<close>

text \<open>\<open>append\<close> writes into a fixed array at a cursor; a slice out of range is a panic.\<close>

definition append_bytes :: "8 word list \<Rightarrow> 8 word list \<times> nat \<Rightarrow> (plan_error, 8 word list \<times> nat) result" where
  "append_bytes bytes state =
     (let (output, cursor) = state; end_cursor = cursor + length bytes in
      if end_cursor > length output then Inl Panic
      else Inr (take cursor output @ bytes @ drop end_cursor output, end_cursor))"

definition plan_fields :: "step_plan \<Rightarrow> 8 word list list" where
  "plan_fields p =
     [le_bytes 8 (pl_epoch p), le_bytes 8 (pl_step_id p), [of_nat (mode_code (pl_mode p))],
      le_bytes 2 (pl_active_sequences p), le_bytes 2 (pl_sequence_bucket p),
      le_bytes 4 (pl_scheduled_prompt_tokens p), le_bytes 4 (pl_query_rows p),
      le_bytes 4 (pl_verifier_row_bucket p), [of_nat (pl_mtp_depth p)], le_bytes 4 (pl_graph_id p),
      le_bytes 2 (pl_tp_route_id p), le_bytes 2 (pl_dcp_route_id p),
      [of_nat (transport_code (pl_attention_transport p))], le_bytes 2 (pl_sampling_route_id p),
      le_bytes 8 (pl_sequence_table_generation p), pl_collective_schedule_hash p]"

definition canonical_hash_input :: "step_plan \<Rightarrow> (plan_error, 8 word list) result" where
  "canonical_hash_input p =
     rbind (rfold append_bytes (plan_fields p) (replicate STEP_PLAN_HASH_INPUT_BYTES 0, 0)) (\<lambda>(output, cursor).
       if cursor \<noteq> STEP_PLAN_HASH_INPUT_BYTES then Inl Panic else Inr output)"

definition canonical_record :: "step_plan \<Rightarrow> (plan_error, 8 word list) result" where
  "canonical_record p = rbind (canonical_hash_input p) (\<lambda>input. Inr (input @ pl_plan_hash p))"

definition compute_hash :: "(8 word list \<Rightarrow> hash32) \<Rightarrow> step_plan \<Rightarrow> (plan_error, hash32) result" where
  "compute_hash sha p = rbind (canonical_hash_input p) (\<lambda>input. Inr (sha (PLAN_HASH_DOMAIN @ input)))"

definition request_of :: "step_plan \<Rightarrow> step_plan_request" where
  "request_of p =
     \<lparr>rq_epoch = pl_epoch p, rq_step_id = pl_step_id p, rq_mode = pl_mode p,
      rq_active_sequences = pl_active_sequences p, rq_sequence_bucket = pl_sequence_bucket p,
      rq_scheduled_prompt_tokens = pl_scheduled_prompt_tokens p, rq_query_rows = pl_query_rows p,
      rq_verifier_row_bucket = pl_verifier_row_bucket p, rq_mtp_depth = pl_mtp_depth p,
      rq_graph_id = pl_graph_id p, rq_tp_route_id = pl_tp_route_id p, rq_dcp_route_id = pl_dcp_route_id p,
      rq_attention_transport = pl_attention_transport p, rq_sampling_route_id = pl_sampling_route_id p,
      rq_sequence_table_generation = pl_sequence_table_generation p\<rparr>"

definition build_plan :: "(8 word list \<Rightarrow> hash32) \<Rightarrow> step_plan_request \<Rightarrow> collective_schedule \<Rightarrow>
    (plan_error, step_plan) result" where
  "build_plan sha request schedule =
     rbind (verify_schedule sha schedule) (\<lambda>_.
     rbind (validate_request request schedule) (\<lambda>_.
     let plan =
       \<lparr>pl_epoch = rq_epoch request, pl_step_id = rq_step_id request, pl_mode = rq_mode request,
        pl_active_sequences = rq_active_sequences request, pl_sequence_bucket = rq_sequence_bucket request,
        pl_scheduled_prompt_tokens = rq_scheduled_prompt_tokens request, pl_query_rows = rq_query_rows request,
        pl_verifier_row_bucket = rq_verifier_row_bucket request, pl_mtp_depth = rq_mtp_depth request,
        pl_graph_id = rq_graph_id request, pl_tp_route_id = rq_tp_route_id request,
        pl_dcp_route_id = rq_dcp_route_id request, pl_attention_transport = rq_attention_transport request,
        pl_sampling_route_id = rq_sampling_route_id request,
        pl_sequence_table_generation = rq_sequence_table_generation request,
        pl_collective_schedule_hash = cs_hash schedule, pl_plan_hash = replicate 32 0\<rparr>
     in rbind (compute_hash sha plan) (\<lambda>hash. Inr (plan\<lparr>pl_plan_hash := hash\<rparr>))))"

definition verify_plan :: "(8 word list \<Rightarrow> hash32) \<Rightarrow> step_plan \<Rightarrow> collective_schedule \<Rightarrow> (plan_error, unit) result" where
  "verify_plan sha p schedule =
     rbind (verify_schedule sha schedule) (\<lambda>_.
     if cs_hash schedule \<noteq> pl_collective_schedule_hash p then Inl (Err CollectiveHash)
     else
       rbind (compute_hash sha p) (\<lambda>hash.
       if hash \<noteq> pl_plan_hash p then Inl (Err PlanHash)
       else validate_request (request_of p) schedule))"

section \<open>The canonical bytes of a plan\<close>

lemma append_fields:
  "length (concat fs) \<le> length post \<Longrightarrow>
     rfold append_bytes fs (pre @ post, length pre) =
       Inr (pre @ concat fs @ drop (length (concat fs)) post, length pre + length (concat fs))"
proof (induction fs arbitrary: pre post)
  case (Cons f fs)
  have "append_bytes f (pre @ post, length pre) = Inr ((pre @ f) @ drop (length f) post, length (pre @ f))"
    using Cons.prems by (simp add: append_bytes_def)
  moreover have "length (concat fs) \<le> length (drop (length f) post)" using Cons.prems by simp
  note Cons.IH [OF this, of "pre @ f"]
  ultimately show ?case by (simp add: add.commute)
qed simp

lemma plan_fields_length: "length (pl_collective_schedule_hash p) = 32 \<Longrightarrow> length (concat (plan_fields p)) = 85"
  by (simp add: plan_fields_def)

lemma canonical_input_eq:
  assumes "length (pl_collective_schedule_hash p) = 32"
  shows "canonical_hash_input p = Inr (concat (plan_fields p))"
  using append_fields [of "plan_fields p" "replicate 85 0" "[]"] plan_fields_length [OF assms]
  by (simp add: canonical_hash_input_def)

lemma plan_fields_hash [simp]: "plan_fields (p\<lparr>pl_plan_hash := h\<rparr>) = plan_fields p"
  by (simp add: plan_fields_def)

lemma compute_hash_plan_hash [simp]: "compute_hash sha (p\<lparr>pl_plan_hash := h\<rparr>) = compute_hash sha p"
  by (simp add: compute_hash_def canonical_hash_input_def)

definition plan_typed :: "step_plan \<Rightarrow> bool" where
  "plan_typed p \<longleftrightarrow> pl_epoch p < 2 ^ 64 \<and> pl_step_id p < 2 ^ 64 \<and> pl_active_sequences p < 2 ^ 16
     \<and> pl_sequence_bucket p < 2 ^ 16 \<and> pl_scheduled_prompt_tokens p < 2 ^ 32 \<and> pl_query_rows p < 2 ^ 32
     \<and> pl_verifier_row_bucket p < 2 ^ 32 \<and> pl_mtp_depth p < 2 ^ 8 \<and> pl_graph_id p < 2 ^ 32
     \<and> pl_tp_route_id p < 2 ^ 16 \<and> pl_dcp_route_id p < 2 ^ 16 \<and> pl_sampling_route_id p < 2 ^ 16
     \<and> pl_sequence_table_generation p < 2 ^ 64 \<and> length (pl_collective_schedule_hash p) = 32"

lemma mode_code_inject: "(of_nat (mode_code a) :: 8 word) = of_nat (mode_code b) \<longleftrightarrow> a = b"
  by (cases a; cases b) (simp_all add: mode_code_def)

lemma transport_code_inject: "(of_nat (transport_code a) :: 8 word) = of_nat (transport_code b) \<longleftrightarrow> a = b"
  by (cases a; cases b) (simp_all add: transport_code_def)

lemma kind_code_inject: "(of_nat (kind_code a) :: 8 word) = of_nat (kind_code b) \<longleftrightarrow> a = b"
  by (cases a; cases b) (simp_all add: kind_code_def)

lemma plan_fields_inject:
  assumes "plan_typed p" and "plan_typed q" and "concat (plan_fields p) = concat (plan_fields q)"
  shows "p\<lparr>pl_plan_hash := h\<rparr> = q\<lparr>pl_plan_hash := h\<rparr>"
proof -
  note eqs = assms(3) [unfolded plan_fields_def, simplified]
  have nums: "pl_epoch p = pl_epoch q" "pl_step_id p = pl_step_id q" "pl_active_sequences p = pl_active_sequences q"
    "pl_sequence_bucket p = pl_sequence_bucket q" "pl_scheduled_prompt_tokens p = pl_scheduled_prompt_tokens q"
    "pl_query_rows p = pl_query_rows q" "pl_verifier_row_bucket p = pl_verifier_row_bucket q" "pl_mtp_depth p = pl_mtp_depth q"
    "pl_graph_id p = pl_graph_id q" "pl_tp_route_id p = pl_tp_route_id q" "pl_dcp_route_id p = pl_dcp_route_id q"
    "pl_sampling_route_id p = pl_sampling_route_id q" "pl_sequence_table_generation p = pl_sequence_table_generation q"
    using assms(1,2) eqs by (simp_all add: plan_typed_def le_bytes_inject byte_inject [simplified])
  have "pl_mode p = pl_mode q" "pl_attention_transport p = pl_attention_transport q"
    "pl_collective_schedule_hash p = pl_collective_schedule_hash q"
    using eqs by (simp_all add: mode_code_inject transport_code_inject)
  with nums show ?thesis by (cases p; cases q) simp
qed

section \<open>The bytes of a schedule\<close>

definition schedule_bytes :: "collective_schedule \<Rightarrow> 8 word list" where
  "schedule_bytes s = COLLECTIVE_HASH_DOMAIN @ le_bytes 2 (length (cs_operations s)) @ concat (map hash_operation (cs_operations s))"

definition plan_bytes :: "step_plan \<Rightarrow> 8 word list" where
  "plan_bytes p = PLAN_HASH_DOMAIN @ concat (plan_fields p)"

definition operation_typed :: "collective_op \<Rightarrow> bool" where
  "operation_typed o' \<longleftrightarrow> op_ordinal o' < 2 ^ 16 \<and> op_route_id o' < 2 ^ 16 \<and> op_payload_bytes o' < 2 ^ 32"

lemma length_hash_operation: "length (hash_operation x) = 10"
  by (simp add: hash_operation_def)

lemma hash_operation_inject:
  assumes "operation_typed x" and "operation_typed y" and "hash_operation x = hash_operation y"
  shows "x = (y :: collective_op)"
proof -
  note eqs = assms(3) [unfolded hash_operation_def, simplified]
  have "op_ordinal x = op_ordinal y" "op_route_id x = op_route_id y" "op_payload_bytes x = op_payload_bytes y"
    using assms(1,2) eqs by (simp_all add: operation_typed_def le_bytes_inject)
  moreover have "op_kind x = op_kind y" "op_participant_mask x = op_participant_mask y"
    using eqs by (simp_all add: kind_code_inject)
  ultimately show ?thesis by (cases x; cases y) simp
qed

lemma verified_schedule:
  assumes "verify_schedule sha s = Inr ()"
  shows "length (cs_operations s) < 2 ^ 16" and "cs_hash s = sha (schedule_bytes s)"
  using assms by (auto simp: verify_schedule_def new_schedule_def collective_hash_def schedule_bytes_def try_uint_def
      result_simps split: if_splits)

lemma schedule_bytes_inject:
  assumes "length (cs_operations s) < 2 ^ 16" and "length (cs_operations t) < 2 ^ 16"
    and "\<forall>x\<in>set (cs_operations s). operation_typed x" and "\<forall>x\<in>set (cs_operations t). operation_typed x"
    and "schedule_bytes s = schedule_bytes t"
  shows "cs_operations s = cs_operations t"
proof -
  let ?xs = "cs_operations s" and ?ys = "cs_operations t"
  have len: "length ?xs = length ?ys" and cat: "concat (map hash_operation ?xs) = concat (map hash_operation ?ys)"
    using assms(1,2,5) by (simp_all add: schedule_bytes_def le_bytes_inject)
  have "map hash_operation ?xs = map hash_operation ?ys"
    by (rule concat_map_inject [OF cat len]) (simp add: length_hash_operation)
  moreover have "inj_on hash_operation (set ?xs \<union> set ?ys)"
    using assms(3,4) hash_operation_inject by (intro inj_onI) blast
  ultimately show ?thesis by (rule map_inj_on)
qed

section \<open>Properties\<close>

text \<open>
  The canonical form of a plan fills its array exactly: no write is out of range, the cursor
  ends at the last byte, the input has 85 bytes and the record 117, and two plans with the same
  input agree in every field but the hash of the plan.
\<close>

theorem canonical_input_exact:
  assumes "plan_typed p" and "plan_typed q" and "length (pl_plan_hash p) = 32"
  shows "(\<exists>input. canonical_hash_input p = Inr input \<and> length input = STEP_PLAN_HASH_INPUT_BYTES
      \<and> canonical_record p = Inr (input @ pl_plan_hash p) \<and> length (input @ pl_plan_hash p) = 117)
    \<and> (canonical_hash_input p = canonical_hash_input q \<longleftrightarrow> p\<lparr>pl_plan_hash := h\<rparr> = q\<lparr>pl_plan_hash := h\<rparr>)"
proof -
  have len: "length (pl_collective_schedule_hash p) = 32" "length (pl_collective_schedule_hash q) = 32"
    using assms(1,2) by (simp_all add: plan_typed_def)
  note eq = canonical_input_eq [OF len(1)] canonical_input_eq [OF len(2)]
  have "concat (plan_fields p) = concat (plan_fields q) \<longleftrightarrow> p\<lparr>pl_plan_hash := h\<rparr> = q\<lparr>pl_plan_hash := h\<rparr>"
    using plan_fields_inject [OF assms(1,2)] plan_fields_hash by metis
  then show ?thesis
    using eq plan_fields_length [OF len(1)] assms(3) by (simp add: canonical_record_def)
qed

text \<open>A decode step of three sequences with one collective operation, under a constant hash.\<close>

definition zero_hash :: "8 word list \<Rightarrow> hash32" where
  "zero_hash bytes = replicate 32 0"

definition sample_schedule :: collective_schedule where
  "sample_schedule = \<lparr>cs_operations = [\<lparr>op_ordinal = 0, op_kind = TpReduce, op_route_id = 1, op_payload_bytes = 64,
     op_participant_mask = 15\<rparr>], cs_hash = replicate 32 0\<rparr>"

definition sample_plan :: "nat \<Rightarrow> step_plan" where
  "sample_plan step = \<lparr>pl_epoch = 1, pl_step_id = step, pl_mode = Decode, pl_active_sequences = 3, pl_sequence_bucket = 4,
     pl_scheduled_prompt_tokens = 0, pl_query_rows = 3, pl_verifier_row_bucket = 4, pl_mtp_depth = 0, pl_graph_id = 11,
     pl_tp_route_id = 1, pl_dcp_route_id = 2, pl_attention_transport = DecodeQueryLse, pl_sampling_route_id = 3,
     pl_sequence_table_generation = 9, pl_collective_schedule_hash = replicate 32 0, pl_plan_hash = replicate 32 0\<rparr>"

lemma sample_plan_typed: "step < 2 ^ 64 \<Longrightarrow> plan_typed (sample_plan step)"
  by (simp add: plan_typed_def sample_plan_def)

lemma sample_plan_verifies: "verify_plan zero_hash (sample_plan step) sample_schedule = Inr ()"
proof -
  have "canonical_hash_input (sample_plan step) = Inr (concat (plan_fields (sample_plan step)))"
    by (rule canonical_input_eq) (simp add: sample_plan_def)
  then show ?thesis
    by (simp add: verify_plan_def verify_schedule_def new_schedule_def collective_hash_def check_operation_def compute_hash_def
        sample_schedule_def sample_plan_def zero_hash_def validate_request_def validate_decode_def request_of_def is_sequence_bucket_def)
qed

lemma canonical_input_exact_witness:
  "\<exists>input. canonical_hash_input (sample_plan 7) = Inr input \<and> length input = 85
     \<and> canonical_hash_input (sample_plan 8) \<noteq> Inr input"
proof -
  have "(sample_plan 7)\<lparr>pl_plan_hash := []\<rparr> \<noteq> (sample_plan 8)\<lparr>pl_plan_hash := []\<rparr>" by (simp add: sample_plan_def)
  then show ?thesis
    using canonical_input_exact [OF sample_plan_typed [of 7] sample_plan_typed [of 8], of "[]"]
    by (simp add: sample_plan_def) auto
qed

text \<open>
  (C32) Verifying a plan and building it are the same check: a plan verifies against a schedule
  exactly if building its request against that schedule succeeds and gives this plan.
\<close>

theorem verify_iff_build: "verify_plan sha p s = Inr () \<longleftrightarrow> build_plan sha (request_of p) s = Inr p"
proof -
  have built: "build_plan sha (request_of p) s =
      rbind (verify_schedule sha s) (\<lambda>_. rbind (validate_request (request_of p) s) (\<lambda>_.
      rbind (compute_hash sha (p\<lparr>pl_collective_schedule_hash := cs_hash s, pl_plan_hash := replicate 32 0\<rparr>)) (\<lambda>hash.
        Inr (p\<lparr>pl_collective_schedule_hash := cs_hash s, pl_plan_hash := hash\<rparr>))))"
    by (cases p) (simp add: build_plan_def request_of_def Let_def)
  have upd: "p\<lparr>pl_collective_schedule_hash := c, pl_plan_hash := h\<rparr> = p \<longleftrightarrow>
      pl_collective_schedule_hash p = c \<and> pl_plan_hash p = h" for c h
    by (cases p) auto
  have same: "p\<lparr>pl_collective_schedule_hash := pl_collective_schedule_hash p\<rparr> = p" by simp
  show ?thesis
    unfolding built verify_plan_def by (auto simp: result_simps upd same split: if_splits)
qed

text \<open>
  (C31) Ranks that agree on the hash of a plan agree on the plan and on its schedule: if two plans
  verify against their schedules and carry the same plan hash, then plans and schedules are
  equal, or two different byte strings that were hashed for them collide.
\<close>

theorem plan_hash_binds_step:
  assumes "verify_plan sha p s = Inr ()" and "verify_plan sha q t = Inr ()" and "plan_typed p" and "plan_typed q"
    and "\<forall>x\<in>set (cs_operations s). operation_typed x" and "\<forall>x\<in>set (cs_operations t). operation_typed x"
    and "pl_plan_hash p = pl_plan_hash q"
  shows "(p = q \<and> s = t) \<or> collides sha (plan_bytes p) (plan_bytes q) \<or> collides sha (schedule_bytes s) (schedule_bytes t)"
proof (cases "collides sha (plan_bytes p) (plan_bytes q) \<or> collides sha (schedule_bytes s) (schedule_bytes t)")
  case False
  have len: "length (pl_collective_schedule_hash p) = 32" "length (pl_collective_schedule_hash q) = 32"
    using assms(3,4) by (simp_all add: plan_typed_def)
  have hash: "pl_plan_hash p = sha (plan_bytes p)" "pl_plan_hash q = sha (plan_bytes q)"
    "pl_collective_schedule_hash p = cs_hash s" "pl_collective_schedule_hash q = cs_hash t"
    and sched: "verify_schedule sha s = Inr ()" "verify_schedule sha t = Inr ()"
    using assms(1,2) canonical_input_eq [OF len(1)] canonical_input_eq [OF len(2)]
    by (auto simp: verify_plan_def compute_hash_def plan_bytes_def result_simps split: if_splits)
  have "plan_bytes p = plan_bytes q" using False hash(1,2) assms(7) by (simp add: collides_def)
  then have "p\<lparr>pl_plan_hash := pl_plan_hash p\<rparr> = q\<lparr>pl_plan_hash := pl_plan_hash p\<rparr>"
    by (intro plan_fields_inject [OF assms(3,4)]) (simp add: plan_bytes_def)
  then have pq: "p = q" using assms(7) by (cases p; cases q) simp
  then have "cs_hash s = cs_hash t" using hash(3,4) by simp
  then have "schedule_bytes s = schedule_bytes t"
    using False verified_schedule(2) [OF sched(1)] verified_schedule(2) [OF sched(2)] by (simp add: collides_def)
  then have "cs_operations s = cs_operations t"
    by (rule schedule_bytes_inject [OF verified_schedule(1) [OF sched(1)] verified_schedule(1) [OF sched(2)] assms(5,6)])
  then show ?thesis using pq \<open>cs_hash s = cs_hash t\<close> by (cases s; cases t) simp
qed blast

lemma plan_hash_binds_step_witness:
  "pl_plan_hash (sample_plan 7) = pl_plan_hash (sample_plan 8)
   \<and> collides zero_hash (plan_bytes (sample_plan 7)) (plan_bytes (sample_plan 8))"
proof -
  have "sample_plan 7 \<noteq> sample_plan 8" "pl_plan_hash (sample_plan 7) = pl_plan_hash (sample_plan 8)"
    by (simp_all add: sample_plan_def)
  moreover have "\<forall>x\<in>set (cs_operations sample_schedule). operation_typed x"
    by (simp add: sample_schedule_def operation_typed_def)
  ultimately show ?thesis
    using plan_hash_binds_step [OF sample_plan_verifies [of 7] sample_plan_verifies [of 8] sample_plan_typed sample_plan_typed]
    by (auto simp: collides_def)
qed

end
