(* ===== verification/Graph.thy ===== *)
theory Graph
  imports Step "HOL-Library.Multiset"
begin

text \<open>
  \<open>crates/glm-engine/src/graph.rs\<close>: the profile of captured graphs. A profile holds its entries
  in the order of their ids, sealed by a hash, and admits a step plan to the entry it names.
\<close>

section \<open>Data\<close>

definition KERNEL_ABI :: string where "KERNEL_ABI = ''glmaxx.sm120.nvfp4.routed_moe.v2''"

definition GRAPH_PROFILE_DOMAIN :: "8 word list" where
  "GRAPH_PROFILE_DOMAIN = ascii_bytes ''glmaxx.graph-profile.v1'' @ [0]"

record graph_key =
  gk_mode :: step_mode
  gk_sequence_bucket :: nat
  gk_verifier_row_bucket :: nat
  gk_mtp_depth :: nat
  gk_attention_transport :: attention_transport

record graph_entry =
  ge_graph_id :: nat
  ge_key :: graph_key
  ge_maximum_active_sequences :: nat
  ge_maximum_prompt_tokens :: nat
  ge_maximum_query_rows :: nat
  ge_compatible_tp_routes :: "nat list"
  ge_compatible_dcp_routes :: "nat list"
  ge_compatible_sampling_routes :: "nat list"
  ge_maximum_scratch_bytes :: nat
  ge_argument_bytes :: nat
  ge_graph_object_bytes :: nat
  ge_resident_module_bytes :: nat
  ge_admission_slo_class :: nat

record graph_profile =
  gp_schema :: string
  gp_step_plan_abi :: string
  gp_kernel_abi :: string
  gp_entries :: "graph_entry list"
  gp_profile_hash :: hash32

datatype graph_profile_error = Empty | Abi | Entry | Hash | MissingGraph | Incompatible | CacheOnlyHasNoGraph

section \<open>Operations\<close>

definition strictly_sorted_nonzero :: "nat list \<Rightarrow> bool" where
  "strictly_sorted_nonzero values \<longleftrightarrow> list_all (\<lambda>value. value \<noteq> 0) values \<and> successively (<) values"

definition validate_entry :: "graph_entry \<Rightarrow> nat set \<times> graph_key set \<Rightarrow>
    (graph_profile_error, nat set \<times> graph_key set) result" where
  "validate_entry entry state =
     (let (graph_ids, keys) = state; key = ge_key entry in
      if ge_graph_id entry = 0 \<or> ge_graph_id entry \<in> graph_ids \<or> key \<in> keys
         \<or> ge_maximum_active_sequences entry = 0
         \<or> ge_maximum_active_sequences entry > gk_sequence_bucket key
         \<or> ge_maximum_query_rows entry = 0 \<or> ge_admission_slo_class entry = 0
         \<or> ge_compatible_tp_routes entry = [] \<or> ge_compatible_dcp_routes entry = []
         \<or> \<not> strictly_sorted_nonzero (ge_compatible_tp_routes entry)
         \<or> \<not> strictly_sorted_nonzero (ge_compatible_dcp_routes entry)
         \<or> \<not> strictly_sorted_nonzero (ge_compatible_sampling_routes entry)
      then Inl (Err Entry)
      else if (case gk_mode key of
          Prefill \<Rightarrow>
            ge_maximum_prompt_tokens entry = 0 \<or> gk_verifier_row_bucket key \<noteq> 0 \<or> gk_mtp_depth key \<noteq> 0
            \<or> gk_attention_transport key \<notin> {PrefillCkv, PrefillQuery}
            \<or> ge_compatible_sampling_routes entry \<noteq> []
        | Decode \<Rightarrow>
            ge_maximum_prompt_tokens entry \<noteq> 0 \<or> gk_attention_transport key \<noteq> DecodeQueryLse
            \<or> ge_compatible_sampling_routes entry = [] \<or> gk_mtp_depth key \<noteq> 0
        | Verify \<Rightarrow>
            ge_maximum_prompt_tokens entry \<noteq> 0 \<or> gk_attention_transport key \<noteq> DecodeQueryLse
            \<or> ge_compatible_sampling_routes entry = [] \<or> gk_mtp_depth key = 0
        | _ \<Rightarrow> True)
      then Inl (Err Entry)
      else Inr (insert (ge_graph_id entry) graph_ids, insert key keys))"

definition validate_entries :: "graph_entry list \<Rightarrow> (graph_profile_error, unit) result" where
  "validate_entries entries =
     (if entries = [] then Inl (Err Empty)
      else rbind (rfold validate_entry entries ({}, {})) (\<lambda>_. Inr ()))"

definition hash_u16_list :: "nat list \<Rightarrow> 8 word list" where
  "hash_u16_list values =
     le_bytes 2 (case try_uint 16 (length values) of None \<Rightarrow> 2 ^ 16 - 1 | Some n \<Rightarrow> n)
     @ concat (map (le_bytes 2) values)"

definition hash_entry :: "graph_entry \<Rightarrow> 8 word list" where
  "hash_entry entry =
     le_bytes 4 (ge_graph_id entry) @ [of_nat (mode_code (gk_mode (ge_key entry)))]
     @ le_bytes 2 (gk_sequence_bucket (ge_key entry)) @ le_bytes 4 (gk_verifier_row_bucket (ge_key entry))
     @ [of_nat (gk_mtp_depth (ge_key entry))]
     @ [of_nat (transport_code (gk_attention_transport (ge_key entry)))]
     @ le_bytes 2 (ge_maximum_active_sequences entry) @ le_bytes 4 (ge_maximum_prompt_tokens entry)
     @ le_bytes 4 (ge_maximum_query_rows entry)
     @ hash_u16_list (ge_compatible_tp_routes entry) @ hash_u16_list (ge_compatible_dcp_routes entry)
     @ hash_u16_list (ge_compatible_sampling_routes entry)
     @ le_bytes 8 (ge_maximum_scratch_bytes entry) @ le_bytes 8 (ge_argument_bytes entry)
     @ le_bytes 8 (ge_graph_object_bytes entry) @ le_bytes 8 (ge_resident_module_bytes entry)
     @ le_bytes 2 (ge_admission_slo_class entry)"

definition hash_entries :: "(8 word list \<Rightarrow> hash32) \<Rightarrow> graph_entry list \<Rightarrow> hash32" where
  "hash_entries sha entries =
     sha (GRAPH_PROFILE_DOMAIN @ sha (ascii_bytes STEP_PLAN_ABI) @ sha (ascii_bytes KERNEL_ABI)
       @ le_bytes 4 (case try_uint 32 (length entries) of None \<Rightarrow> 2 ^ 32 - 1 | Some n \<Rightarrow> n)
       @ concat (map hash_entry entries))"

definition new_profile :: "(8 word list \<Rightarrow> hash32) \<Rightarrow> graph_entry list \<Rightarrow> (graph_profile_error, graph_profile) result" where
  "new_profile sha entries =
     (let entries = sort_key ge_graph_id entries in
      rbind (validate_entries entries) (\<lambda>_.
        Inr \<lparr>gp_schema = ''glmaxx.graph-profile.v1'', gp_step_plan_abi = STEP_PLAN_ABI,
             gp_kernel_abi = KERNEL_ABI, gp_entries = entries,
             gp_profile_hash = hash_entries sha entries\<rparr>))"

definition verify_profile :: "(8 word list \<Rightarrow> hash32) \<Rightarrow> graph_profile \<Rightarrow> (graph_profile_error, unit) result" where
  "verify_profile sha p =
     (if gp_schema p \<noteq> ''glmaxx.graph-profile.v1'' \<or> gp_step_plan_abi p \<noteq> STEP_PLAN_ABI
         \<or> gp_kernel_abi p \<noteq> KERNEL_ABI
      then Inl (Err Abi)
      else
        rbind (validate_entries (gp_entries p)) (\<lambda>_.
        if hash_entries sha (gp_entries p) \<noteq> gp_profile_hash p then Inl (Err Hash) else Inr ()))"

definition admit_plan :: "(8 word list \<Rightarrow> hash32) \<Rightarrow> graph_profile \<Rightarrow> step_plan \<Rightarrow>
    (graph_profile_error, graph_entry) result" where
  "admit_plan sha p plan =
     rbind (verify_profile sha p) (\<lambda>_.
     if pl_mode plan = CacheOnly then Inl (Err CacheOnlyHasNoGraph)
     else
       rbind (ok_or (find (\<lambda>entry. ge_graph_id entry = pl_graph_id plan) (gp_entries p)) MissingGraph) (\<lambda>entry.
       let key = \<lparr>gk_mode = pl_mode plan, gk_sequence_bucket = pl_sequence_bucket plan,
                  gk_verifier_row_bucket = pl_verifier_row_bucket plan, gk_mtp_depth = pl_mtp_depth plan,
                  gk_attention_transport = pl_attention_transport plan\<rparr>
       in
       if ge_key entry \<noteq> key \<or> pl_active_sequences plan > ge_maximum_active_sequences entry
          \<or> pl_scheduled_prompt_tokens plan > ge_maximum_prompt_tokens entry
          \<or> pl_query_rows plan > ge_maximum_query_rows entry
          \<or> pl_tp_route_id plan \<notin> set (ge_compatible_tp_routes entry)
          \<or> pl_dcp_route_id plan \<notin> set (ge_compatible_dcp_routes entry)
          \<or> (pl_sampling_route_id plan \<noteq> 0
              \<and> pl_sampling_route_id plan \<notin> set (ge_compatible_sampling_routes entry))
       then Inl (Err Incompatible) else Inr entry))"

section \<open>Valid entries\<close>

definition entry_ok :: "graph_entry \<Rightarrow> bool" where
  "entry_ok e \<longleftrightarrow> validate_entry e ({}, {}) = Inr ({ge_graph_id e}, {ge_key e})"

lemma validate_entry_eq:
  "validate_entry e (I, K) =
     (if entry_ok e \<and> ge_graph_id e \<notin> I \<and> ge_key e \<notin> K
      then Inr (insert (ge_graph_id e) I, insert (ge_key e) K) else Inl (Err Entry))"
  by (cases "gk_mode (ge_key e)") (auto simp: validate_entry_def entry_ok_def Let_def)

lemma rfold_validate_entry:
  "rfold validate_entry es (I, K) =
     (if (\<forall>e\<in>set es. entry_ok e) \<and> distinct (map ge_graph_id es) \<and> distinct (map ge_key es)
         \<and> ge_graph_id ` set es \<inter> I = {} \<and> ge_key ` set es \<inter> K = {}
      then Inr (ge_graph_id ` set es \<union> I, ge_key ` set es \<union> K) else Inl (Err Entry))"
  by (induction es arbitrary: I K) (auto simp: validate_entry_eq)

lemma validate_entries_eq:
  "validate_entries es = (if es = [] then Inl (Err Empty)
     else if (\<forall>e\<in>set es. entry_ok e) \<and> distinct (map ge_graph_id es) \<and> distinct (map ge_key es)
     then Inr () else Inl (Err Entry))"
  by (simp add: validate_entries_def rfold_validate_entry)

lemma entry_okD:
  assumes "entry_ok e"
  shows "ge_graph_id e \<noteq> 0" and "0 < ge_maximum_active_sequences e"
    and "ge_maximum_active_sequences e \<le> gk_sequence_bucket (ge_key e)" and "0 < ge_maximum_query_rows e"
    and "gk_mode (ge_key e) = Prefill \<Longrightarrow> 0 < ge_maximum_prompt_tokens e \<and> gk_mtp_depth (ge_key e) = 0
      \<and> gk_verifier_row_bucket (ge_key e) = 0 \<and> gk_attention_transport (ge_key e) \<in> {PrefillCkv, PrefillQuery}"
    and "gk_mode (ge_key e) = Decode \<Longrightarrow> gk_mtp_depth (ge_key e) = 0 \<and> gk_attention_transport (ge_key e) = DecodeQueryLse"
    and "gk_mode (ge_key e) = Verify \<Longrightarrow> gk_mtp_depth (ge_key e) \<noteq> 0 \<and> gk_attention_transport (ge_key e) = DecodeQueryLse"
    and "gk_mode (ge_key e) \<in> {Prefill, Decode, Verify}"
    and "0 \<notin> set (ge_compatible_tp_routes e)" and "0 \<notin> set (ge_compatible_dcp_routes e)"
  using assms
  by (auto simp: entry_ok_def validate_entry_def Let_def strictly_sorted_nonzero_def list_all_iff
      split: if_splits step_mode.splits)

lemma verified_entries:
  assumes "verify_profile sha p = Inr ()"
  shows "e \<in> set (gp_entries p) \<Longrightarrow> entry_ok e" and "distinct (map ge_graph_id (gp_entries p))"
  using assms by (auto simp: verify_profile_def result_simps validate_entries_eq split: if_splits)

lemma find_entry:
  assumes "distinct (map ge_graph_id es)" and "e \<in> set es"
  shows "find (\<lambda>entry. ge_graph_id entry = ge_graph_id e) es = Some e"
  using assms by (induction es) auto

section \<open>Properties\<close>

text \<open>
  (C33) A profile does not depend on the order its entries are given in: two lists with the same
  entries give the same profile or the same error, and a profile that was built verifies.
\<close>

theorem profile_order_independent:
  assumes "mset es = mset fs"
  shows "new_profile sha es = new_profile sha fs
    \<and> (\<forall>p. new_profile sha es = Inr p \<longrightarrow> verify_profile sha p = Inr () \<and> mset (gp_entries p) = mset es)"
proof (cases "distinct (map ge_graph_id es)")
  case True
  have "sort_key ge_graph_id es = sort_key ge_graph_id fs"
    using assms True by (intro sort_key_inj_key_eq) (simp_all add: distinct_map)
  then show ?thesis using assms by (auto simp: new_profile_def verify_profile_def result_simps Let_def)
next
  case False
  have "validate_entries (sort_key ge_graph_id xs) = Inl (Err Entry)" if xs: "mset xs = mset es" for xs
  proof -
    have "mset (map ge_graph_id (sort_key ge_graph_id xs)) = mset (map ge_graph_id es)" using xs by simp
    then have "\<not> distinct (map ge_graph_id (sort_key ge_graph_id xs))" using False mset_eq_imp_distinct_iff by blast
    then show ?thesis by (auto simp: validate_entries_eq)
  qed
  from this [OF refl] this [OF assms [symmetric]] show ?thesis by (simp add: new_profile_def)
qed

text \<open>A profile with one graph for each mode.\<close>

definition sample_entry :: "nat \<Rightarrow> graph_key \<Rightarrow> nat \<Rightarrow> nat \<Rightarrow> graph_entry" where
  "sample_entry g key prompt rows = \<lparr>ge_graph_id = g, ge_key = key, ge_maximum_active_sequences = 4,
     ge_maximum_prompt_tokens = prompt, ge_maximum_query_rows = rows, ge_compatible_tp_routes = [1],
     ge_compatible_dcp_routes = [2, 3, 4, 5], ge_compatible_sampling_routes = (if prompt = 0 then [6, 7, 8] else []),
     ge_maximum_scratch_bytes = 0, ge_argument_bytes = 0, ge_graph_object_bytes = 0, ge_resident_module_bytes = 0,
     ge_admission_slo_class = 1\<rparr>"

definition sample_entries :: "graph_entry list" where
  "sample_entries =
     [sample_entry 11 \<lparr>gk_mode = Prefill, gk_sequence_bucket = 4, gk_verifier_row_bucket = 0, gk_mtp_depth = 0,
        gk_attention_transport = PrefillCkv\<rparr> 256 256,
      sample_entry 12 \<lparr>gk_mode = Decode, gk_sequence_bucket = 4, gk_verifier_row_bucket = 4, gk_mtp_depth = 0,
        gk_attention_transport = DecodeQueryLse\<rparr> 0 4,
      sample_entry 13 \<lparr>gk_mode = Verify, gk_sequence_bucket = 4, gk_verifier_row_bucket = 12, gk_mtp_depth = 2,
        gk_attention_transport = DecodeQueryLse\<rparr> 0 12]"

lemma sample_entries_valid: "validate_entries sample_entries = Inr ()"
  by (simp add: sample_entries_def sample_entry_def validate_entries_def validate_entry_def strictly_sorted_nonzero_def)

lemma sample_entries_sorted: "sort_key ge_graph_id sample_entries = sample_entries"
  by (simp add: sample_entries_def sample_entry_def)

lemma profile_order_independent_witness:
  "mset (rev sample_entries) = mset sample_entries
   \<and> (\<exists>p. new_profile zero_hash (rev sample_entries) = Inr p \<and> verify_profile zero_hash p = Inr ())"
proof -
  obtain p where p: "new_profile zero_hash sample_entries = Inr p"
    using sample_entries_valid by (simp add: new_profile_def sample_entries_sorted)
  then show ?thesis using profile_order_independent [of "rev sample_entries" sample_entries zero_hash] by simp
qed

end
