(* ===== verification/Scheduler.thy ===== *)
theory Scheduler
  imports Graph "HOL-Library.AList" "HOL-Library.Product_Lexorder"
begin

text \<open>
  \<open>crates/glm-scheduler/src/lib.rs\<close>: the continuous-batching scheduler. Requests of several tenants
  wait for prefill or decode; a batch is chosen by weighted service and by the captured graphs,
  stays in flight, and is completed with the tokens each row committed.

  \<open>next_batch\<close> applies cancellations even when no batch can be built, so it returns its result
  and the state it leaves; the completion of a batch checks everything before it changes
  anything and is \<open>transact\<close> of its inner computation. An index into a map that misses, and a
  plain subtraction below zero, is a panic.
\<close>

section \<open>Data\<close>

definition MAXIMUM_BATCH_ROWS :: nat where [simp]: "MAXIMUM_BATCH_ROWS = MAX_ACTIVE_SEQUENCES"

record tenant_config =
  tc_tenant :: nat
  tc_weight :: nat
  tc_maximum_active_requests :: nat

datatype sampling_collective = Greedy | TopK | Mass

record request_spec =
  rs_id :: nat
  rs_tenant :: nat
  rs_prompt_tokens :: nat
  rs_maximum_new_tokens :: nat
  rs_mtp_depth :: nat
  rs_sampling :: sampling_collective

datatype request_state = WaitingPrefill | Decoding | Finished | Cancelled | Failed

record request_progress =
  rg_state :: request_state
  rg_prompt_tokens :: nat
  rg_prompt_done :: nat
  rg_maximum_new_tokens :: nat
  rg_generated :: nat
  rg_mtp_depth :: nat

datatype batch_kind = Prefill | Decode | Verify nat

record batch_row =
  br_request_id :: nat
  br_prompt_tokens :: nat

record batch_completion =
  bc_request_id :: nat
  bc_committed_tokens :: nat
  bc_terminal :: bool

record scheduled_batch =
  sb_step_id :: nat
  sb_kind :: batch_kind
  sb_graph_id :: nat
  sb_rows :: "batch_row list"
  sb_query_rows :: nat
  sb_sampling :: sampling_collective

record scheduler_config =
  maximum_batch_sequences :: nat
  maximum_prefill_tokens :: nat
  maximum_decode_burst :: nat

record request =
  rt_spec :: request_spec
  rt_state :: request_state
  rt_prompt_done :: nat
  rt_generated :: nat

record tenant =
  tn_config :: tenant_config
  tn_service_units :: nat

record completion_update =
  cu_request_id :: nat
  cu_state :: request_state
  cu_prompt_done :: nat
  cu_generated :: nat

record scheduler =
  sc_config :: scheduler_config
  sc_profile :: graph_profile
  sc_tenants :: "(nat, tenant) fmap"
  sc_requests :: "(nat, request) fmap"
  sc_cancellations :: "nat set"
  sc_inflight :: "scheduled_batch option"
  sc_next_step_id :: nat
  sc_decode_burst :: nat

datatype scheduler_error =
    Config | GraphProfile | Tenant | TenantLimit | Request | UnknownRequest | UncapturedShape | NoRunnable
  | Inflight | NoInflight | Commit | Overflow

section \<open>Construction and admission\<close>

definition insert_tenant :: "tenant_config \<Rightarrow> (nat, tenant) fmap \<Rightarrow> (scheduler_error, (nat, tenant) fmap) result" where
  "insert_tenant c tenants =
     (if tc_tenant c = 0 \<or> tc_weight c = 0 \<or> tc_maximum_active_requests c = 0
         \<or> fmlookup tenants (tc_tenant c) \<noteq> None
      then Inl (Err Tenant)
      else Inr (fmupd (tc_tenant c) \<lparr>tn_config = c, tn_service_units = 0\<rparr> tenants))"

definition new_scheduler :: "(8 word list \<Rightarrow> hash32) \<Rightarrow> scheduler_config \<Rightarrow> graph_profile \<Rightarrow> tenant_config list \<Rightarrow>
    (scheduler_error, scheduler) result" where
  "new_scheduler sha config profile tenant_configs =
     rbind (map_err (\<lambda>_. GraphProfile) (verify_profile sha profile)) (\<lambda>_.
     if maximum_batch_sequences config = 0 \<or> maximum_batch_sequences config > MAX_ACTIVE_SEQUENCES
        \<or> maximum_prefill_tokens config = 0 \<or> maximum_decode_burst config = 0
     then Inl (Err Config)
     else
       rbind (rfold insert_tenant tenant_configs fmempty) (\<lambda>tenants.
       if tenant_configs = [] then Inl (Err Tenant)
       else Inr \<lparr>sc_config = config, sc_profile = profile, sc_tenants = tenants, sc_requests = fmempty,
              sc_cancellations = {}, sc_inflight = None, sc_next_step_id = 1, sc_decode_burst = 0\<rparr>))"

definition terminal_state :: "request_state \<Rightarrow> bool" where
  "terminal_state st \<longleftrightarrow> st \<in> {Finished, Cancelled, Failed}"

definition has_graph_for_request :: "scheduler \<Rightarrow> request_spec \<Rightarrow> bool" where
  "has_graph_for_request s spec =
     (let entries = gp_entries (sc_profile s) in
      list_ex (\<lambda>entry. gk_mode (ge_key entry) = step_mode.Prefill) entries
      \<and> list_ex (\<lambda>entry. gk_mode (ge_key entry) = step_mode.Decode \<and> gk_mtp_depth (ge_key entry) = 0
                          \<and> ge_maximum_query_rows entry \<noteq> 0) entries
      \<and> (rs_mtp_depth spec = 0
         \<or> list_ex (\<lambda>entry. gk_mode (ge_key entry) = step_mode.Verify
                             \<and> gk_mtp_depth (ge_key entry) = rs_mtp_depth spec
                             \<and> ge_maximum_query_rows entry > rs_mtp_depth spec) entries))"

definition active_requests :: "scheduler \<Rightarrow> nat \<Rightarrow> nat" where
  "active_requests s t = length (filter (\<lambda>(_, r). rs_tenant (rt_spec r) = t \<and> \<not> terminal_state (rt_state r))
     (entries_of (sc_requests s)))"

definition admit_inner :: "request_spec \<Rightarrow> nat \<Rightarrow> scheduler \<Rightarrow> (scheduler_error, scheduler \<times> unit) result" where
  "admit_inner spec cached_prompt_tokens s =
     (if rs_id spec = 0 \<or> rs_prompt_tokens spec = 0 \<or> rs_maximum_new_tokens spec = 0 \<or> rs_mtp_depth spec > 6
         \<or> cached_prompt_tokens > rs_prompt_tokens spec
         \<or> (cached_prompt_tokens \<noteq> rs_prompt_tokens spec \<and> cached_prompt_tokens mod 64 \<noteq> 0)
         \<or> fmlookup (sc_requests s) (rs_id spec) \<noteq> None
      then Inl (Err Request)
      else
        rbind (ok_or (fmlookup (sc_tenants s) (rs_tenant spec)) Tenant) (\<lambda>tn.
        if active_requests s (rs_tenant spec) \<ge> tc_maximum_active_requests (tn_config tn) then Inl (Err TenantLimit)
        else if \<not> has_graph_for_request s spec then Inl (Err UncapturedShape)
        else Inr (s\<lparr>sc_requests := fmupd (rs_id spec)
            \<lparr>rt_spec = spec,
             rt_state = (if cached_prompt_tokens = rs_prompt_tokens spec then Decoding else WaitingPrefill),
             rt_prompt_done = cached_prompt_tokens, rt_generated = 0\<rparr> (sc_requests s)\<rparr>, ())))"

definition admit_with_prefix :: "request_spec \<Rightarrow> nat \<Rightarrow> scheduler \<Rightarrow> (scheduler_error, unit) result \<times> scheduler" where
  "admit_with_prefix spec cached_prompt_tokens = transact (admit_inner spec cached_prompt_tokens)"

definition admit :: "request_spec \<Rightarrow> scheduler \<Rightarrow> (scheduler_error, unit) result \<times> scheduler" where
  "admit spec = admit_with_prefix spec 0"

section \<open>Cancellation\<close>

definition cancel_inner :: "nat \<Rightarrow> scheduler \<Rightarrow> (scheduler_error, scheduler \<times> unit) result" where
  "cancel_inner request_id s =
     rbind (ok_or (fmlookup (sc_requests s) request_id) UnknownRequest) (\<lambda>r.
     if terminal_state (rt_state r) then Inr (s, ())
     else Inr (s\<lparr>sc_cancellations := insert request_id (sc_cancellations s)\<rparr>, ()))"

definition cancel :: "nat \<Rightarrow> scheduler \<Rightarrow> (scheduler_error, unit) result \<times> scheduler" where
  "cancel request_id = transact (cancel_inner request_id)"

definition cancel_request :: "nat \<Rightarrow> (nat, request) fmap \<Rightarrow> (nat, request) fmap" where
  "cancel_request request_id requests = (case fmlookup requests request_id of
      None \<Rightarrow> requests
    | Some r \<Rightarrow>
        if rt_state r \<notin> {Finished, Failed} then fmupd request_id (r\<lparr>rt_state := Cancelled\<rparr>) requests
        else requests)"

definition apply_cancellations :: "scheduler \<Rightarrow> scheduler" where
  "apply_cancellations s =
     s\<lparr>sc_requests := fold cancel_request (sorted_list_of_set (sc_cancellations s)) (sc_requests s),
       sc_cancellations := {}\<rparr>"

definition apply_cancellations_inner :: "scheduler \<Rightarrow> (scheduler_error, scheduler \<times> unit) result" where
  "apply_cancellations_inner s =
     (if sc_inflight s \<noteq> None then Inl (Err Inflight) else Inr (apply_cancellations s, ()))"

definition apply_cancellations_at_boundary :: "scheduler \<Rightarrow> (scheduler_error, unit) result \<times> scheduler" where
  "apply_cancellations_at_boundary = transact apply_cancellations_inner"

section \<open>Choosing a batch\<close>

definition effective_decode_depth :: "scheduler \<Rightarrow> request \<Rightarrow> (scheduler_error, nat) result" where
  "effective_decode_depth s r =
     rbind (ok_or (checked_sub (rs_maximum_new_tokens (rt_spec r)) (rt_generated r)) Commit) (\<lambda>remaining.
     if remaining = 0 then Inl (Err Commit)
     else
       let maximum_depth = min (rs_mtp_depth (rt_spec r))
             (case try_uint 8 (remaining - 1) of None \<Rightarrow> 255 | Some n \<Rightarrow> n);
           depths = map (\<lambda>entry. gk_mtp_depth (ge_key entry))
             (filter (\<lambda>entry. gk_mode (ge_key entry) = step_mode.Verify
                 \<and> gk_mtp_depth (ge_key entry) \<le> maximum_depth
                 \<and> ge_maximum_query_rows entry > gk_mtp_depth (ge_key entry)) (gp_entries (sc_profile s)))
       in Inr (if depths = [] then 0 else Max (set depths)))"

definition request_le :: "scheduler \<Rightarrow> nat \<Rightarrow> nat \<Rightarrow> bool" where
  "request_le s left right =
     (let l = the (fmlookup (sc_requests s) left); r = the (fmlookup (sc_requests s) right);
          lt = the (fmlookup (sc_tenants s) (rs_tenant (rt_spec l)));
          rt = the (fmlookup (sc_tenants s) (rs_tenant (rt_spec r)));
          left_score = tn_service_units lt * tc_weight (tn_config rt);
          right_score = tn_service_units rt * tc_weight (tn_config lt)
      in (left_score, rs_tenant (rt_spec l), left) \<le> (right_score, rs_tenant (rt_spec r), right))"

definition indexed :: "scheduler \<Rightarrow> nat \<Rightarrow> bool" where
  "indexed s request_id = (case fmlookup (sc_requests s) request_id of
      None \<Rightarrow> False
    | Some r \<Rightarrow> fmlookup (sc_tenants s) (rs_tenant (rt_spec r)) \<noteq> None)"

definition ordered_requests :: "scheduler \<Rightarrow> request_state \<Rightarrow> (nat \<times> sampling_collective) option \<Rightarrow>
    (scheduler_error, nat list) result" where
  "ordered_requests s state decode_class =
     (let ids = map (\<lambda>(_, r). rs_id (rt_spec r)) (filter (\<lambda>(_, r). rt_state r = state
            \<and> (case decode_class of None \<Rightarrow> True
               | Some (depth, sampling) \<Rightarrow>
                   effective_decode_depth s r = Inr depth \<and> rs_sampling (rt_spec r) = sampling))
          (entries_of (sc_requests s)))
      in
      if length ids > 1 \<and> \<not> list_all (indexed s) ids then Inl Panic
      else Inr (sort_by (request_le s) ids))"

definition best_graph :: "scheduler \<Rightarrow> batch_kind \<Rightarrow> nat \<Rightarrow> nat \<Rightarrow> graph_entry option" where
  "best_graph s kind active query_rows =
     (let (mode, depth) = (case kind of
            Prefill \<Rightarrow> (step_mode.Prefill, 0)
          | Decode \<Rightarrow> (step_mode.Decode, 0)
          | Verify depth \<Rightarrow> (step_mode.Verify, depth))
      in min_by_key (\<lambda>entry. (gk_sequence_bucket (ge_key entry), gk_verifier_row_bucket (ge_key entry),
             ge_maximum_query_rows entry, ge_graph_id entry))
           (filter (\<lambda>entry. gk_mode (ge_key entry) = mode \<and> gk_mtp_depth (ge_key entry) = depth
              \<and> ge_maximum_active_sequences entry \<ge> active \<and> ge_maximum_query_rows entry \<ge> query_rows
              \<and> (mode \<noteq> step_mode.Prefill \<or> ge_maximum_prompt_tokens entry \<ge> query_rows))
             (gp_entries (sc_profile s))))"

definition sum_prompt_tokens :: "batch_row list \<Rightarrow> (scheduler_error, nat) result" where
  "sum_prompt_tokens rows =
     rfold (\<lambda>row total. ok_or (checked_add 32 total (br_prompt_tokens row)) Overflow) rows 0"

definition finalize_batch :: "batch_kind \<Rightarrow> sampling_collective \<Rightarrow> batch_row list \<Rightarrow> scheduler \<Rightarrow>
    (scheduler_error, scheduled_batch \<times> scheduler) result" where
  "finalize_batch kind sampling rows s =
     (if rows = [] then Inl (Err NoRunnable)
      else
        rbind (ok_or (try_uint 16 (length rows)) Overflow) (\<lambda>active.
        rbind (case kind of
            Prefill \<Rightarrow> sum_prompt_tokens rows
          | Decode \<Rightarrow> Inr active
          | Verify depth \<Rightarrow> ok_or (checked_mul 32 active (depth + 1)) Overflow) (\<lambda>query_rows.
        rbind (ok_or (best_graph s kind active query_rows) UncapturedShape) (\<lambda>graph.
        rbind (ok_or (checked_add 64 (sc_next_step_id s) 1) Overflow) (\<lambda>next_step_id.
          Inr (\<lparr>sb_step_id = sc_next_step_id s, sb_kind = kind, sb_graph_id = ge_graph_id graph, sb_rows = rows,
                sb_query_rows = query_rows, sb_sampling = sampling\<rparr>,
               s\<lparr>sc_next_step_id := next_step_id\<rparr>))))))"

fun take_prompts :: "scheduler \<Rightarrow> nat list \<Rightarrow> nat \<Rightarrow> (scheduler_error, batch_row list) result" where
  "take_prompts s [] available = Inr []"
| "take_prompts s (request_id # ids) available =
     (if available = 0 then Inr []
      else
        rbind (expect (fmlookup (sc_requests s) request_id)) (\<lambda>r.
        rbind (expect (checked_sub (rs_prompt_tokens (rt_spec r)) (rt_prompt_done r))) (\<lambda>remaining.
        let tokens = min remaining available in
        if tokens \<noteq> 0
        then rbind (take_prompts s ids (available - tokens)) (\<lambda>rows.
               Inr (\<lparr>br_request_id = request_id, br_prompt_tokens = tokens\<rparr> # rows))
        else take_prompts s ids available)))"

definition consider_prefill :: "scheduler \<Rightarrow> nat list \<Rightarrow> graph_entry \<Rightarrow> (nat \<times> batch_row list) option \<Rightarrow>
    (scheduler_error, (nat \<times> batch_row list) option) result" where
  "consider_prefill s eligible entry best =
     (let maximum_sequences = min (maximum_batch_sequences (sc_config s)) (ge_maximum_active_sequences entry);
          available = min (min (maximum_prefill_tokens (sc_config s)) (ge_maximum_prompt_tokens entry))
                        (ge_maximum_query_rows entry)
      in
      rbind (take_prompts s (take maximum_sequences eligible) available) (\<lambda>rows.
      rbind (sum_prompt_tokens rows) (\<lambda>query_rows.
        Inr (if query_rows \<noteq> 0
                \<and> (case best of None \<Rightarrow> True
                   | Some (best_query_rows, best_rows) \<Rightarrow>
                       (best_query_rows, length best_rows) < (query_rows, length rows))
             then Some (query_rows, rows) else best))))"

definition build_prefill_batch :: "scheduler \<Rightarrow> (scheduler_error, scheduled_batch \<times> scheduler) result" where
  "build_prefill_batch s =
     rbind (ordered_requests s WaitingPrefill None) (\<lambda>eligible.
     rbind (rfold (consider_prefill s eligible)
              (filter (\<lambda>entry. gk_mode (ge_key entry) = step_mode.Prefill) (gp_entries (sc_profile s))) None) (\<lambda>best.
     rbind (ok_or best UncapturedShape) (\<lambda>(_, rows).
       finalize_batch Prefill Greedy rows s)))"

function shrink_batch :: "batch_kind \<Rightarrow> sampling_collective \<Rightarrow> nat list \<Rightarrow> scheduler \<Rightarrow>
    (scheduler_error, scheduled_batch \<times> scheduler) result" where
  "shrink_batch kind sampling eligible s =
     (case finalize_batch kind sampling (map (\<lambda>id. \<lparr>br_request_id = id, br_prompt_tokens = 0\<rparr>) eligible) s of
        Inr r \<Rightarrow> Inr r
      | Inl Panic \<Rightarrow> Inl Panic
      | Inl (Err _) \<Rightarrow>
          if butlast eligible = [] then Inl (Err UncapturedShape)
          else shrink_batch kind sampling (butlast eligible) s)"
  by pat_completeness auto
termination
  by (relation "measure (\<lambda>(_, _, eligible, _). length eligible)") (auto simp: butlast_conv_take)

declare shrink_batch.simps [simp del]

definition build_decode_batch :: "scheduler \<Rightarrow> (scheduler_error, scheduled_batch \<times> scheduler) result" where
  "build_decode_batch s =
     rbind (ordered_requests s Decoding None) (\<lambda>ids.
     rbind (ok_or (case ids of [] \<Rightarrow> None | first # _ \<Rightarrow> Some first) NoRunnable) (\<lambda>first.
     rbind (expect (fmlookup (sc_requests s) first)) (\<lambda>first_request.
     rbind (effective_decode_depth s first_request) (\<lambda>depth.
     let sampling = rs_sampling (rt_spec first_request) in
     rbind (ordered_requests s Decoding (Some (depth, sampling))) (\<lambda>eligible.
       shrink_batch (if depth = 0 then Decode else Verify depth) sampling
         (take (maximum_batch_sequences (sc_config s)) eligible) s)))))"

definition next_batch :: "scheduler \<Rightarrow> (scheduler_error, scheduled_batch option) result \<times> scheduler" where
  "next_batch s =
     (if sc_inflight s \<noteq> None then (Inl (Err Inflight), s)
      else
        let s = apply_cancellations s;
            has_prefill = list_ex (\<lambda>(_, r). rt_state r = WaitingPrefill) (entries_of (sc_requests s));
            has_decode = list_ex (\<lambda>(_, r). rt_state r = Decoding) (entries_of (sc_requests s))
        in
        if \<not> has_prefill \<and> \<not> has_decode then (Inr None, s)
        else
          let choose_prefill = (has_prefill
                \<and> (\<not> has_decode \<or> sc_decode_burst s \<ge> maximum_decode_burst (sc_config s)))
          in case (if choose_prefill then build_prefill_batch s else build_decode_batch s) of
               Inl f \<Rightarrow> (Inl f, s)
             | Inr (batch, s') \<Rightarrow> (Inr (Some batch), s'\<lparr>sc_inflight := Some batch\<rparr>))"

section \<open>Completing a batch\<close>

definition place_completion :: "batch_row list \<Rightarrow> batch_completion \<Rightarrow> batch_completion option list \<Rightarrow>
    (scheduler_error, batch_completion option list) result" where
  "place_completion rows c by_row =
     rbind (ok_or (position (\<lambda>row. br_request_id row = bc_request_id c) rows) Commit) (\<lambda>row_index.
     rbind (expect (if row_index < length by_row then Some (by_row ! row_index) else None)) (\<lambda>prior.
     if prior \<noteq> None then Inl (Err Commit) else Inr (by_row[row_index := Some c])))"

definition complete_prefill_row :: "request \<Rightarrow> batch_row \<Rightarrow> (scheduler_error, completion_update \<times> nat) result" where
  "complete_prefill_row r row =
     (if rt_state r \<noteq> WaitingPrefill \<or> br_prompt_tokens row = 0 then Inl (Err Commit)
      else
        rbind (ok_or (checked_add 32 (rt_prompt_done r) (br_prompt_tokens row)) Overflow) (\<lambda>prompt_done.
        if prompt_done > rs_prompt_tokens (rt_spec r) then Inl (Err Commit)
        else Inr (\<lparr>cu_request_id = br_request_id row,
                 cu_state = (if prompt_done = rs_prompt_tokens (rt_spec r) then Decoding else WaitingPrefill),
                 cu_prompt_done = prompt_done, cu_generated = rt_generated r\<rparr>, br_prompt_tokens row)))"

definition complete_decode_row :: "nat \<Rightarrow> batch_completion option \<Rightarrow> request \<Rightarrow> batch_row \<Rightarrow>
    (scheduler_error, completion_update \<times> nat) result" where
  "complete_decode_row maximum_commit reported r row =
     (if rt_state r \<noteq> Decoding \<or> br_prompt_tokens row \<noteq> 0 then Inl (Err Commit)
      else
        let completion = (case reported of Some c \<Rightarrow> c
              | None \<Rightarrow> \<lparr>bc_request_id = br_request_id row, bc_committed_tokens = 1, bc_terminal = False\<rparr>)
        in
        rbind (ok_or (checked_sub (rs_maximum_new_tokens (rt_spec r)) (rt_generated r)) Commit) (\<lambda>remaining.
        if bc_committed_tokens completion = 0 \<or> bc_committed_tokens completion > maximum_commit
           \<or> bc_committed_tokens completion > remaining
        then Inl (Err Commit)
        else
          let commit = bc_committed_tokens completion in
          rbind (ok_or (checked_add 32 (rt_generated r) commit) Overflow) (\<lambda>generated.
            Inr (\<lparr>cu_request_id = br_request_id row,
                  cu_state = (if bc_terminal completion \<or> generated = rs_maximum_new_tokens (rt_spec r)
                              then Finished else Decoding),
                  cu_prompt_done = rt_prompt_done r, cu_generated = generated\<rparr>, commit))))"

definition complete_row :: "scheduler \<Rightarrow> batch_kind \<Rightarrow> bool \<Rightarrow> batch_completion option list \<Rightarrow> nat \<times> batch_row \<Rightarrow>
    completion_update list \<times> (nat \<times> nat) list \<Rightarrow>
    (scheduler_error, completion_update list \<times> (nat \<times> nat) list) result" where
  "complete_row s kind success by_row entry plan =
     (let (row_index, row) = entry; (updates, units) = plan in
      rbind (ok_or (fmlookup (sc_requests s) (br_request_id row)) UnknownRequest) (\<lambda>r.
      if \<not> success then
        Inr (updates @ [\<lparr>cu_request_id = br_request_id row, cu_state = Failed,
               cu_prompt_done = rt_prompt_done r, cu_generated = rt_generated r\<rparr>], units)
      else
        let tenant_id = rs_tenant (rt_spec r) in
        rbind (ok_or (fmlookup (sc_tenants s) tenant_id) Tenant) (\<lambda>tn.
        if map_of units tenant_id = None \<and> length units \<ge> MAXIMUM_BATCH_ROWS then Inl (Err Overflow)
        else
          let service_units = (case map_of units tenant_id of None \<Rightarrow> tn_service_units tn | Some u \<Rightarrow> u) in
          rbind (case kind of
              Prefill \<Rightarrow> complete_prefill_row r row
            | Decode \<Rightarrow> complete_decode_row 1 (by_row ! row_index) r row
            | Verify depth \<Rightarrow>
                rbind (expect (checked_add 8 depth 1)) (\<lambda>maximum_commit.
                complete_decode_row maximum_commit (by_row ! row_index) r row)) (\<lambda>(update, service_delta).
          rbind (ok_or (checked_add 64 service_units service_delta) Overflow) (\<lambda>total.
            Inr (updates @ [update], AList.update tenant_id total units))))))"

definition apply_update :: "completion_update \<Rightarrow> (nat, request) fmap \<Rightarrow> (scheduler_error, (nat, request) fmap) result" where
  "apply_update u requests =
     rbind (expect (fmlookup requests (cu_request_id u))) (\<lambda>r.
       Inr (fmupd (cu_request_id u)
         (r\<lparr>rt_state := cu_state u, rt_prompt_done := cu_prompt_done u, rt_generated := cu_generated u\<rparr>) requests))"

definition apply_service :: "nat \<times> nat \<Rightarrow> (nat, tenant) fmap \<Rightarrow> (scheduler_error, (nat, tenant) fmap) result" where
  "apply_service u tenants =
     (let (tenant_id, service_units) = u in
      rbind (expect (fmlookup tenants tenant_id)) (\<lambda>tn.
        Inr (fmupd tenant_id (tn\<lparr>tn_service_units := service_units\<rparr>) tenants)))"

definition complete_inner :: "bool \<Rightarrow> batch_completion list \<Rightarrow> bool \<Rightarrow> scheduler \<Rightarrow>
    (scheduler_error, scheduler \<times> unit) result" where
  "complete_inner success completions require_explicit s =
     rbind (ok_or (sc_inflight s) NoInflight) (\<lambda>inflight.
     let rows = sb_rows inflight; kind = sb_kind inflight in
     if length rows > MAXIMUM_BATCH_ROWS \<or> (\<not> success \<and> completions \<noteq> [])
        \<or> (kind = Prefill \<and> completions \<noteq> [])
        \<or> (completions \<noteq> [] \<and> length completions \<noteq> length rows)
        \<or> (require_explicit \<and> success \<and> kind \<noteq> Prefill \<and> length completions \<noteq> length rows)
        \<or> \<not> distinct (map br_request_id rows)
     then Inl (Err Commit)
     else
       rbind (rfold (place_completion rows) completions (replicate MAXIMUM_BATCH_ROWS None)) (\<lambda>by_row.
       rbind (rfold (complete_row s kind success by_row) (enumerate 0 rows) ([], [])) (\<lambda>(updates, units).
       rbind (rfold apply_update updates (sc_requests s)) (\<lambda>requests.
       rbind (rfold apply_service units (sc_tenants s)) (\<lambda>tenants.
         Inr (s\<lparr>sc_inflight := None, sc_requests := requests, sc_tenants := tenants,
                sc_decode_burst := (case kind of Prefill \<Rightarrow> 0
                  | _ \<Rightarrow> saturating_add 16 (sc_decode_burst s) 1)\<rparr>, ()))))))"

definition complete_batch_internal :: "bool \<Rightarrow> batch_completion list \<Rightarrow> bool \<Rightarrow> scheduler \<Rightarrow>
    (scheduler_error, unit) result \<times> scheduler" where
  "complete_batch_internal success completions require_explicit =
     transact (complete_inner success completions require_explicit)"

definition complete_batch_with_commits :: "bool \<Rightarrow> (nat \<times> nat) list \<Rightarrow> scheduler \<Rightarrow>
    (scheduler_error, unit) result \<times> scheduler" where
  "complete_batch_with_commits success commits =
     complete_batch_internal success (map (\<lambda>(request_id, committed_tokens).
       \<lparr>bc_request_id = request_id, bc_committed_tokens = committed_tokens, bc_terminal = False\<rparr>) commits) False"

definition complete_batch :: "bool \<Rightarrow> scheduler \<Rightarrow> (scheduler_error, unit) result \<times> scheduler" where
  "complete_batch success = complete_batch_with_commits success []"

definition complete_batch_with_results :: "bool \<Rightarrow> batch_completion list \<Rightarrow> scheduler \<Rightarrow>
    (scheduler_error, unit) result \<times> scheduler" where
  "complete_batch_with_results success completions = complete_batch_internal success completions True"

section \<open>Views\<close>

definition request_state_of :: "scheduler \<Rightarrow> nat \<Rightarrow> request_state option" where
  "request_state_of s request_id = map_option rt_state (fmlookup (sc_requests s) request_id)"

definition request_progress_of :: "scheduler \<Rightarrow> nat \<Rightarrow> request_progress option" where
  "request_progress_of s request_id = map_option (\<lambda>r.
     \<lparr>rg_state = rt_state r, rg_prompt_tokens = rs_prompt_tokens (rt_spec r), rg_prompt_done = rt_prompt_done r,
      rg_maximum_new_tokens = rs_maximum_new_tokens (rt_spec r), rg_generated = rt_generated r,
      rg_mtp_depth = rs_mtp_depth (rt_spec r)\<rparr>) (fmlookup (sc_requests s) request_id)"

definition request_ids :: "scheduler \<Rightarrow> nat list" where
  "request_ids s = keys_of (sc_requests s)"

definition graph_entry_of :: "scheduler \<Rightarrow> nat \<Rightarrow> graph_entry option" where
  "graph_entry_of s graph_id = find (\<lambda>entry. ge_graph_id entry = graph_id) (gp_entries (sc_profile s))"

end
