(* ===== verification/Scheduler_Inv.thy ===== *)
theory Scheduler_Inv
  imports Scheduler
begin

text \<open>
  The invariant of the scheduler and what each operation does under it: requests are in the state
  their progress says, tenants stay within their limits, and a batch in flight is one that the
  completion accepts. A runnable scheduler always finds a batch.
\<close>

section \<open>The invariant\<close>

definition spec_typed :: "request_spec \<Rightarrow> bool" where
  "spec_typed spec \<longleftrightarrow> rs_prompt_tokens spec < 2 ^ 32 \<and> rs_maximum_new_tokens spec < 2 ^ 32"

definition request_ok :: "scheduler \<Rightarrow> nat \<Rightarrow> request \<Rightarrow> bool" where
  "request_ok s i r \<longleftrightarrow> i \<noteq> 0 \<and> rs_id (rt_spec r) = i \<and> spec_typed (rt_spec r)
     \<and> fmlookup (sc_tenants s) (rs_tenant (rt_spec r)) \<noteq> None
     \<and> 0 < rs_maximum_new_tokens (rt_spec r) \<and> rs_mtp_depth (rt_spec r) \<le> 6 \<and> has_graph_for_request s (rt_spec r)
     \<and> rt_prompt_done r \<le> rs_prompt_tokens (rt_spec r) \<and> rt_generated r \<le> rs_maximum_new_tokens (rt_spec r)
     \<and> (rt_state r = WaitingPrefill \<longrightarrow> rt_prompt_done r < rs_prompt_tokens (rt_spec r) \<and> rt_generated r = 0)
     \<and> (rt_state r = Decoding \<longrightarrow> rt_prompt_done r = rs_prompt_tokens (rt_spec r)
          \<and> rt_generated r < rs_maximum_new_tokens (rt_spec r))
     \<and> (rt_state r = Finished \<longrightarrow> 0 < rt_generated r)"

definition row_ok :: "batch_kind \<Rightarrow> (nat, request) fmap \<Rightarrow> batch_row \<Rightarrow> bool" where
  "row_ok kind rs row \<longleftrightarrow> (\<exists>r. fmlookup rs (br_request_id row) = Some r
     \<and> (case kind of
          Prefill \<Rightarrow> rt_state r = WaitingPrefill \<and> 0 < br_prompt_tokens row
            \<and> rt_prompt_done r + br_prompt_tokens row \<le> rs_prompt_tokens (rt_spec r)
        | Decode \<Rightarrow> rt_state r = Decoding \<and> br_prompt_tokens row = 0
        | Verify depth \<Rightarrow> rt_state r = Decoding \<and> br_prompt_tokens row = 0 \<and> 0 < depth \<and> depth \<le> 6
            \<and> rt_generated r + depth < rs_maximum_new_tokens (rt_spec r)))"

definition batch_mode :: "batch_kind \<Rightarrow> step_mode \<times> nat" where
  "batch_mode kind = (case kind of Prefill \<Rightarrow> (step_mode.Prefill, 0) | Decode \<Rightarrow> (step_mode.Decode, 0)
     | Verify depth \<Rightarrow> (step_mode.Verify, depth))"

definition batch_rows :: "batch_kind \<Rightarrow> batch_row list \<Rightarrow> nat" where
  "batch_rows kind rows = (case kind of Prefill \<Rightarrow> sum_list (map br_prompt_tokens rows)
     | Decode \<Rightarrow> length rows | Verify depth \<Rightarrow> length rows * (depth + 1))"

definition fits :: "graph_entry \<Rightarrow> batch_kind \<Rightarrow> batch_row list \<Rightarrow> bool" where
  "fits e kind rows \<longleftrightarrow> (gk_mode (ge_key e), gk_mtp_depth (ge_key e)) = batch_mode kind
     \<and> length rows \<le> ge_maximum_active_sequences e \<and> batch_rows kind rows \<le> ge_maximum_query_rows e
     \<and> (kind = Prefill \<longrightarrow> batch_rows kind rows \<le> ge_maximum_prompt_tokens e)"

definition batch_ok :: "scheduler \<Rightarrow> scheduled_batch \<Rightarrow> bool" where
  "batch_ok s b \<longleftrightarrow> sb_rows b \<noteq> [] \<and> length (sb_rows b) \<le> maximum_batch_sequences (sc_config s)
     \<and> distinct (map br_request_id (sb_rows b)) \<and> (\<forall>row\<in>set (sb_rows b). row_ok (sb_kind b) (sc_requests s) row)
     \<and> sb_query_rows b = batch_rows (sb_kind b) (sb_rows b) \<and> sb_query_rows b < 2 ^ 32 \<and> sb_step_id b < sc_next_step_id s
     \<and> (\<exists>e\<in>set (gp_entries (sc_profile s)). ge_graph_id e = sb_graph_id b \<and> fits e (sb_kind b) (sb_rows b))
     \<and> (sb_kind b = Prefill \<longrightarrow> sb_sampling b = Greedy)"

definition statics_ok :: "scheduler \<Rightarrow> bool" where
  "statics_ok s \<longleftrightarrow> (\<forall>e\<in>set (gp_entries (sc_profile s)). entry_ok e)
     \<and> distinct (map ge_graph_id (gp_entries (sc_profile s)))
     \<and> 0 < maximum_batch_sequences (sc_config s) \<and> maximum_batch_sequences (sc_config s) \<le> 64
     \<and> 0 < maximum_prefill_tokens (sc_config s) \<and> 0 < maximum_decode_burst (sc_config s)"

definition tenants_ok :: "scheduler \<Rightarrow> bool" where
  "tenants_ok s \<longleftrightarrow> (\<forall>t tn. fmlookup (sc_tenants s) t = Some tn \<longrightarrow> 0 < tc_weight (tn_config tn)
     \<and> tn_service_units tn < 2 ^ 64 \<and> active_requests s t \<le> tc_maximum_active_requests (tn_config tn))"

definition sched_inv :: "scheduler \<Rightarrow> bool" where
  "sched_inv s \<longleftrightarrow> statics_ok s \<and> tenants_ok s
     \<and> (\<forall>i r. fmlookup (sc_requests s) i = Some r \<longrightarrow> request_ok s i r)
     \<and> finite (sc_cancellations s) \<and> sc_cancellations s \<subseteq> fmdom' (sc_requests s)
     \<and> 0 < sc_next_step_id s \<and> sc_next_step_id s < 2 ^ 64 \<and> sc_decode_burst s < 2 ^ 16
     \<and> (\<forall>b. sc_inflight s = Some b \<longrightarrow> batch_ok s b)"

lemma sched_invD:
  assumes "sched_inv s"
  shows "statics_ok s" and "tenants_ok s" and "fmlookup (sc_requests s) i = Some r \<Longrightarrow> request_ok s i r"
    and "sc_inflight s = Some b \<Longrightarrow> batch_ok s b"
  using assms by (auto simp: sched_inv_def)

section \<open>Active requests\<close>

definition active_set :: "(nat, request) fmap \<Rightarrow> nat \<Rightarrow> nat set" where
  "active_set rs t = {i. \<exists>r. fmlookup rs i = Some r \<and> rs_tenant (rt_spec r) = t \<and> \<not> terminal_state (rt_state r)}"

lemma finite_active_set: "finite (active_set rs t)"
proof (rule finite_subset)
  show "active_set rs t \<subseteq> fmdom' rs" by (auto simp: active_set_def intro: fmdom'I)
qed simp

lemma active_requests_card: "active_requests s t = card (active_set (sc_requests s) t)"
proof -
  let ?P = "\<lambda>(i, r). rs_tenant (rt_spec r) = t \<and> \<not> terminal_state (rt_state r)"
  let ?xs = "filter ?P (entries_of (sc_requests s))"
  have "sorted_wrt (\<lambda>x y. fst x < fst y) (entries_of (sc_requests s))"
    using strict_sorted_keys [of "sc_requests s"] by (simp add: sorted_wrt_map flip: map_fst_entries_of)
  then have "sorted_wrt (<) (map fst ?xs)" by (simp add: sorted_wrt_map sorted_wrt_filter)
  then have "distinct (map fst ?xs)" by (simp add: strict_sorted_iff)
  moreover have "set (map fst ?xs) = active_set (sc_requests s) t"
    by (force simp: active_set_def)
  ultimately show ?thesis
    unfolding active_requests_def by (metis (no_types) distinct_card length_map)
qed

lemma active_set_mono:
  assumes "\<And>i r'. fmlookup rs' i = Some r' \<Longrightarrow> \<not> terminal_state (rt_state r') \<Longrightarrow>
      \<exists>r. fmlookup rs i = Some r \<and> rt_spec r = rt_spec r' \<and> \<not> terminal_state (rt_state r)"
  shows "card (active_set rs' t) \<le> card (active_set rs t)"
  by (rule card_mono [OF finite_active_set]) (use assms in \<open>fastforce simp: active_set_def\<close>)

section \<open>Construction, admission and cancellation\<close>

lemma request_ok_frame:
  assumes "sc_profile s' = sc_profile s"
    and "\<And>t. fmlookup (sc_tenants s) t \<noteq> None \<Longrightarrow> fmlookup (sc_tenants s') t \<noteq> None" and "request_ok s i r"
  shows "request_ok s' i r"
  using assms by (simp add: request_ok_def has_graph_for_request_def)

lemma insert_tenant_ok:
  assumes "rfold insert_tenant cs m = Inr m'" and "\<forall>t tn. fmlookup m t = Some tn \<longrightarrow> 0 < tc_weight (tn_config tn) \<and> tn_service_units tn = 0"
  shows "\<forall>t tn. fmlookup m' t = Some tn \<longrightarrow> 0 < tc_weight (tn_config tn) \<and> tn_service_units tn = 0"
  using assms by (rule rfold_invariant) (auto simp: insert_tenant_def split: if_splits)

lemma new_scheduler_inv:
  assumes "new_scheduler sha c p ts = Inr s"
  shows "sched_inv s" and "sc_inflight s = None" and "sc_requests s = fmempty"
proof -
  obtain tenants where verified: "verify_profile sha p = Inr ()" and tenants: "rfold insert_tenant ts fmempty = Inr tenants"
    and cfg: "maximum_batch_sequences c \<noteq> 0" "maximum_batch_sequences c \<le> 64" "maximum_prefill_tokens c \<noteq> 0" "maximum_decode_burst c \<noteq> 0"
    and s: "s = \<lparr>sc_config = c, sc_profile = p, sc_tenants = tenants, sc_requests = fmempty,
              sc_cancellations = {}, sc_inflight = None, sc_next_step_id = 1, sc_decode_burst = 0\<rparr>"
    using assms by (auto simp: new_scheduler_def result_simps split: if_splits)
  have "\<forall>t tn. fmlookup tenants t = Some tn \<longrightarrow> 0 < tc_weight (tn_config tn) \<and> tn_service_units tn = 0"
    by (rule insert_tenant_ok [OF tenants]) simp
  then have "tenants_ok s" by (auto simp: tenants_ok_def s active_requests_card active_set_def)
  then show "sched_inv s" using verified_entries [OF verified] cfg by (simp add: sched_inv_def statics_ok_def s)
  show "sc_inflight s = None" "sc_requests s = fmempty" using s by simp_all
qed

lemma batch_ok_frame:
  assumes "batch_ok s b" and "sc_config s' = sc_config s" and "sc_profile s' = sc_profile s"
    and "sc_next_step_id s \<le> sc_next_step_id s'"
    and "\<And>i r. fmlookup (sc_requests s) i = Some r \<Longrightarrow> fmlookup (sc_requests s') i = Some r"
  shows "batch_ok s' b"
  using assms(1-4) assms(5) unfolding batch_ok_def row_ok_def by fastforce

lemma admit_request_ok:
  assumes inv: "sched_inv s" and "spec_typed spec"
  shows "returns {Err Request, Err Tenant, Err TenantLimit, Err UncapturedShape}
     (\<lambda>(s', _). sched_inv s' \<and> sc_inflight s' = sc_inflight s
        \<and> (\<exists>r. sc_requests s' = fmupd (rs_id spec) r (sc_requests s) \<and> rt_spec r = spec \<and> rt_prompt_done r = cached
             \<and> rt_generated r = 0 \<and> \<not> terminal_state (rt_state r)))
     (admit_inner spec cached s)"
proof (cases "admit_inner spec cached s")
  case (Inl f)
  then show ?thesis by (auto simp: admit_inner_def result_simps split: if_splits)
next
  case (Inr x)
  let ?r = "\<lparr>rt_spec = spec, rt_state = (if cached = rs_prompt_tokens spec then Decoding else WaitingPrefill),
      rt_prompt_done = cached, rt_generated = 0\<rparr>"
  let ?s = "s\<lparr>sc_requests := fmupd (rs_id spec) ?r (sc_requests s)\<rparr>"
  obtain tn where x: "x = (?s, ())" and new: "fmlookup (sc_requests s) (rs_id spec) = None"
    and tn: "fmlookup (sc_tenants s) (rs_tenant spec) = Some tn"
    and lim: "active_requests s (rs_tenant spec) < tc_maximum_active_requests (tn_config tn)"
    and ok: "rs_id spec \<noteq> 0" "rs_mtp_depth spec \<le> 6" "cached \<le> rs_prompt_tokens spec" "rs_maximum_new_tokens spec \<noteq> 0"
      "has_graph_for_request s spec"
    using Inr by (auto simp: admit_inner_def result_simps split: if_splits)
  have act: "active_set (sc_requests ?s) t = (if t = rs_tenant spec then insert (rs_id spec) (active_set (sc_requests s) t)
      else active_set (sc_requests s) t)" for t
    using new by (auto simp: active_set_def terminal_state_def)
  have "rs_id spec \<notin> active_set (sc_requests s) (rs_tenant spec)" using new by (simp add: active_set_def)
  then have "card (active_set (sc_requests ?s) (rs_tenant spec)) = Suc (card (active_set (sc_requests s) (rs_tenant spec)))"
    unfolding act by (simp add: finite_active_set)
  then have "tenants_ok ?s"
    using sched_invD(2) [OF inv] lim tn act by (auto simp: tenants_ok_def active_requests_card)
  moreover have "request_ok ?s i q" if "fmlookup (sc_requests ?s) i = Some q" for i q
  proof (cases "i = rs_id spec")
    case True
    then have "q = ?r" using that by simp
    then show ?thesis using True ok tn assms(2) by (auto simp: request_ok_def has_graph_for_request_def)
  next
    case False
    then have "fmlookup (sc_requests s) i = Some q" using that by simp
    then show ?thesis by (intro request_ok_frame [OF _ _ sched_invD(3) [OF inv]]) simp_all
  qed
  moreover have "batch_ok ?s b" if "sc_inflight ?s = Some b" for b
    using that new by (intro batch_ok_frame [OF sched_invD(4) [OF inv]]) auto
  ultimately have "sched_inv ?s" using inv by (auto simp: sched_inv_def statics_ok_def)
  then show ?thesis using Inr x by (auto simp: terminal_state_def intro!: exI [of _ ?r])
qed

lemma cancel_inner_ok:
  assumes "sched_inv s"
  shows "returns {Err UnknownRequest} (\<lambda>(s', _). sched_inv s' \<and> sc_requests s' = sc_requests s) (cancel_inner i s)"
proof -
  have "sched_inv (s\<lparr>sc_cancellations := insert i (sc_cancellations s)\<rparr>)" if "fmlookup (sc_requests s) i = Some r" for r
    using assms that unfolding sched_inv_def statics_ok_def tenants_ok_def request_ok_def batch_ok_def active_requests_def
      has_graph_for_request_def by (auto intro: fmdom'I)
  then show ?thesis using assms by (auto simp: cancel_inner_def split: option.splits intro!: returns_rbind returns_ok_or)
qed

definition cancelled :: "request \<Rightarrow> request" where
  "cancelled r = (if rt_state r \<notin> {Finished, Failed} then r\<lparr>rt_state := Cancelled\<rparr> else r)"

lemma cancelled_twice [simp]: "cancelled (cancelled r) = cancelled r"
  by (simp add: cancelled_def)

lemma cancel_request_lookup:
  "fmlookup (cancel_request j rs) i = (if i = j then map_option cancelled (fmlookup rs i) else fmlookup rs i)"
  by (cases "fmlookup rs j") (auto simp: cancel_request_def cancelled_def)

lemma fold_cancel_lookup:
  "fmlookup (fold cancel_request ids rs) i = (if i \<in> set ids then map_option cancelled (fmlookup rs i) else fmlookup rs i)"
  by (induction ids arbitrary: rs) (auto simp: cancel_request_lookup option.map_comp comp_def)

lemma apply_cancellations_lookup:
  assumes "sched_inv s"
  shows "fmlookup (sc_requests (apply_cancellations s)) i =
    (if i \<in> sc_cancellations s then map_option cancelled (fmlookup (sc_requests s) i) else fmlookup (sc_requests s) i)"
  using assms by (simp add: apply_cancellations_def fold_cancel_lookup sched_inv_def)

lemma apply_cancellations_inv:
  assumes inv: "sched_inv s" and "sc_inflight s = None"
  shows "sched_inv (apply_cancellations s)" and "sc_inflight (apply_cancellations s) = None"
proof -
  let ?s = "apply_cancellations s"
  have same: "sc_tenants ?s = sc_tenants s" "sc_profile ?s = sc_profile s" "sc_config ?s = sc_config s"
    "sc_next_step_id ?s = sc_next_step_id s" "sc_decode_burst ?s = sc_decode_burst s" "sc_cancellations ?s = {}"
    by (simp_all add: apply_cancellations_def)
  show infl: "sc_inflight ?s = None" using assms(2) by (simp add: apply_cancellations_def)
  have req: "request_ok ?s i q" if "fmlookup (sc_requests ?s) i = Some q" for i q
  proof -
    obtain r where r: "fmlookup (sc_requests s) i = Some r" "q = r \<or> q = r\<lparr>rt_state := Cancelled\<rparr>"
      using \<open>fmlookup (sc_requests ?s) i = Some q\<close> unfolding apply_cancellations_lookup [OF inv]
      by (auto simp: cancelled_def split: if_splits)
    have "request_ok ?s i r" by (rule request_ok_frame [OF _ _ sched_invD(3) [OF inv r(1)]]) (simp_all add: same)
    then show ?thesis using r(2) by (auto simp: request_ok_def)
  qed
  have "card (active_set (sc_requests ?s) t) \<le> card (active_set (sc_requests s) t)" for t
    by (rule active_set_mono) (auto simp: apply_cancellations_lookup [OF inv] cancelled_def terminal_state_def split: if_splits)
  then have "tenants_ok ?s"
    using sched_invD(2) [OF inv] unfolding tenants_ok_def active_requests_card same by (meson order_trans)
  then show "sched_inv ?s" using inv req infl by (simp add: sched_inv_def same statics_ok_def)
qed


section \<open>The order of requests\<close>

lemma cross_trans:
  fixes a b c x y z :: nat
  assumes "a * y \<le> b * x" and "b * z \<le> c * y" and "0 < y"
  shows "a * z \<le> c * x"
proof -
  have "a * z * y \<le> b * x * z" using mult_le_mono1 [OF assms(1), of z] by (simp add: ac_simps)
  also have "\<dots> \<le> c * y * x" using mult_le_mono1 [OF assms(2), of x] by (simp add: ac_simps)
  finally have "a * z * y \<le> c * x * y" by (simp add: ac_simps)
  then show ?thesis using assms(3) by simp
qed

definition tenant_of :: "scheduler \<Rightarrow> nat \<Rightarrow> tenant" where
  "tenant_of s i = the (fmlookup (sc_tenants s) (rs_tenant (rt_spec (the (fmlookup (sc_requests s) i)))))"

definition cheaper :: "scheduler \<Rightarrow> nat \<Rightarrow> nat \<Rightarrow> bool" where
  "cheaper s i j \<longleftrightarrow> tn_service_units (tenant_of s i) * tc_weight (tn_config (tenant_of s j))
     \<le> tn_service_units (tenant_of s j) * tc_weight (tn_config (tenant_of s i))"

lemma request_le_cheaper: "request_le s i j \<Longrightarrow> cheaper s i j"
  by (auto simp: request_le_def cheaper_def tenant_of_def Let_def less_eq_prod_simp)

lemma request_le_iff:
  "request_le s i j \<longleftrightarrow> cheaper s i j \<and> (cheaper s j i \<longrightarrow>
     (rs_tenant (rt_spec (the (fmlookup (sc_requests s) i))), i) \<le> (rs_tenant (rt_spec (the (fmlookup (sc_requests s) j))), j))"
  by (auto simp: request_le_def cheaper_def tenant_of_def Let_def less_eq_prod_simp)

lemma cheaper_total: "cheaper s i j \<or> cheaper s j i"
  by (auto simp: cheaper_def)

lemma cheaper_trans: "cheaper s i j \<Longrightarrow> cheaper s j k \<Longrightarrow> 0 < tc_weight (tn_config (tenant_of s j)) \<Longrightarrow> cheaper s i k"
  unfolding cheaper_def by (rule cross_trans)

lemma tenant_weight:
  assumes "sched_inv s" and "fmlookup (sc_requests s) i = Some r"
  shows "0 < tc_weight (tn_config (tenant_of s i))"
  using sched_invD(3) [OF assms] sched_invD(2) [OF assms(1)] assms(2)
  by (auto simp: tenant_of_def request_ok_def tenants_ok_def)

lemma ordered_requests_eq:
  assumes inv: "sched_inv s"
  obtains ids where "ordered_requests s st cl = Inr ids" "distinct ids" "sorted_wrt (request_le s) ids"
    "set ids = {i. \<exists>r. fmlookup (sc_requests s) i = Some r \<and> rt_state r = st
       \<and> (case cl of None \<Rightarrow> True | Some (d, sm) \<Rightarrow> effective_decode_depth s r = Inr d \<and> rs_sampling (rt_spec r) = sm)}"
proof -
  let ?P = "\<lambda>(i, r). rt_state r = st
       \<and> (case cl of None \<Rightarrow> True | Some (d, sm) \<Rightarrow> effective_decode_depth s r = Inr d \<and> rs_sampling (rt_spec r) = sm)"
  let ?xs = "filter ?P (entries_of (sc_requests s))" and ?Q = "{i. \<exists>r. fmlookup (sc_requests s) i = Some r \<and> rt_state r = st
       \<and> (case cl of None \<Rightarrow> True | Some (d, sm) \<Rightarrow> effective_decode_depth s r = Inr d \<and> rs_sampling (rt_spec r) = sm)}"
  have key: "rs_id (rt_spec r) = i \<and> indexed s i" if "fmlookup (sc_requests s) i = Some r" for i r
    using sched_invD(3) [OF inv that] that by (simp add: request_ok_def indexed_def)
  have ids: "map (\<lambda>(_, r). rs_id (rt_spec r)) ?xs = map fst ?xs" using key by auto
  have "sorted_wrt (\<lambda>x y. fst x < fst y) (entries_of (sc_requests s))"
    using strict_sorted_keys [of "sc_requests s"] by (simp add: sorted_wrt_map flip: map_fst_entries_of)
  then have "sorted_wrt (<) (map fst ?xs)" by (simp add: sorted_wrt_map sorted_wrt_filter)
  then have dist: "distinct (map fst ?xs)" by (simp add: strict_sorted_iff)
  have set: "set (map fst ?xs) = ?Q" by force
  have "list_all (indexed s) (map fst ?xs)" unfolding list_all_iff set using key by blast
  then have "ordered_requests s st cl = Inr (sort_by (request_le s) (map fst ?xs))"
    unfolding ordered_requests_def Let_def ids by simp
  moreover have "sorted_wrt (request_le s) (sort_by (request_le s) (map fst ?xs))"
  proof (rule sorted_sort_by)
    show "request_le s a b \<or> request_le s b a" for a b
      unfolding request_le_iff using cheaper_total [of s a b] linear by blast
    fix a b c assume mem: "a \<in> set (map fst ?xs)" "b \<in> set (map fst ?xs)" "c \<in> set (map fst ?xs)"
      and le: "request_le s a b" "request_le s b c"
    have w: "0 < tc_weight (tn_config (tenant_of s a))" "0 < tc_weight (tn_config (tenant_of s b))"
      "0 < tc_weight (tn_config (tenant_of s c))"
      using mem tenant_weight [OF inv] unfolding set by blast+
    have ac: "cheaper s a c" using cheaper_trans [OF _ _ w(2)] le request_le_cheaper by blast
    have "cheaper s b a \<and> cheaper s c b" if "cheaper s c a"
      using cheaper_trans [OF _ that w(3)] cheaper_trans [OF that _ w(1)] le request_le_cheaper by blast
    then show "request_le s a c"
      using ac le unfolding request_le_iff by (meson order_trans)
  qed
  ultimately show ?thesis using that [of "sort_by (request_le s) (map fst ?xs)"] dist set by simp
qed

section \<open>Batches\<close>

lemma best_graph_ok:
  assumes "e \<in> set (gp_entries (sc_profile s))" and "fits e kind rows" and "batch_rows kind rows = q"
  shows "\<exists>g. best_graph s kind (length rows) q = Some g"
proof -
  have "best_graph s kind (length rows) q \<noteq> None"
    using assms by (cases kind) (auto simp: best_graph_def min_by_key_None filter_empty_conv fits_def batch_mode_def)
  then show ?thesis by blast
qed

lemma best_graph_fits:
  assumes "best_graph s kind (length rows) (batch_rows kind rows) = Some g"
  shows "g \<in> set (gp_entries (sc_profile s))" and "fits g kind rows"
  using assms by (cases kind; auto simp: best_graph_def fits_def batch_mode_def dest!: min_by_key_Some)+

lemma sum_prompt_tokens_eq:
  assumes "sum_list (map br_prompt_tokens rows) < 2 ^ 32"
  shows "sum_prompt_tokens rows = Inr (sum_list (map br_prompt_tokens rows))"
proof -
  have "rfold (\<lambda>row total. ok_or (checked_add 32 total (br_prompt_tokens row)) Overflow) rows n =
      Inr (n + sum_list (map br_prompt_tokens rows))" if "n + sum_list (map br_prompt_tokens rows) < 2 ^ 32" for n
    using that by (induction rows arbitrary: n) (auto simp: checked_add_def)
  from this [of 0] assms show ?thesis by (simp add: sum_prompt_tokens_def)
qed

lemma finalize_batch_cases:
  assumes "rows \<noteq> []" and "length rows \<le> 64" and "batch_rows kind rows < 2 ^ 32"
  shows "finalize_batch kind sm rows s = (case best_graph s kind (length rows) (batch_rows kind rows) of
      None \<Rightarrow> Inl (Err UncapturedShape)
    | Some g \<Rightarrow> if sc_next_step_id s + 1 < 2 ^ 64
        then Inr (\<lparr>sb_step_id = sc_next_step_id s, sb_kind = kind, sb_graph_id = ge_graph_id g, sb_rows = rows,
               sb_query_rows = batch_rows kind rows, sb_sampling = sm\<rparr>, s\<lparr>sc_next_step_id := sc_next_step_id s + 1\<rparr>)
        else Inl (Err Overflow))"
  using assms
  by (cases kind; cases "best_graph s kind (length rows) (batch_rows kind rows)")
    (auto simp: finalize_batch_def try_uint_def checked_add_def checked_mul_def batch_rows_def sum_prompt_tokens_eq)


subsection \<open>Prefill\<close>

definition waiting :: "scheduler \<Rightarrow> nat \<Rightarrow> bool" where
  "waiting s i \<longleftrightarrow> (\<exists>r. fmlookup (sc_requests s) i = Some r \<and> rt_state r = WaitingPrefill
     \<and> rt_prompt_done r < rs_prompt_tokens (rt_spec r))"

definition prompts_ok :: "scheduler \<Rightarrow> nat list \<Rightarrow> nat \<Rightarrow> batch_row list \<Rightarrow> bool" where
  "prompts_ok s ids available rows \<longleftrightarrow> set (map br_request_id rows) \<subseteq> set ids \<and> length rows \<le> length ids
     \<and> distinct (map br_request_id rows) \<and> (\<forall>row\<in>set rows. row_ok Prefill (sc_requests s) row)
     \<and> sum_list (map br_prompt_tokens rows) \<le> available
     \<and> (ids \<noteq> [] \<longrightarrow> 0 < available \<longrightarrow> rows \<noteq> [] \<and> br_request_id (hd rows) = hd ids)"

lemma take_prompts_ok:
  "distinct ids \<Longrightarrow> \<forall>i\<in>set ids. waiting s i \<Longrightarrow> \<exists>rows. take_prompts s ids available = Inr rows \<and> prompts_ok s ids available rows"
proof (induction ids arbitrary: available)
  case (Cons i ids)
  obtain r where r: "fmlookup (sc_requests s) i = Some r" "rt_state r = WaitingPrefill"
    "rt_prompt_done r < rs_prompt_tokens (rt_spec r)" using Cons.prems(2) by (auto simp: waiting_def)
  let ?rem = "rs_prompt_tokens (rt_spec r) - rt_prompt_done r"
  let ?tok = "min ?rem available"
  obtain rows where rows: "take_prompts s ids (available - ?tok) = Inr rows" "prompts_ok s ids (available - ?tok) rows"
    using Cons.IH [of "available - ?tok"] Cons.prems by auto
  let ?row = "\<lparr>br_request_id = i, br_prompt_tokens = ?tok\<rparr>"
  show ?case
  proof (cases "available = 0")
    case False
    then have "0 < ?tok" using r(3) by simp
    then have "take_prompts s (i # ids) available = Inr (?row # rows)"
      using False r rows(1) by (simp add: checked_sub_def Let_def)
    moreover have "row_ok Prefill (sc_requests s) ?row" using r \<open>0 < ?tok\<close> by (auto simp: row_ok_def)
    moreover have "i \<notin> set (map br_request_id rows)" using rows(2) Cons.prems(1) by (auto simp: prompts_ok_def)
    ultimately show ?thesis using rows(2) by (auto simp: prompts_ok_def)
  qed (simp add: prompts_ok_def)
qed (simp add: prompts_ok_def)

definition prefill_ok :: "scheduler \<Rightarrow> nat list \<Rightarrow> nat \<times> batch_row list \<Rightarrow> bool" where
  "prefill_ok s eligible x \<longleftrightarrow> (case x of (q, rows) \<Rightarrow> rows \<noteq> [] \<and> length rows \<le> maximum_batch_sequences (sc_config s)
     \<and> distinct (map br_request_id rows) \<and> (\<forall>row\<in>set rows. row_ok Prefill (sc_requests s) row)
     \<and> q = batch_rows Prefill rows \<and> q < 2 ^ 32 \<and> q \<le> maximum_prefill_tokens (sc_config s)
     \<and> br_request_id (hd rows) = hd eligible
     \<and> (\<exists>e\<in>set (gp_entries (sc_profile s)). fits e Prefill rows))"

text \<open>The limits of the configuration and of the entries are 32-bit numbers.\<close>

definition widths_ok :: "scheduler \<Rightarrow> bool" where
  "widths_ok s \<longleftrightarrow> maximum_prefill_tokens (sc_config s) < 2 ^ 32"

lemma consider_prefill_ok:
  assumes inv: "sched_inv s" and e: "e \<in> set (gp_entries (sc_profile s))" "gk_mode (ge_key e) = step_mode.Prefill"
    and el: "distinct eligible" "eligible \<noteq> []" "\<forall>i\<in>set eligible. waiting s i" and w: "widths_ok s"
    and best: "case best of None \<Rightarrow> True | Some x \<Rightarrow> prefill_ok s eligible x"
  shows "\<exists>x. consider_prefill s eligible e best = Inr (Some x) \<and> prefill_ok s eligible x"
proof -
  let ?n = "min (maximum_batch_sequences (sc_config s)) (ge_maximum_active_sequences e)"
  let ?a = "min (min (maximum_prefill_tokens (sc_config s)) (ge_maximum_prompt_tokens e)) (ge_maximum_query_rows e)"
  have eok: "entry_ok e" using sched_invD(1) [OF inv] e(1) by (simp add: statics_ok_def)
  have n: "0 < ?n" and a: "0 < ?a" "?a < 2 ^ 32"
    using sched_invD(1) [OF inv] entry_okD(2,4,5) [OF eok] e(2) w by (simp_all add: statics_ok_def widths_ok_def)
  obtain rows where rows: "take_prompts s (take ?n eligible) ?a = Inr rows" "prompts_ok s (take ?n eligible) ?a rows"
    using take_prompts_ok [of "take ?n eligible" s ?a] el(1,3) by (auto dest: in_set_takeD)
  let ?q = "sum_list (map br_prompt_tokens rows)"
  have ne: "take ?n eligible \<noteq> []" "hd (take ?n eligible) = hd eligible" using el(2) n by (simp_all add: hd_take)
  then have hd: "rows \<noteq> []" "br_request_id (hd rows) = hd eligible" using rows(2) a(1) by (simp_all add: prompts_ok_def)
  have "row_ok Prefill (sc_requests s) (hd rows)" using rows(2) hd(1) by (simp add: prompts_ok_def)
  then have "0 < br_prompt_tokens (hd rows)" by (auto simp: row_ok_def)
  then have q: "0 < ?q" using hd(1) by (cases rows) auto
  have qa: "?q \<le> ?a" using rows(2) by (simp add: prompts_ok_def)
  then have small: "?q < 2 ^ 32" using a(2) by (rule le_less_trans)
  then have sum: "sum_prompt_tokens rows = Inr ?q" by (rule sum_prompt_tokens_eq)
  have "length rows \<le> ?n" using rows(2) by (simp add: prompts_ok_def)
  then have "fits e Prefill rows" "length rows \<le> maximum_batch_sequences (sc_config s)"
    using qa e(2) entry_okD(5) [OF eok] by (simp_all add: fits_def batch_mode_def batch_rows_def)
  then have ok: "prefill_ok s eligible (?q, rows)"
    using rows(2) hd qa small e(1) by (auto simp: prefill_ok_def prompts_ok_def batch_rows_def)
  have "consider_prefill s eligible e best = Inr (if (case best of None \<Rightarrow> True
      | Some (bq, brows) \<Rightarrow> (bq, length brows) < (?q, length rows)) then Some (?q, rows) else best)"
    unfolding consider_prefill_def Let_def rows(1) rbind_simps sum using q by (simp only: neq0_conv simp_thms)
  then show ?thesis using ok best by (cases best) (auto split: if_splits)
qed

lemma rfold_consider_prefill:
  assumes inv: "sched_inv s" and el: "distinct eligible" "eligible \<noteq> []" "\<forall>i\<in>set eligible. waiting s i" and w: "widths_ok s"
    and es: "\<forall>e\<in>set es. e \<in> set (gp_entries (sc_profile s)) \<and> gk_mode (ge_key e) = step_mode.Prefill"
    and "case best of None \<Rightarrow> es \<noteq> [] | Some x \<Rightarrow> prefill_ok s eligible x"
  shows "\<exists>x. rfold (consider_prefill s eligible) es best = Inr (Some x) \<and> prefill_ok s eligible x"
  using es assms(7)
proof (induction es arbitrary: best)
  case Nil
  then show ?case by (cases best) auto
next
  case (Cons e es)
  have "case best of None \<Rightarrow> True | Some x \<Rightarrow> prefill_ok s eligible x" using Cons.prems(2) by (cases best) auto
  then obtain x where "consider_prefill s eligible e best = Inr (Some x)" "prefill_ok s eligible x"
    using consider_prefill_ok [OF inv _ _ el w] Cons.prems(1) by fastforce
  then show ?case using Cons.IH [of "Some x"] Cons.prems(1) by simp
qed

definition batch_built :: "scheduler \<Rightarrow> scheduled_batch \<times> scheduler \<Rightarrow> bool" where
  "batch_built s x \<longleftrightarrow> (case x of (b, s') \<Rightarrow> s' = s\<lparr>sc_next_step_id := sc_next_step_id s + 1\<rparr>
     \<and> sb_step_id b = sc_next_step_id s \<and> sc_next_step_id s + 1 < 2 ^ 64 \<and> batch_ok s' b)"

lemma finalize_ok:
  assumes "rows \<noteq> []" and "length rows \<le> maximum_batch_sequences (sc_config s)" and "maximum_batch_sequences (sc_config s) \<le> 64"
    and "batch_rows kind rows < 2 ^ 32" and "distinct (map br_request_id rows)" and "\<forall>row\<in>set rows. row_ok kind (sc_requests s) row"
    and "kind = Prefill \<longrightarrow> sm = Greedy"
  shows "returns {Err UncapturedShape, Err Overflow} (\<lambda>x. batch_built s x \<and> sb_kind (fst x) = kind \<and> sb_rows (fst x) = rows)
      (finalize_batch kind sm rows s)"
  using assms best_graph_fits [of s kind rows]
  by (auto simp: finalize_batch_cases batch_built_def batch_ok_def split: option.splits)

lemma build_prefill_rows:
  assumes inv: "sched_inv s" and w: "widths_ok s" and ex: "\<exists>i. waiting s i"
  obtains ids q rows where "ordered_requests s WaitingPrefill None = Inr ids" "prefill_ok s ids (q, rows)"
    "build_prefill_batch s = finalize_batch Prefill Greedy rows s"
proof -
  obtain ids where ids: "ordered_requests s WaitingPrefill None = Inr ids" "distinct ids"
    "set ids = {i. \<exists>r. fmlookup (sc_requests s) i = Some r \<and> rt_state r = WaitingPrefill}"
    by (rule ordered_requests_eq [OF inv, of WaitingPrefill None]) (rule that, simp_all)
  have wait: "\<forall>i\<in>set ids. waiting s i"
    using ids(3) sched_invD(3) [OF inv] by (auto simp: waiting_def request_ok_def)
  have ne: "ids \<noteq> []" using ex ids(3) by (force simp: waiting_def)
  let ?es = "filter (\<lambda>entry. gk_mode (ge_key entry) = step_mode.Prefill) (gp_entries (sc_profile s))"
  obtain i r where "fmlookup (sc_requests s) i = Some r" using ex by (auto simp: waiting_def)
  then have "has_graph_for_request s (rt_spec r)" using sched_invD(3) [OF inv] by (simp add: request_ok_def)
  then have "?es \<noteq> []" by (auto simp: has_graph_for_request_def Let_def list_ex_iff filter_empty_conv)
  then obtain q rows where x: "rfold (consider_prefill s ids) ?es None = Inr (Some (q, rows))" "prefill_ok s ids (q, rows)"
    using rfold_consider_prefill [OF inv ids(2) ne wait w, of ?es None] by auto
  show ?thesis by (rule that [OF ids(1) x(2)]) (simp add: build_prefill_batch_def ids(1) x(1))
qed

lemma build_prefill_ok:
  assumes inv: "sched_inv s" and w: "widths_ok s" and ex: "\<exists>i. waiting s i" and room: "sc_next_step_id s + 1 < 2 ^ 64"
  shows "\<exists>x ids. build_prefill_batch s = Inr x \<and> batch_built s x \<and> sb_kind (fst x) = Prefill
     \<and> ordered_requests s WaitingPrefill None = Inr ids \<and> br_request_id (hd (sb_rows (fst x))) = hd ids"
proof -
  obtain ids q rows where ids: "ordered_requests s WaitingPrefill None = Inr ids" and x: "prefill_ok s ids (q, rows)"
    and fin: "build_prefill_batch s = finalize_batch Prefill Greedy rows s"
    by (rule build_prefill_rows [OF inv w ex])
  have st: "maximum_batch_sequences (sc_config s) \<le> 64" using sched_invD(1) [OF inv] by (simp add: statics_ok_def)
  obtain e where e: "e \<in> set (gp_entries (sc_profile s))" "fits e Prefill rows" using x by (auto simp: prefill_ok_def)
  have "finalize_batch Prefill Greedy rows s \<noteq> Inl (Err UncapturedShape)" "finalize_batch Prefill Greedy rows s \<noteq> Inl (Err Overflow)"
    using best_graph_ok [OF e refl] x st room by (auto simp: prefill_ok_def finalize_batch_cases)
  moreover have "returns {Err UncapturedShape, Err Overflow} (\<lambda>x. batch_built s x \<and> sb_kind (fst x) = Prefill \<and> sb_rows (fst x) = rows)
      (finalize_batch Prefill Greedy rows s)"
    using x st by (intro finalize_ok) (auto simp: prefill_ok_def)
  ultimately show ?thesis
    using fin ids x by (cases "finalize_batch Prefill Greedy rows s") (auto simp: prefill_ok_def)
qed

lemma finalize_no_panic: "finalize_batch kind sm rows s \<noteq> Inl Panic"
proof -
  have "sum_prompt_tokens rows \<noteq> Inl Panic"
    unfolding sum_prompt_tokens_def by (rule rfold_no_panic [where P = "\<lambda>_. True"]) (auto simp: result_simps)
  then show ?thesis by (cases kind) (auto simp: finalize_batch_def result_simps)
qed

lemma finalize_no_room: "\<not> sc_next_step_id s + 1 < 2 ^ 64 \<Longrightarrow> finalize_batch kind sm rows s \<noteq> Inr x"
  by (auto simp: finalize_batch_def result_simps)

end
