(* ===== verification/Scheduler_Run.thy ===== *)
theory Scheduler_Run
  imports Scheduler_Inv
begin

text \<open>
  Decode batches, the choice of the next batch, the completion of a batch, and the scheduler as a
  machine: every operation keeps the invariant and none of them panics.
\<close>

section \<open>Decode\<close>

lemma effective_depth_ok:
  assumes "request_ok s i r" and "rt_state r = Decoding"
  obtains d where "effective_decode_depth s r = Inr d" "d \<le> 6" "rt_generated r + d < rs_maximum_new_tokens (rt_spec r)"
    "d \<noteq> 0 \<Longrightarrow> \<exists>e\<in>set (gp_entries (sc_profile s)). gk_mode (ge_key e) = step_mode.Verify \<and> gk_mtp_depth (ge_key e) = d
       \<and> d < ge_maximum_query_rows e"
proof -
  let ?rem = "rs_maximum_new_tokens (rt_spec r) - rt_generated r"
  define m where "m = min (rs_mtp_depth (rt_spec r)) (case try_uint 8 (?rem - 1) of None \<Rightarrow> 255 | Some n \<Rightarrow> n)"
  define es where "es = filter (\<lambda>e. gk_mode (ge_key e) = step_mode.Verify \<and> gk_mtp_depth (ge_key e) \<le> m
      \<and> ge_maximum_query_rows e > gk_mtp_depth (ge_key e)) (gp_entries (sc_profile s))"
  define d where "d = (if es = [] then 0 else Max (set (map (\<lambda>e. gk_mtp_depth (ge_key e)) es)))"
  have rem: "0 < ?rem" and mtp: "rs_mtp_depth (rt_spec r) \<le> 6" using assms by (simp_all add: request_ok_def)
  have m: "m \<le> 6" "m \<le> ?rem - 1" using mtp by (auto simp: m_def try_uint_def)
  have max: "\<exists>e\<in>set es. gk_mtp_depth (ge_key e) = d" if "es \<noteq> []"
  proof -
    have "d \<in> (\<lambda>e. gk_mtp_depth (ge_key e)) ` set es"
      using that Max_in [of "(\<lambda>e. gk_mtp_depth (ge_key e)) ` set es"] by (simp add: d_def)
    then show ?thesis by auto
  qed
  have "d \<le> m"
  proof (cases "es = []")
    case False
    then show ?thesis using max by (auto simp: es_def)
  qed (simp add: d_def)
  with m rem have bounds: "d \<le> 6" "rt_generated r + d < rs_maximum_new_tokens (rt_spec r)" by linarith+
  have "effective_decode_depth s r = Inr d"
    using rem assms(1)
    by (simp add: effective_decode_depth_def checked_sub_def Let_def request_ok_def d_def es_def m_def)
  moreover have "\<exists>e\<in>set (gp_entries (sc_profile s)). gk_mode (ge_key e) = step_mode.Verify \<and> gk_mtp_depth (ge_key e) = d
       \<and> d < ge_maximum_query_rows e" if "d \<noteq> 0"
  proof -
    have "es \<noteq> []" using that by (auto simp: d_def)
    then show ?thesis using max by (auto simp: es_def)
  qed
  ultimately show ?thesis using that bounds by blast
qed

abbreviation decode_kind :: "nat \<Rightarrow> batch_kind" where
  "decode_kind d \<equiv> if d = 0 then Decode else Verify d"

abbreviation decode_rows :: "nat list \<Rightarrow> batch_row list" where
  "decode_rows \<equiv> map (\<lambda>i. \<lparr>br_request_id = i, br_prompt_tokens = 0\<rparr>)"

lemma decode_rows_bound: "d \<le> 6 \<Longrightarrow> length ids \<le> 64 \<Longrightarrow> batch_rows (decode_kind d) (decode_rows ids) < 2 ^ 32"
proof -
  assume "d \<le> 6" "length ids \<le> 64"
  then have "length ids * (d + 1) \<le> 64 * 7" by (intro mult_le_mono) simp_all
  then show ?thesis by (auto simp: batch_rows_def)
qed

lemma single_row_fits:
  assumes "statics_ok s" and "has_graph_for_request s spec"
    and "d \<noteq> 0 \<Longrightarrow> \<exists>e\<in>set (gp_entries (sc_profile s)). gk_mode (ge_key e) = step_mode.Verify \<and> gk_mtp_depth (ge_key e) = d
       \<and> d < ge_maximum_query_rows e"
  shows "\<exists>e\<in>set (gp_entries (sc_profile s)). fits e (decode_kind d) (decode_rows [i])"
proof (cases "d = 0")
  case True
  obtain e where e: "e \<in> set (gp_entries (sc_profile s))" "gk_mode (ge_key e) = step_mode.Decode" "gk_mtp_depth (ge_key e) = 0"
    using assms(2) by (auto simp: has_graph_for_request_def Let_def list_ex_iff)
  then show ?thesis using True entry_okD(2,4) [of e] assms(1)
    by (auto simp: statics_ok_def fits_def batch_mode_def batch_rows_def intro!: bexI [of _ e])
next
  case False
  then obtain e where e: "e \<in> set (gp_entries (sc_profile s))" "gk_mode (ge_key e) = step_mode.Verify" "gk_mtp_depth (ge_key e) = d"
    "d < ge_maximum_query_rows e" using assms(3) by blast
  then show ?thesis using False entry_okD(2) [of e] assms(1)
    by (auto simp: statics_ok_def fits_def batch_mode_def batch_rows_def intro!: bexI [of _ e])
qed

lemma shrink_batch_ok:
  assumes "statics_ok s" and "d \<le> 6" and "sc_next_step_id s + 1 < 2 ^ 64"
    and "\<forall>i. \<exists>e\<in>set (gp_entries (sc_profile s)). fits e (decode_kind d) (decode_rows [i])"
    and "ids \<noteq> []" and "distinct ids" and "length ids \<le> maximum_batch_sequences (sc_config s)"
    and "\<forall>row\<in>set (decode_rows ids). row_ok (decode_kind d) (sc_requests s) row"
  shows "\<exists>x. shrink_batch (decode_kind d) sm ids s = Inr x \<and> batch_built s x \<and> sb_kind (fst x) = decode_kind d
     \<and> (\<exists>n. 0 < n \<and> sb_rows (fst x) = decode_rows (take n ids))"
  using assms(5-8)
proof (induction "length ids" arbitrary: ids rule: less_induct)
  case less
  let ?fin = "finalize_batch (decode_kind d) sm (decode_rows ids) s"
  have max: "maximum_batch_sequences (sc_config s) \<le> 64" using assms(1) by (simp add: statics_ok_def)
  have small: "batch_rows (decode_kind d) (decode_rows ids) < 2 ^ 32"
    using decode_rows_bound [OF assms(2)] less.prems(3) max by simp
  have fin: "returns {Err UncapturedShape, Err Overflow}
      (\<lambda>x. batch_built s x \<and> sb_kind (fst x) = decode_kind d \<and> sb_rows (fst x) = decode_rows ids) ?fin"
    using less.prems max small by (intro finalize_ok) (simp_all add: comp_def)
  show ?case
  proof (cases ?fin)
    case (Inr x)
    then have "shrink_batch (decode_kind d) sm ids s = Inr x" by (subst shrink_batch.simps) simp
    moreover have "decode_rows ids = decode_rows (take (length ids) ids)" by simp
    ultimately show ?thesis using Inr fin less.prems(1) by (intro exI [of _ x] conjI exI [of _ "length ids"]) simp_all
  next
    case (Inl f)
    then obtain err where err: "f = Err err" using fin by auto
    show ?thesis
    proof (cases "butlast ids = []")
      case True
      then obtain i where "ids = [i]" using less.prems(1) by (metis append_Nil append_butlast_last_id)
      then obtain e where "e \<in> set (gp_entries (sc_profile s))" "fits e (decode_kind d) (decode_rows ids)" using assms(4) by blast
      then obtain g where "best_graph s (decode_kind d) (length (decode_rows ids)) (batch_rows (decode_kind d) (decode_rows ids)) = Some g"
        using best_graph_ok by blast
      then have "\<exists>x. ?fin = Inr x"
        using less.prems max small assms(3) by (subst finalize_batch_cases) auto
      then show ?thesis using Inl by simp
    next
      case False
      have "shrink_batch (decode_kind d) sm ids s = shrink_batch (decode_kind d) sm (butlast ids) s"
        using Inl err False by (subst shrink_batch.simps) simp
      moreover have "length (butlast ids) < length ids" "distinct (butlast ids)" using less.prems by (simp_all add: distinct_butlast)
      moreover have "\<forall>row\<in>set (decode_rows (butlast ids)). row_ok (decode_kind d) (sc_requests s) row"
        using less.prems(4) by (auto dest: in_set_butlastD)
      ultimately obtain x n where "shrink_batch (decode_kind d) sm ids s = Inr x" "batch_built s x" "sb_kind (fst x) = decode_kind d" "0 < n"
        "sb_rows (fst x) = decode_rows (take n (butlast ids))" using less.hyps [of "butlast ids"] less.prems(3) False by auto
      moreover have "take n (butlast ids) = take (min n (length ids - 1)) ids" by (simp add: butlast_conv_take min.commute)
      moreover have "0 < min n (length ids - 1)" using \<open>0 < n\<close> False by (cases ids rule: rev_cases) auto
      ultimately show ?thesis by metis
    qed
  qed
qed

lemma request_le_antisym: "request_le s i j \<Longrightarrow> request_le s j i \<Longrightarrow> i = j"
  unfolding request_le_iff by (auto simp: less_eq_prod_simp)

lemma sorted_hd_least: "sorted_wrt (request_le s) ids \<Longrightarrow> i \<in> set ids \<Longrightarrow> i \<noteq> hd ids \<Longrightarrow> request_le s (hd ids) i"
  by (cases ids) auto

lemma build_decode_ids:
  assumes inv: "sched_inv s" and ex: "\<exists>i r. fmlookup (sc_requests s) i = Some r \<and> rt_state r = Decoding"
  obtains ids el d sm where "ordered_requests s Decoding None = Inr ids" "hd el = hd ids" "el \<noteq> []" "distinct el" "d \<le> 6"
    "length el \<le> maximum_batch_sequences (sc_config s)"
    "\<forall>row\<in>set (decode_rows el). row_ok (decode_kind d) (sc_requests s) row"
    "\<forall>i. \<exists>e\<in>set (gp_entries (sc_profile s)). fits e (decode_kind d) (decode_rows [i])"
    "build_decode_batch s = shrink_batch (decode_kind d) sm el s"
proof -
  obtain ids where ids: "ordered_requests s Decoding None = Inr ids" "sorted_wrt (request_le s) ids"
    "set ids = {i. \<exists>r. fmlookup (sc_requests s) i = Some r \<and> rt_state r = Decoding}"
    by (rule ordered_requests_eq [OF inv, of Decoding None]) (rule that, simp_all)
  have ne: "ids \<noteq> []" using ex ids(3) by force
  then obtain r where r: "fmlookup (sc_requests s) (hd ids) = Some r" "rt_state r = Decoding"
    using ids(3) hd_in_set [OF ne] by blast
  have rok: "request_ok s (hd ids) r" by (rule sched_invD(3) [OF inv r(1)])
  obtain d where d: "effective_decode_depth s r = Inr d" "d \<le> 6"
    "d \<noteq> 0 \<Longrightarrow> \<exists>e\<in>set (gp_entries (sc_profile s)). gk_mode (ge_key e) = step_mode.Verify \<and> gk_mtp_depth (ge_key e) = d
       \<and> d < ge_maximum_query_rows e"
    by (rule effective_depth_ok [OF rok r(2)]) (rule that)
  let ?sm = "rs_sampling (rt_spec r)"
  obtain el where el: "ordered_requests s Decoding (Some (d, ?sm)) = Inr el" "distinct el" "sorted_wrt (request_le s) el"
    "set el = {i. \<exists>q. fmlookup (sc_requests s) i = Some q \<and> rt_state q = Decoding \<and> effective_decode_depth s q = Inr d
       \<and> rs_sampling (rt_spec q) = ?sm}"
    by (rule ordered_requests_eq [OF inv, of Decoding "Some (d, ?sm)"]) (rule that, simp_all)
  have in_el: "hd ids \<in> set el" using el(4) r d(1) by simp
  then have ne_el: "el \<noteq> []" by auto
  have "hd el \<in> set ids" using hd_in_set [OF ne_el] el(4) ids(3) by blast
  then have hd: "hd el = hd ids"
    using sorted_hd_least [OF ids(2)] sorted_hd_least [OF el(3) in_el] request_le_antisym by metis
  let ?n = "maximum_batch_sequences (sc_config s)"
  have st: "statics_ok s" by (rule sched_invD(1) [OF inv])
  then have n: "0 < ?n" by (simp add: statics_ok_def)
  have "row_ok (decode_kind d) (sc_requests s) \<lparr>br_request_id = i, br_prompt_tokens = 0\<rparr>" if i: "i \<in> set el" for i
  proof -
    obtain q where q: "fmlookup (sc_requests s) i = Some q" "rt_state q = Decoding" "effective_decode_depth s q = Inr d"
      using i el(4) by blast
    obtain d' where "effective_decode_depth s q = Inr d'" "rt_generated q + d' < rs_maximum_new_tokens (rt_spec q)"
      by (rule effective_depth_ok [OF sched_invD(3) [OF inv q(1)] q(2)]) (rule that)
    then have "rt_generated q + d < rs_maximum_new_tokens (rt_spec q)" using q(3) by simp
    then show ?thesis using q d(2) by (auto simp: row_ok_def)
  qed
  then have rows: "\<forall>row\<in>set (decode_rows (take ?n el)). row_ok (decode_kind d) (sc_requests s) row"
    by (auto dest: in_set_takeD)
  have single: "\<forall>i. \<exists>e\<in>set (gp_entries (sc_profile s)). fits e (decode_kind d) (decode_rows [i])"
    using single_row_fits [OF st _ d(3)] rok by (auto simp: request_ok_def)
  have "build_decode_batch s = shrink_batch (decode_kind d) ?sm (take ?n el) s"
    using ids(1) ne r(1) d(1) el(1) by (cases ids) (simp_all add: build_decode_batch_def)
  then show ?thesis using ne_el n hd el(2) d(2) by (intro that [OF ids(1) _ _ _ _ _ rows single]) (simp_all add: hd_take)
qed

lemma build_decode_ok:
  assumes inv: "sched_inv s" and ex: "\<exists>i r. fmlookup (sc_requests s) i = Some r \<and> rt_state r = Decoding"
    and room: "sc_next_step_id s + 1 < 2 ^ 64"
  shows "\<exists>x ids. build_decode_batch s = Inr x \<and> batch_built s x \<and> sb_kind (fst x) \<noteq> Prefill
     \<and> ordered_requests s Decoding None = Inr ids \<and> br_request_id (hd (sb_rows (fst x))) = hd ids"
proof -
  obtain ids el d sm where el: "ordered_requests s Decoding None = Inr ids" "hd el = hd ids" "el \<noteq> []" "distinct el" "d \<le> 6"
    "length el \<le> maximum_batch_sequences (sc_config s)"
    "\<forall>row\<in>set (decode_rows el). row_ok (decode_kind d) (sc_requests s) row"
    "\<forall>i. \<exists>e\<in>set (gp_entries (sc_profile s)). fits e (decode_kind d) (decode_rows [i])"
    "build_decode_batch s = shrink_batch (decode_kind d) sm el s"
    by (rule build_decode_ids [OF inv ex])
  obtain x k where x: "shrink_batch (decode_kind d) sm el s = Inr x" "batch_built s x" "sb_kind (fst x) = decode_kind d" "0 < k"
    "sb_rows (fst x) = decode_rows (take k el)"
    using shrink_batch_ok [OF sched_invD(1) [OF inv] el(5) room el(8,3,4,6,7)] by blast
  have "br_request_id (hd (sb_rows (fst x))) = hd ids" using x(4,5) el(2,3) by (simp add: hd_map hd_take)
  then show ?thesis using x(1-3) el(1,9) by (intro exI [of _ x] exI [of _ ids]) simp
qed

lemma shrink_no_panic: "shrink_batch kind sm ids s \<noteq> Inl Panic"
proof (induction kind sm ids s rule: shrink_batch.induct)
  case (1 kind sm ids s)
  then show ?case
    using finalize_no_panic [of kind sm "decode_rows ids" s]
    by (subst shrink_batch.simps) (auto split: sum.splits fault.splits)
qed

section \<open>The next batch\<close>

definition runnable :: "scheduler \<Rightarrow> bool" where
  "runnable s \<longleftrightarrow> (\<exists>i r. fmlookup (sc_requests s) i = Some r \<and> \<not> terminal_state (rt_state r))"

lemma list_ex_entries: "list_ex P (entries_of m) \<longleftrightarrow> (\<exists>k v. fmlookup m k = Some v \<and> P (k, v))"
  unfolding list_ex_iff by (metis set_entries_of surj_pair)

lemma not_terminal: "\<not> terminal_state st \<longleftrightarrow> st = WaitingPrefill \<or> st = Decoding"
  by (cases st) (simp_all add: terminal_state_def)

lemma waiting_iff: "sched_inv s \<Longrightarrow> waiting s i \<longleftrightarrow> (\<exists>r. fmlookup (sc_requests s) i = Some r \<and> rt_state r = WaitingPrefill)"
  using sched_invD(3) by (fastforce simp: waiting_def request_ok_def)

definition started :: "scheduler \<Rightarrow> scheduled_batch \<Rightarrow> scheduler" where
  "started s b = s\<lparr>sc_next_step_id := sc_next_step_id s + 1, sc_inflight := Some b\<rparr>"

definition chooses_prefill :: "scheduler \<Rightarrow> bool" where
  "chooses_prefill s \<longleftrightarrow> (\<exists>i. waiting s i) \<and> ((\<nexists>i r. fmlookup (sc_requests s) i = Some r \<and> rt_state r = Decoding)
     \<or> maximum_decode_burst (sc_config s) \<le> sc_decode_burst s)"

lemma next_batch_cases:
  assumes inv: "sched_inv s" and idle: "sc_inflight s = None"
  defines "t \<equiv> apply_cancellations s"
  shows "next_batch s = (if \<not> runnable t then (Inr None, t)
    else case (if chooses_prefill t then build_prefill_batch t else build_decode_batch t) of
        Inl f \<Rightarrow> (Inl f, t) | Inr (b, t') \<Rightarrow> (Inr (Some b), t'\<lparr>sc_inflight := Some b\<rparr>))"
proof -
  have t: "sched_inv t" unfolding t_def by (rule apply_cancellations_inv [OF inv idle])
  let ?p = "list_ex (\<lambda>(_, r). rt_state r = WaitingPrefill) (entries_of (sc_requests t))"
  let ?d = "list_ex (\<lambda>(_, r). rt_state r = Decoding) (entries_of (sc_requests t))"
  have p: "?p \<longleftrightarrow> (\<exists>i. waiting t i)" and d: "?d \<longleftrightarrow> (\<exists>i r. fmlookup (sc_requests t) i = Some r \<and> rt_state r = Decoding)"
    by (simp_all add: list_ex_entries waiting_iff [OF t])
  have run: "runnable t \<longleftrightarrow> ?p \<or> ?d" by (auto simp: runnable_def not_terminal list_ex_entries)
  have pre: "(?p \<and> (\<not> ?d \<or> maximum_decode_burst (sc_config t) \<le> sc_decode_burst t)) = chooses_prefill t"
    unfolding chooses_prefill_def p d by blast
  show ?thesis
    using idle unfolding next_batch_def Let_def t_def [symmetric] pre run by simp
qed

lemma started_inv:
  assumes "sched_inv t" and "batch_built t (b, t')"
  shows "t'\<lparr>sc_inflight := Some b\<rparr> = started t b" and "sched_inv (started t b)"
proof -
  have t': "t' = t\<lparr>sc_next_step_id := sc_next_step_id t + 1\<rparr>" "sc_next_step_id t + 1 < 2 ^ 64" "batch_ok t' b"
    using assms(2) by (auto simp: batch_built_def)
  show "t'\<lparr>sc_inflight := Some b\<rparr> = started t b" by (simp add: t'(1) started_def)
  have "batch_ok (started t b) b" using t'(3) by (simp add: t'(1) started_def batch_ok_def)
  then show "sched_inv (started t b)"
    using assms(1) t'(2)
    by (simp add: sched_inv_def started_def statics_ok_def tenants_ok_def active_requests_def request_ok_def has_graph_for_request_def)
qed

lemma next_batch_total:
  assumes inv: "sched_inv s" and idle: "sc_inflight s = None" and w: "widths_ok s" and room: "sc_next_step_id s + 1 < 2 ^ 64"
  defines "t \<equiv> apply_cancellations s"
  shows "(\<not> runnable t \<and> next_batch s = (Inr None, t))
    \<or> (\<exists>b ids. runnable t \<and> next_batch s = (Inr (Some b), started t b) \<and> sched_inv (started t b)
         \<and> (sb_kind b = Prefill \<longleftrightarrow> chooses_prefill t)
         \<and> ordered_requests t (if chooses_prefill t then WaitingPrefill else Decoding) None = Inr ids
         \<and> br_request_id (hd (sb_rows b)) = hd ids)"
proof (cases "runnable t")
  case True
  have t: "sched_inv t" unfolding t_def by (rule apply_cancellations_inv [OF inv idle])
  have w': "widths_ok t" and room': "sc_next_step_id t + 1 < 2 ^ 64" using w room by (simp_all add: t_def apply_cancellations_def widths_ok_def)
  let ?build = "if chooses_prefill t then build_prefill_batch t else build_decode_batch t"
  have "\<exists>x ids. ?build = Inr x \<and> batch_built t x \<and> (sb_kind (fst x) = Prefill \<longleftrightarrow> chooses_prefill t)
     \<and> ordered_requests t (if chooses_prefill t then WaitingPrefill else Decoding) None = Inr ids
     \<and> br_request_id (hd (sb_rows (fst x))) = hd ids"
  proof (cases "chooses_prefill t")
    case True
    then have "\<exists>i. waiting t i" by (simp add: chooses_prefill_def)
    from build_prefill_ok [OF t w' this room'] True show ?thesis by simp
  next
    case False
    then have "\<exists>i r. fmlookup (sc_requests t) i = Some r \<and> rt_state r = Decoding"
      using True waiting_iff [OF t] by (auto simp: chooses_prefill_def runnable_def not_terminal)
    from build_decode_ok [OF t this room'] False show ?thesis by simp
  qed
  then obtain b t' ids where x: "?build = Inr (b, t')" "batch_built t (b, t')" "sb_kind b = Prefill \<longleftrightarrow> chooses_prefill t"
    "ordered_requests t (if chooses_prefill t then WaitingPrefill else Decoding) None = Inr ids" "br_request_id (hd (sb_rows b)) = hd ids"
    by auto
  have "next_batch s = (Inr (Some b), started t b)"
    unfolding next_batch_cases [OF inv idle, folded t_def] x(1) using True started_inv(1) [OF t x(2)] by simp
  then show ?thesis using True started_inv(2) [OF t x(2)] x(3-5) by blast
qed (simp add: next_batch_cases [OF inv idle] t_def)

lemma next_batch_safe:
  assumes inv: "sched_inv s" and w: "widths_ok s"
  shows "fst (next_batch s) \<noteq> Inl Panic" and "sched_inv (snd (next_batch s))"
proof -
  consider (busy) "sc_inflight s \<noteq> None" | (room) "sc_inflight s = None" "sc_next_step_id s + 1 < 2 ^ 64"
    | (full) "sc_inflight s = None" "\<not> sc_next_step_id s + 1 < 2 ^ 64" by blast
  then have "fst (next_batch s) \<noteq> Inl Panic \<and> sched_inv (snd (next_batch s))"
  proof cases
    case busy
    then show ?thesis using inv by (simp add: next_batch_def)
  next
    case room
    then show ?thesis
      using next_batch_total [OF inv room(1) w room(2)] apply_cancellations_inv(1) [OF inv room(1)] by auto
  next
    case full
    let ?t = "apply_cancellations s"
    have t: "sched_inv ?t" by (rule apply_cancellations_inv [OF inv full(1)])
    have w': "widths_ok ?t" and full': "\<not> sc_next_step_id ?t + 1 < 2 ^ 64"
      using w full(2) by (simp_all add: apply_cancellations_def widths_ok_def)
    have shrink: "shrink_batch kind sm ids ?t \<noteq> Inr x" for kind sm ids x
    proof (induction kind sm ids ?t rule: shrink_batch.induct)
      case (1 kind sm ids)
      then show ?case using finalize_no_room [OF full', of kind sm "decode_rows ids"]
        by (subst shrink_batch.simps) (auto split: sum.splits fault.splits)
    qed
    have "\<exists>e. (if chooses_prefill ?t then build_prefill_batch ?t else build_decode_batch ?t) = Inl (Err e)" if run: "runnable ?t"
    proof (cases "chooses_prefill ?t")
      case True
      then have "\<exists>i. waiting ?t i" by (simp add: chooses_prefill_def)
      then obtain rows where "build_prefill_batch ?t = finalize_batch Prefill Greedy rows ?t"
        using build_prefill_rows [OF t w'] by metis
      then show ?thesis using True finalize_no_panic [of Prefill Greedy rows ?t] finalize_no_room [OF full', of Prefill Greedy rows]
        by (cases "finalize_batch Prefill Greedy rows ?t") (auto intro: fault.exhaust)
    next
      case False
      then have "\<exists>i r. fmlookup (sc_requests ?t) i = Some r \<and> rt_state r = Decoding"
        using run waiting_iff [OF t] by (auto simp: chooses_prefill_def runnable_def not_terminal)
      then obtain kind sm el where "build_decode_batch ?t = shrink_batch kind sm el ?t" using build_decode_ids [OF t] by metis
      then show ?thesis using False shrink_no_panic [of kind sm el ?t] shrink [of kind sm el]
        by (cases "shrink_batch kind sm el ?t") (auto intro: fault.exhaust)
    qed
    then show ?thesis using t unfolding next_batch_cases [OF inv full(1)] by auto
  qed
  then show "fst (next_batch s) \<noteq> Inl Panic" "sched_inv (snd (next_batch s))" by simp_all
qed

end
