(* ===== verification/Scheduler_Done.thy ===== *)
theory Scheduler_Done
  imports Scheduler_Run
begin

text \<open>
  The completion of a batch under the invariant: every row of a batch in flight is updated as its
  result says, the service of its tenant grows by the tokens it processed, and nothing else
  changes.
\<close>

section \<open>One row\<close>

definition updated :: "completion_update \<Rightarrow> request \<Rightarrow> request" where
  "updated u r = r\<lparr>rt_state := cu_state u, rt_prompt_done := cu_prompt_done u, rt_generated := cu_generated u\<rparr>"

definition progress :: "request \<Rightarrow> completion_update \<Rightarrow> nat" where
  "progress r u = (cu_prompt_done u - rt_prompt_done r) + (cu_generated u - rt_generated r)"

text \<open>What the update of one row does to its request.\<close>

definition good_update :: "scheduler \<Rightarrow> bool \<Rightarrow> batch_row \<Rightarrow> completion_update \<Rightarrow> bool" where
  "good_update s success row u \<longleftrightarrow> cu_request_id u = br_request_id row
     \<and> (\<exists>r. fmlookup (sc_requests s) (br_request_id row) = Some r \<and> \<not> terminal_state (rt_state r)
          \<and> request_ok s (br_request_id row) (updated u r)
          \<and> rt_prompt_done r \<le> cu_prompt_done u \<and> rt_generated r \<le> cu_generated u
          \<and> (if success then 0 < progress r u \<and> cu_state u \<notin> {Cancelled, Failed}
             else progress r u = 0 \<and> cu_state u = Failed))"

lemma complete_prefill_row_ok:
  assumes "request_ok s i r" and "row_ok Prefill (sc_requests s) row" and "fmlookup (sc_requests s) i = Some r" and "br_request_id row = i"
  shows "\<exists>u. complete_prefill_row r row = Inr (u, progress r u) \<and> good_update s True row u"
proof -
  have r: "rt_state r = WaitingPrefill" "0 < br_prompt_tokens row" "rt_prompt_done r + br_prompt_tokens row \<le> rs_prompt_tokens (rt_spec r)"
    using assms(2-4) by (auto simp: row_ok_def)
  have gen: "rt_generated r = 0" "rs_prompt_tokens (rt_spec r) < 2 ^ 32" using assms(1) r(1) by (simp_all add: request_ok_def spec_typed_def)
  let ?n = "rt_prompt_done r + br_prompt_tokens row"
  let ?u = "\<lparr>cu_request_id = br_request_id row, cu_state = (if ?n = rs_prompt_tokens (rt_spec r) then Decoding else WaitingPrefill),
      cu_prompt_done = ?n, cu_generated = rt_generated r\<rparr>"
  have "complete_prefill_row r row = Inr (?u, progress r ?u)"
    using r gen(2) by (simp add: complete_prefill_row_def checked_add_def progress_def)
  moreover have "good_update s True row ?u"
    using assms r gen by (auto simp: good_update_def updated_def progress_def terminal_state_def request_ok_def)
  ultimately show ?thesis by blast
qed

lemma complete_decode_row_ok:
  assumes "request_ok s i r" and "rt_state r = Decoding" and "br_prompt_tokens row = 0"
    and "fmlookup (sc_requests s) i = Some r" and "br_request_id row = i" and "1 \<le> m"
  shows "returns {Err Commit} (\<lambda>(u, n). n = progress r u \<and> good_update s True row u) (complete_decode_row m reported r row)"
    and "reported = None \<Longrightarrow> \<exists>u. complete_decode_row m reported r row = Inr (u, 1)"
proof -
  have r: "rt_generated r < rs_maximum_new_tokens (rt_spec r)" "rs_maximum_new_tokens (rt_spec r) < 2 ^ 32"
    "rt_prompt_done r = rs_prompt_tokens (rt_spec r)"
    using assms(1,2) by (simp_all add: request_ok_def spec_typed_def)
  define c where "c = (case reported of Some c \<Rightarrow> c
      | None \<Rightarrow> \<lparr>bc_request_id = br_request_id row, bc_committed_tokens = 1, bc_terminal = False\<rparr>)"
  let ?k = "bc_committed_tokens c" and ?rem = "rs_maximum_new_tokens (rt_spec r) - rt_generated r"
  let ?u = "\<lparr>cu_request_id = br_request_id row,
      cu_state = (if bc_terminal c \<or> rt_generated r + ?k = rs_maximum_new_tokens (rt_spec r) then Finished else Decoding),
      cu_prompt_done = rt_prompt_done r, cu_generated = rt_generated r + ?k\<rparr>"
  have eq: "complete_decode_row m reported r row = (if ?k = 0 \<or> ?k > m \<or> ?k > ?rem then Inl (Err Commit) else Inr (?u, ?k))"
    using assms(2,3) r by (auto simp: complete_decode_row_def checked_sub_def checked_add_def Let_def simp flip: c_def)
  have "good_update s True row ?u \<and> ?k = progress r ?u" if "?k \<noteq> 0" "?k \<le> ?rem"
    using assms r that by (auto simp: good_update_def updated_def progress_def terminal_state_def request_ok_def)
  then show "returns {Err Commit} (\<lambda>(u, n). n = progress r u \<and> good_update s True row u) (complete_decode_row m reported r row)"
    unfolding eq by auto
  show "\<exists>u. complete_decode_row m reported r row = Inr (u, 1)" if "reported = None"
  proof -
    have "?k = 1" using that by (simp add: c_def)
    then show ?thesis unfolding eq using assms(6) r(1) by simp
  qed
qed

definition row_result :: "batch_kind \<Rightarrow> batch_completion option \<Rightarrow> request \<Rightarrow> batch_row \<Rightarrow>
    (scheduler_error, completion_update \<times> nat) result" where
  "row_result kind reported r row = (case kind of Prefill \<Rightarrow> complete_prefill_row r row
     | Decode \<Rightarrow> complete_decode_row 1 reported r row
     | Verify depth \<Rightarrow> rbind (expect (checked_add 8 depth 1)) (\<lambda>m. complete_decode_row m reported r row))"

definition row_weight :: "batch_kind \<Rightarrow> batch_row \<Rightarrow> nat" where
  "row_weight kind row = (if kind = Prefill then br_prompt_tokens row else 1)"

lemma row_result_ok:
  assumes "request_ok s (br_request_id row) r" and "row_ok kind (sc_requests s) row" and "fmlookup (sc_requests s) (br_request_id row) = Some r"
  shows "returns {Err Commit} (\<lambda>(u, n). n = progress r u \<and> good_update s True row u) (row_result kind reported r row)"
    and "reported = None \<Longrightarrow> \<exists>u. row_result kind reported r row = Inr (u, row_weight kind row)"
proof -
  have "returns {Err Commit} (\<lambda>(u, n). n = progress r u \<and> good_update s True row u) (row_result kind reported r row)
     \<and> (reported = None \<longrightarrow> (\<exists>u. row_result kind reported r row = Inr (u, row_weight kind row)))"
  proof (cases kind)
    case Prefill
    obtain u where u: "complete_prefill_row r row = Inr (u, progress r u)" "good_update s True row u"
      using complete_prefill_row_ok [OF assms(1) _ assms(3) refl] assms(2) Prefill by auto
    moreover have "progress r u = br_prompt_tokens row"
      using u(1) by (auto simp: complete_prefill_row_def result_simps split: if_splits)
    ultimately show ?thesis using Prefill by (simp add: row_result_def row_weight_def)
  next
    case Decode
    then show ?thesis using assms complete_decode_row_ok [OF assms(1) _ _ assms(3) refl, of 1 reported]
      by (auto simp: row_ok_def row_result_def row_weight_def)
  next
    case (Verify d)
    then show ?thesis using assms complete_decode_row_ok [OF assms(1) _ _ assms(3) refl, of "d + 1" reported]
      by (auto simp: row_ok_def row_result_def row_weight_def checked_add_def)
  qed
  then show "returns {Err Commit} (\<lambda>(u, n). n = progress r u \<and> good_update s True row u) (row_result kind reported r row)"
    and "reported = None \<Longrightarrow> \<exists>u. row_result kind reported r row = Inr (u, row_weight kind row)" by blast+
qed

text \<open>The service of the tenants so far: at least what it was, by the tokens of the rows done.\<close>

definition tenant_id :: "scheduler \<Rightarrow> completion_update \<Rightarrow> nat" where
  "tenant_id s u = rs_tenant (rt_spec (the (fmlookup (sc_requests s) (cu_request_id u))))"

definition gained :: "scheduler \<Rightarrow> nat \<Rightarrow> completion_update list \<Rightarrow> nat" where
  "gained s t us = (\<Sum>u\<leftarrow>us. if tenant_id s u = t then progress (the (fmlookup (sc_requests s) (cu_request_id u))) u else 0)"

definition units_ok :: "scheduler \<Rightarrow> completion_update list \<Rightarrow> (nat \<times> nat) list \<Rightarrow> bool" where
  "units_ok s us ns \<longleftrightarrow> distinct (map fst ns) \<and> length ns \<le> length us
     \<and> (\<forall>t n. map_of ns t = Some n \<longrightarrow> n < 2 ^ 64 \<and> (\<exists>tn. fmlookup (sc_tenants s) t = Some tn \<and> n = tn_service_units tn + gained s t us))
     \<and> (\<forall>t. map_of ns t = None \<longrightarrow> gained s t us = 0)"

lemma gained_snoc:
  "gained s t (us @ [u]) = gained s t us + (if tenant_id s u = t then progress (the (fmlookup (sc_requests s) (cu_request_id u))) u else 0)"
  by (simp add: gained_def)

lemma units_ok_update:
  assumes "units_ok s us ns" and "fmlookup (sc_tenants s) t = Some tn" and "tenant_id s u = t"
    and "n = (case map_of ns t of None \<Rightarrow> tn_service_units tn | Some k \<Rightarrow> k) + progress (the (fmlookup (sc_requests s) (cu_request_id u))) u"
    and "n < 2 ^ 64"
  shows "units_ok s (us @ [u]) (AList.update t n ns)"
proof -
  let ?ns = "AList.update t n ns"
  have map: "map_of ?ns k = (if k = t then Some n else map_of ns k)" for k by (simp add: update_conv')
  have n: "n = tn_service_units tn + gained s t (us @ [u])"
  proof (cases "map_of ns t")
    case None
    then have "gained s t us = 0" using assms(1) by (simp add: units_ok_def)
    then show ?thesis using None assms(3,4) by (simp add: gained_snoc)
  next
    case (Some k)
    then have "k = tn_service_units tn + gained s t us" using assms(1,2) unfolding units_ok_def by (metis option.inject)
    then show ?thesis using Some assms(3,4) by (simp add: gained_snoc)
  qed
  have other: "gained s k (us @ [u]) = gained s k us" if "k \<noteq> t" for k using that assms(3) by (simp add: gained_snoc)
  have "distinct (map fst ?ns)" using assms(1) by (simp add: units_ok_def distinct_update)
  moreover have "length ?ns \<le> Suc (length ns)" by (induction ns) auto
  moreover have "k < 2 ^ 64 \<and> (\<exists>tn. fmlookup (sc_tenants s) x = Some tn \<and> k = tn_service_units tn + gained s x (us @ [u]))"
    if "map_of ?ns x = Some k" for x k
  proof (cases "x = t")
    case True
    then show ?thesis using that map assms(2,5) n by simp
  next
    case False
    then have "map_of ns x = Some k" using that map by simp
    then show ?thesis using assms(1) other [OF False] by (simp only: units_ok_def)
  qed
  moreover have "gained s x (us @ [u]) = 0" if "map_of ?ns x = None" for x
    using that map other assms(1) by (auto simp: units_ok_def split: if_splits)
  ultimately show ?thesis using assms(1) by (simp only: units_ok_def) auto
qed

lemma batch_row:
  assumes "sched_inv s" and "sc_inflight s = Some b" and "row \<in> set (sb_rows b)"
  obtains r tn where "row_ok (sb_kind b) (sc_requests s) row" "fmlookup (sc_requests s) (br_request_id row) = Some r"
    "request_ok s (br_request_id row) r" "\<not> terminal_state (rt_state r)" "fmlookup (sc_tenants s) (rs_tenant (rt_spec r)) = Some tn"
proof -
  have rok: "row_ok (sb_kind b) (sc_requests s) row"
    using sched_invD(4) [OF assms(1,2)] assms(3) by (simp add: batch_ok_def)
  then obtain r where r: "fmlookup (sc_requests s) (br_request_id row) = Some r" by (auto simp: row_ok_def)
  have req: "request_ok s (br_request_id row) r" by (rule sched_invD(3) [OF assms(1) r])
  have live: "\<not> terminal_state (rt_state r)" using rok r by (cases "sb_kind b") (auto simp: row_ok_def terminal_state_def)
  obtain tn where "fmlookup (sc_tenants s) (rs_tenant (rt_spec r)) = Some tn" using req by (auto simp: request_ok_def)
  with rok r req live show ?thesis by (rule that)
qed

lemma complete_row_eq:
  assumes "fmlookup (sc_requests s) (br_request_id row) = Some r" and "fmlookup (sc_tenants s) (rs_tenant (rt_spec r)) = Some tn"
    and "length ns < 64"
  shows "complete_row s kind True by_row (i, row) (us, ns) =
     rbind (row_result kind (by_row ! i) r row) (\<lambda>(u, n).
     rbind (ok_or (checked_add 64 (case map_of ns (rs_tenant (rt_spec r)) of None \<Rightarrow> tn_service_units tn | Some k \<Rightarrow> k) n) Overflow) (\<lambda>total.
       Inr (us @ [u], AList.update (rs_tenant (rt_spec r)) total ns)))"
  using assms by (simp add: complete_row_def Let_def row_result_def)

lemma complete_row_ok:
  assumes inv: "sched_inv s" and b: "sc_inflight s = Some b" and row: "row \<in> set (sb_rows b)"
    and us: "length us < 64" and ns: "units_ok s us ns"
  shows "returns {Err Commit, Err Overflow}
      (\<lambda>(us', ns'). \<exists>u. us' = us @ [u] \<and> good_update s success row u \<and> (if success then units_ok s us' ns' else ns' = ns))
      (complete_row s (sb_kind b) success by_row (i, row) (us, ns))"
proof -
  obtain r tn where rok: "row_ok (sb_kind b) (sc_requests s) row" and r: "fmlookup (sc_requests s) (br_request_id row) = Some r"
    and req: "request_ok s (br_request_id row) r" and live: "\<not> terminal_state (rt_state r)"
    and tn: "fmlookup (sc_tenants s) (rs_tenant (rt_spec r)) = Some tn" by (rule batch_row [OF inv b row])
  show ?thesis
  proof (cases success)
    case False
    let ?u = "\<lparr>cu_request_id = br_request_id row, cu_state = Failed, cu_prompt_done = rt_prompt_done r, cu_generated = rt_generated r\<rparr>"
    have "good_update s False row ?u" using r req live by (auto simp: good_update_def updated_def progress_def request_ok_def)
    then show ?thesis using False r by (simp add: complete_row_def)
  next
    case True
    let ?total = "case map_of ns (rs_tenant (rt_spec r)) of None \<Rightarrow> tn_service_units tn | Some u \<Rightarrow> u"
    have len: "length ns < 64" using ns us by (simp add: units_ok_def)
    note result = row_result_ok(1) [OF req rok r, of "by_row ! i"]
    show ?thesis
      unfolding eqTrueI [OF True] complete_row_eq [OF r tn len]
    proof (rule returns_rbind [OF returns_mono [OF result]])
      fix x assume x: "case x of (u, n) \<Rightarrow> n = progress r u \<and> good_update s True row u"
      obtain u where u: "x = (u, progress r u)" "good_update s True row u" using x by (cases x) auto
      have id: "tenant_id s u = rs_tenant (rt_spec r)" "the (fmlookup (sc_requests s) (cu_request_id u)) = r"
        using u(2) r by (auto simp: good_update_def tenant_id_def)
      show "returns {Err Commit, Err Overflow}
          (\<lambda>(us', ns'). \<exists>u. us' = us @ [u] \<and> good_update s True row u \<and> (if True then units_ok s us' ns' else ns' = ns))
          (case x of (u, n) \<Rightarrow> rbind (ok_or (checked_add 64 ?total n) Overflow) (\<lambda>total.
             Inr (us @ [u], AList.update (rs_tenant (rt_spec r)) total ns)))"
        using u id units_ok_update [OF ns tn id(1)]
        by (cases "?total + progress r u < 2 ^ 64") (auto simp: checked_add_def)
    qed auto
  qed
qed

lemma complete_rows_ok:
  assumes inv: "sched_inv s" and b: "sc_inflight s = Some b"
  shows "set rows \<subseteq> set (sb_rows b) \<Longrightarrow> length us + length rows \<le> 64 \<Longrightarrow> units_ok s us ns \<Longrightarrow>
    returns {Err Commit, Err Overflow}
      (\<lambda>(us', ns'). \<exists>vs. us' = us @ vs \<and> list_all2 (good_update s success) rows vs \<and> (if success then units_ok s us' ns' else ns' = ns))
      (rfold (complete_row s (sb_kind b) success by_row) (enumerate n rows) (us, ns))"
proof (induction rows arbitrary: n us ns)
  case (Cons row rows)
  have first: "returns {Err Commit, Err Overflow}
      (\<lambda>(us', ns'). \<exists>u. us' = us @ [u] \<and> good_update s success row u \<and> (if success then units_ok s us' ns' else ns' = ns))
      (complete_row s (sb_kind b) success by_row (n, row) (us, ns))"
    using Cons.prems by (intro complete_row_ok [OF inv b]) auto
  show ?case
    unfolding enumerate_simps rfold.simps
  proof (rule returns_rbind [OF first])
    fix x assume "case x of (us', ns') \<Rightarrow> \<exists>u. us' = us @ [u] \<and> good_update s success row u \<and> (if success then units_ok s us' ns' else ns' = ns)"
    then obtain u ns' where x: "x = (us @ [u], ns')" and u: "good_update s success row u"
      and ns': "if success then units_ok s (us @ [u]) ns' else ns' = ns" by (cases x) auto
    have ok: "units_ok s (us @ [u]) ns'"
    proof (cases success)
      case False
      then have "progress (the (fmlookup (sc_requests s) (cu_request_id u))) u = 0" using u by (auto simp: good_update_def)
      then have "gained s t (us @ [u]) = gained s t us" for t by (simp add: gained_snoc)
      then show ?thesis using False ns' Cons.prems(3) by (simp add: units_ok_def)
    qed (use ns' in simp)
    have "returns {Err Commit, Err Overflow}
        (\<lambda>(us', ns''). \<exists>vs. us' = (us @ [u]) @ vs \<and> list_all2 (good_update s success) rows vs \<and> (if success then units_ok s us' ns'' else ns'' = ns'))
        (rfold (complete_row s (sb_kind b) success by_row) (enumerate (Suc n) rows) (us @ [u], ns'))"
      using Cons.prems ok by (intro Cons.IH) auto
    then show "returns {Err Commit, Err Overflow}
        (\<lambda>(us', ns'). \<exists>vs. us' = us @ vs \<and> list_all2 (good_update s success) (row # rows) vs \<and> (if success then units_ok s us' ns' else ns' = ns))
        (rfold (complete_row s (sb_kind b) success by_row) (enumerate (Suc n) rows) x)"
      unfolding x by (rule returns_mono) (use u ns' in \<open>auto split: if_splits\<close>)
  qed
qed simp

section \<open>Applying the plan\<close>

definition plan_of :: "completion_update list \<Rightarrow> nat \<Rightarrow> completion_update option" where
  "plan_of us = map_of (map (\<lambda>u. (cu_request_id u, u)) us)"

lemma apply_updates:
  assumes "distinct (map cu_request_id us)" and "\<forall>u\<in>set us. fmlookup rs (cu_request_id u) \<noteq> None"
  shows "\<exists>rs'. rfold apply_update us rs = Inr rs'
    \<and> (\<forall>i. fmlookup rs' i = (case plan_of us i of None \<Rightarrow> fmlookup rs i | Some u \<Rightarrow> map_option (updated u) (fmlookup rs i)))"
  using assms
proof (induction us arbitrary: rs)
  case (Cons u us)
  then obtain r where r: "fmlookup rs (cu_request_id u) = Some r" by auto
  let ?rs = "fmupd (cu_request_id u) (updated u r) rs"
  have "\<forall>v\<in>set us. fmlookup ?rs (cu_request_id v) \<noteq> None" "distinct (map cu_request_id us)" using Cons.prems by auto
  then obtain rs' where rs': "rfold apply_update us ?rs = Inr rs'"
    "\<forall>i. fmlookup rs' i = (case plan_of us i of None \<Rightarrow> fmlookup ?rs i | Some u \<Rightarrow> map_option (updated u) (fmlookup ?rs i))"
    using Cons.IH [of ?rs] by blast
  have "plan_of us (cu_request_id u) = None" using Cons.prems(1) by (simp add: plan_of_def map_of_eq_None_iff image_image)
  then have "fmlookup rs' i = (case plan_of (u # us) i of None \<Rightarrow> fmlookup rs i | Some u \<Rightarrow> map_option (updated u) (fmlookup rs i))" for i
    using rs'(2) r by (cases "i = cu_request_id u"; cases "plan_of us i") (simp_all add: plan_of_def)
  moreover have "rfold apply_update (u # us) rs = Inr rs'" using r rs'(1) by (simp add: apply_update_def updated_def)
  ultimately show ?case by blast
qed (simp add: plan_of_def)

lemma apply_services:
  assumes "distinct (map fst ns)" and "\<forall>x\<in>set ns. fmlookup ts (fst x) \<noteq> None"
  shows "\<exists>ts'. rfold apply_service ns ts = Inr ts'
    \<and> (\<forall>t. fmlookup ts' t = (case map_of ns t of None \<Rightarrow> fmlookup ts t
         | Some n \<Rightarrow> map_option (\<lambda>tn. tn\<lparr>tn_service_units := n\<rparr>) (fmlookup ts t)))"
  using assms
proof (induction ns arbitrary: ts)
  case (Cons x ns)
  obtain t n where x: "x = (t, n)" by (cases x)
  then obtain tn where tn: "fmlookup ts t = Some tn" using Cons.prems by auto
  let ?ts = "fmupd t (tn\<lparr>tn_service_units := n\<rparr>) ts"
  have "\<forall>y\<in>set ns. fmlookup ?ts (fst y) \<noteq> None" "distinct (map fst ns)" using Cons.prems by auto
  then obtain ts' where ts': "rfold apply_service ns ?ts = Inr ts'"
    "\<forall>t. fmlookup ts' t = (case map_of ns t of None \<Rightarrow> fmlookup ?ts t
         | Some n \<Rightarrow> map_option (\<lambda>tn. tn\<lparr>tn_service_units := n\<rparr>) (fmlookup ?ts t))"
    using Cons.IH [of ?ts] by blast
  have "map_of ns t = None" using Cons.prems(1) x by (simp add: map_of_eq_None_iff)
  then have "fmlookup ts' k = (case map_of (x # ns) k of None \<Rightarrow> fmlookup ts k
         | Some n \<Rightarrow> map_option (\<lambda>tn. tn\<lparr>tn_service_units := n\<rparr>) (fmlookup ts k))" for k
    using ts'(2) tn x by (cases "k = t"; cases "map_of ns k") simp_all
  moreover have "rfold apply_service (x # ns) ts = Inr ts'" using x tn ts'(1) by (simp add: apply_service_def)
  ultimately show ?case by blast
qed simp

end
