(* ===== verification/Scheduler_Main.thy ===== *)
theory Scheduler_Main
  imports Scheduler_Done
begin

text \<open>
  The operations of the scheduler as a machine: each keeps the invariant and none panics; the
  completion of a batch does what its rows say; and work is used up, so that serving batches one
  after the other comes to an end.
\<close>

section \<open>The completion of a batch\<close>

lemma place_completions:
  assumes "length rows \<le> length by_row"
  shows "returns {Err Commit} (\<lambda>xs. length xs = length by_row) (rfold (place_completion rows) cs by_row)"
proof (rule returns_rfold)
  fix c and xs :: "batch_completion option list" assume "length xs = length by_row"
  then show "returns {Err Commit} (\<lambda>xs. length xs = length by_row) (place_completion rows c xs)"
    using assms unfolding place_completion_def
    by (cases "position (\<lambda>row. br_request_id row = bc_request_id c) rows") (auto dest!: position_Some)
qed simp

definition completed :: "scheduler \<Rightarrow> scheduled_batch \<Rightarrow> bool \<Rightarrow> completion_update list \<Rightarrow> scheduler \<Rightarrow> bool" where
  "completed s b success us s' \<longleftrightarrow> list_all2 (good_update s success) (sb_rows b) us
     \<and> (\<forall>i. fmlookup (sc_requests s') i =
          (case plan_of us i of None \<Rightarrow> fmlookup (sc_requests s) i | Some u \<Rightarrow> map_option (updated u) (fmlookup (sc_requests s) i)))
     \<and> (\<forall>t. fmlookup (sc_tenants s') t =
          map_option (\<lambda>tn. tn\<lparr>tn_service_units := tn_service_units tn + gained s t us\<rparr>) (fmlookup (sc_tenants s) t))
     \<and> (\<forall>t tn. fmlookup (sc_tenants s) t = Some tn \<longrightarrow> tn_service_units tn + gained s t us < 2 ^ 64)
     \<and> s' = s\<lparr>sc_inflight := None, sc_requests := sc_requests s', sc_tenants := sc_tenants s',
           sc_decode_burst := (case sb_kind b of Prefill \<Rightarrow> 0 | _ \<Rightarrow> saturating_add 16 (sc_decode_burst s) 1)\<rparr>"

lemma good_updates_ids: "list_all2 (good_update s success) rows us \<Longrightarrow> map cu_request_id us = map br_request_id rows"
  by (induction rule: list_all2_induct) (auto simp: good_update_def)

lemma plan_of_good:
  assumes "list_all2 (good_update s success) rows us" and "plan_of us i = Some u"
  obtains row where "row \<in> set rows" "good_update s success row u" "br_request_id row = i"
proof -
  have u: "u \<in> set us" "cu_request_id u = i" using assms(2) by (auto simp: plan_of_def dest!: map_of_SomeD)
  then obtain k where "k < length us" "us ! k = u" by (auto simp: in_set_conv_nth)
  then have "good_update s success (rows ! k) u" "rows ! k \<in> set rows"
    using assms(1) by (auto simp: list_all2_conv_all_nth)
  then show ?thesis using that u(2) by (auto simp: good_update_def)
qed

lemma gained_failed: "list_all2 (good_update s False) rows us \<Longrightarrow> gained s t us = 0"
  by (induction rule: list_all2_induct) (auto simp: gained_def good_update_def)

lemma completed_inv:
  assumes inv: "sched_inv s" and b: "sc_inflight s = Some b" and c: "completed s b success us s'"
  shows "sched_inv s'"
proof -
  have good: "list_all2 (good_update s success) (sb_rows b) us" using c by (simp add: completed_def)
  have req: "fmlookup (sc_requests s') i =
      (case plan_of us i of None \<Rightarrow> fmlookup (sc_requests s) i | Some u \<Rightarrow> map_option (updated u) (fmlookup (sc_requests s) i))" for i
    using c by (simp add: completed_def)
  have ten: "fmlookup (sc_tenants s') t =
      map_option (\<lambda>tn. tn\<lparr>tn_service_units := tn_service_units tn + gained s t us\<rparr>) (fmlookup (sc_tenants s) t)" for t
    using c by (simp add: completed_def)
  have room: "tn_service_units tn + gained s t us < 2 ^ 64" if "fmlookup (sc_tenants s) t = Some tn" for t tn
    using c that by (simp add: completed_def)
  have s': "s' = s\<lparr>sc_inflight := None, sc_requests := sc_requests s', sc_tenants := sc_tenants s',
           sc_decode_burst := (case sb_kind b of Prefill \<Rightarrow> 0 | _ \<Rightarrow> saturating_add 16 (sc_decode_burst s) 1)\<rparr>"
    using c by (simp add: completed_def)
  have same: "sc_config s' = sc_config s" "sc_profile s' = sc_profile s" "sc_cancellations s' = sc_cancellations s"
    "sc_inflight s' = None" "sc_next_step_id s' = sc_next_step_id s"
    "sc_decode_burst s' = (case sb_kind b of Prefill \<Rightarrow> 0 | _ \<Rightarrow> saturating_add 16 (sc_decode_burst s) 1)"
    using s' by (metis (no_types, lifting) scheduler.select_convs scheduler.surjective scheduler.update_convs)+
  have planned: "\<exists>r. fmlookup (sc_requests s) i = Some r \<and> \<not> terminal_state (rt_state r) \<and> request_ok s i (updated u r)"
    if "plan_of us i = Some u" for i u
    using plan_of_good [OF good that] by (auto simp: good_update_def)
  have rok: "request_ok s' i q" if "fmlookup (sc_requests s') i = Some q" for i q
  proof (rule request_ok_frame [of s' s])
    show "request_ok s i q" using that sched_invD(3) [OF inv] planned unfolding req
      by (cases "plan_of us i") fastforce+
  qed (simp_all add: same ten)
  have "card (active_set (sc_requests s') t) \<le> card (active_set (sc_requests s) t)" for t
    by (rule active_set_mono) (use planned in \<open>fastforce simp: req updated_def split: option.splits\<close>)
  then have "tenants_ok s'"
    using sched_invD(2) [OF inv] room unfolding tenants_ok_def active_requests_card ten by (fastforce intro: order_trans)
  moreover have "fmdom' (sc_requests s) \<subseteq> fmdom' (sc_requests s')"
  proof
    fix i assume "i \<in> fmdom' (sc_requests s)"
    then have "fmlookup (sc_requests s') i \<noteq> None" by (auto simp: req fmlookup_dom'_iff split: option.splits)
    then show "i \<in> fmdom' (sc_requests s')" by (simp add: fmlookup_dom'_iff)
  qed
  ultimately show ?thesis
    using inv rok by (auto simp: sched_inv_def same statics_ok_def saturating_add_def split: batch_kind.splits)
qed

lemma units_services:
  assumes "units_ok s us ns"
  obtains ts where "rfold apply_service ns (sc_tenants s) = Inr ts"
    "\<forall>t. fmlookup ts t = map_option (\<lambda>tn. tn\<lparr>tn_service_units := tn_service_units tn + gained s t us\<rparr>) (fmlookup (sc_tenants s) t)"
proof -
  have known: "\<exists>tn. fmlookup (sc_tenants s) t = Some tn \<and> n = tn_service_units tn + gained s t us" if "map_of ns t = Some n" for t n
    using assms that by (simp add: units_ok_def)
  have none: "gained s t us = 0" if "map_of ns t = None" for t using assms that by (simp add: units_ok_def)
  have dist: "distinct (map fst ns)" using assms by (simp add: units_ok_def)
  have "\<forall>x\<in>set ns. fmlookup (sc_tenants s) (fst x) \<noteq> None"
  proof
    fix x assume "x \<in> set ns"
    then have "map_of ns (fst x) = Some (snd x)" using dist by simp
    then show "fmlookup (sc_tenants s) (fst x) \<noteq> None" using known by blast
  qed
  then obtain ts where ts: "rfold apply_service ns (sc_tenants s) = Inr ts"
    "\<forall>t. fmlookup ts t = (case map_of ns t of None \<Rightarrow> fmlookup (sc_tenants s) t
         | Some n \<Rightarrow> map_option (\<lambda>tn. tn\<lparr>tn_service_units := n\<rparr>) (fmlookup (sc_tenants s) t))"
    using apply_services [OF dist] by blast
  have "fmlookup ts t = map_option (\<lambda>tn. tn\<lparr>tn_service_units := tn_service_units tn + gained s t us\<rparr>) (fmlookup (sc_tenants s) t)" for t
  proof (cases "map_of ns t")
    case None
    then show ?thesis using ts(2) none by (cases "fmlookup (sc_tenants s) t") simp_all
  next
    case (Some n)
    then show ?thesis using ts(2) known [OF Some] by auto
  qed
  with ts(1) show ?thesis using that by blast
qed

lemma units_room:
  assumes "units_ok s us ns" and "tenants_ok s" and "fmlookup (sc_tenants s) t = Some tn"
  shows "tn_service_units tn + gained s t us < 2 ^ 64"
proof (cases "map_of ns t")
  case None
  then have "gained s t us = 0" using assms(1) by (simp add: units_ok_def)
  then show ?thesis using assms(2,3) by (simp add: tenants_ok_def)
next
  case (Some n)
  then have "n < 2 ^ 64 \<and> (\<exists>tn. fmlookup (sc_tenants s) t = Some tn \<and> n = tn_service_units tn + gained s t us)"
    using assms(1) by (simp only: units_ok_def)
  then show ?thesis using assms(3) by simp
qed

lemma units_failed:
  assumes "list_all2 (good_update s False) rows us"
  shows "units_ok s us []"
  using gained_failed [OF assms] by (simp add: units_ok_def)

text \<open>Once the rows have been checked, the update of requests and tenants cannot fail.\<close>

lemma apply_plan:
  assumes inv: "sched_inv s" and b: "sc_inflight s = Some b" and good: "list_all2 (good_update s success) (sb_rows b) us"
    and units: "units_ok s us ns"
  shows "\<exists>s'. rbind (rfold apply_update us (sc_requests s)) (\<lambda>requests. rbind (rfold apply_service ns (sc_tenants s)) (\<lambda>tenants.
       Inr (s\<lparr>sc_inflight := None, sc_requests := requests, sc_tenants := tenants,
          sc_decode_burst := (case sb_kind b of Prefill \<Rightarrow> 0 | _ \<Rightarrow> saturating_add 16 (sc_decode_burst s) 1)\<rparr>, ()))) = Inr (s', ())
     \<and> completed s b success us s'"
proof -
  have bok: "batch_ok s b" by (rule sched_invD(4) [OF inv b])
  have ids: "distinct (map cu_request_id us)" unfolding good_updates_ids [OF good] using bok by (simp add: batch_ok_def)
  have "\<forall>u\<in>set us. fmlookup (sc_requests s) (cu_request_id u) \<noteq> None"
    using good by (fastforce simp: list_all2_conv_all_nth in_set_conv_nth good_update_def)
  then obtain rs where rs: "rfold apply_update us (sc_requests s) = Inr rs"
    "\<forall>i. fmlookup rs i = (case plan_of us i of None \<Rightarrow> fmlookup (sc_requests s) i
       | Some u \<Rightarrow> map_option (updated u) (fmlookup (sc_requests s) i))" using apply_updates [OF ids] by blast
  obtain ts where ts: "rfold apply_service ns (sc_tenants s) = Inr ts"
    "\<forall>t. fmlookup ts t = map_option (\<lambda>tn. tn\<lparr>tn_service_units := tn_service_units tn + gained s t us\<rparr>) (fmlookup (sc_tenants s) t)"
    by (rule units_services [OF units])
  show ?thesis
    using rs ts good units_room [OF units sched_invD(2) [OF inv]] by (auto simp: completed_def)
qed

lemma complete_inner_ok:
  assumes inv: "sched_inv s"
  shows "returns {Err NoInflight, Err Commit, Err Overflow}
     (\<lambda>(s', _). sched_inv s' \<and> (\<exists>b us. sc_inflight s = Some b \<and> completed s b success us s'))
     (complete_inner success cs explicit s)"
proof (cases "sc_inflight s")
  case None
  then show ?thesis by (simp add: complete_inner_def)
next
  case (Some b)
  have bok: "batch_ok s b" by (rule sched_invD(4) [OF inv Some])
  have len: "length (sb_rows b) \<le> 64"
    using bok sched_invD(1) [OF inv] by (simp add: batch_ok_def statics_ok_def)
  let ?E = "{Err NoInflight, Err Commit, Err Overflow}"
  have placed: "returns ?E (\<lambda>_. True) (rfold (place_completion (sb_rows b)) cs (replicate MAXIMUM_BATCH_ROWS None))"
    using len by (intro returns_mono [OF place_completions]) auto
  have rows: "returns ?E (\<lambda>(us, ns). list_all2 (good_update s success) (sb_rows b) us \<and> units_ok s us ns)
      (rfold (complete_row s (sb_kind b) success by_row) (enumerate 0 (sb_rows b)) ([], []))" for by_row
    by (rule returns_mono [OF complete_rows_ok [OF inv Some, of "sb_rows b" "[]" "[]" success by_row 0]])
      (use len units_failed units_failed [of s "[]" "[]"] in \<open>auto split: if_splits\<close>)
  let ?Q = "\<lambda>(s', _). sched_inv s' \<and> (\<exists>b us. sc_inflight s = Some b \<and> completed s b success us s')"
  let ?K = "\<lambda>(us, ns). rbind (rfold apply_update us (sc_requests s)) (\<lambda>requests. rbind (rfold apply_service ns (sc_tenants s)) (\<lambda>tenants.
       Inr (s\<lparr>sc_inflight := None, sc_requests := requests, sc_tenants := tenants,
          sc_decode_burst := (case sb_kind b of Prefill \<Rightarrow> 0 | _ \<Rightarrow> saturating_add 16 (sc_decode_burst s) 1)\<rparr>, ())))"
  have plan: "returns ?E ?Q (?K x)" if "case x of (us, ns) \<Rightarrow> list_all2 (good_update s success) (sb_rows b) us \<and> units_ok s us ns" for x
    using apply_plan [OF inv Some, of success "fst x" "snd x"] completed_inv [OF inv Some] Some that by (cases x) auto
  have "returns ?E ?Q (rbind (rfold (place_completion (sb_rows b)) cs (replicate MAXIMUM_BATCH_ROWS None))
      (\<lambda>by_row. rbind (rfold (complete_row s (sb_kind b) success by_row) (enumerate 0 (sb_rows b)) ([], [])) ?K))"
    by (rule returns_rbind [OF placed], rule returns_rbind [OF rows]) (rule plan)
  then show ?thesis unfolding complete_inner_def Some ok_or_simps rbind_simps Let_def by (simp only: split: if_split) simp
qed

section \<open>The work that is left\<close>

definition remaining :: "request \<Rightarrow> nat" where
  "remaining r = (if terminal_state (rt_state r) then 0
     else (rs_prompt_tokens (rt_spec r) - rt_prompt_done r) + (rs_maximum_new_tokens (rt_spec r) - rt_generated r))"

definition work :: "scheduler \<Rightarrow> nat" where
  "work s = (\<Sum>i\<in>fmdom' (sc_requests s). remaining (the (fmlookup (sc_requests s) i)))"

definition processed :: "scheduler \<Rightarrow> nat \<Rightarrow> nat" where
  "processed s t = (\<Sum>i\<in>fmdom' (sc_requests s). let r = the (fmlookup (sc_requests s) i) in
     if rs_tenant (rt_spec r) = t then rt_prompt_done r + rt_generated r else 0)"

lemma sum_plan:
  fixes f :: "completion_update \<Rightarrow> nat"
  assumes "finite D" and "distinct (map cu_request_id us)" and "cu_request_id ` set us \<subseteq> D"
  shows "(\<Sum>u\<leftarrow>us. f u) = (\<Sum>i\<in>D. case plan_of us i of None \<Rightarrow> 0 | Some u \<Rightarrow> f u)"
  using assms(2,3)
proof (induction us)
  case (Cons u us)
  let ?g = "\<lambda>us i. case plan_of us i of None \<Rightarrow> 0 | Some u \<Rightarrow> f u" and ?k = "cu_request_id u"
  have none: "plan_of us ?k = None" using Cons.prems(1) by (simp add: plan_of_def map_of_eq_None_iff image_image)
  have plan: "plan_of (u # us) i = (if i = ?k then Some u else plan_of us i)" for i by (simp add: plan_of_def)
  have k: "?k \<in> D" using Cons.prems(2) by simp
  have "(\<Sum>i\<in>D. ?g (u # us) i) = f u + (\<Sum>i\<in>D - {?k}. ?g (u # us) i)"
    by (subst sum.remove [OF assms(1) k]) (simp add: plan)
  also have "(\<Sum>i\<in>D - {?k}. ?g (u # us) i) = (\<Sum>i\<in>D. ?g us i)"
    using sum.remove [OF assms(1) k, of "?g us"] by (simp add: plan none)
  finally show ?case using Cons by simp
qed (simp add: plan_of_def)

lemma completed_dom:
  assumes "completed s b success us s'"
  shows "fmdom' (sc_requests s') = fmdom' (sc_requests s)"
proof -
  have "fmlookup (sc_requests s') i =
      (case plan_of us i of None \<Rightarrow> fmlookup (sc_requests s) i | Some u \<Rightarrow> map_option (updated u) (fmlookup (sc_requests s) i))" for i
    using assms by (simp add: completed_def)
  then have "fmlookup (sc_requests s') i = None \<longleftrightarrow> fmlookup (sc_requests s) i = None" for i by (simp split: option.split)
  then show ?thesis by (simp add: set_eq_iff fmlookup_dom'_iff flip: not_None_eq)
qed

lemma completed_lookup:
  assumes "completed s b success us s'"
  shows "fmlookup (sc_requests s') i =
      (case plan_of us i of None \<Rightarrow> fmlookup (sc_requests s) i | Some u \<Rightarrow> map_option (updated u) (fmlookup (sc_requests s) i))"
  using assms by (simp add: completed_def)

lemma completed_plan:
  assumes "batch_ok s b" and "completed s b success us s'"
  shows "distinct (map cu_request_id us)" and "cu_request_id ` set us \<subseteq> fmdom' (sc_requests s)"
proof -
  have good: "list_all2 (good_update s success) (sb_rows b) us" using assms(2) by (simp add: completed_def)
  show "distinct (map cu_request_id us)" unfolding good_updates_ids [OF good] using assms(1) by (simp add: batch_ok_def)
  have "set (map cu_request_id us) \<subseteq> fmdom' (sc_requests s)"
    unfolding good_updates_ids [OF good] using assms(1) by (auto simp: batch_ok_def row_ok_def intro: fmdom'I)
  then show "cu_request_id ` set us \<subseteq> fmdom' (sc_requests s)" by simp
qed

definition total_progress :: "scheduler \<Rightarrow> completion_update list \<Rightarrow> nat" where
  "total_progress s us = (\<Sum>u\<leftarrow>us. progress (the (fmlookup (sc_requests s) (cu_request_id u))) u)"

lemma gained_le_total: "gained s t us \<le> total_progress s us"
  unfolding gained_def total_progress_def by (rule sum_list_mono) simp

lemma remaining_updated:
  assumes "request_ok s i (updated u r)" and "\<not> terminal_state (rt_state r)" and "rt_prompt_done r \<le> cu_prompt_done u" "rt_generated r \<le> cu_generated u"
  shows "remaining (updated u r) + progress r u \<le> remaining r"
  using assms by (auto simp: request_ok_def updated_def remaining_def progress_def)

lemma completed_work:
  assumes "batch_ok s b" and c: "completed s b success us s'"
  shows "work s' + total_progress s us \<le> work s"
proof -
  let ?D = "fmdom' (sc_requests s)" and ?r = "\<lambda>i. the (fmlookup (sc_requests s) i)"
  let ?p = "\<lambda>u. progress (?r (cu_request_id u)) u"
  have good: "list_all2 (good_update s success) (sb_rows b) us" using c by (simp add: completed_def)
  have step: "remaining (the (fmlookup (sc_requests s') i)) + (case plan_of us i of None \<Rightarrow> 0 | Some u \<Rightarrow> ?p u) \<le> remaining (?r i)" for i
  proof (cases "plan_of us i")
    case (Some u)
    obtain row where "good_update s success row u" "br_request_id row = i" by (rule plan_of_good [OF good Some])
    then obtain r where "fmlookup (sc_requests s) i = Some r" "cu_request_id u = i" "remaining (updated u r) + progress r u \<le> remaining r"
      using remaining_updated by (auto simp: good_update_def)
    then show ?thesis using Some by (simp add: completed_lookup [OF c])
  qed (simp add: completed_lookup [OF c])
  have "work s' + total_progress s us = (\<Sum>i\<in>?D. remaining (the (fmlookup (sc_requests s') i)) + (case plan_of us i of None \<Rightarrow> 0 | Some u \<Rightarrow> ?p u))"
    unfolding work_def total_progress_def sum_plan [OF finite_fmdom' completed_plan [OF assms]] completed_dom [OF c] by (rule sum.distrib [symmetric])
  also have "\<dots> \<le> work s" unfolding work_def by (rule sum_mono) (rule step)
  finally show ?thesis .
qed

lemma completed_progress:
  assumes "batch_ok s b" and "completed s b True us s'"
  shows "0 < total_progress s us"
proof -
  have good: "list_all2 (good_update s True) (sb_rows b) us" using assms(2) by (simp add: completed_def)
  obtain row rows u vs where "sb_rows b = row # rows" "us = u # vs" "good_update s True row u"
    using good assms(1) by (cases "sb_rows b"; cases us) (auto simp: batch_ok_def)
  then show ?thesis by (auto simp: total_progress_def good_update_def)
qed

text \<open>The service of a tenant grows by what its requests processed.\<close>

lemma completed_service:
  assumes "batch_ok s b" and c: "completed s b success us s'"
  shows "processed s' t = processed s t + gained s t us"
proof -
  let ?D = "fmdom' (sc_requests s)" and ?r = "\<lambda>i. the (fmlookup (sc_requests s) i)"
  let ?p = "\<lambda>u. if tenant_id s u = t then progress (?r (cu_request_id u)) u else 0"
  let ?n = "\<lambda>r. if rs_tenant (rt_spec r) = t then rt_prompt_done r + rt_generated r else 0"
  have good: "list_all2 (good_update s success) (sb_rows b) us" using c by (simp add: completed_def)
  have step: "?n (the (fmlookup (sc_requests s') i)) = ?n (?r i) + (case plan_of us i of None \<Rightarrow> 0 | Some u \<Rightarrow> ?p u)" for i
  proof (cases "plan_of us i")
    case (Some u)
    obtain row where "good_update s success row u" "br_request_id row = i" by (rule plan_of_good [OF good Some])
    then obtain r where "fmlookup (sc_requests s) i = Some r" "cu_request_id u = i"
      "rt_prompt_done r \<le> cu_prompt_done u" "rt_generated r \<le> cu_generated u" by (auto simp: good_update_def)
    then show ?thesis using Some by (simp add: completed_lookup [OF c] updated_def tenant_id_def progress_def)
  qed (simp add: completed_lookup [OF c])
  show ?thesis
    unfolding processed_def gained_def sum_plan [OF finite_fmdom' completed_plan [OF assms]] completed_dom [OF c] Let_def step
    by (rule sum.distrib)
qed

section \<open>Serving to the end\<close>

lemma row_weight_remaining:
  assumes "request_ok s i r" and "row_ok kind (sc_requests s) row" and "fmlookup (sc_requests s) i = Some r" and "br_request_id row = i"
  shows "row_weight kind row \<le> remaining r"
  using assms by (cases kind) (auto simp: row_ok_def row_weight_def remaining_def request_ok_def terminal_state_def)

lemma batch_weight:
  assumes inv: "sched_inv s" and b: "sc_inflight s = Some b"
  shows "sum_list (map (row_weight (sb_kind b)) (sb_rows b)) \<le> work s"
proof -
  have bok: "batch_ok s b" by (rule sched_invD(4) [OF inv b])
  let ?rem = "\<lambda>i. remaining (the (fmlookup (sc_requests s) i))"
  have "sum_list (map (row_weight (sb_kind b)) (sb_rows b)) \<le> sum_list (map (?rem \<circ> br_request_id) (sb_rows b))"
  proof (rule sum_list_mono)
    fix row assume "row \<in> set (sb_rows b)"
    then obtain r tn where "row_ok (sb_kind b) (sc_requests s) row" "fmlookup (sc_requests s) (br_request_id row) = Some r"
      "request_ok s (br_request_id row) r" by (rule batch_row [OF inv b])
    then show "row_weight (sb_kind b) row \<le> (?rem \<circ> br_request_id) row" using row_weight_remaining by simp
  qed
  also have "\<dots> = sum ?rem (set (map br_request_id (sb_rows b)))"
    using bok by (simp add: batch_ok_def sum_list_distinct_conv_sum_set flip: map_map)
  also have "\<dots> \<le> work s"
    unfolding work_def using bok by (intro sum_mono2) (auto simp: batch_ok_def row_ok_def intro: fmdom'I)
  finally show ?thesis .
qed

lemma complete_rows_total:
  assumes inv: "sched_inv s" and b: "sc_inflight s = Some b"
  shows "set rows \<subseteq> set (sb_rows b) \<Longrightarrow> length us + length rows \<le> 64 \<Longrightarrow> length us = n \<Longrightarrow> units_ok s us ns \<Longrightarrow>
    (\<forall>t tn. fmlookup (sc_tenants s) t = Some tn \<longrightarrow>
       tn_service_units tn + gained s t us + sum_list (map (row_weight (sb_kind b)) rows) < 2 ^ 64) \<Longrightarrow>
    \<exists>x. rfold (complete_row s (sb_kind b) True (replicate 64 None)) (enumerate n rows) (us, ns) = Inr x"
proof (induction rows arbitrary: n us ns)
  case (Cons row rows)
  obtain r tn where rok: "row_ok (sb_kind b) (sc_requests s) row" and r: "fmlookup (sc_requests s) (br_request_id row) = Some r"
    and req: "request_ok s (br_request_id row) r"
    and tn: "fmlookup (sc_tenants s) (rs_tenant (rt_spec r)) = Some tn" by (rule batch_row [OF inv b]) (use Cons.prems(1) in auto)
  let ?t = "rs_tenant (rt_spec r)" and ?w = "row_weight (sb_kind b) row"
  have none: "replicate 64 None ! n = (None :: batch_completion option)" using Cons.prems(2,3) by simp
  obtain u where u: "row_result (sb_kind b) None r row = Inr (u, ?w)" "?w = progress r u" "good_update s True row u"
    using row_result_ok [OF req rok r, of None] by auto
  have id: "tenant_id s u = ?t" "the (fmlookup (sc_requests s) (cu_request_id u)) = r"
    using u(3) r by (auto simp: good_update_def tenant_id_def)
  let ?k = "case map_of ns ?t of None \<Rightarrow> tn_service_units tn | Some k \<Rightarrow> k"
  have k: "?k = tn_service_units tn + gained s ?t us"
  proof (cases "map_of ns ?t")
    case None
    then show ?thesis using Cons.prems(4) by (simp add: units_ok_def)
  next
    case (Some m)
    then have "\<exists>tn. fmlookup (sc_tenants s) ?t = Some tn \<and> m = tn_service_units tn + gained s ?t us"
      using Cons.prems(4) by (simp add: units_ok_def)
    then show ?thesis using Some tn by simp
  qed
  have room: "?k + ?w < 2 ^ 64" using Cons.prems(5) tn k by fastforce
  have len: "length ns < 64" using Cons.prems(2,4) by (simp add: units_ok_def)
  have step: "complete_row s (sb_kind b) True (replicate 64 None) (n, row) (us, ns) = Inr (us @ [u], AList.update ?t (?k + ?w) ns)"
    unfolding complete_row_eq [OF r tn len] none u(1) using room by (simp add: checked_add_def)
  have "units_ok s (us @ [u]) (AList.update ?t (?k + ?w) ns)"
    using room u(2) id by (intro units_ok_update [OF Cons.prems(4) tn]) simp_all
  moreover have "tn_service_units x + gained s t (us @ [u]) + sum_list (map (row_weight (sb_kind b)) rows) < 2 ^ 64"
    if "fmlookup (sc_tenants s) t = Some x" for t x
  proof -
    have "gained s t (us @ [u]) \<le> gained s t us + ?w" unfolding gained_snoc id(2) using u(2) by simp
    moreover have "tn_service_units x + gained s t us + (?w + sum_list (map (row_weight (sb_kind b)) rows)) < 2 ^ 64"
      using Cons.prems(5) that by simp
    ultimately show ?thesis by linarith
  qed
  ultimately have "\<exists>x. rfold (complete_row s (sb_kind b) True (replicate 64 None)) (enumerate (Suc n) rows)
      (us @ [u], AList.update ?t (?k + ?w) ns) = Inr x"
    using Cons.prems(1-3) by (intro Cons.IH) auto
  then show ?case unfolding enumerate_simps rfold.simps step by simp
qed simp

lemma complete_batch_total:
  assumes inv: "sched_inv s" and b: "sc_inflight s = Some b"
    and room: "\<forall>t tn. fmlookup (sc_tenants s) t = Some tn \<longrightarrow> tn_service_units tn + work s < 2 ^ 64"
  shows "\<exists>s' us. complete_batch True s = (Inr (), s') \<and> sched_inv s' \<and> completed s b True us s'"
proof -
  have bok: "batch_ok s b" by (rule sched_invD(4) [OF inv b])
  have len: "length (sb_rows b) \<le> 64" using bok sched_invD(1) [OF inv] by (simp add: batch_ok_def statics_ok_def)
  obtain us ns where plan: "rfold (complete_row s (sb_kind b) True (replicate 64 None)) (enumerate 0 (sb_rows b)) ([], []) = Inr (us, ns)"
  proof -
    have "\<exists>x. rfold (complete_row s (sb_kind b) True (replicate 64 None)) (enumerate 0 (sb_rows b)) ([], []) = Inr x"
      using len batch_weight [OF inv b] room units_failed [of s "[]" "[]"]
      by (intro complete_rows_total [OF inv b]) (fastforce simp: gained_def)+
    then show ?thesis using that by auto
  qed
  have ok: "list_all2 (good_update s True) (sb_rows b) us" "units_ok s us ns"
    using complete_rows_ok [OF inv b, of "sb_rows b" "[]" "[]" True "replicate 64 None" 0] len units_failed [of s "[]" "[]"]
    by (simp_all add: plan)
  obtain s' where s': "rbind (rfold apply_update us (sc_requests s)) (\<lambda>requests. rbind (rfold apply_service ns (sc_tenants s)) (\<lambda>tenants.
       Inr (s\<lparr>sc_inflight := None, sc_requests := requests, sc_tenants := tenants,
          sc_decode_burst := (case sb_kind b of Prefill \<Rightarrow> 0 | _ \<Rightarrow> saturating_add 16 (sc_decode_burst s) 1)\<rparr>, ()))) = Inr (s', ())"
     "completed s b True us s'" using apply_plan [OF inv b ok] by blast
  have "complete_inner True [] False s = Inr (s', ())"
    using len bok s'(1) plan by (simp add: complete_inner_def b Let_def batch_ok_def)
  then show ?thesis using s'(2) completed_inv [OF inv b s'(2)]
    by (auto simp: complete_batch_def complete_batch_with_commits_def complete_batch_internal_def transact_def)
qed

end
