(* ===== verification/Scheduler_Props.thy ===== *)
theory Scheduler_Props
  imports Scheduler_Main
begin

text \<open>
  The scheduler as a machine of its calls, and the properties of the states it reaches: they are
  well formed, no call panics, a live request always leads to a batch, the least served tenant
  goes first, service is accounted for, and serving comes to an end.
\<close>

section \<open>Calls\<close>

datatype scheduler_command =
    Admit request_spec nat | Cancel nat | ApplyCancellations | NextBatch
  | CompleteBatch bool | CompleteWithCommits bool "(nat \<times> nat) list" | CompleteWithResults bool "batch_completion list"

fun scheduler_call :: "scheduler_command \<Rightarrow> scheduler \<Rightarrow> scheduler_error fault option \<times> scheduler" where
  "scheduler_call (Admit spec cached) s = apfst failure (admit_with_prefix spec cached s)"
| "scheduler_call (Cancel i) s = apfst failure (cancel i s)"
| "scheduler_call ApplyCancellations s = apfst failure (apply_cancellations_at_boundary s)"
| "scheduler_call NextBatch s = apfst failure (next_batch s)"
| "scheduler_call (CompleteBatch ok) s = apfst failure (complete_batch ok s)"
| "scheduler_call (CompleteWithCommits ok cs) s = apfst failure (complete_batch_with_commits ok cs s)"
| "scheduler_call (CompleteWithResults ok cs) s = apfst failure (complete_batch_with_results ok cs s)"

text \<open>The lengths in a request are 32-bit numbers.\<close>

fun command_typed :: "scheduler_command \<Rightarrow> bool" where
  "command_typed (Admit spec cached) \<longleftrightarrow> spec_typed spec"
| "command_typed _ \<longleftrightarrow> True"

definition scheduler_exec :: "scheduler_command \<Rightarrow> scheduler \<Rightarrow> scheduler" where
  "scheduler_exec c s = (if command_typed c then snd (scheduler_call c s) else s)"

definition served :: "scheduler \<Rightarrow> bool" where
  "served s \<longleftrightarrow> sched_inv s \<and> widths_ok s"

text \<open>No operation changes the configuration or the profile.\<close>

definition static :: "scheduler \<Rightarrow> scheduler_config \<times> graph_profile" where
  "static s = (sc_config s, sc_profile s)"

lemmas scheduler_operations = admit_with_prefix_def cancel_def apply_cancellations_at_boundary_def complete_batch_def
  complete_batch_with_commits_def complete_batch_with_results_def complete_batch_internal_def

lemma transactional_returns_served:
  assumes "\<And>s. sched_inv s \<Longrightarrow> returns E (\<lambda>(s', _). sched_inv s') (inner s)" and "Panic \<notin> E"
    and "\<And>s s' x. inner s = Inr (s', x) \<Longrightarrow> static s' = static s"
  shows "transactional served inner"
proof
  show "served s'" if "served s" "inner s = Inr (s', x)" for s s' x
    using that assms(1) [of s] assms(3) [of s s' x] by (auto simp: served_def widths_ok_def static_def)
  show "inner s \<noteq> Inl Panic" if "served s" for s
    using that assms(1) [of s] assms(2) by (auto simp: served_def)
qed

lemma admit_config: "admit_inner spec cached s = Inr (s', x) \<Longrightarrow> static s' = static s"
  by (auto simp: admit_inner_def static_def result_simps split: if_splits)

lemma cancel_config: "cancel_inner i s = Inr (s', x) \<Longrightarrow> static s' = static s"
  by (auto simp: cancel_inner_def static_def result_simps split: if_splits)

lemma apply_cancellations_inner_ok:
  "sched_inv s \<Longrightarrow> returns {Err Inflight} (\<lambda>(s', _). sched_inv s') (apply_cancellations_inner s)"
  using apply_cancellations_inv [of s] by (auto simp: apply_cancellations_inner_def)

lemma complete_config: "complete_inner success cs explicit s = Inr (s', x) \<Longrightarrow> static s' = static s"
  by (auto simp: complete_inner_def static_def result_simps Let_def split: if_splits)

lemma next_batch_config: "static (snd (next_batch s)) = static s"
proof -
  have fin: "finalize_batch k sm rows t = Inr (b, t') \<Longrightarrow> static t' = static t" for k sm rows t b t'
    by (auto simp: finalize_batch_def static_def result_simps split: if_splits)
  have "shrink_batch k sm ids t = Inr (b, t') \<Longrightarrow> static t' = static t" for k sm ids t b t'
  proof (induction k sm ids t rule: shrink_batch.induct)
    case (1 k sm ids t)
    then show ?case using fin by (subst (asm) (2) shrink_batch.simps) (auto split: sum.splits fault.splits if_splits)
  qed
  then have decode: "build_decode_batch t = Inr (b, t') \<Longrightarrow> static t' = static t" for t b t'
    by (auto simp: build_decode_batch_def result_simps Let_def)
  have prefill: "build_prefill_batch t = Inr (b, t') \<Longrightarrow> static t' = static t" for t b t'
    using fin by (auto simp: build_prefill_batch_def result_simps)
  let ?t = "apply_cancellations s"
  have same: "static ?t = static s" by (simp add: apply_cancellations_def static_def)
  have built: "static (snd (case r of Inl f \<Rightarrow> (Inl f, ?t) | Inr (b, t') \<Rightarrow> (Inr (Some b), t'\<lparr>sc_inflight := Some b\<rparr>))) = static s"
    if "r = build_prefill_batch ?t \<or> r = build_decode_batch ?t" for r
  proof (cases r)
    case (Inr x)
    obtain b t' where x: "x = (b, t')" by (cases x)
    then have "static t' = static ?t" using that Inr decode [of ?t b t'] prefill [of ?t b t'] by argo
    then show ?thesis using Inr x same by (simp add: static_def)
  qed (simp add: same)
  show ?thesis unfolding next_batch_def Let_def by (simp add: same built)
qed

lemma cancel_keeps: "sched_inv s \<Longrightarrow> returns {Err UnknownRequest} (\<lambda>(s', _). sched_inv s') (cancel_inner i s)"
  by (erule returns_mono [OF cancel_inner_ok]) (simp_all add: case_prod_beta)

lemma complete_keeps:
  "sched_inv s \<Longrightarrow> returns {Err NoInflight, Err Commit, Err Overflow} (\<lambda>(s', _). sched_inv s') (complete_inner success cs explicit s)"
  by (erule returns_mono [OF complete_inner_ok]) (simp_all add: case_prod_beta)

interpretation cancel_tx: transactional served "cancel_inner i" for i
  by (rule transactional_returns_served [OF cancel_keeps]) (assumption, simp, rule cancel_config)

interpretation boundary_tx: transactional served apply_cancellations_inner
  by (rule transactional_returns_served [OF apply_cancellations_inner_ok])
    (auto simp: apply_cancellations_inner_def apply_cancellations_def static_def split: if_splits)

interpretation complete_tx: transactional served "complete_inner success cs explicit" for success cs explicit
  by (rule transactional_returns_served [OF complete_keeps]) (assumption, simp, rule complete_config)

lemma admit_keeps:
  "sched_inv s \<and> spec_typed spec \<Longrightarrow> returns {Err Request, Err Tenant, Err TenantLimit, Err UncapturedShape} (\<lambda>(s', _). sched_inv s') (admit_inner spec cached s)"
  by (rule returns_mono [OF admit_request_ok]) (simp_all add: case_prod_beta)

lemma admit_call:
  assumes "served s" and "spec_typed spec"
  shows "served (snd (admit_with_prefix spec cached s))" and "fst (admit_with_prefix spec cached s) \<noteq> Inl Panic"
proof -
  have ok: "returns {Err Request, Err Tenant, Err TenantLimit, Err UncapturedShape} (\<lambda>(s', _). sched_inv s') (admit_inner spec cached s)"
    using assms by (intro admit_keeps) (simp add: served_def)
  have "served (snd (admit_with_prefix spec cached s)) \<and> fst (admit_with_prefix spec cached s) \<noteq> Inl Panic"
  proof (cases "admit_inner spec cached s")
    case (Inl f)
    then show ?thesis using ok assms(1) by (auto simp: admit_with_prefix_def transact_def)
  next
    case (Inr x)
    obtain s' where "x = (s', ())" by (cases x) auto
    then show ?thesis using ok Inr assms(1) admit_config [of spec cached s s' "()"]
      by (simp add: admit_with_prefix_def transact_def served_def widths_ok_def static_def)
  qed
  then show "served (snd (admit_with_prefix spec cached s))" and "fst (admit_with_prefix spec cached s) \<noteq> Inl Panic" by simp_all
qed

lemma next_batch_call:
  assumes "served s"
  shows "served (snd (next_batch s))" and "fst (next_batch s) \<noteq> Inl Panic"
  using assms next_batch_safe [of s] next_batch_config [of s] by (auto simp: served_def widths_ok_def static_def)

lemma failure_Some: "failure r = Some f \<longleftrightarrow> r = Inl f"
  by (auto simp: failure_def split: sum.splits)

lemma transact_atomic: "failure (fst (transact inner s)) = Some f \<Longrightarrow> snd (transact inner s) = s"
  by (auto simp: transact_def failure_def split: sum.splits)

lemma scheduler_exec_keeps: "served s \<Longrightarrow> served (scheduler_exec c s)"
  by (cases c) (auto simp: scheduler_exec_def scheduler_operations next_batch_call
      intro: cancel_tx.keeps boundary_tx.keeps complete_tx.keeps admit_call(1) [unfolded admit_with_prefix_def])

interpretation scheduler: machine served scheduler_exec
  by unfold_locales (rule scheduler_exec_keeps)

lemma scheduler_call_no_panic: "served s \<Longrightarrow> command_typed c \<Longrightarrow> fst (scheduler_call c s) \<noteq> Some Panic"
  by (cases c) (auto simp: failure_Some scheduler_operations
      dest: cancel_tx.no_panic boundary_tx.no_panic complete_tx.no_panic next_batch_call(2) admit_call(2) [unfolded admit_with_prefix_def])

lemma exec_static: "static (scheduler_exec c s) = static s"
proof -
  have tx: "static (snd (transact inner s)) = static s" if "\<And>s' x. inner s = Inr (s', x) \<Longrightarrow> static s' = static s" for inner
    using that by (auto simp: transact_def split: sum.splits)
  have boundary: "static (apply_cancellations s) = static s" by (simp add: static_def apply_cancellations_def)
  show ?thesis
    by (cases c) (auto simp: scheduler_exec_def scheduler_operations next_batch_config apply_cancellations_inner_def boundary
        intro!: tx dest: admit_config cancel_config complete_config split: if_splits)
qed

text \<open>The schedulers the code can reach from a new one.\<close>

inductive scheduler_reachable :: "(8 word list \<Rightarrow> hash32) \<Rightarrow> scheduler \<Rightarrow> bool" for sha where
  start: "new_scheduler sha config profile tenants = Inr s \<Longrightarrow> maximum_prefill_tokens config < 2 ^ 32 \<Longrightarrow> scheduler_reachable sha s"
| call: "scheduler_reachable sha s \<Longrightarrow> scheduler_reachable sha (scheduler_exec c s)"

lemma new_scheduler_config: "new_scheduler sha config profile tenants = Inr s \<Longrightarrow> sc_config s = config"
  by (auto simp: new_scheduler_def result_simps split: if_splits)

lemma reachable_profile: "scheduler_reachable sha s \<Longrightarrow> verify_profile sha (sc_profile s) = Inr ()"
proof (induction rule: scheduler_reachable.induct)
  case (start config profile tenants s)
  then show ?case by (auto simp: new_scheduler_def result_simps split: if_splits)
next
  case (call s c)
  then show ?case using exec_static [of c s] by (simp add: static_def)
qed

lemma reachable_served: "scheduler_reachable sha s \<Longrightarrow> served s"
  by (induction rule: scheduler_reachable.induct)
    (simp_all add: scheduler_exec_keeps, simp add: served_def widths_ok_def new_scheduler_inv new_scheduler_config)

section \<open>Serving to the end\<close>

text \<open>The loop of a server that completes every batch with one token per decoding row.\<close>

fun drain :: "nat \<Rightarrow> scheduler \<Rightarrow> scheduler option" where
  "drain 0 s = None"
| "drain (Suc n) s = (case next_batch s of
      (Inr None, t) \<Rightarrow> Some t
    | (Inr (Some _), t) \<Rightarrow> (case complete_batch True t of (Inr _, u) \<Rightarrow> drain n u | (Inl _, _) \<Rightarrow> None)
    | (Inl _, _) \<Rightarrow> None)"

definition room :: "scheduler \<Rightarrow> bool" where
  "room s \<longleftrightarrow> sc_next_step_id s + work s + 1 < 2 ^ 64
     \<and> (\<forall>t tn. fmlookup (sc_tenants s) t = Some tn \<longrightarrow> tn_service_units tn + work s < 2 ^ 64)"

text \<open>What may become of a request: a cancelled one is cancelled, a live one goes on or finishes.\<close>

definition may_become :: "bool \<Rightarrow> request_state \<Rightarrow> request_state \<Rightarrow> bool" where
  "may_become c st st' \<longleftrightarrow> (if terminal_state st then st' = st else if c then st' = Cancelled else st' \<notin> {Cancelled, Failed})"

definition follows :: "scheduler \<Rightarrow> scheduler \<Rightarrow> bool" where
  "follows s t \<longleftrightarrow> sc_cancellations t = {} \<and> (\<forall>i r. fmlookup (sc_requests s) i = Some r \<longrightarrow>
     (\<exists>q. fmlookup (sc_requests t) i = Some q \<and> may_become (i \<in> sc_cancellations s) (rt_state r) (rt_state q)))"

lemma follows_trans:
  assumes "follows s t" and "follows t u"
  shows "follows s u"
  unfolding follows_def
proof (intro conjI allI impI)
  show "sc_cancellations u = {}" using assms(2) by (simp add: follows_def)
  fix i r assume "fmlookup (sc_requests s) i = Some r"
  then obtain q where q: "fmlookup (sc_requests t) i = Some q" "may_become (i \<in> sc_cancellations s) (rt_state r) (rt_state q)"
    using assms(1) unfolding follows_def by blast
  then obtain p where "fmlookup (sc_requests u) i = Some p" "may_become False (rt_state q) (rt_state p)"
    using assms by (force simp: follows_def)
  then show "\<exists>p. fmlookup (sc_requests u) i = Some p \<and> may_become (i \<in> sc_cancellations s) (rt_state r) (rt_state p)"
    using q(2) by (auto simp: may_become_def terminal_state_def split: if_splits)
qed

lemma follows_cancellations: "sched_inv s \<Longrightarrow> follows s (apply_cancellations s)"
  by (auto simp: follows_def apply_cancellations_lookup may_become_def cancelled_def terminal_state_def)
    (simp add: apply_cancellations_def)

lemma follows_started: "follows s t \<Longrightarrow> follows s (started t b)"
  by (simp add: follows_def started_def)

lemma completed_fields:
  assumes "completed s b success us s'"
  shows "sc_cancellations s' = sc_cancellations s" and "sc_inflight s' = None" and "sc_next_step_id s' = sc_next_step_id s"
    and "sc_config s' = sc_config s"
proof -
  obtain rs ts db where "s' = s\<lparr>sc_inflight := None, sc_requests := rs, sc_tenants := ts, sc_decode_burst := db\<rparr>"
    using assms unfolding completed_def by blast
  then show "sc_cancellations s' = sc_cancellations s" and "sc_inflight s' = None" and "sc_next_step_id s' = sc_next_step_id s"
    and "sc_config s' = sc_config s" by simp_all
qed

lemma follows_completed:
  assumes c: "completed s b True us s'" and "sc_cancellations s = {}"
  shows "follows s s'"
proof -
  have good: "list_all2 (good_update s True) (sb_rows b) us" using c by (simp add: completed_def)
  have "\<exists>q. fmlookup (sc_requests s') i = Some q \<and> may_become False (rt_state r) (rt_state q)"
    if r: "fmlookup (sc_requests s) i = Some r" for i r
  proof (cases "plan_of us i")
    case None
    then show ?thesis using r completed_lookup [OF c] by (auto simp: may_become_def terminal_state_def)
  next
    case (Some u)
    obtain row where "good_update s True row u" "br_request_id row = i" by (rule plan_of_good [OF good Some])
    then have "may_become False (rt_state r) (cu_state u)" using r by (auto simp: good_update_def may_become_def)
    then show ?thesis using r Some completed_lookup [OF c] by (simp add: updated_def)
  qed
  then show ?thesis using assms(2) completed_fields(1) [OF c] by (simp add: follows_def)
qed

lemma work_cancellations:
  assumes "sched_inv s"
  shows "work (apply_cancellations s) \<le> work s"
proof -
  let ?t = "apply_cancellations s"
  have "fmlookup (sc_requests ?t) i = None \<longleftrightarrow> fmlookup (sc_requests s) i = None" for i
    by (simp add: apply_cancellations_lookup [OF assms])
  then have dom: "fmdom' (sc_requests ?t) = fmdom' (sc_requests s)" by (simp add: set_eq_iff fmlookup_dom'_iff flip: not_None_eq)
  have "remaining (the (fmlookup (sc_requests ?t) i)) \<le> remaining (the (fmlookup (sc_requests s) i))" if "i \<in> fmdom' (sc_requests s)" for i
    using that by (auto simp: apply_cancellations_lookup [OF assms] fmlookup_dom'_iff remaining_def cancelled_def terminal_state_def)
  then show ?thesis unfolding work_def dom by (rule sum_mono)
qed

lemma room_started:
  assumes "sched_inv s" and "room s"
  shows "room (apply_cancellations s)" and "\<forall>t tn. fmlookup (sc_tenants (started (apply_cancellations s) b)) t = Some tn \<longrightarrow>
    tn_service_units tn + work (started (apply_cancellations s) b) < 2 ^ 64"
proof -
  have same: "sc_tenants (apply_cancellations s) = sc_tenants s" "sc_next_step_id (apply_cancellations s) = sc_next_step_id s"
    by (simp_all add: apply_cancellations_def)
  have "work (started (apply_cancellations s) b) = work (apply_cancellations s)" by (simp add: work_def started_def)
  then show "room (apply_cancellations s)" and "\<forall>t tn. fmlookup (sc_tenants (started (apply_cancellations s) b)) t = Some tn \<longrightarrow>
    tn_service_units tn + work (started (apply_cancellations s) b) < 2 ^ 64"
    using assms(2) work_cancellations [OF assms(1)] unfolding room_def by (fastforce simp: same started_def)+
qed

lemma drain_ends:
  "sched_inv s \<Longrightarrow> widths_ok s \<Longrightarrow> sc_inflight s = None \<Longrightarrow> room s \<Longrightarrow> work s < n \<Longrightarrow>
    \<exists>t. drain n s = Some t \<and> sched_inv t \<and> follows s t \<and> \<not> runnable t"
proof (induction n arbitrary: s)
  case (Suc n)
  let ?t = "apply_cancellations s"
  have step: "sc_next_step_id s + 1 < 2 ^ 64" using Suc.prems(4) by (simp add: room_def)
  have tinv: "sched_inv ?t" by (rule apply_cancellations_inv [OF Suc.prems(1,3)])
  consider (none) "\<not> runnable ?t" "next_batch s = (Inr None, ?t)"
    | (some) b where "next_batch s = (Inr (Some b), started ?t b)" "sched_inv (started ?t b)"
    using next_batch_total [OF Suc.prems(1,3,2) step] by blast
  then show ?case
  proof cases
    case none
    then show ?thesis using tinv follows_cancellations [OF Suc.prems(1)] by simp
  next
    case some
    let ?s = "started ?t b"
    have infl: "sc_inflight ?s = Some b" by (simp add: started_def)
    obtain u us where u: "complete_batch True ?s = (Inr (), u)" "sched_inv u" "completed ?s b True us u"
      using complete_batch_total [OF some(2) infl room_started(2) [OF Suc.prems(1,4)]] by blast
    have bok: "batch_ok ?s b" by (rule sched_invD(4) [OF some(2) infl])
    have ws: "work ?s = work ?t" by (simp add: work_def started_def)
    have less: "work u + total_progress ?s us \<le> work ?t" "0 < total_progress ?s us"
      using completed_work [OF bok u(3)] completed_progress [OF bok u(3)] ws by simp_all
    have "room u"
    proof -
      have "sc_next_step_id u = sc_next_step_id ?t + 1" using completed_fields(3) [OF u(3)] by (simp add: started_def)
      moreover have "tn_service_units tn + work u < 2 ^ 64" if tn: "fmlookup (sc_tenants u) t = Some tn" for t tn
      proof -
        obtain tn0 where "fmlookup (sc_tenants ?t) t = Some tn0" "tn_service_units tn = tn_service_units tn0 + gained ?s t us"
          using tn u(3) by (auto simp: completed_def started_def)
        moreover have "gained ?s t us \<le> total_progress ?s us" by (rule gained_le_total)
        ultimately show ?thesis using room_started(1) [OF Suc.prems(1,4)] less(1) by (fastforce simp: room_def)
      qed
      ultimately show ?thesis using room_started(1) [OF Suc.prems(1,4)] less by (simp add: room_def)
    qed
    moreover have "widths_ok u" using Suc.prems(2) completed_fields(4) [OF u(3)]
      by (simp add: widths_ok_def started_def apply_cancellations_def)
    moreover have "work u < n" using less Suc.prems(5) work_cancellations [OF Suc.prems(1)] by simp
    ultimately obtain v where v: "drain n u = Some v" "sched_inv v" "follows u v" "\<not> runnable v"
      using Suc.IH u(2) completed_fields(2) [OF u(3)] by blast
    have "follows s v"
    proof (rule follows_trans [OF _ v(3)], rule follows_trans)
      show "follows s ?s" by (rule follows_started [OF follows_cancellations [OF Suc.prems(1)]])
      show "follows ?s u" by (rule follows_completed [OF u(3)]) (simp add: started_def apply_cancellations_def)
    qed
    then show ?thesis using some(1) u(1) v by simp
  qed
qed simp

lemma next_batch_room:
  assumes inv: "sched_inv s" and w: "widths_ok s" and idle: "sc_inflight s = None" and b: "next_batch s = (Inr (Some b), s')"
  shows "sc_next_step_id s + 1 < 2 ^ 64"
proof (rule ccontr)
  assume full: "\<not> sc_next_step_id s + 1 < 2 ^ 64"
  let ?t = "apply_cancellations s"
  have no: "finalize_batch k sm rows ?t \<noteq> Inr x" for k sm rows x
    using full by (intro finalize_no_room) (simp add: apply_cancellations_def)
  have "shrink_batch k sm ids ?t \<noteq> Inr x" for k sm ids x
  proof (induction k sm ids ?t rule: shrink_batch.induct)
    case (1 k sm ids)
    then show ?case using no by (subst shrink_batch.simps) (auto split: sum.splits fault.splits)
  qed
  then have "build_decode_batch ?t \<noteq> Inr x" "build_prefill_batch ?t \<noteq> Inr x" for x
    using no by (auto simp: build_decode_batch_def build_prefill_batch_def result_simps Let_def)
  then show False
    using b idle unfolding next_batch_def Let_def by (auto split: if_splits sum.splits)
qed

section \<open>Properties\<close>

text \<open>
  (C11) Every scheduler that the calls can reach is well formed: every request is in the state that
  its progress says and within its lengths, no tenant has more live requests than its limit,
  and a batch in flight has distinct live rows that fit a captured graph.
\<close>

theorem reachable_scheduler_well_formed:
  assumes "scheduler_reachable sha s"
  shows "sched_inv s"
  using reachable_served [OF assms] by (simp add: served_def)

text \<open>
  (C16) No call on a reachable scheduler panics, and a call that fails leaves the scheduler as it
  was. Only \<open>next_batch\<close> may have applied the cancellations before it fails.
\<close>

theorem scheduler_calls_safe:
  assumes "scheduler_reachable sha s" and "command_typed c"
  shows "fst (scheduler_call c s) \<noteq> Some Panic
    \<and> (fst (scheduler_call c s) \<noteq> None \<longrightarrow> snd (scheduler_call c s) =
         (if c = NextBatch \<and> sc_inflight s = None then apply_cancellations s else s))"
proof -
  have served: "served s" by (rule reachable_served [OF assms(1)])
  have "snd (scheduler_call c s) = (if c = NextBatch \<and> sc_inflight s = None then apply_cancellations s else s)"
    if "fst (scheduler_call c s) \<noteq> None"
  proof (cases "c = NextBatch")
    case True
    have "fst (next_batch s) = Inl (the (fst (scheduler_call c s)))" using that True by (cases "fst (next_batch s)") (auto simp: failure_def)
    then show ?thesis using True by (auto simp: next_batch_def Let_def split: if_splits sum.splits)
  next
    case False
    then show ?thesis using that by (cases c) (auto simp: scheduler_operations dest: transact_atomic)
  qed
  then show ?thesis using scheduler_call_no_panic [OF served assms(2)] by blast
qed

text \<open>
  (C13) A live request leads to a batch: on a reachable scheduler with no batch in flight and step
  ids left, \<open>next_batch\<close> applies the cancellations and then returns a batch if any request is
  live, and \<open>None\<close> otherwise. The batch fits a captured graph and stays in flight.
\<close>

theorem live_request_gets_batch:
  assumes "scheduler_reachable sha s" and "sc_inflight s = None" and "sc_next_step_id s + 1 < 2 ^ 64"
  shows "if runnable (apply_cancellations s)
    then \<exists>b. next_batch s = (Inr (Some b), started (apply_cancellations s) b) \<and> batch_ok (started (apply_cancellations s) b) b
    else next_batch s = (Inr None, apply_cancellations s)"
proof -
  have "sched_inv s" "widths_ok s" using reachable_served [OF assms(1)] by (simp_all add: served_def)
  from next_batch_total [OF this(1) assms(2) this(2) assms(3)] show ?thesis
    by (auto simp: sched_inv_def started_def)
qed

text \<open>
  (C14) The least served tenant goes first. A batch is a prefill exactly if a request waits for
  prefill and none can decode or the decode burst is used up; its first row is, among all requests
  waiting for that kind of batch, one whose tenant has the least service for its weight.
\<close>

theorem least_served_first:
  assumes "scheduler_reachable sha s" and "next_batch s = (Inr (Some b), s')"
  defines "t \<equiv> apply_cancellations s"
  shows "(sb_kind b = Prefill \<longleftrightarrow> chooses_prefill t)
    \<and> (\<forall>i r. fmlookup (sc_requests t) i = Some r \<and> rt_state r = (if chooses_prefill t then WaitingPrefill else Decoding)
         \<longrightarrow> cheaper t (br_request_id (hd (sb_rows b))) i)"
proof -
  have inv: "sched_inv s" "widths_ok s" using reachable_served [OF assms(1)] by (simp_all add: served_def)
  have idle: "sc_inflight s = None" using assms(2) by (auto simp: next_batch_def split: if_splits)
  have tinv: "sched_inv t" unfolding t_def by (rule apply_cancellations_inv [OF inv(1) idle])
  have room: "sc_next_step_id s + 1 < 2 ^ 64" by (rule next_batch_room [OF inv idle assms(2)])
  let ?st = "if chooses_prefill t then WaitingPrefill else Decoding"
  obtain ids where ids: "sb_kind b = Prefill \<longleftrightarrow> chooses_prefill t" "ordered_requests t ?st None = Inr ids"
    "br_request_id (hd (sb_rows b)) = hd ids"
    using next_batch_total [OF inv(1) idle inv(2) room] assms(2) unfolding t_def by auto
  obtain ids' where "ordered_requests t ?st None = Inr ids'" "sorted_wrt (request_le t) ids'"
    "set ids' = {i. \<exists>r. fmlookup (sc_requests t) i = Some r \<and> rt_state r = ?st}"
    by (rule ordered_requests_eq [OF tinv, of ?st None]) (rule that, simp_all)
  then have sorted: "sorted_wrt (request_le t) ids" and set: "set ids = {i. \<exists>r. fmlookup (sc_requests t) i = Some r \<and> rt_state r = ?st}"
    using ids(2) by simp_all
  have "cheaper t (hd ids) i" if "fmlookup (sc_requests t) i = Some r" "rt_state r = ?st" for i r
  proof (cases "i = hd ids")
    case True
    then show ?thesis using cheaper_total by blast
  next
    case False
    then show ?thesis using sorted_hd_least [OF sorted, of i] that set by (auto intro: request_le_cheaper)
  qed
  then show ?thesis using ids by auto
qed

text \<open>
  (C15) Service is accounted for: whatever results a batch is completed with, the service of every
  tenant grows by exactly the prompt and output tokens by which its requests advance.
\<close>

theorem service_counts_tokens:
  assumes "scheduler_reachable sha s" and "complete_batch_internal success cs explicit s = (Inr (), s')"
    and "fmlookup (sc_tenants s) t = Some tn"
  shows "\<exists>tn'. fmlookup (sc_tenants s') t = Some tn'
    \<and> tn_service_units tn' + processed s t = tn_service_units tn + processed s' t
    \<and> (\<not> success \<longrightarrow> tn_service_units tn' = tn_service_units tn)"
proof -
  have inv: "sched_inv s" using reachable_served [OF assms(1)] by (simp add: served_def)
  have "complete_inner success cs explicit s = Inr (s', ())"
    using assms(2) by (simp add: complete_batch_internal_def transact_Inr)
  then obtain b us where b: "sc_inflight s = Some b" and c: "completed s b success us s'"
    using complete_inner_ok [OF inv, of success cs explicit] by auto
  have "processed s' t = processed s t + gained s t us" by (rule completed_service [OF sched_invD(4) [OF inv b] c])
  moreover have "gained s t us = 0" if "\<not> success" using c that gained_failed by (auto simp: completed_def)
  moreover have "fmlookup (sc_tenants s') t = Some (tn\<lparr>tn_service_units := tn_service_units tn + gained s t us\<rparr>)"
    using c assms(3) by (simp add: completed_def)
  ultimately show ?thesis by auto
qed

text \<open>
  (C12) Serving comes to an end: from a reachable scheduler with no batch in flight, taking the next
  batch and completing it, over and over, stops with no live request after at most as many
  batches as tokens are left to process. Every request that was cancelled is then cancelled and
  every other live one has finished.
\<close>

theorem serving_terminates:
  assumes "scheduler_reachable sha s" and "sc_inflight s = None" and "room s"
  shows "\<exists>t. drain (work s + 1) s = Some t \<and> (\<forall>i r. fmlookup (sc_requests s) i = Some r \<longrightarrow>
    (\<exists>q. fmlookup (sc_requests t) i = Some q \<and> rt_state q = (if terminal_state (rt_state r) then rt_state r
       else if i \<in> sc_cancellations s then Cancelled else Finished)))"
proof -
  have inv: "sched_inv s" "widths_ok s" using reachable_served [OF assms(1)] by (simp_all add: served_def)
  obtain t where t: "drain (work s + 1) s = Some t" "follows s t" "\<not> runnable t"
    using drain_ends [OF inv assms(2,3), of "work s + 1"] by auto
  have "\<exists>q. fmlookup (sc_requests t) i = Some q \<and> rt_state q = (if terminal_state (rt_state r) then rt_state r
       else if i \<in> sc_cancellations s then Cancelled else Finished)" if r: "fmlookup (sc_requests s) i = Some r" for i r
  proof -
    obtain q where q: "fmlookup (sc_requests t) i = Some q" "may_become (i \<in> sc_cancellations s) (rt_state r) (rt_state q)"
      using t(2) r unfolding follows_def by blast
    then have "terminal_state (rt_state q)" using t(3) by (auto simp: runnable_def)
    then show ?thesis using q by (auto simp: may_become_def terminal_state_def split: if_splits)
  qed
  then show ?thesis using t(1) by blast
qed

section \<open>A scheduler with two tenants\<close>

definition sample_config :: scheduler_config where
  "sample_config = \<lparr>maximum_batch_sequences = 4, maximum_prefill_tokens = 128, maximum_decode_burst = 2\<rparr>"

definition sample_profile :: graph_profile where
  "sample_profile = (case new_profile zero_hash sample_entries of Inr p \<Rightarrow> p)"

definition sample_tenants :: "tenant_config list" where
  "sample_tenants = [\<lparr>tc_tenant = 1, tc_weight = 1, tc_maximum_active_requests = 4\<rparr>,
     \<lparr>tc_tenant = 2, tc_weight = 3, tc_maximum_active_requests = 1\<rparr>]"

definition sample_spec :: "nat \<Rightarrow> nat \<Rightarrow> request_spec" where
  "sample_spec i t = \<lparr>rs_id = i, rs_tenant = t, rs_prompt_tokens = 100, rs_maximum_new_tokens = 5, rs_mtp_depth = 2, rs_sampling = Greedy\<rparr>"

definition sample_request :: "nat \<Rightarrow> nat \<Rightarrow> request" where
  "sample_request i t = \<lparr>rt_spec = sample_spec i t, rt_state = WaitingPrefill, rt_prompt_done = 0, rt_generated = 0\<rparr>"

definition sample_scheduler :: scheduler where
  "sample_scheduler = \<lparr>sc_config = sample_config, sc_profile = sample_profile,
     sc_tenants = fmupd 2 \<lparr>tn_config = sample_tenants ! 1, tn_service_units = 0\<rparr>
       (fmupd 1 \<lparr>tn_config = sample_tenants ! 0, tn_service_units = 0\<rparr> fmempty),
     sc_requests = fmupd 7 (sample_request 7 1) fmempty, sc_cancellations = {}, sc_inflight = None, sc_next_step_id = 1, sc_decode_burst = 0\<rparr>"

lemma sample_profile: "gp_entries sample_profile = sample_entries" "verify_profile zero_hash sample_profile = Inr ()"
  using sample_entries_valid by (simp_all add: sample_profile_def new_profile_def verify_profile_def sample_entries_sorted)

lemma sample_start:
  "new_scheduler zero_hash sample_config sample_profile sample_tenants = Inr (sample_scheduler\<lparr>sc_requests := fmempty\<rparr>)"
  by (simp add: new_scheduler_def sample_profile sample_config_def sample_tenants_def insert_tenant_def sample_scheduler_def)

lemma sample_admits:
  "scheduler_exec (Admit (sample_spec 7 1) 0) (sample_scheduler\<lparr>sc_requests := fmempty\<rparr>) = sample_scheduler"
  by (simp add: scheduler_exec_def admit_with_prefix_def transact_def admit_inner_def sample_spec_def sample_scheduler_def spec_typed_def
      active_requests_card active_set_def has_graph_for_request_def sample_profile sample_entries_def sample_entry_def
      sample_tenants_def sample_request_def)

lemma sample_scheduler_reachable: "scheduler_reachable zero_hash sample_scheduler"
proof -
  have "scheduler_reachable zero_hash (sample_scheduler\<lparr>sc_requests := fmempty\<rparr>)"
    by (rule scheduler_reachable.start [OF sample_start]) (simp add: sample_config_def)
  from scheduler_reachable.call [OF this, of "Admit (sample_spec 7 1) 0"] show ?thesis unfolding sample_admits .
qed

lemma sample_cancel: "apply_cancellations sample_scheduler = sample_scheduler"
  by (simp add: apply_cancellations_def sample_scheduler_def)

lemma sample_runnable: "runnable sample_scheduler"
  by (auto simp: runnable_def sample_scheduler_def sample_request_def terminal_state_def intro: exI [of _ 7])

lemma sample_fields: "sc_inflight sample_scheduler = None" "sc_next_step_id sample_scheduler = 1" "work sample_scheduler = 105"
  "fmlookup (sc_requests sample_scheduler) 7 = Some (sample_request 7 1)"
  by (simp_all add: sample_scheduler_def work_def remaining_def sample_request_def sample_spec_def terminal_state_def)

lemma sample_room: "room sample_scheduler"
  unfolding room_def sample_fields by (auto simp: sample_scheduler_def)

lemma reachable_scheduler_well_formed_witness:
  "scheduler_reachable zero_hash sample_scheduler \<and> sched_inv sample_scheduler"
  using reachable_scheduler_well_formed [OF sample_scheduler_reachable] sample_scheduler_reachable by simp

lemma scheduler_calls_safe_witness:
  "scheduler_call (Cancel 9) sample_scheduler = (Some (Err UnknownRequest), sample_scheduler)"
proof -
  have "fst (scheduler_call (Cancel 9) sample_scheduler) = Some (Err UnknownRequest)"
    by (simp add: cancel_def transact_def cancel_inner_def sample_scheduler_def failure_def)
  then show ?thesis using scheduler_calls_safe [OF sample_scheduler_reachable, of "Cancel 9"] by (simp add: prod_eq_iff)
qed

lemma live_request_gets_batch_witness:
  "\<exists>b. next_batch sample_scheduler = (Inr (Some b), started sample_scheduler b)"
  using live_request_gets_batch [OF sample_scheduler_reachable] sample_runnable by (auto simp: sample_fields sample_cancel)

lemma serving_terminates_witness:
  "\<exists>t q. drain 106 sample_scheduler = Some t \<and> fmlookup (sc_requests t) 7 = Some q \<and> rt_state q = Finished"
proof -
  have live: "\<not> terminal_state (rt_state (sample_request 7 1))" "7 \<notin> sc_cancellations sample_scheduler"
    by (simp_all add: sample_request_def terminal_state_def sample_scheduler_def)
  obtain t where t: "drain 106 sample_scheduler = Some t" "\<forall>i r. fmlookup (sc_requests sample_scheduler) i = Some r \<longrightarrow>
    (\<exists>q. fmlookup (sc_requests t) i = Some q \<and> rt_state q = (if terminal_state (rt_state r) then rt_state r
       else if i \<in> sc_cancellations sample_scheduler then Cancelled else Finished))"
    using serving_terminates [OF sample_scheduler_reachable sample_fields(1) sample_room] unfolding sample_fields(3) by auto
  from t(2) [rule_format, OF sample_fields(4)] t(1) live show ?thesis by auto
qed

lemma sample_batch:
  obtains b where "next_batch sample_scheduler = (Inr (Some b), started sample_scheduler b)" "sched_inv (started sample_scheduler b)"
proof -
  have "sched_inv sample_scheduler" "widths_ok sample_scheduler"
    using reachable_served [OF sample_scheduler_reachable] by (simp_all add: served_def)
  from next_batch_total [OF this(1) sample_fields(1) this(2)] sample_runnable show ?thesis
    using that by (auto simp: sample_fields sample_cancel)
qed

lemma least_served_first_witness:
  "\<exists>b s'. next_batch sample_scheduler = (Inr (Some b), s') \<and> sb_kind b = Prefill
     \<and> cheaper sample_scheduler (br_request_id (hd (sb_rows b))) 7"
proof -
  obtain b where b: "next_batch sample_scheduler = (Inr (Some b), started sample_scheduler b)" by (rule sample_batch)
  have "waiting sample_scheduler 7" by (simp add: waiting_def sample_fields) (simp add: sample_request_def sample_spec_def)
  moreover have "rt_state r \<noteq> Decoding" if "fmlookup (sc_requests sample_scheduler) i = Some r" for i r
    using that by (auto simp: sample_scheduler_def sample_request_def split: if_splits)
  ultimately have "chooses_prefill sample_scheduler" by (auto simp: chooses_prefill_def)
  then have "sb_kind b = Prefill \<and> cheaper sample_scheduler (br_request_id (hd (sb_rows b))) 7"
    using least_served_first [OF sample_scheduler_reachable b] sample_fields(4) unfolding sample_cancel by (auto simp: sample_request_def)
  then show ?thesis using b by blast
qed

lemma service_counts_tokens_witness:
  "\<exists>b s' tn. next_batch sample_scheduler = (Inr (Some b), started sample_scheduler b)
     \<and> complete_batch True (started sample_scheduler b) = (Inr (), s')
     \<and> fmlookup (sc_tenants s') 1 = Some tn \<and> tn_service_units tn = processed s' 1"
proof -
  obtain b where b: "next_batch sample_scheduler = (Inr (Some b), started sample_scheduler b)"
    and inv: "sched_inv (started sample_scheduler b)" by (rule sample_batch)
  let ?s = "started sample_scheduler b"
  have "scheduler_exec NextBatch sample_scheduler = ?s" using b by (simp add: scheduler_exec_def)
  then have reach: "scheduler_reachable zero_hash ?s" using scheduler_reachable.call [OF sample_scheduler_reachable, of NextBatch] by simp
  have t: "fmlookup (sc_tenants ?s) 1 = Some \<lparr>tn_config = sample_tenants ! 0, tn_service_units = 0\<rparr>"
    by (simp add: started_def sample_scheduler_def)
  have "sc_inflight ?s = Some b" by (simp add: started_def)
  moreover have "tn_service_units tn + work ?s < 2 ^ 64" if "fmlookup (sc_tenants ?s) t = Some tn" for t tn
    using that sample_room by (auto simp: room_def work_def started_def)
  ultimately obtain s' where s': "complete_batch True ?s = (Inr (), s')" using complete_batch_total [OF inv] by blast
  have "processed ?s 1 = 0" by (simp add: processed_def started_def sample_scheduler_def sample_request_def Let_def)
  moreover have "complete_batch_internal True [] False ?s = (Inr (), s')"
    using s' by (simp add: complete_batch_def complete_batch_with_commits_def)
  ultimately show ?thesis using service_counts_tokens [OF reach _ t, of True "[]" False s'] b s' by auto
qed

end
