(* ===== verification/Compile.thy ===== *)
theory Compile
  imports Scheduler_Props
begin

text \<open>
  \<open>crates/glm-scheduler/src/compile.rs\<close>: the compiler from a scheduled batch and the graph entry it
  was chosen for to a step plan with its collective schedule, and how the scheduler, the graph
  profile and the step plan fit together.
\<close>

section \<open>Data\<close>

record route_catalog =
  tp_route_id :: nat
  dcp_ckv_route_id :: nat
  dcp_query_route_id :: nat
  dcp_candidate_route_id :: nat
  dcp_partial_route_id :: nat
  greedy_route_id :: nat
  top_k_route_id :: nat
  mass_route_id :: nat
  packed_ckv_bytes_per_row :: nat
  query_bytes_per_row :: nat
  candidate_bytes_per_row :: nat
  partial_state_bytes_per_row :: nat
  tp_reduce_bytes_per_row :: nat
  greedy_bytes_per_row :: nat
  top_k_bytes_per_row :: nat
  mass_bytes_per_row :: nat

record compiled_step =
  cp_plan :: step_plan
  cp_schedule :: collective_schedule

record step_plan_compiler =
  sp_epoch :: nat
  sp_routes :: route_catalog

datatype compile_error = Epoch | Catalog | Batch | Graph | Route | Sampling | Overflow | Plan plan_error

section \<open>Operations\<close>

definition validate_catalog :: "route_catalog \<Rightarrow> (compile_error, unit) result" where
  "validate_catalog c =
     (let routes = [tp_route_id c, dcp_ckv_route_id c, dcp_query_route_id c, dcp_candidate_route_id c,
            dcp_partial_route_id c, greedy_route_id c, top_k_route_id c, mass_route_id c];
          payloads = [packed_ckv_bytes_per_row c, query_bytes_per_row c, candidate_bytes_per_row c,
            partial_state_bytes_per_row c, tp_reduce_bytes_per_row c, greedy_bytes_per_row c,
            top_k_bytes_per_row c, mass_bytes_per_row c]
      in if 0 \<in> set routes \<or> 0 \<in> set payloads then Inl (Err Catalog) else Inr ())"

definition new_compiler :: "nat \<Rightarrow> route_catalog \<Rightarrow> (compile_error, step_plan_compiler) result" where
  "new_compiler epoch routes =
     (if epoch = 0 then Inl (Err Epoch)
      else rbind (validate_catalog routes) (\<lambda>_. Inr \<lparr>sp_epoch = epoch, sp_routes = routes\<rparr>))"

definition scaled :: "nat \<Rightarrow> nat \<Rightarrow> (compile_error, nat) result" where
  "scaled bytes_per_row rows = ok_or (checked_mul 32 bytes_per_row rows) Overflow"

definition push :: "collective_kind \<Rightarrow> nat \<Rightarrow> nat \<Rightarrow> collective_op list \<Rightarrow> (compile_error, collective_op list) result" where
  "push kind route_id payload_bytes operations =
     rbind (ok_or (try_uint 16 (length operations)) Overflow) (\<lambda>ordinal.
       Inr (operations @ [\<lparr>op_ordinal = ordinal, op_kind = kind, op_route_id = route_id,
              op_payload_bytes = payload_bytes, op_participant_mask = TP_RANK_MASK\<rparr>]))"

text \<open>The operations that move keys, queries and partial states between ranks, by transport.\<close>

definition push_attention :: "route_catalog \<Rightarrow> attention_transport \<Rightarrow> nat \<Rightarrow> collective_op list \<Rightarrow>
    (compile_error, collective_op list) result" where
  "push_attention routes transport query_rows operations = (case transport of
      PrefillCkv \<Rightarrow>
        rbind (scaled (packed_ckv_bytes_per_row routes) query_rows) (\<lambda>payload.
        push DcpPackedCkv (dcp_ckv_route_id routes) payload operations)
    | PrefillQuery \<Rightarrow>
        rbind (scaled (query_bytes_per_row routes) query_rows) (\<lambda>payload.
        rbind (push DcpQueryGather (dcp_query_route_id routes) payload operations) (\<lambda>operations.
        rbind (scaled (partial_state_bytes_per_row routes) query_rows) (\<lambda>payload.
        push DcpPartialStateReturn (dcp_partial_route_id routes) payload operations)))
    | DecodeQueryLse \<Rightarrow>
        rbind (scaled (query_bytes_per_row routes) query_rows) (\<lambda>payload.
        rbind (push DcpQueryGather (dcp_query_route_id routes) payload operations) (\<lambda>operations.
        rbind (scaled (candidate_bytes_per_row routes) query_rows) (\<lambda>payload.
        rbind (push DcpCandidateExchange (dcp_candidate_route_id routes) payload operations) (\<lambda>operations.
        rbind (scaled (partial_state_bytes_per_row routes) query_rows) (\<lambda>payload.
        push DcpPartialStateReturn (dcp_partial_route_id routes) payload operations)))))
    | NoTransport \<Rightarrow> Inl (Err Graph))"

definition push_sampling :: "route_catalog \<Rightarrow> step_mode \<Rightarrow> sampling_collective \<Rightarrow> nat \<Rightarrow> collective_op list \<Rightarrow>
    (compile_error, collective_op list \<times> nat) result" where
  "push_sampling routes mode sampling query_rows operations =
     (if mode = step_mode.Prefill then Inr (operations, 0)
      else
        let (kind, route, bytes) = (case sampling of
              Greedy \<Rightarrow> (LogitsArgmax, greedy_route_id routes, greedy_bytes_per_row routes)
            | TopK \<Rightarrow> (LogitsTopK, top_k_route_id routes, top_k_bytes_per_row routes)
            | Mass \<Rightarrow> (LogitsMass, mass_route_id routes, mass_bytes_per_row routes))
        in
        rbind (scaled bytes query_rows) (\<lambda>payload.
        rbind (push kind route payload operations) (\<lambda>operations.
          Inr (operations, route))))"

definition dcp_route :: "route_catalog \<Rightarrow> attention_transport \<Rightarrow> (compile_error, nat) result" where
  "dcp_route routes transport = (case transport of
      PrefillCkv \<Rightarrow> Inr (dcp_ckv_route_id routes)
    | PrefillQuery \<Rightarrow> Inr (dcp_query_route_id routes)
    | DecodeQueryLse \<Rightarrow> Inr (dcp_query_route_id routes)
    | NoTransport \<Rightarrow> Inl (Err Graph))"

definition required_dcp_routes :: "collective_op list \<Rightarrow> nat list" where
  "required_dcp_routes operations = map op_route_id
     (filter (\<lambda>operation. op_kind operation \<in>
        {DcpPackedCkv, DcpQueryGather, DcpCandidateExchange, DcpPartialStateReturn}) operations)"

definition compile :: "(8 word list \<Rightarrow> hash32) \<Rightarrow> step_plan_compiler \<Rightarrow> scheduled_batch \<Rightarrow> graph_entry \<Rightarrow> nat \<Rightarrow>
    (compile_error, compiled_step) result" where
  "compile sha compiler batch entry sequence_table_generation =
     (if sequence_table_generation = 0 \<or> sb_rows batch = [] \<or> sb_graph_id batch \<noteq> ge_graph_id entry
      then Inl (Err Batch)
      else
        let routes = sp_routes compiler;
            transport = gk_attention_transport (ge_key entry);
            (mode, mtp_depth) = (case sb_kind batch of
              Prefill \<Rightarrow> (step_mode.Prefill, 0)
            | Decode \<Rightarrow> (step_mode.Decode, 0)
            | Verify depth \<Rightarrow> (step_mode.Verify, depth))
        in
        if gk_mode (ge_key entry) \<noteq> mode \<or> gk_mtp_depth (ge_key entry) \<noteq> mtp_depth then Inl (Err Graph)
        else if mode = step_mode.Prefill \<and> sb_sampling batch \<noteq> Greedy then Inl (Err Sampling)
        else
          rbind (push_attention routes transport (sb_query_rows batch) []) (\<lambda>operations.
          rbind (scaled (tp_reduce_bytes_per_row routes) (sb_query_rows batch)) (\<lambda>payload.
          rbind (push TpReduce (tp_route_id routes) payload operations) (\<lambda>operations.
          rbind (push_sampling routes mode (sb_sampling batch) (sb_query_rows batch) operations)
            (\<lambda>(operations, sampling_route_id).
          rbind (dcp_route routes transport) (\<lambda>dcp_route_id.
          if tp_route_id routes \<notin> set (ge_compatible_tp_routes entry)
             \<or> list_ex (\<lambda>route. route \<notin> set (ge_compatible_dcp_routes entry)) (required_dcp_routes operations)
             \<or> (sampling_route_id \<noteq> 0 \<and> sampling_route_id \<notin> set (ge_compatible_sampling_routes entry))
          then Inl (Err Route)
          else
            rbind (ok_or (try_uint 16 (length (sb_rows batch))) Overflow) (\<lambda>active_sequences.
            rbind (map_err Plan (new_schedule sha operations)) (\<lambda>schedule.
            rbind (map_err Plan (build_plan sha
              \<lparr>rq_epoch = sp_epoch compiler, rq_step_id = sb_step_id batch, rq_mode = mode,
               rq_active_sequences = active_sequences, rq_sequence_bucket = gk_sequence_bucket (ge_key entry),
               rq_scheduled_prompt_tokens = (if mode = step_mode.Prefill then sb_query_rows batch else 0),
               rq_query_rows = sb_query_rows batch, rq_verifier_row_bucket = gk_verifier_row_bucket (ge_key entry),
               rq_mtp_depth = mtp_depth, rq_graph_id = ge_graph_id entry, rq_tp_route_id = tp_route_id routes,
               rq_dcp_route_id = dcp_route_id, rq_attention_transport = transport,
               rq_sampling_route_id = sampling_route_id,
               rq_sequence_table_generation = sequence_table_generation\<rparr> schedule)) (\<lambda>plan.
              Inr \<lparr>cp_plan = plan, cp_schedule = schedule\<rparr>)))))))))"

section \<open>Operations in order\<close>

lemma scaled_cases: "scaled b q = (if b * q < 2 ^ 32 then Inr (b * q) else Inl (Err Overflow))"
  by (simp add: scaled_def checked_mul_def)

text \<open>The first part of the operations, with all payloads in range.\<close>

definition op_at :: "nat \<Rightarrow> collective_kind \<Rightarrow> nat \<Rightarrow> nat \<Rightarrow> collective_op" where
  "op_at i kind route payload = \<lparr>op_ordinal = i, op_kind = kind, op_route_id = route, op_payload_bytes = payload, op_participant_mask = 15\<rparr>"

definition attention_ops :: "route_catalog \<Rightarrow> attention_transport \<Rightarrow> nat \<Rightarrow> collective_op list" where
  "attention_ops c transport q = (case transport of
      NoTransport \<Rightarrow> []
    | PrefillCkv \<Rightarrow> [op_at 0 DcpPackedCkv (dcp_ckv_route_id c) (packed_ckv_bytes_per_row c * q)]
    | PrefillQuery \<Rightarrow> [op_at 0 DcpQueryGather (dcp_query_route_id c) (query_bytes_per_row c * q),
        op_at 1 DcpPartialStateReturn (dcp_partial_route_id c) (partial_state_bytes_per_row c * q)]
    | DecodeQueryLse \<Rightarrow> [op_at 0 DcpQueryGather (dcp_query_route_id c) (query_bytes_per_row c * q),
        op_at 1 DcpCandidateExchange (dcp_candidate_route_id c) (candidate_bytes_per_row c * q),
        op_at 2 DcpPartialStateReturn (dcp_partial_route_id c) (partial_state_bytes_per_row c * q)])"

definition sampling_op :: "route_catalog \<Rightarrow> sampling_collective \<Rightarrow> collective_kind \<times> nat \<times> nat" where
  "sampling_op c sampling = (case sampling of
      Greedy \<Rightarrow> (LogitsArgmax, greedy_route_id c, greedy_bytes_per_row c)
    | TopK \<Rightarrow> (LogitsTopK, top_k_route_id c, top_k_bytes_per_row c)
    | Mass \<Rightarrow> (LogitsMass, mass_route_id c, mass_bytes_per_row c))"

definition step_ops :: "route_catalog \<Rightarrow> graph_entry \<Rightarrow> scheduled_batch \<Rightarrow> collective_op list" where
  "step_ops c e b =
     (let q = sb_query_rows b; pre = attention_ops c (gk_attention_transport (ge_key e)) q @
            [op_at (length (attention_ops c (gk_attention_transport (ge_key e)) q)) TpReduce (tp_route_id c) (tp_reduce_bytes_per_row c * q)];
          (kind, route, bytes) = sampling_op c (sb_sampling b)
      in pre @ (if sb_kind b = Prefill then [] else [op_at (length pre) kind route (bytes * q)]))"

lemma new_compilerD:
  assumes "new_compiler epoch c = Inr compiler"
  shows "sp_epoch compiler \<noteq> 0" and "sp_routes compiler = c" and "validate_catalog c = Inr ()"
  using assms by (auto simp: new_compiler_def result_simps split: if_splits)

lemmas catalog_simps = validate_catalog_def Let_def

definition payloads_fit :: "route_catalog \<Rightarrow> nat \<Rightarrow> bool" where
  "payloads_fit c q \<longleftrightarrow> (\<forall>n\<in>{packed_ckv_bytes_per_row c, query_bytes_per_row c, candidate_bytes_per_row c,
     partial_state_bytes_per_row c, tp_reduce_bytes_per_row c, greedy_bytes_per_row c, top_k_bytes_per_row c, mass_bytes_per_row c}.
     n * q < 2 ^ 32)"

lemma push_attention_ok:
  assumes "payloads_fit c q" and "transport \<noteq> NoTransport"
  shows "push_attention c transport q [] = Inr (attention_ops c transport q)"
  using assms by (cases transport) (auto simp: payloads_fit_def push_attention_def attention_ops_def scaled_cases push_def op_at_def try_uint_def)

lemma push_attention_Inr:
  assumes "push_attention c transport q [] = Inr ops"
  shows "ops = attention_ops c transport q" and "transport \<noteq> NoTransport"
  using assms by (cases transport; auto simp: push_attention_def attention_ops_def scaled_cases push_def op_at_def try_uint_def split: if_splits)+

lemma push_attention_error:
  assumes "transport \<noteq> NoTransport"
  shows "push_attention c transport q [] = Inl f \<Longrightarrow> f = Err Overflow"
  using assms by (cases transport) (auto simp: push_attention_def scaled_cases push_def try_uint_def split: if_splits)

lemma step_ops_ok:
  assumes "validate_catalog c = Inr ()" and "0 < sb_query_rows b"
  shows "check_all check_operation (enumerate 0 (step_ops c e b)) = Inr ()" and "length (step_ops c e b) \<le> 5"
  using assms
  by (cases "gk_attention_transport (ge_key e)"; cases "sb_sampling b";
      auto simp: step_ops_def attention_ops_def sampling_op_def op_at_def check_operation_def catalog_simps split: if_splits)+

definition sampling_route :: "route_catalog \<Rightarrow> scheduled_batch \<Rightarrow> nat" where
  "sampling_route c b = (if sb_kind b = Prefill then 0 else fst (snd (sampling_op c (sb_sampling b))))"

definition attention_route :: "route_catalog \<Rightarrow> graph_entry \<Rightarrow> nat" where
  "attention_route c e = (if gk_attention_transport (ge_key e) = PrefillCkv then dcp_ckv_route_id c else dcp_query_route_id c)"

definition step_request :: "step_plan_compiler \<Rightarrow> scheduled_batch \<Rightarrow> graph_entry \<Rightarrow> nat \<Rightarrow> step_plan_request" where
  "step_request compiler b e gen =
     \<lparr>rq_epoch = sp_epoch compiler, rq_step_id = sb_step_id b, rq_mode = fst (batch_mode (sb_kind b)),
      rq_active_sequences = length (sb_rows b), rq_sequence_bucket = gk_sequence_bucket (ge_key e),
      rq_scheduled_prompt_tokens = (if sb_kind b = Prefill then sb_query_rows b else 0),
      rq_query_rows = sb_query_rows b, rq_verifier_row_bucket = gk_verifier_row_bucket (ge_key e),
      rq_mtp_depth = snd (batch_mode (sb_kind b)), rq_graph_id = ge_graph_id e, rq_tp_route_id = tp_route_id (sp_routes compiler),
      rq_dcp_route_id = attention_route (sp_routes compiler) e, rq_attention_transport = gk_attention_transport (ge_key e),
      rq_sampling_route_id = sampling_route (sp_routes compiler) b, rq_sequence_table_generation = gen\<rparr>"

text \<open>What the code asks of the entry before it builds the schedule.\<close>

definition routes_allowed :: "route_catalog \<Rightarrow> graph_entry \<Rightarrow> scheduled_batch \<Rightarrow> bool" where
  "routes_allowed c e b \<longleftrightarrow> tp_route_id c \<in> set (ge_compatible_tp_routes e)
     \<and> set (required_dcp_routes (step_ops c e b)) \<subseteq> set (ge_compatible_dcp_routes e)
     \<and> (sampling_route c b = 0 \<or> sampling_route c b \<in> set (ge_compatible_sampling_routes e))"

lemma batch_mode_Prefill [simp]: "fst (batch_mode kind) = step_mode.Prefill \<longleftrightarrow> kind = Prefill"
  by (cases kind) (simp_all add: batch_mode_def)

lemma mode_eq:
  "(case kind of Prefill \<Rightarrow> (step_mode.Prefill, 0) | Decode \<Rightarrow> (step_mode.Decode, 0) | Verify depth \<Rightarrow> (step_mode.Verify, depth))
     = batch_mode kind"
  by (simp add: batch_mode_def)

text \<open>The tail of the compilation, once the operations are known.\<close>

definition finish :: "(8 word list \<Rightarrow> hash32) \<Rightarrow> step_plan_compiler \<Rightarrow> scheduled_batch \<Rightarrow> graph_entry \<Rightarrow> nat \<Rightarrow>
    (compile_error, compiled_step) result" where
  "finish sha compiler b e gen =
     (if \<not> routes_allowed (sp_routes compiler) e b then Inl (Err Route)
      else
        rbind (ok_or (try_uint 16 (length (sb_rows b))) Overflow) (\<lambda>_.
        rbind (map_err Plan (new_schedule sha (step_ops (sp_routes compiler) e b))) (\<lambda>schedule.
        rbind (map_err Plan (build_plan sha (step_request compiler b e gen) schedule)) (\<lambda>plan.
          Inr \<lparr>cp_plan = plan, cp_schedule = schedule\<rparr>))))"

lemma push_sampling_cases:
  assumes "length ops \<le> 4"
  shows "push_sampling c mode sampling q ops = (case sampling_op c sampling of (kind, route, bytes) \<Rightarrow>
    if mode = step_mode.Prefill then Inr (ops, 0)
    else if bytes * q < 2 ^ 32 then Inr (ops @ [op_at (length ops) kind route (bytes * q)], route) else Inl (Err Overflow))"
  using assms by (cases sampling) (auto simp: push_sampling_def sampling_op_def scaled_cases push_def try_uint_def op_at_def)

lemma length_attention_ops: "length (attention_ops c transport q) \<le> 3"
  by (cases transport) (simp_all add: attention_ops_def)

lemma compile_cases:
  assumes "gen \<noteq> 0" and "sb_rows b \<noteq> []" and "sb_graph_id b = ge_graph_id e"
    and "(gk_mode (ge_key e), gk_mtp_depth (ge_key e)) = batch_mode (sb_kind b)" and "sb_kind b = Prefill \<longrightarrow> sb_sampling b = Greedy"
    and "gk_attention_transport (ge_key e) \<noteq> NoTransport"
  shows "compile sha compiler b e gen = finish sha compiler b e gen \<or> compile sha compiler b e gen = Inl (Err Overflow)"
    and "payloads_fit (sp_routes compiler) (sb_query_rows b) \<Longrightarrow> compile sha compiler b e gen = finish sha compiler b e gen"
proof -
  let ?c = "sp_routes compiler" and ?q = "sb_query_rows b" and ?t = "gk_attention_transport (ge_key e)"
  obtain mode depth where md: "batch_mode (sb_kind b) = (mode, depth)" by fastforce
  obtain kind route bytes where so: "sampling_op ?c (sb_sampling b) = (kind, route, bytes)" by (cases "sampling_op ?c (sb_sampling b)")
  have mode: "mode = step_mode.Prefill \<longleftrightarrow> sb_kind b = Prefill" using batch_mode_Prefill [of "sb_kind b"] md by simp
  have dcp: "dcp_route ?c ?t = Inr (attention_route ?c e)" using assms(6) by (cases ?t) (simp_all add: dcp_route_def attention_route_def)
  let ?p = "attention_ops ?c ?t ?q"
  let ?tp = "op_at (length ?p) TpReduce (tp_route_id ?c) (tp_reduce_bytes_per_row ?c * ?q)"
  have tp: "push TpReduce (tp_route_id ?c) (tp_reduce_bytes_per_row ?c * ?q) ?p = Inr (?p @ [?tp])"
    using length_attention_ops [of ?c ?t ?q] by (simp add: push_def try_uint_def op_at_def)
  have len: "length (?p @ [?tp]) \<le> 4" using length_attention_ops [of ?c ?t ?q] by simp
  note sampling = push_sampling_cases [OF len, of ?c mode "sb_sampling b" ?q, unfolded so prod.case]
  let ?fit = "tp_reduce_bytes_per_row ?c * ?q < 2 ^ 32 \<and> (sb_kind b = Prefill \<or> bytes * ?q < 2 ^ 32)"
  have ops: "step_ops ?c e b = (?p @ [?tp]) @ (if sb_kind b = Prefill then [] else [op_at (length (?p @ [?tp])) kind route (bytes * ?q)])"
    by (simp add: step_ops_def so Let_def)
  have route: "sampling_route ?c b = (if sb_kind b = Prefill then 0 else route)" by (simp add: sampling_route_def so)
  have g: "\<not> (gen = 0 \<or> sb_rows b = [] \<or> sb_graph_id b \<noteq> ge_graph_id e)"
    "\<not> (gk_mode (ge_key e) \<noteq> mode \<or> gk_mtp_depth (ge_key e) \<noteq> depth)"
    "\<not> (mode = step_mode.Prefill \<and> sb_sampling b \<noteq> Greedy)"
    using assms(1-5) md mode by auto
  have md': "fst (batch_mode (sb_kind b)) = mode" "snd (batch_mode (sb_kind b)) = depth" by (simp_all add: md)
  have head: "compile sha compiler b e gen = rbind (push_attention ?c ?t ?q []) (\<lambda>_. if ?fit then finish sha compiler b e gen else Inl (Err Overflow))"
  proof (cases "push_attention ?c ?t ?q []")
    case (Inl f)
    then show ?thesis
      unfolding compile_def Let_def mode_eq md prod.case if_not_P [OF g(1)] if_not_P [OF g(2)] if_not_P [OF g(3)] by simp
  next
    case (Inr p)
    have p: "p = ?p" by (rule push_attention_Inr(1) [OF Inr])
    show ?thesis
      unfolding compile_def Let_def mode_eq md prod.case if_not_P [OF g(1)] if_not_P [OF g(2)] if_not_P [OF g(3)] Inr p rbind_simps scaled_cases
        finish_def step_request_def routes_allowed_def md'
      by (cases "tp_reduce_bytes_per_row ?c * ?q < 2 ^ 32"; cases "sb_kind b = Prefill"; cases "bytes * ?q < 2 ^ 32")
        (auto simp: tp sampling dcp ops route mode list_ex_iff subset_iff try_uint_def)
  qed
  show "compile sha compiler b e gen = finish sha compiler b e gen \<or> compile sha compiler b e gen = Inl (Err Overflow)"
    using head push_attention_error [OF assms(6), of ?c ?q] by (cases "push_attention ?c ?t ?q []") auto
  show "compile sha compiler b e gen = finish sha compiler b e gen" if "payloads_fit ?c ?q"
    using that head push_attention_ok [OF that assms(6)] so by (cases "sb_sampling b") (auto simp: payloads_fit_def sampling_op_def)
qed

lemma build_plan_verifies:
  assumes "build_plan sha request schedule = Inr p"
  shows "verify_plan sha p schedule = Inr ()" and "request_of p = request"
proof -
  obtain plan h where v: "verify_schedule sha schedule = Inr ()" "validate_request request schedule = Inr ()"
    and h: "compute_hash sha plan = Inr h" "p = plan\<lparr>pl_plan_hash := h\<rparr>"
    and plan: "request_of plan = request" "pl_collective_schedule_hash plan = cs_hash schedule"
    using assms by (auto simp: build_plan_def result_simps Let_def request_of_def)
  show req: "request_of p = request" using plan(1) h(2) by (simp add: request_of_def)
  show "verify_plan sha p schedule = Inr ()" using v h plan req by (simp add: verify_plan_def)
qed

lemma build_plan_total:
  assumes "verify_schedule sha schedule = Inr ()" and "validate_request request schedule = Inr ()" and "length (cs_hash schedule) = 32"
  shows "\<exists>p. build_plan sha request schedule = Inr p"
  using assms by (simp add: build_plan_def Let_def compute_hash_def canonical_input_eq)

lemma schedule_built:
  assumes "validate_catalog c = Inr ()" and "0 < sb_query_rows b"
  shows "\<exists>schedule. new_schedule sha (step_ops c e b) = Inr schedule \<and> verify_schedule sha schedule = Inr ()
    \<and> cs_operations schedule = step_ops c e b \<and> cs_hash schedule = collective_hash sha (step_ops c e b)"
  using step_ops_ok [OF assms, of e] by (simp add: new_schedule_def verify_schedule_def)

lemma step_ops_not_empty: "step_ops c e b \<noteq> []"
  by (simp add: step_ops_def Let_def case_prod_beta)

lemma batch_entry:
  assumes "sched_inv s" and "sc_inflight s = Some b"
  obtains e where "graph_entry_of s (sb_graph_id b) = Some e" "ge_graph_id e = sb_graph_id b" "entry_ok e" "fits e (sb_kind b) (sb_rows b)"
    "gk_attention_transport (ge_key e) \<noteq> NoTransport"
proof -
  have st: "statics_ok s" by (rule sched_invD(1) [OF assms(1)])
  obtain e where e: "e \<in> set (gp_entries (sc_profile s))" "ge_graph_id e = sb_graph_id b" "fits e (sb_kind b) (sb_rows b)"
    using sched_invD(4) [OF assms] by (auto simp: batch_ok_def)
  have ok: "entry_ok e" using st e(1) by (simp add: statics_ok_def)
  have "graph_entry_of s (sb_graph_id b) = Some e"
    using find_entry [OF _ e(1)] st e(2) by (simp add: graph_entry_of_def statics_ok_def)
  moreover have "gk_attention_transport (ge_key e) \<noteq> NoTransport" using entry_okD(5-8) [OF ok] by auto
  ultimately show ?thesis using that e(2,3) ok by blast
qed

lemma fits_mode: "fits e kind rows \<Longrightarrow> (gk_mode (ge_key e), gk_mtp_depth (ge_key e)) = batch_mode kind"
  by (simp add: fits_def)

lemma batch_rows_pos: "sched_inv s \<Longrightarrow> sc_inflight s = Some b \<Longrightarrow> 0 < sb_query_rows b"
proof -
  assume "sched_inv s" "sc_inflight s = Some b"
  then have b: "batch_ok s b" by (rule sched_invD(4))
  then obtain row rows where rows: "sb_rows b = row # rows" by (cases "sb_rows b") (auto simp: batch_ok_def)
  have "row_ok (sb_kind b) (sc_requests s) row" "sb_query_rows b = batch_rows (sb_kind b) (sb_rows b)"
    using b rows by (auto simp: batch_ok_def)
  then show ?thesis using rows by (cases "sb_kind b") (auto simp: batch_rows_def row_ok_def)
qed

lemma attention_route_required:
  assumes "gk_attention_transport (ge_key e) \<noteq> NoTransport"
  shows "attention_route c e \<in> set (required_dcp_routes (step_ops c e b))"
  using assms by (cases "gk_attention_transport (ge_key e)")
    (auto simp: attention_route_def required_dcp_routes_def step_ops_def attention_ops_def op_at_def Let_def case_prod_beta)

text \<open>A plan with the fields of a step request that fits its entry is admitted with it.\<close>

lemma plan_admitted:
  assumes "verify_profile sha p = Inr ()" and "find (\<lambda>entry. ge_graph_id entry = ge_graph_id e) (gp_entries p) = Some e"
    and "entry_ok e" and fits: "fits e (sb_kind b) (sb_rows b)" and t: "gk_attention_transport (ge_key e) \<noteq> NoTransport"
    and q: "sb_query_rows b = batch_rows (sb_kind b) (sb_rows b)" and allowed: "routes_allowed (sp_routes compiler) e b"
    and plan: "request_of plan = step_request compiler b e gen"
  shows "admit_plan sha p plan = Inr e"
proof -
  have f: "pl_mode plan = fst (batch_mode (sb_kind b))" "pl_sequence_bucket plan = gk_sequence_bucket (ge_key e)"
    "pl_verifier_row_bucket plan = gk_verifier_row_bucket (ge_key e)" "pl_mtp_depth plan = snd (batch_mode (sb_kind b))"
    "pl_attention_transport plan = gk_attention_transport (ge_key e)" "pl_active_sequences plan = length (sb_rows b)"
    "pl_scheduled_prompt_tokens plan = (if sb_kind b = Prefill then sb_query_rows b else 0)" "pl_query_rows plan = sb_query_rows b"
    "pl_tp_route_id plan = tp_route_id (sp_routes compiler)" "pl_dcp_route_id plan = attention_route (sp_routes compiler) e"
    "pl_sampling_route_id plan = sampling_route (sp_routes compiler) b" "pl_graph_id plan = ge_graph_id e"
    using plan by (simp_all add: request_of_def step_request_def)
  have mode: "gk_mode (ge_key e) = fst (batch_mode (sb_kind b))" "gk_mtp_depth (ge_key e) = snd (batch_mode (sb_kind b))"
    using fits_mode [OF fits] by (metis fst_conv snd_conv)+
  then have key: "ge_key e = \<lparr>gk_mode = pl_mode plan, gk_sequence_bucket = pl_sequence_bucket plan,
      gk_verifier_row_bucket = pl_verifier_row_bucket plan, gk_mtp_depth = pl_mtp_depth plan, gk_attention_transport = pl_attention_transport plan\<rparr>"
    by (simp add: f)
  have "pl_mode plan \<noteq> CacheOnly" by (cases "sb_kind b") (simp_all add: f batch_mode_def)
  moreover have "attention_route (sp_routes compiler) e \<in> set (ge_compatible_dcp_routes e)"
    using attention_route_required [OF t] allowed by (auto simp: routes_allowed_def)
  ultimately show ?thesis
    using assms(1,2) fits allowed q unfolding admit_plan_def Let_def
    by (simp add: key [symmetric]) (auto simp: f fits_def routes_allowed_def)
qed

section \<open>Properties\<close>

text \<open>
  (C25) What the scheduler starts, the compiler turns into a step the profile admits. The batch in
  flight of a reachable scheduler has a graph entry; if its compilation succeeds, the plan
  verifies against its schedule, the profile of the scheduler admits it with that very entry, and
  it carries the step, the rows and the page-table generation it was compiled for.
\<close>

theorem compiled_step_admitted:
  assumes "scheduler_reachable sha s" and "sc_inflight s = Some b" and "new_compiler epoch c = Inr compiler"
  shows "\<exists>e. graph_entry_of s (sb_graph_id b) = Some e \<and> (\<forall>step. compile sha compiler b e gen = Inr step \<longrightarrow>
     verify_plan sha (cp_plan step) (cp_schedule step) = Inr () \<and> admit_plan sha (sc_profile s) (cp_plan step) = Inr e
     \<and> pl_step_id (cp_plan step) = sb_step_id b \<and> pl_active_sequences (cp_plan step) = length (sb_rows b)
     \<and> pl_query_rows (cp_plan step) = sb_query_rows b \<and> pl_sequence_table_generation (cp_plan step) = gen)"
proof -
  have inv: "sched_inv s" using reachable_served [OF assms(1)] by (simp add: served_def)
  have bok: "batch_ok s b" by (rule sched_invD(4) [OF inv assms(2)])
  obtain e where e: "graph_entry_of s (sb_graph_id b) = Some e" "ge_graph_id e = sb_graph_id b" "entry_ok e" "fits e (sb_kind b) (sb_rows b)"
    "gk_attention_transport (ge_key e) \<noteq> NoTransport" by (rule batch_entry [OF inv assms(2)])
  have c: "sp_routes compiler = c" by (rule new_compilerD(2) [OF assms(3)])
  have "verify_plan sha (cp_plan step) (cp_schedule step) = Inr () \<and> admit_plan sha (sc_profile s) (cp_plan step) = Inr e
     \<and> request_of (cp_plan step) = step_request compiler b e gen" if "compile sha compiler b e gen = Inr step" for step
  proof -
    have "gen \<noteq> 0"
    proof
      assume "gen = 0"
      then have "compile sha compiler b e gen = Inl (Err Batch)" by (simp add: compile_def)
      with that show False by simp
    qed
    then have "finish sha compiler b e gen = Inr step"
      using compile_cases(1) [OF _ _ e(2) [symmetric] fits_mode [OF e(4)] _ e(5), of gen sha compiler] that bok by (auto simp: batch_ok_def)
    then have allowed: "routes_allowed c e b" and built: "build_plan sha (step_request compiler b e gen) (cp_schedule step) = Inr (cp_plan step)"
      by (auto simp: finish_def c result_simps split: if_splits)
    note plan = build_plan_verifies [OF built]
    have "admit_plan sha (sc_profile s) (cp_plan step) = Inr e"
      using plan_admitted [OF reachable_profile [OF assms(1)] _ e(3-5) _ _ plan(2)] e(1,2) bok allowed c
      by (simp add: batch_ok_def graph_entry_of_def)
    then show ?thesis using plan by simp
  qed
  then show ?thesis using e(1) by (auto simp: step_request_def request_of_def)
qed

definition compilable :: "route_catalog \<Rightarrow> graph_entry \<Rightarrow> scheduled_batch \<Rightarrow> bool" where
  "compilable c e b \<longleftrightarrow> payloads_fit c (sb_query_rows b) \<and> routes_allowed c e b \<and> is_sequence_bucket (gk_sequence_bucket (ge_key e))
     \<and> sb_query_rows b \<le> MAX_VERIFIER_ROWS \<and> (sb_kind b \<noteq> Prefill \<longrightarrow> sb_query_rows b \<le> gk_verifier_row_bucket (ge_key e)
       \<and> gk_verifier_row_bucket (ge_key e) \<le> MAX_VERIFIER_ROWS)"

lemma batch_depth:
  assumes "batch_ok s b"
  shows "snd (batch_mode (sb_kind b)) \<le> 6" and "sb_kind b = Verify d \<Longrightarrow> 0 < d"
proof -
  obtain row where "row_ok (sb_kind b) (sc_requests s) row" using assms by (cases "sb_rows b") (auto simp: batch_ok_def)
  then show "snd (batch_mode (sb_kind b)) \<le> 6" and "sb_kind b = Verify d \<Longrightarrow> 0 < d"
    by (cases "sb_kind b"; auto simp: batch_mode_def row_ok_def)+
qed

lemma step_request_valid:
  assumes b: "batch_ok s b" and len: "length (sb_rows b) \<le> 64" and e: "ge_graph_id e = sb_graph_id b" "entry_ok e" "fits e (sb_kind b) (sb_rows b)"
    and cat: "validate_catalog (sp_routes compiler) = Inr ()" and gen: "gen \<noteq> 0" and ops: "cs_operations sch \<noteq> []" and q: "0 < sb_query_rows b"
  shows "validate_request (step_request compiler b e gen) sch \<noteq> Inl Panic"
    and "compilable (sp_routes compiler) e b \<Longrightarrow> validate_request (step_request compiler b e gen) sch = Inr ()"
proof -
  let ?r = "step_request compiler b e gen"
  have mode: "gk_mode (ge_key e) = fst (batch_mode (sb_kind b))" using fits_mode [OF e(3)] by (metis fst_conv)
  have depth: "rq_mtp_depth ?r \<le> 6" using batch_depth(1) [OF b] by (simp add: step_request_def)
  have qr: "sb_query_rows b = batch_rows (sb_kind b) (sb_rows b)" using b by (simp add: batch_ok_def)
  have kinds: "rq_mode ?r = fst (batch_mode (sb_kind b))" by (simp add: step_request_def)
  show "validate_request ?r sch \<noteq> Inl Panic"
    by (cases "sb_kind b") (auto simp: validate_request_def kinds batch_mode_def validate_prefill_def validate_decode_def validate_verify_def result_simps)
  assume ready: "compilable (sp_routes compiler) e b"
  have rows: "sb_rows b \<noteq> []" using b by (simp add: batch_ok_def)
  have nz: "tp_route_id (sp_routes compiler) \<noteq> 0" "attention_route (sp_routes compiler) e \<noteq> 0" "fst (snd (sampling_op (sp_routes compiler) sm)) \<noteq> 0" for sm
    using cat by (auto simp: catalog_simps attention_route_def sampling_op_def split: if_splits sampling_collective.splits)
  have gid: "ge_graph_id e \<noteq> 0" "length (sb_rows b) \<le> gk_sequence_bucket (ge_key e)"
    using entry_okD(1,3) [OF e(2)] e(3) by (auto simp: fits_def)
  have guard: "\<not> (rq_active_sequences ?r = 0 \<or> rq_active_sequences ?r > MAX_ACTIVE_SEQUENCES
             \<or> \<not> is_sequence_bucket (rq_sequence_bucket ?r) \<or> rq_sequence_bucket ?r < rq_active_sequences ?r
             \<or> rq_query_rows ?r = 0 \<or> rq_query_rows ?r > MAX_VERIFIER_ROWS
             \<or> rq_graph_id ?r = 0 \<or> rq_tp_route_id ?r = 0 \<or> rq_dcp_route_id ?r = 0
             \<or> rq_sequence_table_generation ?r = 0 \<or> cs_operations sch = [])"
    using rows len ready gid nz gen ops q by (simp add: step_request_def compilable_def)
  have tail: "(case rq_mode ?r of step_mode.Prefill \<Rightarrow> validate_prefill ?r | step_mode.Decode \<Rightarrow> validate_decode ?r
      | step_mode.Verify \<Rightarrow> validate_verify ?r | _ \<Rightarrow> Inl Panic) = Inr ()"
  proof (cases "sb_kind b")
    case Prefill
    then have "gk_mode (ge_key e) = step_mode.Prefill" using mode by (simp add: batch_mode_def)
    from entry_okD(5) [OF e(2) this] Prefill q show ?thesis
      by (auto simp: kinds batch_mode_def validate_prefill_def step_request_def sampling_route_def)
  next
    case Decode
    then have "gk_mode (ge_key e) = step_mode.Decode" using mode by (simp add: batch_mode_def)
    from entry_okD(6) [OF e(2) this] Decode qr ready nz show ?thesis
      by (auto simp: kinds batch_mode_def validate_decode_def step_request_def sampling_route_def batch_rows_def compilable_def)
  next
    case (Verify d)
    then have "gk_mode (ge_key e) = step_mode.Verify" using mode by (simp add: batch_mode_def)
    moreover have "length (sb_rows b) * (d + 1) < 2 ^ 32" using b Verify by (simp add: batch_ok_def batch_rows_def)
    ultimately show ?thesis using entry_okD(7) [OF e(2)] Verify qr ready nz batch_depth(2) [OF b Verify]
      by (auto simp: kinds batch_mode_def validate_verify_def step_request_def sampling_route_def batch_rows_def compilable_def checked_mul_def)
  qed
  show "validate_request ?r sch = Inr ()"
    using depth tail guard unfolding validate_request_def by (cases "sb_kind b") (simp_all add: kinds batch_mode_def)
qed

lemma compile_total:
  assumes "scheduler_reachable sha s" and "sc_inflight s = Some b" and "new_compiler epoch c = Inr compiler"
    and sha: "\<forall>x. length (sha x) = 32" and gen: "gen \<noteq> 0"
  shows "\<exists>e. graph_entry_of s (sb_graph_id b) = Some e \<and> compile sha compiler b e gen \<noteq> Inl Panic
     \<and> (compilable c e b \<longrightarrow> (\<exists>step. compile sha compiler b e gen = Inr step))"
proof -
  have inv: "sched_inv s" using reachable_served [OF assms(1)] by (simp add: served_def)
  have bok: "batch_ok s b" by (rule sched_invD(4) [OF inv assms(2)])
  have q: "0 < sb_query_rows b" by (rule batch_rows_pos [OF inv assms(2)])
  obtain e where e: "graph_entry_of s (sb_graph_id b) = Some e" "ge_graph_id e = sb_graph_id b" "entry_ok e" "fits e (sb_kind b) (sb_rows b)"
    "gk_attention_transport (ge_key e) \<noteq> NoTransport" by (rule batch_entry [OF inv assms(2)])
  have c: "sp_routes compiler = c" and cat: "validate_catalog c = Inr ()" using new_compilerD [OF assms(3)] by simp_all
  obtain sch where sch: "new_schedule sha (step_ops c e b) = Inr sch" "verify_schedule sha sch = Inr ()"
    "cs_operations sch = step_ops c e b" "cs_hash sch = collective_hash sha (step_ops c e b)" using schedule_built [OF cat q] by blast
  have hash: "length (cs_hash sch) = 32" using sha sch(4) by (simp add: collective_hash_def)
  note cases = compile_cases [OF gen _ e(2) [symmetric] fits_mode [OF e(4)] _ e(5), where sha = sha and compiler = compiler]
  have len: "length (sb_rows b) \<le> 64" using bok sched_invD(1) [OF inv] by (simp add: batch_ok_def statics_ok_def)
  have fin: "finish sha compiler b e gen = (if routes_allowed c e b
      then rbind (map_err Plan (build_plan sha (step_request compiler b e gen) sch)) (\<lambda>plan. Inr \<lparr>cp_plan = plan, cp_schedule = sch\<rparr>)
      else Inl (Err Route))"
    using len by (simp add: finish_def c sch(1) try_uint_def)
  have valid: "validate_request (step_request compiler b e gen) sch \<noteq> Inl Panic"
    "compilable c e b \<Longrightarrow> validate_request (step_request compiler b e gen) sch = Inr ()"
    using step_request_valid [OF bok len e(2-4), of compiler gen sch] cat gen c sch(3) step_ops_not_empty q by simp_all
  have safe: "build_plan sha (step_request compiler b e gen) sch \<noteq> Inl Panic"
    using valid(1) hash by (auto simp: build_plan_def sch(2) Let_def compute_hash_def canonical_input_eq rbind_Inl)
  have rows: "sb_rows b \<noteq> []" and greedy: "sb_kind b = Prefill \<longrightarrow> sb_sampling b = Greedy" using bok by (simp_all add: batch_ok_def)
  have "finish sha compiler b e gen \<noteq> Inl Panic"
    using safe unfolding fin by (cases "build_plan sha (step_request compiler b e gen) sch") (auto simp: map_err_def split: fault.splits)
  then have "compile sha compiler b e gen \<noteq> Inl Panic" using cases(1) [OF rows greedy] by auto
  moreover have "\<exists>step. compile sha compiler b e gen = Inr step" if ready: "compilable c e b"
  proof -
    obtain p where p: "build_plan sha (step_request compiler b e gen) sch = Inr p"
      using build_plan_total [OF sch(2) valid(2) [OF ready] hash] by blast
    have "compile sha compiler b e gen = finish sha compiler b e gen" using ready c by (intro cases(2) rows greedy) (simp add: compilable_def)
    then show ?thesis using ready p unfolding fin by (simp add: compilable_def)
  qed
  ultimately show ?thesis using e(1) by blast
qed


section \<open>A batch compiled\<close>

definition sample_catalog :: route_catalog where
  "sample_catalog = \<lparr>tp_route_id = 1, dcp_ckv_route_id = 2, dcp_query_route_id = 3, dcp_candidate_route_id = 4, dcp_partial_route_id = 5,
     greedy_route_id = 6, top_k_route_id = 7, mass_route_id = 8, packed_ckv_bytes_per_row = 64, query_bytes_per_row = 64,
     candidate_bytes_per_row = 64, partial_state_bytes_per_row = 64, tp_reduce_bytes_per_row = 64, greedy_bytes_per_row = 64,
     top_k_bytes_per_row = 64, mass_bytes_per_row = 64\<rparr>"

lemma sample_compiler: "new_compiler 1 sample_catalog = Inr \<lparr>sp_epoch = 1, sp_routes = sample_catalog\<rparr>"
  by (simp add: new_compiler_def validate_catalog_def sample_catalog_def)

lemma zero_hash_length: "\<forall>x. length (zero_hash x) = 32"
  by (simp add: zero_hash_def)

lemma sample_started:
  obtains b where "scheduler_reachable zero_hash (started sample_scheduler b)" "sc_inflight (started sample_scheduler b) = Some b"
    "\<forall>e. graph_entry_of (started sample_scheduler b) (sb_graph_id b) = Some e \<longrightarrow> compilable sample_catalog e b"
proof -
  obtain b where b: "next_batch sample_scheduler = (Inr (Some b), started sample_scheduler b)"
    and inv: "sched_inv (started sample_scheduler b)" by (rule sample_batch)
  let ?s = "started sample_scheduler b"
  have "scheduler_exec NextBatch sample_scheduler = ?s" using b by (simp add: scheduler_exec_def)
  then have reach: "scheduler_reachable zero_hash ?s" using scheduler_reachable.call [OF sample_scheduler_reachable, of NextBatch] by simp
  have infl: "sc_inflight ?s = Some b" by (simp add: started_def)
  obtain e where e: "graph_entry_of ?s (sb_graph_id b) = Some e" "fits e (sb_kind b) (sb_rows b)" by (rule batch_entry [OF inv infl])
  have bok: "batch_ok ?s b" by (rule sched_invD(4) [OF inv infl])
  have "row_ok (sb_kind b) (sc_requests ?s) row \<Longrightarrow> sb_kind b = Prefill" for row
    by (cases "sb_kind b") (auto simp: row_ok_def started_def sample_scheduler_def sample_request_def split: if_splits)
  then have kind: "sb_kind b = Prefill" using bok by (cases "sb_rows b") (auto simp: batch_ok_def)
  have "e \<in> set sample_entries" using e(1) by (auto simp: graph_entry_of_def started_def sample_scheduler_def sample_profile find_Some_iff)
  moreover have "gk_mode (ge_key e) = step_mode.Prefill" using e(2) kind by (simp add: fits_def batch_mode_def)
  ultimately have entry: "e = sample_entries ! 0" by (auto simp: sample_entries_def sample_entry_def)
  have q: "sb_query_rows b \<le> 256" using e(2) bok entry by (simp add: fits_def batch_ok_def sample_entries_def sample_entry_def)
  have "compilable sample_catalog e b"
    using q kind by (auto simp: compilable_def payloads_fit_def sample_catalog_def routes_allowed_def entry sample_entries_def sample_entry_def
        is_sequence_bucket_def sampling_route_def required_dcp_routes_def step_ops_def attention_ops_def op_at_def Let_def case_prod_beta)
  then show ?thesis using that reach infl e(1) by auto
qed


lemma compiled_step_admitted_witness:
  "\<exists>b e step. compile zero_hash \<lparr>sp_epoch = 1, sp_routes = sample_catalog\<rparr> b e 1 = Inr step
     \<and> admit_plan zero_hash sample_profile (cp_plan step) = Inr e"
proof -
  obtain b where b: "scheduler_reachable zero_hash (started sample_scheduler b)" "sc_inflight (started sample_scheduler b) = Some b"
    "\<forall>e. graph_entry_of (started sample_scheduler b) (sb_graph_id b) = Some e \<longrightarrow> compilable sample_catalog e b" by (rule sample_started)
  obtain e where e: "graph_entry_of (started sample_scheduler b) (sb_graph_id b) = Some e"
    "\<exists>step. compile zero_hash \<lparr>sp_epoch = 1, sp_routes = sample_catalog\<rparr> b e 1 = Inr step"
    using compile_total [OF b(1,2) sample_compiler zero_hash_length, of 1] b(3) by auto
  have "sc_profile (started sample_scheduler b) = sample_profile" by (simp add: started_def sample_scheduler_def)
  with compiled_step_admitted [OF b(1,2) sample_compiler, of 1] e show ?thesis by auto
qed

end
