(* ===== verification/Prefix.thy ===== *)
theory Prefix
  imports Tier
begin

text \<open>
  \<open>crates/glm-cache/src/prefix.rs\<close>: the index of shareable prefix pages. A page of 64 tokens has a
  key that hashes the namespace, the key of the page before it and its tokens; the index counts how
  often a page was inserted and finds the longest chain of known pages for a prompt. SHA-256 is
  the parameter \<open>sha\<close>.
\<close>

section \<open>Data\<close>

definition NAMESPACE_DOMAIN :: "8 word list" where
  "NAMESPACE_DOMAIN = ascii_bytes ''glmaxx.prefix-namespace.v1'' @ [0]"

definition PAGE_DOMAIN :: "8 word list" where
  "PAGE_DOMAIN = ascii_bytes ''glmaxx.prefix-page.v1'' @ [0]"

record namespace_inputs =
  model_revision_sha256 :: hash32
  tokenizer_sha256 :: hash32
  chat_template_sha256 :: hash32
  weight_policy_hash :: hash32
  target_kv_abi_sha256 :: hash32
  draft_kv_abi_sha256 :: hash32
  rope_parameters_sha256 :: hash32

record prefix_page =
  pp_parent :: "hash32 option"
  pp_record :: tier_record
  pp_references :: nat

record prefix_match =
  pm_page_keys :: "hash32 list"
  pm_matched_tokens :: nat
  pm_terminal_tier :: tier
  pm_terminal_generation :: nat

record prefix_index =
  px_namespace :: hash32
  px_pages :: "(hash32, prefix_page) fmap"

datatype prefix_error = Namespace | PartialPage | RecordCount | TierRecord | PageKey | Collision | Overflow

section \<open>Operations\<close>

definition new_namespace :: "(8 word list \<Rightarrow> hash32) \<Rightarrow> namespace_inputs \<Rightarrow> (prefix_error, hash32) result" where
  "new_namespace sha inputs =
     (let parts = [model_revision_sha256 inputs, tokenizer_sha256 inputs, chat_template_sha256 inputs,
            weight_policy_hash inputs, target_kv_abi_sha256 inputs, draft_kv_abi_sha256 inputs,
            rope_parameters_sha256 inputs]
      in if zero_hash \<in> set parts then Inl (Err Namespace)
         else Inr (sha (NAMESPACE_DOMAIN @ concat parts)))"

definition page_input :: "hash32 \<Rightarrow> hash32 option \<Rightarrow> nat list \<Rightarrow> 8 word list" where
  "page_input namespace parent tokens =
     PAGE_DOMAIN @ namespace @ (case parent of None \<Rightarrow> zero_hash | Some key \<Rightarrow> key)
     @ le_bytes 2 (length tokens mod 2 ^ 16) @ concat (map (le_bytes 4) tokens)"

definition derive :: "(8 word list \<Rightarrow> hash32) \<Rightarrow> hash32 \<Rightarrow> hash32 option \<Rightarrow> nat list \<Rightarrow> hash32" where
  "derive sha namespace parent tokens = sha (page_input namespace parent tokens)"

definition new_index :: "hash32 \<Rightarrow> prefix_index" where
  "new_index namespace = \<lparr>px_namespace = namespace, px_pages = fmempty\<rparr>"

definition is_empty :: "prefix_index \<Rightarrow> bool" where
  "is_empty index \<longleftrightarrow> px_pages index = fmempty"

type_synonym pending_page = "hash32 \<times> hash32 option \<times> tier_record \<times> bool"

text \<open>One page of an insertion, checked against the index; the loop carries the parent and the pages so far.\<close>

definition check_existing :: "hash32 option \<Rightarrow> tier_record \<Rightarrow> prefix_page \<Rightarrow> (prefix_error, bool) result" where
  "check_existing parent record existing =
     (if pp_parent existing \<noteq> parent then Inl (Err Collision)
      else
        rbind (map_err (\<lambda>_. Collision) (relation_to (pp_record existing) record)) (\<lambda>relation.
        if relation = MtpUpgrade \<and> tr_generation record \<le> tr_generation (pp_record existing)
        then Inl (Err Collision)
        else
          rbind (ok_or (checked_add 64 (pp_references existing) 1) Overflow) (\<lambda>_.
            Inr (relation = MtpUpgrade))))"

definition insert_page :: "(8 word list \<Rightarrow> hash32) \<Rightarrow> prefix_index \<Rightarrow> nat list \<times> tier_record \<Rightarrow>
    hash32 option \<times> pending_page list \<Rightarrow> (prefix_error, hash32 option \<times> pending_page list) result" where
  "insert_page sha index page state =
     (let (page_tokens, record) = page; (parent, pending) = state in
      rbind (map_err (\<lambda>_. TierRecord) (validate_record record)) (\<lambda>_.
      if tr_namespace record \<noteq> px_namespace index then Inl (Err Namespace)
      else
        let key = derive sha (px_namespace index) parent page_tokens in
        if tr_page_key record \<noteq> key then Inl (Err PageKey)
        else if key \<in> set (map fst pending) then Inl (Err Collision)
        else
          rbind (case fmlookup (px_pages index) key of
              Some existing \<Rightarrow> check_existing parent record existing
            | None \<Rightarrow> Inr False) (\<lambda>replace.
            Inr (Some key, pending @ [(key, parent, record, replace)]))))"

definition apply_page :: "pending_page \<Rightarrow> (hash32, prefix_page) fmap \<Rightarrow>
    (prefix_error, (hash32, prefix_page) fmap) result" where
  "apply_page entry pages =
     (let (key, parent, record, replace) = entry in
      case fmlookup pages key of
        Some existing \<Rightarrow>
          let existing = (if replace then existing\<lparr>pp_record := record\<rparr> else existing) in
          rbind (expect (checked_add 64 (pp_references existing) 1)) (\<lambda>references.
            Inr (fmupd key (existing\<lparr>pp_references := references\<rparr>) pages))
      | None \<Rightarrow> Inr (fmupd key \<lparr>pp_parent = parent, pp_record = record, pp_references = 1\<rparr> pages))"

definition insert_inner :: "(8 word list \<Rightarrow> hash32) \<Rightarrow> nat list \<Rightarrow> tier_record list \<Rightarrow> prefix_index \<Rightarrow>
    (prefix_error, prefix_index \<times> hash32 list) result" where
  "insert_inner sha tokens records index =
     (if tokens = [] \<or> length tokens mod PAGE_TOKENS \<noteq> 0 then Inl (Err PartialPage)
      else if length records \<noteq> length tokens div PAGE_TOKENS then Inl (Err RecordCount)
      else
        rbind (rfold (insert_page sha index) (zip (chunks_exact PAGE_TOKENS tokens) records) (None, [])) (\<lambda>(_, pending).
        rbind (rfold apply_page pending (px_pages index)) (\<lambda>pages.
          Inr (index\<lparr>px_pages := pages\<rparr>, map fst pending))))"

definition insert_prefix :: "(8 word list \<Rightarrow> hash32) \<Rightarrow> nat list \<Rightarrow> tier_record list \<Rightarrow> prefix_index \<Rightarrow>
    (prefix_error, hash32 list) result \<times> prefix_index" where
  "insert_prefix sha tokens records = transact (insert_inner sha tokens records)"

text \<open>The loop of \<open>longest_match_with_capability\<close>, which stops at the first page that is not there.\<close>

fun match_pages :: "(8 word list \<Rightarrow> hash32) \<Rightarrow> prefix_index \<Rightarrow> bool \<Rightarrow> hash32 option \<Rightarrow> nat list list \<Rightarrow>
    hash32 list \<times> tier_record option \<Rightarrow> hash32 list \<times> tier_record option" where
  "match_pages sha index require_draft parent [] found = found"
| "match_pages sha index require_draft parent (page_tokens # rest) found =
     (let key = derive sha (px_namespace index) parent page_tokens in
      case fmlookup (px_pages index) key of
        None \<Rightarrow> found
      | Some page \<Rightarrow>
          if pp_parent page \<noteq> parent \<or> (require_draft \<and> \<not> tr_mtp (pp_record page)) then found
          else match_pages sha index require_draft (Some key) rest (fst found @ [key], Some (pp_record page)))"

definition longest_match_with_capability :: "(8 word list \<Rightarrow> hash32) \<Rightarrow> prefix_index \<Rightarrow> nat list \<Rightarrow> bool \<Rightarrow>
    prefix_match option" where
  "longest_match_with_capability sha index tokens require_draft =
     (let (keys, terminal) = match_pages sha index require_draft None (chunks_exact PAGE_TOKENS tokens) ([], None) in
      map_option (\<lambda>record. \<lparr>pm_page_keys = keys, pm_matched_tokens = length keys * PAGE_TOKENS,
        pm_terminal_tier = tr_tier record, pm_terminal_generation = tr_generation record\<rparr>) terminal)"

definition longest_match :: "(8 word list \<Rightarrow> hash32) \<Rightarrow> prefix_index \<Rightarrow> nat list \<Rightarrow> prefix_match option" where
  "longest_match sha index tokens = longest_match_with_capability sha index tokens False"

definition references :: "prefix_index \<Rightarrow> hash32 \<Rightarrow> nat option" where
  "references index key = map_option pp_references (fmlookup (px_pages index) key)"

definition record_of :: "prefix_index \<Rightarrow> hash32 \<Rightarrow> tier_record option" where
  "record_of index key = map_option pp_record (fmlookup (px_pages index) key)"

fun derive_chain :: "(8 word list \<Rightarrow> hash32) \<Rightarrow> hash32 \<Rightarrow> hash32 option \<Rightarrow> nat list list \<Rightarrow> hash32 list" where
  "derive_chain sha namespace parent [] = []"
| "derive_chain sha namespace parent (page_tokens # rest) =
     (let key = derive sha namespace parent page_tokens in key # derive_chain sha namespace (Some key) rest)"

definition derive_keys :: "(8 word list \<Rightarrow> hash32) \<Rightarrow> prefix_index \<Rightarrow> nat list \<Rightarrow> hash32 list" where
  "derive_keys sha index tokens = derive_chain sha (px_namespace index) None (chunks_exact PAGE_TOKENS tokens)"

end
