(* ===== verification/Prefix_Props.thy ===== *)
theory Prefix_Props
  imports Prefix
begin

text \<open>
  What the prefix index promises: whatever was inserted is found again, with its reference count,
  and a match means that the same tokens were inserted, unless two of the byte strings that were
  hashed collide.
\<close>

section \<open>Chains of pages\<close>

text \<open>The pages of a prompt: key, parent and tokens of each.\<close>

fun links :: "(8 word list \<Rightarrow> hash32) \<Rightarrow> hash32 \<Rightarrow> hash32 option \<Rightarrow> nat list list \<Rightarrow> (hash32 \<times> hash32 option \<times> nat list) list" where
  "links sha ns p [] = []"
| "links sha ns p (c # cs) = (derive sha ns p c, p, c) # links sha ns (Some (derive sha ns p c)) cs"

lemma chain_links: "derive_chain sha ns p cs = map fst (links sha ns p cs)"
  by (induction cs arbitrary: p) (simp_all add: Let_def)

lemma length_links [simp]: "length (links sha ns p cs) = length cs"
  by (induction cs arbitrary: p) simp_all

lemma links_nth:
  assumes "i < length cs"
  shows "links sha ns p cs ! i = (derive sha ns (if i = 0 then p else Some (fst (links sha ns p cs ! (i - 1)))) (cs ! i),
    (if i = 0 then p else Some (fst (links sha ns p cs ! (i - 1)))), cs ! i)"
  using assms
proof (induction cs arbitrary: p i)
  case (Cons c cs)
  show ?case
  proof (cases i)
    case (Suc j)
    have "j < length cs" using Cons.prems Suc by simp
    from Cons.IH [OF this, of "Some (derive sha ns p c)"] show ?thesis using Suc by (cases j) simp_all
  qed simp
qed simp

lemma links_append: "\<exists>q. links sha ns p (cs @ ds) = links sha ns p cs @ links sha ns q ds"
  by (induction cs arbitrary: p) auto

lemma chunks_exact_append:
  assumes "0 < k" and "length xs = n * k"
  shows "chunks_exact k (xs @ ys) = chunks_exact k xs @ chunks_exact k ys"
  using assms(2)
proof (induction n arbitrary: xs)
  case (Suc n)
  then have "length (drop k xs) = n * k" by simp
  note IH = Suc.IH [OF this]
  have len: "k \<le> length xs" using Suc.prems by simp
  have "chunks_exact k (xs @ ys) = take k xs # chunks_exact k (drop k xs @ ys)"
    using len assms(1) by (subst chunks_exact.simps) simp
  moreover have "chunks_exact k xs = take k xs # chunks_exact k (drop k xs)"
    using len assms(1) by (subst chunks_exact.simps) simp
  ultimately show ?case using IH by simp
qed (simp add: chunks_exact.simps [of k "[]"] assms(1))

lemma chunks_exact_take:
  assumes "0 < k"
  shows "n \<le> length (chunks_exact k xs) \<Longrightarrow> n * k \<le> length xs \<and> concat (take n (chunks_exact k xs)) = take (n * k) xs"
proof (induction n arbitrary: xs)
  case (Suc n)
  have ge: "k \<le> length xs" using Suc.prems assms by (subst (asm) chunks_exact.simps) (auto split: if_splits)
  have eq: "chunks_exact k xs = take k xs # chunks_exact k (drop k xs)" using ge assms by (subst chunks_exact.simps) simp
  have IH: "n * k \<le> length (drop k xs)" "concat (take n (chunks_exact k (drop k xs))) = take (n * k) (drop k xs)"
    using Suc.IH [of "drop k xs"] Suc.prems eq by simp_all
  show ?case unfolding eq using IH ge by (simp flip: take_add)
qed simp

lemma chunks_exact_length:
  "0 < k \<Longrightarrow> c \<in> set (chunks_exact k xs) \<Longrightarrow> length c = k \<and> set c \<subseteq> set xs"
proof (induction k xs rule: chunks_exact.induct)
  case (1 k xs)
  have "chunks_exact k xs = (if length xs < k then [] else take k xs # chunks_exact k (drop k xs))"
    using "1.prems"(1) by (subst chunks_exact.simps) simp
  then show ?case using 1 by (auto split: if_splits dest: in_set_takeD in_set_dropD)
qed

section \<open>The bytes of a page\<close>

lemma page_input_inject:
  assumes "length ns = 32" and "\<forall>k. p = Some k \<longrightarrow> length k = 32" and "\<forall>k. q = Some k \<longrightarrow> length k = 32"
    and "length c = 64" "length d = 64" and "\<forall>t\<in>set c. t < 2 ^ 32" "\<forall>t\<in>set d. t < 2 ^ 32"
    and eq: "page_input ns p c = page_input ns q d"
  shows "c = d"
proof -
  have len: "length (case p of None \<Rightarrow> zero_hash | Some key \<Rightarrow> key) = 32" "length (case q of None \<Rightarrow> zero_hash | Some key \<Rightarrow> key) = 32"
    using assms(2,3) by (auto simp: zero_hash_def split: option.splits)
  have "concat (map (le_bytes 4) c) = concat (map (le_bytes 4) d)"
    using eq len unfolding page_input_def by simp
  then have map: "map (le_bytes 4) c = map (le_bytes 4) d" by (rule concat_map_inject) (simp_all add: assms(4,5))
  show ?thesis
  proof (rule nth_equalityI)
    fix i assume i: "i < length c"
    then have "le_bytes 4 (c ! i) = le_bytes 4 (d ! i)" using map assms(4,5) by (metis nth_map)
    moreover have "c ! i < 256 ^ 4" "d ! i < 256 ^ 4" using i assms(4-7) by auto
    ultimately show "c ! i = d ! i" by (simp add: le_bytes_inject)
  qed (simp add: assms(4,5))
qed

section \<open>Insertion\<close>

definition entry_fits :: "prefix_index \<Rightarrow> pending_page \<Rightarrow> bool" where
  "entry_fits x e \<longleftrightarrow> (case e of (k, p, r, replace) \<Rightarrow> validate_record r = Inr () \<and> tr_page_key r = k \<and> tr_namespace r = px_namespace x
     \<and> (case fmlookup (px_pages x) k of None \<Rightarrow> True | Some page \<Rightarrow> pp_parent page = p \<and> pp_references page + 1 < 2 ^ 64))"

lemma insert_page_Inr:
  assumes "insert_page sha x (c, r) (p, pending) = Inr (q, pending')"
  obtains replace where "q = Some (derive sha (px_namespace x) p c)" "pending' = pending @ [(derive sha (px_namespace x) p c, p, r, replace)]"
    "derive sha (px_namespace x) p c \<notin> set (map fst pending)" "entry_fits x (derive sha (px_namespace x) p c, p, r, replace)"
  using assms
  by (cases "fmlookup (px_pages x) (derive sha (px_namespace x) p c)")
    (auto simp: insert_page_def check_existing_def result_simps Let_def entry_fits_def split: if_splits)

lemma insert_pages_Inr:
  assumes "rfold (insert_page sha x) (zip cs rs) (p, pending) = Inr (q, pending')" and "length rs = length cs" and "distinct (map fst pending)"
  shows "\<exists>new. pending' = pending @ new \<and> map (\<lambda>(k, p, _). (k, p)) new = map (\<lambda>(k, p, _). (k, p)) (links sha (px_namespace x) p cs)
    \<and> distinct (map fst pending') \<and> (\<forall>e\<in>set new. entry_fits x e)"
  using assms
proof (induction cs arbitrary: rs p pending)
  case (Cons c cs)
  obtain r rs' where rs: "rs = r # rs'" "length rs' = length cs" using Cons.prems(2) by (cases rs) auto
  let ?k = "derive sha (px_namespace x) p c"
  obtain q1 pending1 where step: "insert_page sha x (c, r) (p, pending) = Inr (q1, pending1)"
    and rest: "rfold (insert_page sha x) (zip cs rs') (q1, pending1) = Inr (q, pending')"
    using Cons.prems(1) rs by (auto simp: result_simps)
  obtain replace where one: "q1 = Some ?k" "pending1 = pending @ [(?k, p, r, replace)]" "?k \<notin> set (map fst pending)"
    "entry_fits x (?k, p, r, replace)" by (rule insert_page_Inr [OF step])
  have "distinct (map fst pending1)" using one(2,3) Cons.prems(3) by simp
  then obtain new where new: "pending' = pending1 @ new"
    "map (\<lambda>(k, p, _). (k, p)) new = map (\<lambda>(k, p, _). (k, p)) (links sha (px_namespace x) (Some ?k) cs)"
    "distinct (map fst pending')" "\<forall>e\<in>set new. entry_fits x e"
    using Cons.IH [OF rest rs(2)] one(1) by blast
  show ?case
    by (rule exI [of _ "(?k, p, r, replace) # new"]) (use new one in auto)
qed simp

text \<open>What an entry of the insertion does to its page.\<close>

definition page_after :: "(hash32, prefix_page) fmap \<Rightarrow> pending_page \<Rightarrow> prefix_page" where
  "page_after m e = (case e of (k, p, r, replace) \<Rightarrow> (case fmlookup m k of
      None \<Rightarrow> \<lparr>pp_parent = p, pp_record = r, pp_references = 1\<rparr>
    | Some page \<Rightarrow> page\<lparr>pp_record := (if replace then r else pp_record page), pp_references := pp_references page + 1\<rparr>))"

lemma apply_pages:
  assumes "distinct (map fst es)" and "\<forall>e\<in>set es. \<forall>page. fmlookup m (fst e) = Some page \<longrightarrow> pp_references page + 1 < 2 ^ 64"
  shows "\<exists>m'. rfold apply_page es m = Inr m' \<and> (\<forall>k. fmlookup m' k =
    (case map_of es k of None \<Rightarrow> fmlookup m k | Some v \<Rightarrow> Some (page_after m (k, v))))"
  using assms
proof (induction es arbitrary: m)
  case (Cons e es)
  obtain k p r rep where e: "e = (k, p, r, rep)" by (cases e) auto
  let ?m = "fmupd k (page_after m e) m"
  have "apply_page e m = Inr ?m"
    using Cons.prems(2) e by (cases "fmlookup m k") (auto simp: apply_page_def page_after_def checked_add_def Let_def)
  moreover have "distinct (map fst es)" "\<forall>e\<in>set es. \<forall>page. fmlookup ?m (fst e) = Some page \<longrightarrow> pp_references page + 1 < 2 ^ 64"
    using Cons.prems e by auto
  then obtain m' where m': "rfold apply_page es ?m = Inr m'" "\<forall>k. fmlookup m' k =
    (case map_of es k of None \<Rightarrow> fmlookup ?m k | Some v \<Rightarrow> Some (page_after ?m (k, v)))" using Cons.IH [of ?m] by blast
  have "map_of es k = None" using Cons.prems(1) e by (simp add: map_of_eq_None_iff)
  then have "fmlookup m' j = (case map_of (e # es) j of None \<Rightarrow> fmlookup m j | Some v \<Rightarrow> Some (page_after m (j, v)))" for j
    using m'(2) e by (cases "j = k"; cases "map_of es j") (auto simp: page_after_def)
  ultimately show ?case using m'(1) by auto
qed simp

section \<open>The index and what was inserted\<close>

abbreviation chain :: "(8 word list \<Rightarrow> hash32) \<Rightarrow> hash32 \<Rightarrow> nat list \<Rightarrow> (hash32 \<times> hash32 option \<times> nat list) list" where
  "chain sha ns tokens \<equiv> links sha ns None (chunks_exact 64 tokens)"

inductive index_reachable :: "(8 word list \<Rightarrow> hash32) \<Rightarrow> hash32 \<Rightarrow> nat list list \<Rightarrow> prefix_index \<Rightarrow> bool" for sha ns where
  start: "index_reachable sha ns [] (new_index ns)"
| insert: "index_reachable sha ns hist x \<Longrightarrow> insert_prefix sha tokens records x = (Inr keys, x') \<Longrightarrow> index_reachable sha ns (tokens # hist) x'"

definition index_ok :: "(8 word list \<Rightarrow> hash32) \<Rightarrow> hash32 \<Rightarrow> nat list list \<Rightarrow> prefix_index \<Rightarrow> bool" where
  "index_ok sha ns hist x \<longleftrightarrow> px_namespace x = ns \<and> (\<forall>ts\<in>set hist. ts \<noteq> [] \<and> length ts mod 64 = 0 \<and> distinct (map fst (chain sha ns ts)))
     \<and> (\<forall>k page. fmlookup (px_pages x) k = Some page \<longrightarrow> tr_page_key (pp_record page) = k \<and> tr_namespace (pp_record page) = ns
          \<and> validate_record (pp_record page) = Inr () \<and> 0 < pp_references page \<and> pp_references page < 2 ^ 64)
     \<and> (\<forall>k. (case fmlookup (px_pages x) k of None \<Rightarrow> 0 | Some page \<Rightarrow> pp_references page)
          = length (filter (\<lambda>ts. k \<in> set (map fst (chain sha ns ts))) hist))
     \<and> (\<forall>ts\<in>set hist. \<forall>(k, p, c)\<in>set (chain sha ns ts). \<exists>page. fmlookup (px_pages x) k = Some page \<and> pp_parent page = p)"

lemma index_okD:
  assumes "index_ok sha ns hist x"
  shows "px_namespace x = ns"
    and "ts \<in> set hist \<Longrightarrow> ts \<noteq> [] \<and> length ts mod 64 = 0 \<and> distinct (map fst (chain sha ns ts))"
    and "fmlookup (px_pages x) k = Some page \<Longrightarrow> tr_page_key (pp_record page) = k \<and> tr_namespace (pp_record page) = ns
          \<and> validate_record (pp_record page) = Inr () \<and> 0 < pp_references page \<and> pp_references page < 2 ^ 64"
    and "(case fmlookup (px_pages x) k of None \<Rightarrow> 0 | Some page \<Rightarrow> pp_references page)
          = length (filter (\<lambda>ts. k \<in> set (map fst (chain sha ns ts))) hist)"
    and "ts \<in> set hist \<Longrightarrow> (k, p, c) \<in> set (chain sha ns ts) \<Longrightarrow> \<exists>page. fmlookup (px_pages x) k = Some page \<and> pp_parent page = p"
  using assms unfolding index_ok_def by blast+

lemma relation_to_no_panic: "relation_to r q \<noteq> Inl Panic"
  using validate_record_no_panic by (auto simp: relation_to_def result_simps split: if_splits)

lemma insert_page_no_panic: "insert_page sha x e st \<noteq> Inl Panic"
proof -
  obtain c r p pending where e: "e = (c, r)" "st = (p, pending)" by (cases e; cases st) auto
  have "check_existing p r page \<noteq> Inl Panic" for page
    using relation_to_no_panic [of "pp_record page" r] by (auto simp: check_existing_def result_simps split: if_splits)
  then show ?thesis using validate_record_no_panic [of r]
    by (auto simp: e insert_page_def result_simps Let_def split: if_splits option.splits)
qed

lemma page_after_parent:
  "entry_fits x (k, p, r, rep) \<Longrightarrow> pp_parent (page_after (px_pages x) (k, p, r, rep)) = p"
  by (auto simp: entry_fits_def page_after_def split: option.splits)

lemma page_after_ok:
  assumes "index_ok sha ns hist x" and "entry_fits x (k, v)"
  shows "tr_page_key (pp_record (page_after (px_pages x) (k, v))) = k \<and> tr_namespace (pp_record (page_after (px_pages x) (k, v))) = ns
    \<and> validate_record (pp_record (page_after (px_pages x) (k, v))) = Inr ()
    \<and> 0 < pp_references (page_after (px_pages x) (k, v)) \<and> pp_references (page_after (px_pages x) (k, v)) < 2 ^ 64"
  using assms index_okD(1,3) [OF assms(1)] by (cases v) (auto simp: entry_fits_def page_after_def split: option.splits)

lemma insert_applied:
  assumes ok: "index_ok sha ns hist x" and tokens: "tokens \<noteq> []" "length tokens mod 64 = 0"
    and es: "map (\<lambda>(k, p, _). (k, p)) es = map (\<lambda>(k, p, _). (k, p)) (chain sha ns tokens)" "distinct (map fst es)" "\<forall>e\<in>set es. entry_fits x e"
    and m: "\<forall>k. fmlookup m k = (case map_of es k of None \<Rightarrow> fmlookup (px_pages x) k | Some v \<Rightarrow> Some (page_after (px_pages x) (k, v)))"
  shows "index_ok sha ns (tokens # hist) (x\<lparr>px_pages := m\<rparr>)"
proof -
  have keys: "map fst es = map fst (chain sha ns tokens)"
    using arg_cong [OF es(1), of "map fst"] by (simp add: comp_def case_prod_beta)
  have fits: "entry_fits x (k, v)" if "map_of es k = Some v" for k v using es(3) map_of_SomeD [OF that] by blast
  have none: "map_of es k = None \<longleftrightarrow> k \<notin> set (map fst (chain sha ns tokens))" for k unfolding keys [symmetric] by (simp add: map_of_eq_None_iff)
  have "\<exists>page. fmlookup m k = Some page \<and> pp_parent page = p" if mem: "(k, p, c) \<in> set (chain sha ns tokens)" for k p c
  proof -
    have "(k, p) \<in> set (map (\<lambda>(k, p, _). (k, p)) es)" unfolding es(1) using mem by force
    then obtain r rep where "(k, p, r, rep) \<in> set es" by auto
    then have "map_of es k = Some (p, r, rep)" "entry_fits x (k, p, r, rep)" using es(2,3) by auto
    then show ?thesis using m page_after_parent by simp
  qed
  moreover have "\<exists>page. fmlookup m k = Some page \<and> pp_parent page = p" if mem: "ts \<in> set hist" "(k, p, c) \<in> set (chain sha ns ts)" for ts k p c
  proof -
    obtain page where page: "fmlookup (px_pages x) k = Some page" "pp_parent page = p" using index_okD(5) [OF ok mem] by blast
    then show ?thesis using m by (cases "map_of es k") (auto simp: page_after_def)
  qed
  moreover have "(case fmlookup m k of None \<Rightarrow> 0 | Some page \<Rightarrow> pp_references page)
      = length (filter (\<lambda>ts. k \<in> set (map fst (chain sha ns ts))) (tokens # hist))" for k
    using index_okD(4) [OF ok, of k] m none [of k] by (cases "map_of es k"; cases "fmlookup (px_pages x) k") (auto simp: page_after_def)
  moreover have "tr_page_key (pp_record page) = k \<and> tr_namespace (pp_record page) = ns
      \<and> validate_record (pp_record page) = Inr () \<and> 0 < pp_references page \<and> pp_references page < 2 ^ 64" if "fmlookup m k = Some page" for k page
  proof (cases "map_of es k")
    case None
    then show ?thesis using that m index_okD(3) [OF ok] by simp
  next
    case (Some v)
    then show ?thesis using that m page_after_ok [OF ok fits [OF Some]] by simp
  qed
  moreover have "distinct (map fst (chain sha ns tokens))" using es(2) keys by simp
  ultimately show ?thesis
    using index_okD(1,2) [OF ok] tokens unfolding index_ok_def by simp blast
qed

lemma insert_inner_ok:
  assumes ok: "index_ok sha ns hist x"
  shows "returns (- {Panic}) (\<lambda>(x', keys). index_ok sha ns (tokens # hist) x' \<and> keys = derive_keys sha x tokens) (insert_inner sha tokens records x)"
proof (cases "tokens = [] \<or> length tokens mod 64 \<noteq> 0 \<or> length records \<noteq> length tokens div 64")
  case True
  then have "insert_inner sha tokens records x = Inl (Err PartialPage) \<or> insert_inner sha tokens records x = Inl (Err RecordCount)"
    unfolding insert_inner_def by (cases "tokens = [] \<or> length tokens mod 64 \<noteq> 0") simp_all
  then show ?thesis by (elim disjE) (simp_all only: returns_simps, simp_all)
next
  case False
  let ?cs = "chunks_exact 64 tokens"
  have mult: "length tokens = (length tokens div 64) * 64" using False by (simp add: minus_mod_eq_div_mult [symmetric])
  have len: "length ?cs = length tokens div 64" using chunks_exact_props [OF _ mult] by simp
  show ?thesis
  proof (cases "rfold (insert_page sha x) (zip ?cs records) (None, [])")
    case (Inl f)
    have "rfold (insert_page sha x) (zip ?cs records) (None, []) \<noteq> Inl Panic"
      by (rule rfold_no_panic [where P = "\<lambda>_. True"]) (simp_all add: insert_page_no_panic)
    moreover have "insert_inner sha tokens records x = Inl f" using Inl False by (simp add: insert_inner_def)
    ultimately show ?thesis using Inl by simp
  next
    case (Inr y)
    obtain q es where y: "y = (q, es)" by (cases y)
    have es: "map (\<lambda>(k, p, _). (k, p)) es = map (\<lambda>(k, p, _). (k, p)) (chain sha ns tokens)" "distinct (map fst es)" "\<forall>e\<in>set es. entry_fits x e"
      using insert_pages_Inr [OF Inr [unfolded y]] len False index_okD(1) [OF ok] by auto
    have "\<forall>e\<in>set es. \<forall>page. fmlookup (px_pages x) (fst e) = Some page \<longrightarrow> pp_references page + 1 < 2 ^ 64"
      using es(3) by (auto simp: entry_fits_def)
    then obtain m where m: "rfold apply_page es (px_pages x) = Inr m"
      "\<forall>k. fmlookup m k = (case map_of es k of None \<Rightarrow> fmlookup (px_pages x) k | Some v \<Rightarrow> Some (page_after (px_pages x) (k, v)))"
      using apply_pages [OF es(2)] by blast
    have "insert_inner sha tokens records x = Inr (x\<lparr>px_pages := m\<rparr>, map fst es)"
      using False Inr y m(1) by (simp add: insert_inner_def)
    moreover have "map fst es = derive_keys sha x tokens"
      using arg_cong [OF es(1), of "map fst"] index_okD(1) [OF ok] by (simp add: comp_def case_prod_beta derive_keys_def chain_links)
    ultimately show ?thesis using insert_applied [OF ok _ _ es m(2)] False by simp
  qed
qed

lemma index_reachable_ok: "index_reachable sha ns hist x \<Longrightarrow> index_ok sha ns hist x"
proof (induction rule: index_reachable.induct)
  case start
  show ?case by (simp add: index_ok_def new_index_def)
next
  case (insert hist x tokens records keys x')
  then show ?case using insert_inner_ok [OF insert.IH, of tokens records] by (simp add: insert_prefix_def transact_Inr)
qed

section \<open>Matching\<close>

definition link_ok :: "prefix_index \<Rightarrow> bool \<Rightarrow> hash32 \<times> hash32 option \<times> nat list \<Rightarrow> bool" where
  "link_ok x require_draft l \<longleftrightarrow> (case l of (k, p, _) \<Rightarrow>
     \<exists>page. fmlookup (px_pages x) k = Some page \<and> pp_parent page = p \<and> (require_draft \<longrightarrow> tr_mtp (pp_record page)))"

lemma match_pages_eq:
  "fst (match_pages sha x rd p cs found) = fst found @ map fst (takeWhile (link_ok x rd) (links sha (px_namespace x) p cs))"
proof (induction cs arbitrary: p found)
  case (Cons c cs)
  let ?k = "derive sha (px_namespace x) p c"
  show ?case
  proof (cases "link_ok x rd (?k, p, c)")
    case True
    then obtain page where page: "fmlookup (px_pages x) ?k = Some page" "pp_parent page = p" "rd \<longrightarrow> tr_mtp (pp_record page)"
      by (auto simp: link_ok_def)
    then have "match_pages sha x rd p (c # cs) found = match_pages sha x rd (Some ?k) cs (fst found @ [?k], Some (pp_record page))"
      by (auto simp: Let_def)
    then show ?thesis using True Cons.IH by simp
  next
    case False
    then have "match_pages sha x rd p (c # cs) found = found" by (auto simp: link_ok_def Let_def split: option.splits)
    then show ?thesis using False by simp
  qed
qed simp

lemma match_pages_record:
  "snd found = None \<longleftrightarrow> fst found = [] \<Longrightarrow>
    snd (match_pages sha x rd p cs found) = None \<longleftrightarrow> fst (match_pages sha x rd p cs found) = []"
  by (induction cs arbitrary: p found) (auto simp: Let_def split: option.splits)

lemma longest_match_eq:
  "map_option pm_page_keys (longest_match_with_capability sha x tokens rd) =
     (let keys = map fst (takeWhile (link_ok x rd) (chain sha (px_namespace x) tokens)) in if keys = [] then None else Some keys)"
proof -
  let ?r = "match_pages sha x rd None (chunks_exact PAGE_TOKENS tokens) ([], None)"
  have "fst ?r = map fst (takeWhile (link_ok x rd) (chain sha (px_namespace x) tokens))" by (simp add: match_pages_eq)
  moreover have "snd ?r = None \<longleftrightarrow> fst ?r = []" by (rule match_pages_record) simp
  ultimately show ?thesis
    by (cases "snd ?r") (simp_all add: longest_match_with_capability_def case_prod_beta Let_def)
qed

lemma longest_match_tokens:
  "longest_match_with_capability sha x tokens rd = Some m \<Longrightarrow> pm_matched_tokens m = length (pm_page_keys m) * 64"
  by (auto simp: longest_match_with_capability_def case_prod_beta)

section \<open>The same key means the same tokens\<close>

lemma chain_same:
  assumes par: "\<And>l. l \<in> set (take (Suc i) (links sha ns None cs)) \<Longrightarrow> par (fst l) = fst (snd l)" "\<And>l. l \<in> set (links sha ns None ds) \<Longrightarrow> par (fst l) = fst (snd l)"
    and inj: "\<And>p q c d. c \<in> set cs \<Longrightarrow> d \<in> set ds \<Longrightarrow> page_input ns p c = page_input ns q d \<Longrightarrow> p \<in> P \<Longrightarrow> q \<in> P \<Longrightarrow> c = d"
    and P: "None \<in> P" "\<And>y. Some (sha y) \<in> P"
    and ij: "i < length cs" "j < length ds" "fst (links sha ns None cs ! i) = fst (links sha ns None ds ! j)"
  shows "(i = j \<and> take (Suc i) cs = take (Suc j) ds)
    \<or> (\<exists>a\<le>i. \<exists>b\<le>j. collides sha (page_input ns (fst (snd (links sha ns None cs ! a))) (cs ! a))
          (page_input ns (fst (snd (links sha ns None ds ! b))) (ds ! b)))"
  using par ij
proof (induction i arbitrary: j)
  case 0
  let ?L = "links sha ns None cs" and ?M = "links sha ns None ds"
  have in1: "?L ! 0 \<in> set (take (Suc 0) ?L)" using 0(3) by (simp add: take_Suc_conv_app_nth)
  have "fst (snd (?L ! 0)) = fst (snd (?M ! j))" using 0(1) [OF in1] 0(2) [of "?M ! j"] 0(4,5) by simp
  then have j: "j = 0" using links_nth [OF 0(3), of sha ns None] links_nth [OF 0(4), of sha ns None] by (auto split: if_splits)
  have eq: "sha (page_input ns None (cs ! 0)) = sha (page_input ns None (ds ! 0))"
    using 0(5) links_nth [OF 0(3), of sha ns None] links_nth [OF 0(4), of sha ns None] j by (simp add: derive_def)
  show ?case
  proof (cases "page_input ns None (cs ! 0) = page_input ns None (ds ! 0)")
    case True
    then have "cs ! 0 = ds ! 0" using inj [of "cs ! 0" "ds ! 0"] P(1) 0(3,4) j by auto
    then show ?thesis using j 0(3,4) by (simp add: take_Suc_conv_app_nth)
  next
    case False
    then have "collides sha (page_input ns (fst (snd (?L ! 0))) (cs ! 0)) (page_input ns (fst (snd (?M ! 0))) (ds ! 0))"
      using eq links_nth [OF 0(3), of sha ns None] links_nth [OF 0(4), of sha ns None] j by (simp add: collides_def)
    then show ?thesis using j by blast
  qed
next
  case (Suc i)
  let ?L = "links sha ns None cs" and ?M = "links sha ns None ds"
  have in1: "?L ! Suc i \<in> set (take (Suc (Suc i)) ?L)" using Suc.prems(3) by (simp add: take_Suc_conv_app_nth)
  have pars: "fst (snd (?L ! Suc i)) = fst (snd (?M ! j))" using Suc.prems(1) [OF in1] Suc.prems(2) [of "?M ! j"] Suc.prems(4,5) by simp
  have L: "fst (snd (?L ! Suc i)) = Some (fst (?L ! i))" using links_nth [OF Suc.prems(3), of sha ns None] by simp
  then obtain j' where j: "j = Suc j'" "fst (?L ! i) = fst (?M ! j')"
    using pars links_nth [OF Suc.prems(4), of sha ns None] by (cases j) auto
  have prefix: "\<And>l. l \<in> set (take (Suc i) ?L) \<Longrightarrow> par (fst l) = fst (snd l)"
    using Suc.prems(1) by (metis (no_types) Suc_n_not_le_n nat_le_linear set_take_subset_set_take subsetD)
  have IH: "(i = j' \<and> take (Suc i) cs = take (Suc j') ds)
    \<or> (\<exists>a\<le>i. \<exists>b\<le>j'. collides sha (page_input ns (fst (snd (?L ! a))) (cs ! a)) (page_input ns (fst (snd (?M ! b))) (ds ! b)))"
    using Suc.IH [OF prefix Suc.prems(2)] Suc.prems(3,4) j by auto
  let ?p = "fst (snd (?L ! Suc i))"
  have eq: "sha (page_input ns ?p (cs ! Suc i)) = sha (page_input ns ?p (ds ! j))"
    using Suc.prems(5) links_nth [OF Suc.prems(3), of sha ns None] links_nth [OF Suc.prems(4), of sha ns None] pars by (simp add: derive_def)
  have inP: "?p \<in> P" using L P(2) links_nth [of i cs sha ns None] Suc.prems(3) by (simp add: derive_def)
  show ?case
  proof (cases "page_input ns ?p (cs ! Suc i) = page_input ns ?p (ds ! j)")
    case True
    then have "cs ! Suc i = ds ! j" using inj [of "cs ! Suc i" "ds ! j"] inP Suc.prems(3,4) by auto
    then show ?thesis using IH j Suc.prems(3,4) by (auto simp: take_Suc_conv_app_nth intro: le_SucI)
  next
    case False
    then have "collides sha (page_input ns (fst (snd (?L ! Suc i))) (cs ! Suc i)) (page_input ns (fst (snd (?M ! j))) (ds ! j))"
      using eq pars by (simp add: collides_def)
    then show ?thesis by blast
  qed
qed

section \<open>Properties\<close>

lemma chain_append:
  assumes "length ts mod 64 = 0"
  obtains q where "chain sha ns (ts @ rest) = chain sha ns ts @ links sha ns q (chunks_exact 64 rest)"
proof -
  have mult: "length ts = (length ts div 64) * 64" using assms by (simp add: minus_mod_eq_div_mult [symmetric])
  have "chunks_exact 64 (ts @ rest) = chunks_exact 64 ts @ chunks_exact 64 rest" by (rule chunks_exact_append [OF _ mult]) simp
  then show ?thesis using links_append [of sha ns None "chunks_exact 64 ts" "chunks_exact 64 rest"] that by auto
qed

text \<open>
  (C18) What was inserted is found: for every prompt inserted into a new index, the longest match of
  any prompt that starts with it covers it with exactly its page keys, and every one of those
  keys has as many references as insertions contained it.
\<close>

theorem inserted_prefix_found:
  assumes "index_reachable sha ns hist x" and "ts \<in> set hist"
  shows "\<exists>m. longest_match sha x (ts @ rest) = Some m \<and> length ts \<le> pm_matched_tokens m
    \<and> take (length ts div 64) (pm_page_keys m) = derive_keys sha x ts
    \<and> (\<forall>k\<in>set (derive_keys sha x ts). references x k = Some (length (filter (\<lambda>us. k \<in> set (derive_keys sha x us)) hist)))"
proof -
  have ok: "index_ok sha ns hist x" by (rule index_reachable_ok [OF assms(1)])
  have ns: "px_namespace x = ns" by (rule index_okD(1) [OF ok])
  have ts: "ts \<noteq> []" "length ts mod 64 = 0" using index_okD(2) [OF ok assms(2)] by simp_all
  have mult: "length ts = (length ts div 64) * 64" using ts(2) by (simp add: minus_mod_eq_div_mult [symmetric])
  have len: "length (chain sha ns ts) = length ts div 64" using chunks_exact_props [OF _ mult] by simp
  obtain q where app: "chain sha ns (ts @ rest) = chain sha ns ts @ links sha ns q (chunks_exact 64 rest)" by (rule chain_append [OF ts(2)])
  have "\<forall>l\<in>set (chain sha ns ts). link_ok x False l" using index_okD(5) [OF ok assms(2)] by (force simp: link_ok_def)
  then have tw: "takeWhile (link_ok x False) (chain sha ns (ts @ rest)) = chain sha ns ts @ takeWhile (link_ok x False) (links sha ns q (chunks_exact 64 rest))"
    unfolding app by (simp add: takeWhile_append2)
  have "length ts div 64 \<noteq> 0" using ts(1) mult by (metis length_0_conv mult_0)
  then have "chain sha ns ts \<noteq> []" using len by (metis list.size(3))
  then obtain m where m: "longest_match sha x (ts @ rest) = Some m" "pm_page_keys m = map fst (takeWhile (link_ok x False) (chain sha ns (ts @ rest)))"
    using longest_match_eq [of sha x "ts @ rest" False] ns tw by (auto simp: longest_match_def Let_def)
  have keys: "derive_keys sha x us = map fst (chain sha ns us)" for us by (simp add: derive_keys_def chain_links ns)
  have "take (length ts div 64) (pm_page_keys m) = derive_keys sha x ts" unfolding m(2) tw keys using len by simp
  moreover have "length ts \<le> pm_matched_tokens m"
    using longest_match_tokens [of sha x "ts @ rest" False m] m mult len tw by (simp add: longest_match_def)
  moreover have "references x k = Some (length (filter (\<lambda>us. k \<in> set (derive_keys sha x us)) hist))" if mem: "k \<in> set (derive_keys sha x ts)" for k
  proof -
    obtain p c where "(k, p, c) \<in> set (chain sha ns ts)" using mem unfolding keys by auto
    then obtain page where "fmlookup (px_pages x) k = Some page" using index_okD(5) [OF ok assms(2)] by blast
    then show ?thesis using index_okD(4) [OF ok, of k] unfolding keys by (simp add: references_def)
  qed
  ultimately show ?thesis using m(1) by blast
qed

text \<open>The byte strings that are hashed for the pages of a prompt.\<close>

definition hashed :: "(8 word list \<Rightarrow> hash32) \<Rightarrow> hash32 \<Rightarrow> nat list \<Rightarrow> 8 word list list" where
  "hashed sha ns tokens = map (\<lambda>(k, p, c). page_input ns p c) (chain sha ns tokens)"

lemma hashed_nth: "i < length (chunks_exact 64 tokens) \<Longrightarrow>
    page_input ns (fst (snd (chain sha ns tokens ! i))) (chunks_exact 64 tokens ! i) \<in> set (hashed sha ns tokens)"
proof -
  assume i: "i < length (chunks_exact 64 tokens)"
  let ?l = "chain sha ns tokens ! i"
  have "snd (snd ?l) = chunks_exact 64 tokens ! i" by (subst links_nth) (use i in simp_all)
  moreover have "?l \<in> set (chain sha ns tokens)" using i by simp
  ultimately show ?thesis unfolding hashed_def set_map by (intro image_eqI [of _ _ ?l]) (simp_all add: case_prod_beta)
qed

text \<open>
  (C17) A match means the same tokens: if a reachable index matches pages of a prompt, then a prompt
  that agrees on all the matched tokens was inserted, or two different byte strings that were hashed,
  one for the prompt and one for an inserted one, have the same hash.
\<close>

theorem match_same_tokens:
  assumes "index_reachable sha ns hist x" and "\<forall>y. length (sha y) = 32" and "length ns = 32"
    and "\<forall>ts\<in>set (tokens # hist). \<forall>t\<in>set ts. t < 2 ^ 32"
    and "longest_match_with_capability sha x tokens require_draft = Some m"
  shows "(\<exists>ts\<in>set hist. pm_matched_tokens m \<le> length ts \<and> take (pm_matched_tokens m) tokens = take (pm_matched_tokens m) ts)
    \<or> (\<exists>ts\<in>set hist. \<exists>y\<in>set (hashed sha ns tokens). \<exists>z\<in>set (hashed sha ns ts). collides sha y z)"
proof -
  have ok: "index_ok sha ns hist x" by (rule index_reachable_ok [OF assms(1)])
  have ns: "px_namespace x = ns" by (rule index_okD(1) [OF ok])
  let ?cs = "chunks_exact 64 tokens"
  let ?L = "chain sha ns tokens" and ?par = "\<lambda>k. pp_parent (the (fmlookup (px_pages x) k))"
  have keys: "pm_page_keys m = map fst (takeWhile (link_ok x require_draft) ?L)" "pm_page_keys m \<noteq> []"
    using longest_match_eq [of sha x tokens require_draft] unfolding assms(5) ns Let_def
    by (simp_all only: option.map split: if_splits) simp_all
  define n where "n = length (takeWhile (link_ok x require_draft) ?L)"
  have tw: "takeWhile (link_ok x require_draft) ?L = take n ?L" unfolding n_def by (rule takeWhile_eq_take)
  have "n \<noteq> 0" using keys unfolding n_def by (metis length_0_conv list.map_disc_iff)
  then obtain i where n: "n = Suc i" using not0_implies_Suc by blast
  have i: "i < length ?cs" using n length_takeWhile_le [of "link_ok x require_draft" ?L] by (simp add: n_def)
  have ok_links: "link_ok x require_draft l" if "l \<in> set (take n ?L)" for l using that tw by (metis set_takeWhileD)
  have par1: "?par (fst l) = fst (snd l)" if "l \<in> set (take (Suc i) ?L)" for l
    using ok_links [of l] that n by (auto simp: link_ok_def)
  have "?L ! i \<in> set (take n ?L)" using i n by (simp add: take_Suc_conv_app_nth)
  then obtain page where "fmlookup (px_pages x) (fst (?L ! i)) = Some page"
    using ok_links [of "?L ! i"] by (auto simp: link_ok_def)
  then have "filter (\<lambda>ts. fst (?L ! i) \<in> set (map fst (chain sha ns ts))) hist \<noteq> []"
    using index_okD(3,4) [OF ok, of "fst (?L ! i)"] by force
  then obtain ts where ts: "ts \<in> set hist" "fst (?L ! i) \<in> set (map fst (chain sha ns ts))" by (auto simp: filter_empty_conv)
  let ?ds = "chunks_exact 64 ts"
  obtain j where j: "j < length ?ds" "fst (?L ! i) = fst (chain sha ns ts ! j)" using ts(2) by (auto simp: in_set_conv_nth)
  have par2: "?par (fst l) = fst (snd l)" if "l \<in> set (chain sha ns ts)" for l
    using index_okD(5) [OF ok ts(1)] that by (metis option.sel prod.collapse)
  have inj: "c = d" if "c \<in> set ?cs" "d \<in> set ?ds" "page_input ns p c = page_input ns q d"
    "p \<in> insert None (Some ` range sha)" "q \<in> insert None (Some ` range sha)" for p q c d
    using that assms(2-4) ts(1) chunks_exact_length [of 64 c tokens] chunks_exact_length [of 64 d ts]
    by (intro page_input_inject [of ns p q]) auto
  have "(i = j \<and> take (Suc i) ?cs = take (Suc j) ?ds) \<or> (\<exists>a\<le>i. \<exists>b\<le>j. collides sha
      (page_input ns (fst (snd (?L ! a))) (?cs ! a)) (page_input ns (fst (snd (chain sha ns ts ! b))) (?ds ! b)))"
    by (rule chain_same [where par = ?par and P = "insert None (Some ` range sha)"]) (use par1 par2 inj i j in simp_all)
  then show ?thesis
  proof
    assume same: "i = j \<and> take (Suc i) ?cs = take (Suc j) ?ds"
    have mt: "pm_matched_tokens m = Suc i * 64" using longest_match_tokens [OF assms(5)] keys(1) n by (simp add: n_def)
    have "Suc i \<le> length ?cs" "Suc i \<le> length ?ds" using i j(1) same by simp_all
    then have "take (Suc i * 64) tokens = take (Suc i * 64) ts \<and> Suc i * 64 \<le> length ts"
      using chunks_exact_take [of 64 "Suc i" tokens] chunks_exact_take [of 64 "Suc i" ts] same by (metis zero_less_numeral)
    then show ?thesis using ts(1) mt by auto
  next
    assume "\<exists>a\<le>i. \<exists>b\<le>j. collides sha (page_input ns (fst (snd (?L ! a))) (?cs ! a)) (page_input ns (fst (snd (chain sha ns ts ! b))) (?ds ! b))"
    then obtain a b where "a < length ?cs" "b < length ?ds"
      "collides sha (page_input ns (fst (snd (?L ! a))) (?cs ! a)) (page_input ns (fst (snd (chain sha ns ts ! b))) (?ds ! b))"
      using i j(1) by (meson le_less_trans)
    then show ?thesis using hashed_nth ts(1) by blast
  qed
qed

section \<open>An index with one page\<close>

definition two_hash :: "8 word list \<Rightarrow> hash32" where
  "two_hash bytes = sample_hash 2"

definition sample_index :: prefix_index where
  "sample_index = \<lparr>px_namespace = sample_hash 1,
     px_pages = fmupd (sample_hash 2) \<lparr>pp_parent = None, pp_record = sample_record, pp_references = 1\<rparr> fmempty\<rparr>"

lemma sample_pages: "chunks_exact 64 (replicate 64 t) = [replicate 64 t]"
  using chunks_exact_concat [of "[replicate 64 t]" 64] by simp

lemma sample_insert: "insert_prefix two_hash (replicate 64 5) [sample_record] (new_index (sample_hash 1)) = (Inr [sample_hash 2], sample_index)"
  using sample_record_valid
  by (simp add: insert_prefix_def transact_def insert_inner_def sample_pages insert_page_def derive_def two_hash_def new_index_def
      apply_page_def sample_index_def sample_record_def Let_def)

lemma sample_index_reachable: "index_reachable two_hash (sample_hash 1) [replicate 64 5] sample_index"
  by (rule index_reachable.insert [OF index_reachable.start sample_insert])

lemma inserted_prefix_found_witness:
  "\<exists>m. longest_match two_hash sample_index (replicate 64 5 @ [6, 7]) = Some m \<and> 64 \<le> pm_matched_tokens m"
  using inserted_prefix_found [OF sample_index_reachable, of "replicate 64 5" "[6, 7]"] by auto

lemma match_same_tokens_witness:
  "\<exists>m. longest_match_with_capability two_hash sample_index (replicate 64 5) False = Some m
     \<and> ((\<exists>ts\<in>set [replicate 64 (5::nat)]. pm_matched_tokens m \<le> length ts \<and> take (pm_matched_tokens m) (replicate 64 5) = take (pm_matched_tokens m) ts)
        \<or> (\<exists>ts\<in>set [replicate 64 5]. \<exists>y\<in>set (hashed two_hash (sample_hash 1) (replicate 64 5)).
             \<exists>z\<in>set (hashed two_hash (sample_hash 1) ts). collides two_hash y z))"
proof -
  obtain m where m: "longest_match_with_capability two_hash sample_index (replicate 64 5) False = Some m"
    by (simp add: longest_match_with_capability_def sample_pages derive_def two_hash_def sample_index_def Let_def)
  have typed: "\<forall>y. length (two_hash y) = 32" "length (sample_hash 1) = 32"
    "\<forall>ts\<in>set (replicate 64 (5::nat) # [replicate 64 5]). \<forall>t\<in>set ts. t < 2 ^ 32"
    by (simp_all add: two_hash_def sample_hash_def)
  from match_same_tokens [OF sample_index_reachable typed m] m show ?thesis by blast
qed

end
