(* ===== verification/Mtp.thy ===== *)
theory Mtp
  imports Prelude
begin

text \<open>
  \<open>crates/glm-cache/src/mtp.rs\<close>: the speculative tail of a sequence. A tail of some depth is begun at
  a committed position and resolved by the number of accepted draft tokens; the depth is
  clamped so that the tail stays within the positions of the model.
\<close>

record verify_outcome =
  vo_accepted_drafts :: nat
  vo_emitted_tokens :: nat
  vo_committed_position :: nat

record speculative_tail =
  st_committed_position :: nat
  st_depth :: nat
  st_target_tentative :: nat
  st_draft_tentative :: nat
  st_draft_indexer_tentative :: nat
  st_max_positions :: nat

datatype mtp_error = Bounds | Accepted

definition begin_tail :: "nat \<Rightarrow> nat \<Rightarrow> nat \<Rightarrow> (mtp_error, speculative_tail) result" where
  "begin_tail committed_position depth max_positions =
     (if depth > 6 \<or> committed_position \<ge> max_positions then Inl (Err Bounds)
      else
        let available = max_positions - committed_position;
            clamped_depth = min depth (case try_uint 8 (available - 1) of None \<Rightarrow> 2 ^ 8 - 1 | Some n \<Rightarrow> n)
        in Inr \<lparr>st_committed_position = committed_position, st_depth = clamped_depth,
                 st_target_tentative = saturating_add 8 clamped_depth 1, st_draft_tentative = clamped_depth,
                 st_draft_indexer_tentative = clamped_depth, st_max_positions = max_positions\<rparr>)"

definition verify_greedy :: "nat \<Rightarrow> speculative_tail \<Rightarrow> (mtp_error, verify_outcome) result" where
  "verify_greedy accepted_drafts tail =
     (if accepted_drafts > st_depth tail then Inl (Err Accepted)
      else
        let emitted = (if st_depth tail = 0 \<or> accepted_drafts < st_depth tail then saturating_add 8 accepted_drafts 1
                       else saturating_add 8 (st_depth tail) 1)
        in
        rbind (ok_or (checked_add 64 (st_committed_position tail) emitted) Bounds) (\<lambda>committed_position.
        if committed_position > st_max_positions tail then Inl (Err Bounds)
        else
          rbind (expect (checked_add 8 (st_depth tail) 1)) (\<lambda>rows.
          if st_target_tentative tail \<noteq> rows \<or> st_draft_tentative tail \<noteq> st_depth tail
             \<or> st_draft_indexer_tentative tail \<noteq> st_depth tail
          then Inl (Err Bounds)
          else Inr \<lparr>vo_accepted_drafts = accepted_drafts, vo_emitted_tokens = emitted,
                    vo_committed_position = committed_position\<rparr>)))"

text \<open>
  (C36) A speculative tail can always be resolved: below the last position it begins with the largest
  depth that fits, and whatever number of drafts up to that depth is accepted, verification
  succeeds, emits one token more than accepted, and stays within the positions.
\<close>

theorem tail_always_resolves:
  assumes "depth \<le> 6" and "pos < limit" and "limit < 2 ^ 64"
  shows "\<exists>tail. begin_tail pos depth limit = Inr tail \<and> st_depth tail = min depth (limit - pos - 1)
    \<and> (\<forall>accepted. verify_greedy accepted tail =
         (if accepted \<le> st_depth tail
          then Inr \<lparr>vo_accepted_drafts = accepted, vo_emitted_tokens = accepted + 1, vo_committed_position = pos + accepted + 1\<rparr>
          else Inl (Err Accepted)))
    \<and> pos + st_depth tail + 1 \<le> limit"
proof -
  let ?d = "min depth (limit - pos - 1)"
  let ?tail = "\<lparr>st_committed_position = pos, st_depth = ?d, st_target_tentative = ?d + 1, st_draft_tentative = ?d,
      st_draft_indexer_tentative = ?d, st_max_positions = limit\<rparr>"
  have clamp: "min depth (case try_uint 8 (limit - pos - 1) of None \<Rightarrow> 2 ^ 8 - 1 | Some n \<Rightarrow> n) = ?d"
    using assms(1) by (auto simp: try_uint_def)
  have "begin_tail pos depth limit = Inr ?tail"
    using assms clamp by (simp add: begin_tail_def Let_def saturating_add_def)
  moreover have "verify_greedy accepted ?tail =
         (if accepted \<le> ?d
          then Inr \<lparr>vo_accepted_drafts = accepted, vo_emitted_tokens = accepted + 1, vo_committed_position = pos + accepted + 1\<rparr>
          else Inl (Err Accepted))" for accepted
  proof (cases "accepted \<le> ?d")
    case True
    have d: "?d \<le> 6" "pos + ?d + 1 \<le> limit" using assms(1,2) by simp_all
    define e where "e = ?d"
    have emitted: "(if e = 0 \<or> accepted < e then saturating_add 8 accepted 1 else saturating_add 8 e 1) = accepted + 1"
      using True d(1) by (auto simp: saturating_add_def e_def)
    show ?thesis
      using True d assms(3) unfolding e_def [symmetric] verify_greedy_def Let_def speculative_tail.select_convs emitted
      by (simp add: checked_add_def)
  next
    case False
    then show ?thesis unfolding verify_greedy_def speculative_tail.select_convs by (simp only: not_le if_True simp_thms) auto
  qed
  moreover have "pos + ?d + 1 \<le> limit" using assms(2) by simp
  ultimately show ?thesis by auto
qed

lemma tail_always_resolves_witness:
  "\<exists>tail. begin_tail 1048574 6 1048576 = Inr tail \<and> st_depth tail = 1
     \<and> verify_greedy 1 tail = Inr \<lparr>vo_accepted_drafts = 1, vo_emitted_tokens = 2, vo_committed_position = 1048576\<rparr>"
proof -
  obtain tail where "begin_tail 1048574 6 1048576 = Inr tail" "st_depth tail = 1" "\<forall>accepted. verify_greedy accepted tail =
         (if accepted \<le> st_depth tail
          then Inr \<lparr>vo_accepted_drafts = accepted, vo_emitted_tokens = accepted + 1, vo_committed_position = 1048574 + accepted + 1\<rparr>
          else Inl (Err Accepted))"
    using tail_always_resolves [of 6 1048574 1048576] by auto
  then show ?thesis by simp
qed

end
