(* ===== verification/Budget.thy ===== *)
theory Budget
  imports Tier
begin

text \<open>
  \<open>crates/glm-cache/src/budget.rs\<close>: the bytes the caches of a context need, and the budget of a rank,
  which must fit the memory that was measured as usable.
\<close>

record cache_capacity =
  cc_target_kv_bytes :: nat
  cc_draft_kv_bytes :: nat
  cc_indexer_key_bytes :: nat
  cc_draft_indexer_key_bytes :: nat

datatype budget_error = Positions | Overflow | DoesNotFit nat nat

definition at_positions :: "nat \<Rightarrow> bool \<Rightarrow> (budget_error, cache_capacity) result" where
  "at_positions positions mtp =
     (if positions > MODEL_POSITIONS then Inl (Err Positions)
      else
        rbind (ok_or (Option.bind (checked_mul 64 positions TARGET_LAYERS)
          (\<lambda>value. checked_mul 64 value KV_RECORD_BYTES)) Overflow) (\<lambda>target_kv_bytes.
        rbind (if mtp then ok_or (checked_mul 64 positions KV_RECORD_BYTES) Overflow else Inr 0) (\<lambda>draft_kv_bytes.
        rbind (ok_or (Option.bind (checked_mul 64 positions INDEXER_GROUPS)
          (\<lambda>value. checked_mul 64 value INDEXER_RECORD_BYTES)) Overflow) (\<lambda>indexer_key_bytes.
        rbind (if mtp then ok_or (Option.bind (checked_mul 64 positions DRAFT_INDEXER_GROUPS)
            (\<lambda>value. checked_mul 64 value INDEXER_RECORD_BYTES)) Overflow else Inr 0) (\<lambda>draft_indexer_key_bytes.
          Inr \<lparr>cc_target_kv_bytes = target_kv_bytes, cc_draft_kv_bytes = draft_kv_bytes,
               cc_indexer_key_bytes = indexer_key_bytes, cc_draft_indexer_key_bytes = draft_indexer_key_bytes\<rparr>)))))"

definition total :: "cache_capacity \<Rightarrow> (budget_error, nat) result" where
  "total c = ok_or (Option.bind (Option.bind (checked_add 64 (cc_target_kv_bytes c) (cc_draft_kv_bytes c))
     (\<lambda>value. checked_add 64 value (cc_indexer_key_bytes c)))
     (\<lambda>value. checked_add 64 value (cc_draft_indexer_key_bytes c))) Overflow"

record budget =
  bg_weights :: nat
  bg_modules_and_contexts :: nat
  bg_graphs :: nat
  bg_workspace :: nat
  bg_collectives_and_staging :: nat
  bg_target_kv :: nat
  bg_draft_kv :: nat
  bg_indexer_keys :: nat
  bg_draft_indexer_keys :: nat
  bg_model_metadata :: nat
  bg_page_tables :: nat
  bg_allocator_padding :: nat
  bg_escrow :: nat

definition budget_terms :: "budget \<Rightarrow> nat list" where
  "budget_terms b = [bg_weights b, bg_modules_and_contexts b, bg_graphs b, bg_workspace b, bg_collectives_and_staging b,
     bg_target_kv b, bg_draft_kv b, bg_indexer_keys b, bg_draft_indexer_keys b, bg_model_metadata b, bg_page_tables b,
     bg_allocator_padding b, bg_escrow b]"

definition required :: "budget \<Rightarrow> (budget_error, nat) result" where
  "required b = rfold (\<lambda>value sum. ok_or (checked_add 64 sum value) Overflow) (budget_terms b) 0"

definition validate_budget :: "budget \<Rightarrow> nat \<Rightarrow> (budget_error, nat) result" where
  "validate_budget b measured_usable =
     rbind (required b) (\<lambda>req. ok_or (checked_sub measured_usable req) (DoesNotFit req measured_usable))"

lemma sum_checked:
  "rfold (\<lambda>value sum. ok_or (checked_add 64 sum value) Overflow) xs n =
     (if n + sum_list xs < 2 ^ 64 \<or> xs = [] then Inr (n + sum_list xs) else Inl (Err Overflow))"
  by (induction xs arbitrary: n) (auto simp: checked_add_def)

lemma required_eq: "required b = (if sum_list (budget_terms b) < 2 ^ 64 then Inr (sum_list (budget_terms b)) else Inl (Err Overflow))"
  using sum_checked [of "budget_terms b" 0] by (simp add: required_def budget_terms_def)

lemma capacity_eq:
  assumes "n \<le> MODEL_POSITIONS"
  shows "at_positions n mtp = Inr \<lparr>cc_target_kv_bytes = n * 28704, cc_draft_kv_bytes = (if mtp then n * 368 else 0),
      cc_indexer_key_bytes = n * 2772, cc_draft_indexer_key_bytes = (if mtp then n * 132 else 0)\<rparr>"
  using assms by (auto simp: at_positions_def checked_mul_def)



end
