(* ===== verification/Direct.thy ===== *)
theory Direct
  imports Tier
begin

text \<open>
  \<open>crates/glm-cache/src/direct.rs\<close>: the extent format of the direct tier. The pieces of a page lie
  at fixed, aligned offsets of one extent, the gaps are zero, and a record holds the hashes of the
  extent and of every piece. The address of an allocation is a parameter, and so is SHA-256;
  allocations succeed.
\<close>

section \<open>Constants and data\<close>

definition DIRECT_TIER_FORMAT_VERSION :: nat where [simp]: "DIRECT_TIER_FORMAT_VERSION = 1"
definition DIRECT_IO_ALIGNMENT :: nat where [simp]: "DIRECT_IO_ALIGNMENT = 4096"
definition TARGET_KV_EXTENT_OFFSET :: nat where [simp]: "TARGET_KV_EXTENT_OFFSET = 0"
definition TARGET_KV_EXTENT_LENGTH :: nat where [simp]: "TARGET_KV_EXTENT_LENGTH = TARGET_KV_PAGE_BYTES"
definition TARGET_INDEXER_EXTENT_OFFSET :: nat where [simp]: "TARGET_INDEXER_EXTENT_OFFSET = 1839104"
definition TARGET_INDEXER_EXTENT_LENGTH :: nat where [simp]: "TARGET_INDEXER_EXTENT_LENGTH = TARGET_INDEXER_PAGE_BYTES"
definition DRAFT_SIDECAR_EXTENT_OFFSET :: nat where [simp]: "DRAFT_SIDECAR_EXTENT_OFFSET = 2019328"
definition DRAFT_SIDECAR_EXTENT_LENGTH :: nat where [simp]: "DRAFT_SIDECAR_EXTENT_LENGTH = DRAFT_SIDECAR_PAGE_BYTES"
definition TARGET_ONLY_LOGICAL_BYTES :: nat where
  [simp]: "TARGET_ONLY_LOGICAL_BYTES = TARGET_KV_EXTENT_LENGTH + TARGET_INDEXER_EXTENT_LENGTH"
definition TARGET_ONLY_PHYSICAL_BYTES :: nat where [simp]: "TARGET_ONLY_PHYSICAL_BYTES = 2019328"
definition MTP_LOGICAL_BYTES :: nat where
  [simp]: "MTP_LOGICAL_BYTES = TARGET_ONLY_LOGICAL_BYTES + DRAFT_SIDECAR_EXTENT_LENGTH"
definition MTP_PHYSICAL_BYTES :: nat where [simp]: "MTP_PHYSICAL_BYTES = 2052096"
definition TARGET_INDEXER_END :: nat where
  [simp]: "TARGET_INDEXER_END = TARGET_INDEXER_EXTENT_OFFSET + TARGET_INDEXER_EXTENT_LENGTH"
definition DRAFT_SIDECAR_END :: nat where
  [simp]: "DRAFT_SIDECAR_END = DRAFT_SIDECAR_EXTENT_OFFSET + DRAFT_SIDECAR_EXTENT_LENGTH"

datatype direct_tier_capability = Target | Mtp

definition physical_bytes :: "direct_tier_capability \<Rightarrow> nat" where
  "physical_bytes c = (case c of Target \<Rightarrow> TARGET_ONLY_PHYSICAL_BYTES | Mtp \<Rightarrow> MTP_PHYSICAL_BYTES)"

definition logical_bytes :: "direct_tier_capability \<Rightarrow> nat" where
  "logical_bytes c = (case c of Target \<Rightarrow> TARGET_ONLY_LOGICAL_BYTES | Mtp \<Rightarrow> MTP_LOGICAL_BYTES)"

record direct_piece_record =
  dp_piece :: tier_piece
  dp_extent_offset :: nat
  dp_logical_length :: nat
  dp_sha256 :: hash32

record direct_extent_record =
  dx_format_version :: nat
  dx_namespace :: hash32
  dx_page_key :: hash32
  dx_durable_revision :: nat
  dx_capability :: direct_tier_capability
  dx_segment_id :: nat
  dx_physical_offset :: nat
  dx_physical_length :: nat
  dx_physical_sha256 :: hash32
  dx_pieces :: "direct_piece_record list"

record direct_page_pieces =
  pc_target_kv :: "8 word list"
  pc_target_indexer :: "8 word list"
  pc_draft_sidecar :: "8 word list option"

record direct_extent_view =
  vw_target_kv :: "8 word list"
  vw_target_indexer :: "8 word list"
  vw_draft_sidecar :: "8 word list option"

record direct_extent_buffer =
  xb_storage :: "8 word list"
  xb_aligned_start :: nat
  xb_length :: nat

datatype direct_extent_error =
    Version | Identity | AddressAlignment | OffsetAlignment | LengthAlignment | Pieces | Physical | PhysicalChecksum
  | PieceChecksum tier_piece | Padding | LegacyRecord | MigrationRequired | Allocation | Overflow

section \<open>Spans and pieces\<close>

definition validate_direct_io_span :: "nat \<Rightarrow> nat \<Rightarrow> nat \<Rightarrow> nat \<Rightarrow> (direct_extent_error, unit) result" where
  "validate_direct_io_span address file_offset len expected_length =
     (if address = 0 \<or> address mod DIRECT_IO_ALIGNMENT \<noteq> 0 then Inl (Err AddressAlignment)
      else if file_offset mod DIRECT_IO_ALIGNMENT \<noteq> 0 then Inl (Err OffsetAlignment)
      else if len = 0 \<or> len mod DIRECT_IO_ALIGNMENT \<noteq> 0 \<or> len \<noteq> expected_length then Inl (Err LengthAlignment)
      else Inr ())"

definition expected_piece_layout :: "direct_tier_capability \<Rightarrow> (tier_piece \<times> nat \<times> nat) list" where
  "expected_piece_layout capability =
     (let target = [(TargetKv, TARGET_KV_EXTENT_OFFSET, TARGET_KV_EXTENT_LENGTH),
            (TargetIndexer, TARGET_INDEXER_EXTENT_OFFSET, TARGET_INDEXER_EXTENT_LENGTH)]
      in case capability of
           Target \<Rightarrow> target
         | Mtp \<Rightarrow> target @ [(DraftSidecar, DRAFT_SIDECAR_EXTENT_OFFSET, DRAFT_SIDECAR_EXTENT_LENGTH)])"

definition check_piece :: "nat \<Rightarrow> direct_piece_record \<times> tier_piece \<times> nat \<times> nat \<Rightarrow> (direct_extent_error, unit) result" where
  "check_piece physical_length entry =
     (let (observed, piece, offset, len) = entry in
      if dp_piece observed \<noteq> piece \<or> dp_extent_offset observed \<noteq> offset \<or> dp_logical_length observed \<noteq> len
         \<or> dp_sha256 observed = zero_hash \<or> dp_extent_offset observed mod DIRECT_IO_ALIGNMENT \<noteq> 0
      then Inl (Err Pieces)
      else
        rbind (ok_or (checked_add 64 (dp_extent_offset observed) (dp_logical_length observed)) Overflow) (\<lambda>piece_end.
        if piece_end > physical_length then Inl (Err Pieces) else Inr ()))"

definition validate_extent :: "direct_extent_record \<Rightarrow> (direct_extent_error, unit) result" where
  "validate_extent r =
     (if dx_format_version r \<noteq> DIRECT_TIER_FORMAT_VERSION then Inl (Err Version)
      else if dx_namespace r = zero_hash \<or> dx_page_key r = zero_hash \<or> dx_durable_revision r = 0 \<or> dx_segment_id r = 0
      then Inl (Err Identity)
      else if dx_physical_length r \<noteq> physical_bytes (dx_capability r) \<or> dx_physical_sha256 r = zero_hash
      then Inl (Err Physical)
      else
        rbind (validate_direct_io_span DIRECT_IO_ALIGNMENT (dx_physical_offset r) (dx_physical_length r)
          (physical_bytes (dx_capability r))) (\<lambda>_.
        let expected = expected_piece_layout (dx_capability r) in
        if length (dx_pieces r) \<noteq> length expected then Inl (Err Pieces)
        else check_all (check_piece (dx_physical_length r)) (zip (dx_pieces r) expected)))"

definition try_from_blocking_store :: "tier_record \<Rightarrow> (direct_extent_error, direct_extent_record) result" where
  "try_from_blocking_store r =
     rbind (map_err (\<lambda>_. LegacyRecord) (validate_record r)) (\<lambda>_. Inl (Err MigrationRequired))"

text \<open>A sub-slice with bounds checked, as \<open>get\<close> with a range gives it.\<close>

definition get_range :: "'a list \<Rightarrow> nat \<Rightarrow> nat \<Rightarrow> 'a list option" where
  "get_range xs start stop = (if start \<le> stop \<and> stop \<le> length xs then Some (slice xs start (stop - start)) else None)"

definition copy_piece :: "nat \<Rightarrow> 8 word list \<Rightarrow> 8 word list \<Rightarrow> (direct_extent_error, 8 word list) result" where
  "copy_piece offset source output =
     rbind (ok_or (try_uint 64 offset) Overflow) (\<lambda>start.
     rbind (ok_or (checked_add 64 start (length source)) Overflow) (\<lambda>stop.
     rbind (ok_or (get_range output start stop) Physical) (\<lambda>_.
       Inr (take start output @ source @ drop stop output))))"

definition piece_bytes :: "8 word list \<Rightarrow> nat \<Rightarrow> nat \<Rightarrow> (direct_extent_error, 8 word list) result" where
  "piece_bytes extent offset len =
     rbind (ok_or (try_uint 64 offset) Overflow) (\<lambda>start.
     rbind (ok_or (try_uint 64 len) Overflow) (\<lambda>len.
     rbind (ok_or (checked_add 64 start len) Overflow) (\<lambda>stop.
       ok_or (get_range extent start stop) Physical)))"

definition check_zero :: "8 word list \<Rightarrow> nat \<Rightarrow> nat \<Rightarrow> (direct_extent_error, unit) result" where
  "check_zero extent start stop =
     rbind (ok_or (get_range extent start stop) Physical) (\<lambda>bytes.
     if list_ex (\<lambda>byte. byte \<noteq> 0) bytes then Inl (Err Padding) else Inr ())"

definition validate_zero_padding :: "8 word list \<Rightarrow> direct_tier_capability \<Rightarrow> (direct_extent_error, unit) result" where
  "validate_zero_padding extent capability =
     rbind (check_zero extent TARGET_KV_EXTENT_LENGTH TARGET_INDEXER_EXTENT_OFFSET) (\<lambda>_.
     case capability of
       Target \<Rightarrow>
         if length extent \<noteq> TARGET_ONLY_PHYSICAL_BYTES then Inl (Err Padding)
         else check_zero extent TARGET_INDEXER_END TARGET_ONLY_PHYSICAL_BYTES
     | Mtp \<Rightarrow>
         if length extent \<noteq> MTP_PHYSICAL_BYTES then Inl (Err Padding)
         else
           rbind (check_zero extent TARGET_INDEXER_END DRAFT_SIDECAR_EXTENT_OFFSET) (\<lambda>_.
           check_zero extent DRAFT_SIDECAR_END MTP_PHYSICAL_BYTES))"

section \<open>Buffers\<close>

definition as_slice :: "direct_extent_buffer \<Rightarrow> 8 word list" where
  "as_slice b = slice (xb_storage b) (xb_aligned_start b) (xb_length b)"

text \<open>A buffer in storage that the allocator put at the given address.\<close>

definition new_buffer :: "nat \<Rightarrow> direct_tier_capability \<Rightarrow> (direct_extent_error, direct_extent_buffer) result" where
  "new_buffer address capability =
     rbind (ok_or (try_uint 64 (physical_bytes capability)) Overflow) (\<lambda>len.
     rbind (ok_or (checked_add 64 len (DIRECT_IO_ALIGNMENT - 1)) Overflow) (\<lambda>storage_length.
     rbind (ok_or (checked_add 64 address (DIRECT_IO_ALIGNMENT - 1)) Overflow) (\<lambda>sum.
     let aligned_address = sum div DIRECT_IO_ALIGNMENT * DIRECT_IO_ALIGNMENT in
     rbind (ok_or (checked_sub aligned_address address) Overflow) (\<lambda>aligned_start.
     rbind (validate_direct_io_span (address + aligned_start) 0 (physical_bytes capability) (physical_bytes capability)) (\<lambda>_.
       Inr \<lparr>xb_storage = replicate storage_length 0, xb_aligned_start = aligned_start, xb_length = len\<rparr>)))))"

text \<open>Writing the whole slice of a buffer.\<close>

definition set_slice :: "8 word list \<Rightarrow> direct_extent_buffer \<Rightarrow> direct_extent_buffer" where
  "set_slice bytes b = b\<lparr>xb_storage := take (xb_aligned_start b) (xb_storage b) @ bytes
     @ drop (xb_aligned_start b + xb_length b) (xb_storage b)\<rparr>"

section \<open>Encoding and decoding\<close>

definition encode_piece :: "(8 word list \<Rightarrow> hash32) \<Rightarrow> tier_piece \<Rightarrow> nat \<Rightarrow> nat \<Rightarrow> 8 word list \<Rightarrow> direct_piece_record" where
  "encode_piece sha piece offset len bytes =
     \<lparr>dp_piece = piece, dp_extent_offset = offset, dp_logical_length = len, dp_sha256 = sha bytes\<rparr>"

definition encode_direct_extent :: "(8 word list \<Rightarrow> hash32) \<Rightarrow> nat \<Rightarrow> hash32 \<Rightarrow> hash32 \<Rightarrow> nat \<Rightarrow> nat \<Rightarrow> nat \<Rightarrow> direct_page_pieces \<Rightarrow>
    (direct_extent_error, direct_extent_record \<times> direct_extent_buffer) result" where
  "encode_direct_extent sha address namespace page_key durable_revision segment_id physical_offset pieces =
     (let capability = (if pc_draft_sidecar pieces \<noteq> None then Mtp else Target) in
      if length (pc_target_kv pieces) \<noteq> TARGET_KV_EXTENT_LENGTH
         \<or> length (pc_target_indexer pieces) \<noteq> TARGET_INDEXER_EXTENT_LENGTH
         \<or> (case pc_draft_sidecar pieces of None \<Rightarrow> False | Some draft \<Rightarrow> length draft \<noteq> DRAFT_SIDECAR_EXTENT_LENGTH)
      then Inl (Err Pieces)
      else
        rbind (validate_direct_io_span DIRECT_IO_ALIGNMENT physical_offset (physical_bytes capability)
          (physical_bytes capability)) (\<lambda>_.
        rbind (new_buffer address capability) (\<lambda>buffer.
        rbind (copy_piece TARGET_KV_EXTENT_OFFSET (pc_target_kv pieces) (map (\<lambda>_. 0) (as_slice buffer))) (\<lambda>output.
        rbind (copy_piece TARGET_INDEXER_EXTENT_OFFSET (pc_target_indexer pieces) output) (\<lambda>output.
        rbind (case pc_draft_sidecar pieces of
            Some draft \<Rightarrow> copy_piece DRAFT_SIDECAR_EXTENT_OFFSET draft output
          | None \<Rightarrow> Inr output) (\<lambda>output.
        rbind (validate_zero_padding output capability) (\<lambda>_.
        let buffer = set_slice output buffer;
            piece_records =
              [encode_piece sha TargetKv TARGET_KV_EXTENT_OFFSET TARGET_KV_EXTENT_LENGTH (pc_target_kv pieces),
               encode_piece sha TargetIndexer TARGET_INDEXER_EXTENT_OFFSET TARGET_INDEXER_EXTENT_LENGTH (pc_target_indexer pieces)]
              @ (case pc_draft_sidecar pieces of
                   Some draft \<Rightarrow> [encode_piece sha DraftSidecar DRAFT_SIDECAR_EXTENT_OFFSET DRAFT_SIDECAR_EXTENT_LENGTH draft]
                 | None \<Rightarrow> []);
            record = \<lparr>dx_format_version = DIRECT_TIER_FORMAT_VERSION, dx_namespace = namespace, dx_page_key = page_key,
              dx_durable_revision = durable_revision, dx_capability = capability, dx_segment_id = segment_id,
              dx_physical_offset = physical_offset, dx_physical_length = physical_bytes capability,
              dx_physical_sha256 = sha (as_slice buffer), dx_pieces = piece_records\<rparr>
        in rbind (validate_extent record) (\<lambda>_. Inr (record, buffer)))))))))"

definition check_piece_hash :: "(8 word list \<Rightarrow> hash32) \<Rightarrow> 8 word list \<Rightarrow> direct_piece_record \<Rightarrow> (direct_extent_error, unit) result" where
  "check_piece_hash sha extent piece =
     rbind (piece_bytes extent (dp_extent_offset piece) (dp_logical_length piece)) (\<lambda>bytes.
     if sha bytes \<noteq> dp_sha256 piece then Inl (Err (PieceChecksum (dp_piece piece))) else Inr ())"

definition decode_direct_extent :: "(8 word list \<Rightarrow> hash32) \<Rightarrow> nat \<Rightarrow> direct_extent_record \<Rightarrow> 8 word list \<Rightarrow>
    (direct_extent_error, direct_extent_view) result" where
  "decode_direct_extent sha address record extent =
     rbind (validate_extent record) (\<lambda>_.
     rbind (validate_direct_io_span address (dx_physical_offset record) (length extent) (dx_physical_length record)) (\<lambda>_.
     if sha extent \<noteq> dx_physical_sha256 record then Inl (Err PhysicalChecksum)
     else
       rbind (validate_zero_padding extent (dx_capability record)) (\<lambda>_.
       rbind (check_all (check_piece_hash sha extent) (dx_pieces record)) (\<lambda>_.
       rbind (piece_bytes extent TARGET_KV_EXTENT_OFFSET TARGET_KV_EXTENT_LENGTH) (\<lambda>target_kv.
       rbind (piece_bytes extent TARGET_INDEXER_EXTENT_OFFSET TARGET_INDEXER_EXTENT_LENGTH) (\<lambda>target_indexer.
       rbind (if dx_capability record = Mtp
              then rbind (piece_bytes extent DRAFT_SIDECAR_EXTENT_OFFSET DRAFT_SIDECAR_EXTENT_LENGTH) (\<lambda>draft. Inr (Some draft))
              else Inr None) (\<lambda>draft_sidecar.
         Inr \<lparr>vw_target_kv = target_kv, vw_target_indexer = target_indexer, vw_draft_sidecar = draft_sidecar\<rparr>)))))))"

end
