(* ===== verification/Direct_Props.thy ===== *)
theory Direct_Props
  imports Direct
begin

text \<open>The extent format is exact: what was encoded is decoded, and a record binds the bytes it was made for.\<close>

section \<open>Pieces in an extent\<close>

definition zeros :: "nat \<Rightarrow> 8 word list" where
  "zeros n = replicate n 0"

lemma length_zeros [simp]: "length (zeros n) = n"
  by (simp add: zeros_def)

lemma zeros_add: "zeros (m + n) = zeros m @ zeros n"
  by (simp add: zeros_def replicate_add)

lemma get_range_mid: "length pre = a \<Longrightarrow> length x = n \<Longrightarrow> b = a + n \<Longrightarrow> get_range (pre @ x @ post) a b = Some x"
  by (simp add: get_range_def slice_def)

lemma copy_piece_mid:
  "length pre = a \<Longrightarrow> length x = length source \<Longrightarrow> a + length source < 2 ^ 64 \<Longrightarrow>
     copy_piece a source (pre @ x @ post) = Inr (pre @ source @ post)"
  by (simp add: copy_piece_def try_uint_def checked_add_def get_range_mid)

lemma piece_bytes_mid:
  "length pre = a \<Longrightarrow> length x = n \<Longrightarrow> a + n < 2 ^ 64 \<Longrightarrow> piece_bytes (pre @ x @ post) a n = Inr x"
  by (simp add: piece_bytes_def try_uint_def checked_add_def get_range_mid)

lemma check_zero_mid: "length pre = a \<Longrightarrow> b = a + n \<Longrightarrow> check_zero (pre @ zeros n @ post) a b = Inr ()"
  by (simp add: check_zero_def get_range_mid list_ex_iff zeros_def)

text \<open>The bytes of an extent.\<close>

definition extent_of :: "direct_page_pieces \<Rightarrow> 8 word list" where
  "extent_of p = pc_target_kv p @ zeros 2048 @ pc_target_indexer p @ zeros 2816
     @ (case pc_draft_sidecar p of None \<Rightarrow> [] | Some draft \<Rightarrow> draft @ zeros 768)"

definition pieces_ok :: "direct_page_pieces \<Rightarrow> bool" where
  "pieces_ok p \<longleftrightarrow> length (pc_target_kv p) = 1837056 \<and> length (pc_target_indexer p) = 177408
     \<and> (case pc_draft_sidecar p of None \<Rightarrow> True | Some draft \<Rightarrow> length draft = 32000)"

definition capability_of :: "direct_page_pieces \<Rightarrow> direct_tier_capability" where
  "capability_of p = (if pc_draft_sidecar p \<noteq> None then Mtp else Target)"

lemma physical_split:
  "physical_bytes Target = 1837056 + (2048 + (177408 + 2816))"
  "physical_bytes Mtp = 1837056 + (2048 + (177408 + (2816 + (32000 + 768))))"
  by (simp_all add: physical_bytes_def)

lemma extent_pieces:
  assumes "pieces_ok p"
  shows "piece_bytes (extent_of p) 0 1837056 = Inr (pc_target_kv p)"
    and "piece_bytes (extent_of p) 1839104 177408 = Inr (pc_target_indexer p)"
    and "pc_draft_sidecar p = Some d \<Longrightarrow> piece_bytes (extent_of p) 2019328 32000 = Inr d"
    and "length (extent_of p) = physical_bytes (capability_of p)"
    and "validate_zero_padding (extent_of p) (capability_of p) = Inr ()"
proof -
  let ?k = "pc_target_kv p" and ?i = "pc_target_indexer p"
  let ?t = "case pc_draft_sidecar p of None \<Rightarrow> [] | Some draft \<Rightarrow> draft @ zeros 768"
  have k: "length ?k = 1837056" and i: "length ?i = 177408" using assms by (simp_all add: pieces_ok_def)
  show "piece_bytes (extent_of p) 0 1837056 = Inr ?k"
    unfolding extent_of_def using piece_bytes_mid [of "[]" 0 ?k 1837056] k by simp
  show "piece_bytes (extent_of p) 1839104 177408 = Inr ?i"
    unfolding extent_of_def using piece_bytes_mid [of "?k @ zeros 2048" 1839104 ?i 177408] k i by simp
  show "piece_bytes (extent_of p) 2019328 32000 = Inr d" if d: "pc_draft_sidecar p = Some d"
    unfolding extent_of_def using piece_bytes_mid [of "?k @ zeros 2048 @ ?i @ zeros 2816" 2019328 d 32000 "zeros 768"] k i d assms
    by (simp add: pieces_ok_def)
  show len: "length (extent_of p) = physical_bytes (capability_of p)"
    using assms by (auto simp: extent_of_def pieces_ok_def capability_of_def physical_bytes_def split: option.splits)
  have gap1: "check_zero (extent_of p) 1837056 1839104 = Inr ()"
    unfolding extent_of_def using check_zero_mid [of ?k 1837056 1839104 2048] k by simp
  have gap2: "check_zero (extent_of p) 2016512 2019328 = Inr ()"
    unfolding extent_of_def using check_zero_mid [of "?k @ zeros 2048 @ ?i" 2016512 2019328 2816] k i by simp
  have gap3: "check_zero (extent_of p) 2051328 2052096 = Inr ()" if d: "pc_draft_sidecar p = Some d" for d
    unfolding extent_of_def using check_zero_mid [of "?k @ zeros 2048 @ ?i @ zeros 2816 @ d" 2051328 2052096 768 "[]"] k i d assms
    by (simp add: pieces_ok_def)
  show "validate_zero_padding (extent_of p) (capability_of p) = Inr ()"
    using len gap1 gap2 gap3 by (cases "pc_draft_sidecar p") (auto simp: validate_zero_padding_def capability_of_def physical_bytes_def)
qed

section \<open>Encoding\<close>

lemma new_buffer_ok:
  assumes "address \<noteq> 0" and "address + 4095 < 2 ^ 64"
  obtains b where "new_buffer address c = Inr b" "as_slice b = zeros (physical_bytes c)"
    "\<forall>x. length x = physical_bytes c \<longrightarrow> as_slice (set_slice x b) = x"
proof -
  let ?up = "(address + 4095) div 4096 * 4096"
  have up: "address \<le> ?up" "?up < address + 4096" by (simp_all add: div_mult_mod_eq [symmetric] minus_mod_eq_div_mult [symmetric])
  have len: "0 < physical_bytes c" "physical_bytes c mod 4096 = 0" "physical_bytes c + 4095 < 2 ^ 64" "physical_bytes c < 2 ^ 64"
    by (cases c; simp add: physical_bytes_def)+
  let ?b = "\<lparr>xb_storage = replicate (physical_bytes c + 4095) 0, xb_aligned_start = ?up - address, xb_length = physical_bytes c\<rparr>"
  have "new_buffer address c = Inr ?b"
    using assms up len by (simp add: new_buffer_def try_uint_def checked_add_def checked_sub_def validate_direct_io_span_def)
  moreover have "as_slice ?b = zeros (physical_bytes c)" using up by (simp add: as_slice_def slice_def zeros_def)
  moreover have "as_slice (set_slice x ?b) = x" if "length x = physical_bytes c" for x
    using that up by (simp add: as_slice_def slice_def set_slice_def)
  ultimately show ?thesis using that by blast
qed

lemma copies_give_extent:
  assumes "pieces_ok p"
  shows "rbind (copy_piece 0 (pc_target_kv p) (zeros (physical_bytes (capability_of p)))) (\<lambda>output.
      rbind (copy_piece 1839104 (pc_target_indexer p) output) (\<lambda>output.
      case pc_draft_sidecar p of Some draft \<Rightarrow> copy_piece 2019328 draft output | None \<Rightarrow> Inr output)) = Inr (extent_of p)"
proof -
  let ?k = "pc_target_kv p" and ?i = "pc_target_indexer p"
  have k: "length ?k = 1837056" and i: "length ?i = 177408" using assms by (simp_all add: pieces_ok_def)
  show ?thesis
  proof (cases "pc_draft_sidecar p")
    case None
    have z: "zeros (physical_bytes (capability_of p)) = [] @ zeros 1837056 @ zeros 2048 @ zeros 177408 @ zeros 2816"
      using None by (simp only: capability_of_def physical_split zeros_add if_False simp_thms append_Nil)
    have "copy_piece 0 ?k (zeros (physical_bytes (capability_of p))) = Inr ((?k @ zeros 2048) @ zeros 177408 @ zeros 2816)"
      unfolding z using copy_piece_mid [of "[]" 0 "zeros 1837056" ?k] k by simp
    moreover have "copy_piece 1839104 ?i ((?k @ zeros 2048) @ zeros 177408 @ zeros 2816) = Inr (extent_of p)"
      using copy_piece_mid [of "?k @ zeros 2048" 1839104 "zeros 177408" ?i "zeros 2816"] k i None by (simp add: extent_of_def)
    ultimately show ?thesis using None by simp
  next
    case (Some d)
    have d: "length d = 32000" using assms Some by (simp add: pieces_ok_def)
    have z: "zeros (physical_bytes (capability_of p)) =
        [] @ zeros 1837056 @ zeros 2048 @ zeros 177408 @ zeros 2816 @ zeros 32000 @ zeros 768"
      using Some by (simp only: capability_of_def physical_split zeros_add if_True simp_thms append_Nil option.distinct)
    have "copy_piece 0 ?k (zeros (physical_bytes (capability_of p))) =
        Inr ((?k @ zeros 2048) @ zeros 177408 @ zeros 2816 @ zeros 32000 @ zeros 768)"
      unfolding z using copy_piece_mid [of "[]" 0 "zeros 1837056" ?k] k by simp
    moreover have "copy_piece 1839104 ?i ((?k @ zeros 2048) @ zeros 177408 @ zeros 2816 @ zeros 32000 @ zeros 768) =
        Inr ((?k @ zeros 2048 @ ?i @ zeros 2816) @ zeros 32000 @ zeros 768)"
      using copy_piece_mid [of "?k @ zeros 2048" 1839104 "zeros 177408" ?i "zeros 2816 @ zeros 32000 @ zeros 768"] k i by simp
    moreover have "copy_piece 2019328 d ((?k @ zeros 2048 @ ?i @ zeros 2816) @ zeros 32000 @ zeros 768) = Inr (extent_of p)"
      using copy_piece_mid [of "?k @ zeros 2048 @ ?i @ zeros 2816" 2019328 "zeros 32000" d "zeros 768"] k i d Some by (simp add: extent_of_def)
    ultimately show ?thesis using Some by simp
  qed
qed

definition record_for :: "(8 word list \<Rightarrow> hash32) \<Rightarrow> hash32 \<Rightarrow> hash32 \<Rightarrow> nat \<Rightarrow> nat \<Rightarrow> nat \<Rightarrow> direct_page_pieces \<Rightarrow> direct_extent_record" where
  "record_for sha ns key revn seg off p = \<lparr>dx_format_version = 1, dx_namespace = ns, dx_page_key = key, dx_durable_revision = revn,
     dx_capability = capability_of p, dx_segment_id = seg, dx_physical_offset = off, dx_physical_length = physical_bytes (capability_of p),
     dx_physical_sha256 = sha (extent_of p),
     dx_pieces = [encode_piece sha TargetKv 0 1837056 (pc_target_kv p), encode_piece sha TargetIndexer 1839104 177408 (pc_target_indexer p)]
       @ (case pc_draft_sidecar p of Some draft \<Rightarrow> [encode_piece sha DraftSidecar 2019328 32000 draft] | None \<Rightarrow> [])\<rparr>"

lemma encode_eq:
  assumes "pieces_ok p" and "off mod 4096 = 0" and "address \<noteq> 0" and "address + 4095 < 2 ^ 64"
  obtains b where "as_slice b = extent_of p"
    "encode_direct_extent sha address ns key revn seg off p =
       rbind (validate_extent (record_for sha ns key revn seg off p)) (\<lambda>_. Inr (record_for sha ns key revn seg off p, b))"
proof -
  obtain b where b: "new_buffer address (capability_of p) = Inr b" "as_slice b = zeros (physical_bytes (capability_of p))"
    "\<forall>x. length x = physical_bytes (capability_of p) \<longrightarrow> as_slice (set_slice x b) = x"
    by (rule new_buffer_ok [OF assms(3,4), of "capability_of p"])
  have span: "validate_direct_io_span 4096 off (physical_bytes (capability_of p)) (physical_bytes (capability_of p)) = Inr ()"
    using assms(2) by (cases "capability_of p") (simp_all add: validate_direct_io_span_def physical_bytes_def)
  have zero: "map (\<lambda>_. 0) (as_slice b) = zeros (physical_bytes (capability_of p))" unfolding b(2) by (simp add: zeros_def)
  note ext = extent_pieces(4,5) [OF assms(1)]
  have guard: "\<not> (length (pc_target_kv p) \<noteq> TARGET_KV_EXTENT_LENGTH \<or> length (pc_target_indexer p) \<noteq> TARGET_INDEXER_EXTENT_LENGTH
         \<or> (case pc_draft_sidecar p of None \<Rightarrow> False | Some draft \<Rightarrow> length draft \<noteq> DRAFT_SIDECAR_EXTENT_LENGTH))"
    using assms(1) by (auto simp: pieces_ok_def split: option.splits)
  have assoc: "rbind (rbind m f) g = rbind m (\<lambda>x. rbind (f x) g)" for m :: "(direct_extent_error, 8 word list) result"
    and f :: "8 word list \<Rightarrow> (direct_extent_error, 8 word list) result" and g :: "8 word list \<Rightarrow> (direct_extent_error, 'b) result"
    by (cases m) simp_all
  have copies: "rbind (copy_piece 0 (pc_target_kv p) (zeros (physical_bytes (capability_of p)))) (\<lambda>output.
      rbind (copy_piece 1839104 (pc_target_indexer p) output) (\<lambda>output.
      rbind (case pc_draft_sidecar p of Some draft \<Rightarrow> copy_piece 2019328 draft output | None \<Rightarrow> Inr output) g)) = g (extent_of p)"
    for g :: "8 word list \<Rightarrow> (direct_extent_error, direct_extent_record \<times> direct_extent_buffer) result"
    using arg_cong [OF copies_give_extent [OF assms(1)], of "\<lambda>m. rbind m g"] by (cases "pc_draft_sidecar p") (simp_all add: assoc)
  have slice: "as_slice (set_slice (extent_of p) b) = extent_of p" using b(3) ext(1) by blast
  have "encode_direct_extent sha address ns key revn seg off p =
       rbind (validate_extent (record_for sha ns key revn seg off p)) (\<lambda>_. Inr (record_for sha ns key revn seg off p, set_slice (extent_of p) b))"
    unfolding encode_direct_extent_def Let_def if_not_P [OF guard] capability_of_def [symmetric] DIRECT_IO_ALIGNMENT_def span b(1) rbind_simps
      zero TARGET_KV_EXTENT_OFFSET_def TARGET_INDEXER_EXTENT_OFFSET_def DRAFT_SIDECAR_EXTENT_OFFSET_def copies ext(2) slice
    by (cases "pc_draft_sidecar p") (simp_all add: record_for_def)
  then show ?thesis using that slice by blast
qed

section \<open>Properties\<close>

text \<open>The format marks a missing hash by zeros, so none of the four hashes may be zero.\<close>

definition hashes_ok :: "(8 word list \<Rightarrow> hash32) \<Rightarrow> direct_page_pieces \<Rightarrow> bool" where
  "hashes_ok sha p \<longleftrightarrow> sha (extent_of p) \<noteq> zero_hash \<and> sha (pc_target_kv p) \<noteq> zero_hash \<and> sha (pc_target_indexer p) \<noteq> zero_hash
     \<and> (case pc_draft_sidecar p of None \<Rightarrow> True | Some draft \<Rightarrow> sha draft \<noteq> zero_hash)"

lemma record_valid:
  assumes "pieces_ok p" and "off mod 4096 = 0" and "hashes_ok sha p" and "ns \<noteq> zero_hash" "key \<noteq> zero_hash" "revn \<noteq> 0" "seg \<noteq> 0"
  shows "validate_extent (record_for sha ns key revn seg off p) = Inr ()"
  using assms
  by (cases "pc_draft_sidecar p")
    (auto simp: validate_extent_def record_for_def capability_of_def physical_bytes_def validate_direct_io_span_def expected_piece_layout_def
      check_piece_def encode_piece_def checked_add_def hashes_ok_def)

lemma decode_record_for:
  assumes "pieces_ok p" and valid: "validate_extent (record_for sha ns key revn seg off p) = Inr ()"
    and "off mod 4096 = 0" and "address \<noteq> 0" "address mod 4096 = 0"
  shows "decode_direct_extent sha address (record_for sha ns key revn seg off p) (extent_of p) =
    Inr \<lparr>vw_target_kv = pc_target_kv p, vw_target_indexer = pc_target_indexer p, vw_draft_sidecar = pc_draft_sidecar p\<rparr>"
proof -
  note ext = extent_pieces [OF assms(1)]
  let ?r = "record_for sha ns key revn seg off p"
  have "validate_direct_io_span address off (length (extent_of p)) (physical_bytes (capability_of p)) = Inr ()"
    unfolding ext(4) using assms(3-5) by (cases "capability_of p") (simp_all add: validate_direct_io_span_def physical_bytes_def)
  moreover have "check_all (check_piece_hash sha (extent_of p)) (dx_pieces ?r) = Inr ()"
    using ext(1-3) by (cases "pc_draft_sidecar p") (simp_all add: record_for_def encode_piece_def check_piece_hash_def)
  moreover have f: "dx_physical_offset ?r = off" "dx_physical_length ?r = physical_bytes (capability_of p)" "dx_capability ?r = capability_of p"
    "dx_physical_sha256 ?r = sha (extent_of p)" by (simp_all add: record_for_def)
  ultimately show ?thesis
    unfolding decode_direct_extent_def valid rbind_simps f ext(5)
    using ext(1-3) by (cases "pc_draft_sidecar p") (simp_all add: capability_of_def)
qed

text \<open>
  (C40) The extent format loses nothing: pieces of the right lengths with valid identities are encoded
  at any aligned offset, and decoding the written extent with its record, read into any aligned
  buffer, gives back exactly those pieces. The hashes must not be zero, which the format reserves.
\<close>

theorem decode_encode_extent:
  assumes "pieces_ok p" and "off mod 4096 = 0" and "ns \<noteq> zero_hash" and "key \<noteq> zero_hash" and "revn \<noteq> 0" and "seg \<noteq> 0"
    and "hashes_ok sha p" and "address \<noteq> 0" and "address + 4095 < 2 ^ 64" and "address' \<noteq> 0" and "address' mod 4096 = 0"
  shows "\<exists>r b. encode_direct_extent sha address ns key revn seg off p = Inr (r, b)
    \<and> decode_direct_extent sha address' r (as_slice b) =
        Inr \<lparr>vw_target_kv = pc_target_kv p, vw_target_indexer = pc_target_indexer p, vw_draft_sidecar = pc_draft_sidecar p\<rparr>"
proof -
  have valid: "validate_extent (record_for sha ns key revn seg off p) = Inr ()" using assms by (intro record_valid)
  obtain b where b: "as_slice b = extent_of p" "encode_direct_extent sha address ns key revn seg off p =
       rbind (validate_extent (record_for sha ns key revn seg off p)) (\<lambda>_. Inr (record_for sha ns key revn seg off p, b))"
    by (rule encode_eq [OF assms(1,2,8,9)])
  then have "encode_direct_extent sha address ns key revn seg off p = Inr (record_for sha ns key revn seg off p, b)" using valid by simp
  then show ?thesis using decode_record_for [OF assms(1) valid assms(2,10,11)] b(1) by auto
qed

definition sample_pieces :: direct_page_pieces where
  "sample_pieces = \<lparr>pc_target_kv = replicate 1837056 3, pc_target_indexer = replicate 177408 5, pc_draft_sidecar = Some (replicate 32000 7)\<rparr>"

lemma decode_encode_extent_witness:
  "\<exists>r b. encode_direct_extent (\<lambda>_. sample_hash 9) 4097 (sample_hash 1) (sample_hash 2) 4 9 12288 sample_pieces = Inr (r, b)
    \<and> decode_direct_extent (\<lambda>_. sample_hash 9) 8192 r (as_slice b) = Inr \<lparr>vw_target_kv = replicate 1837056 3,
        vw_target_indexer = replicate 177408 5, vw_draft_sidecar = Some (replicate 32000 7)\<rparr>"
proof -
  have ok: "hashes_ok (\<lambda>_. sample_hash 9) sample_pieces" by (simp add: hashes_ok_def split: option.splits)
  have "pieces_ok sample_pieces" by (simp only: pieces_ok_def sample_pieces_def direct_page_pieces.select_convs option.case length_replicate simp_thms)
  from decode_encode_extent [OF this, of 12288 "sample_hash 1" "sample_hash 2" 4 9 "\<lambda>_. sample_hash 9" 4097 8192]
  have "\<exists>r b. encode_direct_extent (\<lambda>_. sample_hash 9) 4097 (sample_hash 1) (sample_hash 2) 4 9 12288 sample_pieces = Inr (r, b)
    \<and> decode_direct_extent (\<lambda>_. sample_hash 9) 8192 r (as_slice b) = Inr \<lparr>vw_target_kv = pc_target_kv sample_pieces,
        vw_target_indexer = pc_target_indexer sample_pieces, vw_draft_sidecar = pc_draft_sidecar sample_pieces\<rparr>" using ok by simp
  then show ?thesis by (simp only: sample_pieces_def direct_page_pieces.select_convs)
qed

end
