(* ===== verification/Direct_State.thy ===== *)
theory Direct_State
  imports Direct "HOL-Library.Word"
begin

unbundle bit_operations_syntax

text \<open>
  \<open>crates/glm-cache/src/direct_state.rs\<close>: the pool of I/O buffers with their states and generations,
  and the table of I/O descriptors whose completion tokens carry slot, generation and role in 64 bits.

  A buffer lies behind a lock that is poisoned when a thread panics while it writes; the flag is part
  of the slot and every operation that takes the lock reads it. The closures that read or write
  the bytes are functions. Allocations succeed; their addresses are a parameter.
\<close>

section \<open>Buffers\<close>

record direct_buffer_id =
  bi_slot :: nat
  bi_generation :: nat

definition INVALID_GENERATION :: nat where [simp]: "INVALID_GENERATION = 0"

definition is_valid :: "direct_buffer_id \<Rightarrow> bool" where
  "is_valid buffer_id \<longleftrightarrow> bi_generation buffer_id \<noteq> INVALID_GENERATION"

datatype direct_buffer_state =
    Free | FillingFromHbm | HashingForWrite | WriteQueued | WriteInflight | ReadQueued | ReadInflight
  | HashingForRead | HostReady | CopyingToHbm | Failed | Quarantined | Retired

definition is_active :: "direct_buffer_state \<Rightarrow> bool" where
  "is_active s \<longleftrightarrow> s \<notin> {Free, Failed, Quarantined, Retired}"

datatype direct_buffer_use = CpuWrite | CpuRead

record direct_buffer_slot =
  bs_generation :: nat
  bs_state :: direct_buffer_state
  bs_bytes :: "8 word list"
  bs_poisoned :: bool

record direct_hash_buffer =
  hb_id :: direct_buffer_id
  hb_slot :: nat

record direct_buffer_pool =
  bp_slots :: "direct_buffer_slot list"
  bp_next_search :: nat

datatype direct_buffer_state_error =
    Capacity | Allocation | Poisoned | InvalidGeneration | UnknownSlot | StaleGeneration
  | State direct_buffer_state direct_buffer_state

definition new_pool :: "(nat \<Rightarrow> nat) \<Rightarrow> nat \<Rightarrow> (direct_buffer_state_error, direct_buffer_pool) result" where
  "new_pool addresses capacity =
     (if capacity = 0 then Inl (Err Capacity)
      else
        rbind (rmap (\<lambda>i. map_err (\<lambda>_. Allocation) (new_buffer (addresses i) Mtp)) [0..<capacity]) (\<lambda>buffers.
          Inr \<lparr>bp_slots = map (\<lambda>b. \<lparr>bs_generation = INVALID_GENERATION, bs_state = Free, bs_bytes = as_slice b,
                 bs_poisoned = False\<rparr>) buffers, bp_next_search = 0\<rparr>))"

definition zero_fill :: "8 word list \<Rightarrow> 8 word list" where
  "zero_fill bytes = map (\<lambda>_. 0) bytes"

text \<open>The search for a free slot; a slot whose generations are used up is retired on the way.\<close>

fun reserve_search :: "direct_buffer_use \<Rightarrow> nat list \<Rightarrow> direct_buffer_pool \<Rightarrow>
    (direct_buffer_state_error, direct_buffer_id) result \<times> direct_buffer_pool" where
  "reserve_search usage [] pool = (Inl (Err Capacity), pool)"
| "reserve_search usage (distance # rest) pool =
     (let capacity = length (bp_slots pool);
          slot_index = (bp_next_search pool + distance) mod capacity;
          slot = bp_slots pool ! slot_index;
          retired = pool\<lparr>bp_slots := (bp_slots pool)[slot_index := slot\<lparr>bs_state := Retired\<rparr>]\<rparr>
      in
      if bs_state slot \<noteq> Free then reserve_search usage rest pool
      else case checked_add 64 (bs_generation slot) 1 of
        None \<Rightarrow> reserve_search usage rest retired
      | Some generation \<Rightarrow>
          if generation = INVALID_GENERATION then reserve_search usage rest retired
          else if bs_poisoned slot
          then (Inl (Err Poisoned), pool\<lparr>bp_slots := (bp_slots pool)[slot_index := slot\<lparr>bs_state := Quarantined\<rparr>]\<rparr>)
          else
            let pool = pool\<lparr>bp_slots := (bp_slots pool)[slot_index := slot\<lparr>bs_bytes := zero_fill (bs_bytes slot),
                     bs_generation := generation,
                     bs_state := (case usage of CpuWrite \<Rightarrow> HashingForWrite | CpuRead \<Rightarrow> ReadQueued)\<rparr>],
                   bp_next_search := (slot_index + 1) mod capacity\<rparr>
            in (rbind (ok_or (try_uint 32 slot_index) Capacity) (\<lambda>s.
                  Inr \<lparr>bi_slot = s, bi_generation = generation\<rparr>), pool))"

definition reserve :: "direct_buffer_use \<Rightarrow> direct_buffer_pool \<Rightarrow>
    (direct_buffer_state_error, direct_buffer_id) result \<times> direct_buffer_pool" where
  "reserve usage pool = reserve_search usage [0..<length (bp_slots pool)] pool"

definition validate_id :: "direct_buffer_id \<Rightarrow> (direct_buffer_state_error, unit) result" where
  "validate_id buffer_id = (if \<not> is_valid buffer_id then Inl (Err InvalidGeneration) else Inr ())"

definition slot_of :: "direct_buffer_pool \<Rightarrow> direct_buffer_id \<Rightarrow> (direct_buffer_state_error, direct_buffer_slot) result" where
  "slot_of pool buffer_id =
     rbind (validate_id buffer_id) (\<lambda>_.
     rbind (ok_or (if bi_slot buffer_id < length (bp_slots pool) then Some (bp_slots pool ! bi_slot buffer_id) else None) UnknownSlot) (\<lambda>slot.
     if bs_generation slot \<noteq> bi_generation buffer_id then Inl (Err StaleGeneration) else Inr slot))"

definition set_slot :: "direct_buffer_id \<Rightarrow> direct_buffer_slot \<Rightarrow> direct_buffer_pool \<Rightarrow> direct_buffer_pool" where
  "set_slot buffer_id slot pool = pool\<lparr>bp_slots := (bp_slots pool)[bi_slot buffer_id := slot]\<rparr>"

definition state_of :: "direct_buffer_pool \<Rightarrow> direct_buffer_id \<Rightarrow> (direct_buffer_state_error, direct_buffer_state) result" where
  "state_of pool buffer_id = rbind (slot_of pool buffer_id) (\<lambda>slot. Inr (bs_state slot))"

definition with_bytes :: "direct_buffer_pool \<Rightarrow> direct_buffer_id \<Rightarrow> (8 word list \<Rightarrow> 'r) \<Rightarrow> (direct_buffer_state_error, 'r) result" where
  "with_bytes pool buffer_id reader =
     rbind (slot_of pool buffer_id) (\<lambda>slot.
     if \<not> is_active (bs_state slot) then Inl (Err (State (bs_state slot) (bs_state slot)))
     else if bs_poisoned slot then Inl (Err Poisoned)
     else Inr (reader (bs_bytes slot)))"

definition with_bytes_mut_inner :: "direct_buffer_id \<Rightarrow> (8 word list \<Rightarrow> 8 word list \<times> 'r) \<Rightarrow> direct_buffer_pool \<Rightarrow>
    (direct_buffer_state_error, direct_buffer_pool \<times> 'r) result" where
  "with_bytes_mut_inner buffer_id writer pool =
     rbind (slot_of pool buffer_id) (\<lambda>slot.
     if \<not> is_active (bs_state slot) then Inl (Err (State (bs_state slot) (bs_state slot)))
     else if bs_poisoned slot then Inl (Err Poisoned)
     else Inr (set_slot buffer_id (slot\<lparr>bs_bytes := fst (writer (bs_bytes slot))\<rparr>) pool, snd (writer (bs_bytes slot))))"

definition with_bytes_mut :: "direct_buffer_id \<Rightarrow> (8 word list \<Rightarrow> 8 word list \<times> 'r) \<Rightarrow> direct_buffer_pool \<Rightarrow>
    (direct_buffer_state_error, 'r) result \<times> direct_buffer_pool" where
  "with_bytes_mut buffer_id writer = transact (with_bytes_mut_inner buffer_id writer)"

definition hash_buffer :: "direct_buffer_pool \<Rightarrow> direct_buffer_id \<Rightarrow> (direct_buffer_state_error, direct_hash_buffer) result" where
  "hash_buffer pool buffer_id =
     rbind (slot_of pool buffer_id) (\<lambda>slot.
     if bs_state slot \<noteq> HashingForRead then Inl (Err (State (bs_state slot) HashingForRead))
     else Inr \<lparr>hb_id = buffer_id, hb_slot = bi_slot buffer_id\<rparr>)"

text \<open>A hash buffer shares the bytes of its slot; it reads what the slot holds at the time.\<close>

definition verify_hash_buffer :: "direct_buffer_pool \<Rightarrow> direct_hash_buffer \<Rightarrow> (8 word list \<Rightarrow> 'r) \<Rightarrow> (direct_buffer_state_error, 'r) result" where
  "verify_hash_buffer pool hb verifier =
     rbind (expect (if hb_slot hb < length (bp_slots pool) then Some (bp_slots pool ! hb_slot hb) else None)) (\<lambda>slot.
     if bs_poisoned slot then Inl (Err Poisoned) else Inr (verifier (bs_bytes slot)))"

definition valid_transition :: "direct_buffer_state \<Rightarrow> direct_buffer_state \<Rightarrow> bool" where
  "valid_transition current next \<longleftrightarrow> is_active current \<and> next = Failed
     \<or> (current, next) \<in> {(FillingFromHbm, HashingForWrite), (HashingForWrite, WriteQueued), (WriteQueued, WriteInflight),
          (WriteQueued, Free), (WriteInflight, Free), (ReadQueued, ReadInflight), (ReadQueued, Free),
          (ReadInflight, HashingForRead), (HashingForRead, HostReady), (HostReady, CopyingToHbm), (HostReady, Free),
          (CopyingToHbm, Free), (Failed, Quarantined)}"

definition transition_inner :: "direct_buffer_id \<Rightarrow> direct_buffer_state \<Rightarrow> direct_buffer_pool \<Rightarrow>
    (direct_buffer_state_error, direct_buffer_pool \<times> unit) result" where
  "transition_inner buffer_id next pool =
     rbind (slot_of pool buffer_id) (\<lambda>slot.
     if \<not> valid_transition (bs_state slot) next then Inl (Err (State (bs_state slot) next))
     else if next = Free \<and> bs_poisoned slot then Inl (Err Poisoned)
     else Inr (set_slot buffer_id (slot\<lparr>bs_bytes := (if next = Free then zero_fill (bs_bytes slot) else bs_bytes slot),
            bs_state := next\<rparr>) pool, ()))"

definition transition_buffer :: "direct_buffer_id \<Rightarrow> direct_buffer_state \<Rightarrow> direct_buffer_pool \<Rightarrow>
    (direct_buffer_state_error, unit) result \<times> direct_buffer_pool" where
  "transition_buffer buffer_id next = transact (transition_inner buffer_id next)"

definition fail :: "direct_buffer_id \<Rightarrow> direct_buffer_pool \<Rightarrow> (direct_buffer_state_error, unit) result \<times> direct_buffer_pool" where
  "fail buffer_id = transition_buffer buffer_id Failed"

definition quarantine :: "direct_buffer_id \<Rightarrow> direct_buffer_pool \<Rightarrow> (direct_buffer_state_error, unit) result \<times> direct_buffer_pool" where
  "quarantine buffer_id = transition_buffer buffer_id Quarantined"

definition release_abandoned_inner :: "direct_buffer_id \<Rightarrow> direct_buffer_pool \<Rightarrow>
    (direct_buffer_state_error, direct_buffer_pool \<times> unit) result" where
  "release_abandoned_inner buffer_id pool =
     rbind (slot_of pool buffer_id) (\<lambda>slot.
     if bs_state slot \<noteq> ReadInflight then Inl (Err (State (bs_state slot) Free))
     else if bs_poisoned slot then Inl (Err Poisoned)
     else Inr (set_slot buffer_id (slot\<lparr>bs_bytes := zero_fill (bs_bytes slot), bs_state := Free\<rparr>) pool, ()))"

definition release_abandoned_read :: "direct_buffer_id \<Rightarrow> direct_buffer_pool \<Rightarrow>
    (direct_buffer_state_error, unit) result \<times> direct_buffer_pool" where
  "release_abandoned_read buffer_id = transact (release_abandoned_inner buffer_id)"

definition count_slots :: "(direct_buffer_state \<Rightarrow> bool) \<Rightarrow> direct_buffer_pool \<Rightarrow> nat" where
  "count_slots P pool = length (filter (\<lambda>slot. P (bs_state slot)) (bp_slots pool))"

definition free_slots :: "direct_buffer_pool \<Rightarrow> nat" where "free_slots = count_slots (\<lambda>s. s = Free)"
definition active_slots :: "direct_buffer_pool \<Rightarrow> nat" where "active_slots = count_slots is_active"
definition quarantined_slots :: "direct_buffer_pool \<Rightarrow> nat" where "quarantined_slots = count_slots (\<lambda>s. s = Quarantined)"
definition retired_slots :: "direct_buffer_pool \<Rightarrow> nat" where "retired_slots = count_slots (\<lambda>s. s = Retired)"

end
