(* ===== verification/Direct_State_Props.thy ===== *)
theory Direct_State_Props
  imports Direct_State
begin

text \<open>
  Buffers of the pool over any sequence of calls: an identifier is never given out twice, a released
  buffer's identifier goes stale as soon as the slot is taken again, nothing of the old bytes is left, and a
  free slot is always found.
\<close>

section \<open>What a search does to the slots\<close>

text \<open>Slots that a search passes may be retired or quarantined; nothing else of them changes.\<close>

definition ages :: "direct_buffer_slot \<Rightarrow> direct_buffer_slot \<Rightarrow> bool" where
  "ages s s' \<longleftrightarrow> bs_generation s' = bs_generation s \<and> bs_bytes s' = bs_bytes s \<and> bs_poisoned s' = bs_poisoned s \<and>
     (bs_state s' = bs_state s \<or> bs_state s' \<in> {Retired, Quarantined})"

lemma ages_refl [simp]: "ages s s"
  by (simp add: ages_def)

lemma ages_trans: "ages s t \<Longrightarrow> ages t u \<Longrightarrow> ages s u"
  by (auto simp: ages_def)

lemma ages_list_refl [simp]: "list_all2 ages ss ss"
  by (simp add: list.rel_refl)

lemma ages_update: "i < length ss \<Longrightarrow> ages (ss ! i) s \<Longrightarrow> list_all2 ages ss (ss[i := s])"
  by (simp add: list_all2_conv_all_nth nth_list_update)

lemma ages_list_trans: "list_all2 ages ss ts \<Longrightarrow> list_all2 ages ts us \<Longrightarrow> list_all2 ages ss us"
  by (rule list_all2_trans [of ages ages ages]) (auto intro: ages_trans)

definition taken :: "direct_buffer_use \<Rightarrow> direct_buffer_slot \<Rightarrow> direct_buffer_slot" where
  "taken usage slot = slot\<lparr>bs_bytes := zero_fill (bs_bytes slot), bs_generation := Suc (bs_generation slot),
     bs_state := (case usage of CpuWrite \<Rightarrow> HashingForWrite | CpuRead \<Rightarrow> ReadQueued)\<rparr>"

definition reserves :: "direct_buffer_use \<Rightarrow> direct_buffer_slot list \<Rightarrow> direct_buffer_id \<Rightarrow> direct_buffer_slot list \<Rightarrow> bool" where
  "reserves usage ss buffer_id ss' \<longleftrightarrow> (\<exists>us. list_all2 ages ss us \<and> bi_slot buffer_id < length ss \<and>
     bs_state (us ! bi_slot buffer_id) = Free \<and> \<not> bs_poisoned (us ! bi_slot buffer_id) \<and>
     bi_generation buffer_id = Suc (bs_generation (us ! bi_slot buffer_id)) \<and> bi_generation buffer_id < 2 ^ 64 \<and>
     ss' = us[bi_slot buffer_id := taken usage (us ! bi_slot buffer_id)])"

definition reservable :: "direct_buffer_slot \<Rightarrow> bool" where
  "reservable slot \<longleftrightarrow> bs_state slot = Free \<and> Suc (bs_generation slot) < 2 ^ 64"

lemma reserve_search_cases:
  fixes pool d usage ds
  defines "n \<equiv> length (bp_slots pool)"
  defines "i \<equiv> (bp_next_search pool + d) mod n"
  defines "slot \<equiv> bp_slots pool ! i"
  assumes "n \<noteq> 0" and "n \<le> 2 ^ 32"
  obtains
    (busy) "bs_state slot \<noteq> Free" "reserve_search usage (d # ds) pool = reserve_search usage ds pool"
  | (retire) "bs_state slot = Free" "\<not> reservable slot"
      "reserve_search usage (d # ds) pool =
         reserve_search usage ds (pool\<lparr>bp_slots := (bp_slots pool)[i := slot\<lparr>bs_state := Retired\<rparr>]\<rparr>)"
  | (poisoned) "reservable slot" "bs_poisoned slot"
      "reserve_search usage (d # ds) pool =
         (Inl (Err Poisoned), pool\<lparr>bp_slots := (bp_slots pool)[i := slot\<lparr>bs_state := Quarantined\<rparr>]\<rparr>)"
  | (take) "reservable slot" "\<not> bs_poisoned slot"
      "reserve_search usage (d # ds) pool =
         (Inr \<lparr>bi_slot = i, bi_generation = Suc (bs_generation slot)\<rparr>,
          pool\<lparr>bp_slots := (bp_slots pool)[i := taken usage slot], bp_next_search := (i + 1) mod n\<rparr>)"
proof -
  have "i < 2 ^ 32"
    using assms(4,5) unfolding i_def by (meson less_le_trans mod_less_divisor not_gr_zero)
  then have fits: "try_uint 32 i = Some i"
    by (simp add: try_uint_Some)
  show thesis
  proof (cases "bs_state slot = Free")
    case False
    then show thesis
      using busy by (simp add: i_def n_def slot_def Let_def)
  next
    case True
    show thesis
    proof (cases "checked_add 64 (bs_generation slot) 1")
      case None
      then have "\<not> reservable slot"
        by (simp add: reservable_def checked_add_None)
      then show thesis
        using True None retire by (simp add: i_def n_def slot_def Let_def)
    next
      case (Some g)
      then have g: "g = Suc (bs_generation slot)" "reservable slot"
        using True by (simp_all add: checked_add_Some reservable_def)
      show thesis
        using True Some g fits poisoned take
        by (cases "bs_poisoned slot") (simp_all add: i_def n_def slot_def Let_def taken_def)
    qed
  qed
qed

lemma reserve_search_result:
  assumes "bp_slots pool \<noteq> []" and "length (bp_slots pool) \<le> 2 ^ 32"
    and "reserve_search usage ds pool = (r, pool')"
  shows "case r of Inl _ \<Rightarrow> list_all2 ages (bp_slots pool) (bp_slots pool') | Inr buffer_id \<Rightarrow> reserves usage (bp_slots pool) buffer_id (bp_slots pool')"
  using assms
proof (induction ds arbitrary: pool)
  case Nil
  then show ?case by auto
next
  case (Cons d ds)
  let ?n = "length (bp_slots pool)"
  let ?i = "(bp_next_search pool + d) mod ?n"
  let ?slot = "bp_slots pool ! ?i"
  let ?aged = "\<lambda>s. (bp_slots pool)[?i := ?slot\<lparr>bs_state := s\<rparr>]"
  have n: "?n \<noteq> 0" "?i < ?n"
    using Cons.prems(1) by simp_all
  have aged: "list_all2 ages (bp_slots pool) (?aged s)" if "s \<in> {Retired, Quarantined}" for s
    using that n(2) by (intro ages_update) (auto simp: ages_def)
  from n(1) Cons.prems(2) show ?case
  proof (cases rule: reserve_search_cases [of pool d usage ds, case_names busy retire poisoned take])
    case busy
    then show ?thesis
      using Cons by simp
  next
    case retire
    then have "reserve_search usage ds (pool\<lparr>bp_slots := ?aged Retired\<rparr>) = (r, pool')"
      using Cons.prems(3) by simp
    from Cons.IH [OF _ _ this] Cons.prems(1,2)
    have "case r of Inl _ \<Rightarrow> list_all2 ages (?aged Retired) (bp_slots pool')
      | Inr buffer_id \<Rightarrow> reserves usage (?aged Retired) buffer_id (bp_slots pool')"
      by (cases r) simp_all
    then show ?thesis
      using ages_list_trans [OF aged [of Retired]]
      by (cases r) (auto simp: reserves_def)
  next
    case poisoned
    then show ?thesis
      using Cons.prems(3) aged [of Quarantined] by auto
  next
    case take
    then show ?thesis
      using Cons.prems(3) n(2) by (auto simp: reserves_def reservable_def intro!: exI [of _ "bp_slots pool"])
  qed
qed

lemma reserve_result:
  assumes "length (bp_slots pool) \<le> 2 ^ 32" and "reserve usage pool = (r, pool')"
  shows "case r of Inl _ \<Rightarrow> list_all2 ages (bp_slots pool) (bp_slots pool') | Inr buffer_id \<Rightarrow> reserves usage (bp_slots pool) buffer_id (bp_slots pool')"
  using assms reserve_search_result [of pool usage "[0..<length (bp_slots pool)]" r pool']
  by (cases "bp_slots pool = []") (auto simp: reserve_def)

text \<open>A search that comes past a slot that can be reserved ends with a buffer.\<close>

lemma reserve_search_finds:
  assumes "length (bp_slots pool) \<le> 2 ^ 32" and "\<forall>s\<in>set (bp_slots pool). bs_state s = Free \<longrightarrow> \<not> bs_poisoned s"
    and "k < length (bp_slots pool)" and "reservable (bp_slots pool ! k)"
    and "\<exists>d\<in>set ds. k = (bp_next_search pool + d) mod length (bp_slots pool)"
  shows "\<exists>buffer_id. fst (reserve_search usage ds pool) = Inr buffer_id"
  using assms
proof (induction ds arbitrary: pool)
  case Nil
  then show ?case by simp
next
  case (Cons d ds)
  let ?n = "length (bp_slots pool)"
  let ?i = "(bp_next_search pool + d) mod ?n"
  let ?slot = "bp_slots pool ! ?i"
  let ?pool = "pool\<lparr>bp_slots := (bp_slots pool)[?i := ?slot\<lparr>bs_state := Retired\<rparr>]\<rparr>"
  have n: "?n \<noteq> 0" "?i < ?n"
    using Cons.prems(3) mod_less_divisor [of ?n "bp_next_search pool + d"] by linarith+
  from n(1) Cons.prems(1) show ?case
  proof (cases rule: reserve_search_cases [of pool d usage ds, case_names busy retire poisoned take])
    case busy
    then have "k \<noteq> ?i"
      using Cons.prems(4) by (auto simp: reservable_def)
    then show ?thesis
      using busy Cons by auto
  next
    case retire
    then have k: "k \<noteq> ?i"
      using Cons.prems(4) by auto
    have "\<forall>s\<in>set (bp_slots ?pool). bs_state s = Free \<longrightarrow> \<not> bs_poisoned s"
      using Cons.prems(2) by (auto dest!: set_update_subset_insert [THEN subsetD])
    then have "\<exists>buffer_id. fst (reserve_search usage ds ?pool) = Inr buffer_id"
      using k Cons.prems by (intro Cons.IH) auto
    then show ?thesis
      using retire by simp
  next
    case poisoned
    then show ?thesis
      using Cons.prems(2) n(2) by (auto simp: reservable_def)
  next
    case take
    then show ?thesis
      by simp
  qed
qed

section \<open>Calls\<close>

text \<open>
  A writer that panics leaves its lock poisoned, with what it has written so far. The identifiers given out are kept, newest first.
\<close>

definition poison :: "direct_buffer_id \<Rightarrow> direct_buffer_pool \<Rightarrow> direct_buffer_pool" where
  "poison buffer_id pool = set_slot buffer_id ((bp_slots pool ! bi_slot buffer_id)\<lparr>bs_poisoned := True\<rparr>) pool"

datatype pool_call =
    Reserve direct_buffer_use
  | Transition direct_buffer_id direct_buffer_state
  | Release_Abandoned direct_buffer_id
  | Write_Bytes direct_buffer_id "8 word list \<Rightarrow> 8 word list"
  | Panicking_Write direct_buffer_id "8 word list \<Rightarrow> 8 word list"

fun pool_exec :: "pool_call \<Rightarrow> direct_buffer_pool \<times> direct_buffer_id list \<Rightarrow> direct_buffer_pool \<times> direct_buffer_id list" where
  "pool_exec (Reserve usage) (pool, ids) =
     (case reserve usage pool of (Inr buffer_id, pool') \<Rightarrow> (pool', buffer_id # ids) | (Inl _, pool') \<Rightarrow> (pool', ids))"
| "pool_exec (Transition buffer_id next) (pool, ids) = (snd (transition_buffer buffer_id next pool), ids)"
| "pool_exec (Release_Abandoned buffer_id) (pool, ids) = (snd (release_abandoned_read buffer_id pool), ids)"
| "pool_exec (Write_Bytes buffer_id writer) (pool, ids) =
     (snd (with_bytes_mut buffer_id (\<lambda>bytes. (writer bytes, ())) pool), ids)"
| "pool_exec (Panicking_Write buffer_id writer) (pool, ids) =
     (case with_bytes_mut buffer_id (\<lambda>bytes. (writer bytes, ())) pool of
        (Inr _, pool') \<Rightarrow> (poison buffer_id pool', ids) | (Inl _, pool') \<Rightarrow> (pool', ids))"

definition slot_ok :: "direct_buffer_slot \<Rightarrow> bool" where
  "slot_ok s \<longleftrightarrow> bs_generation s < 2 ^ 64 \<and> (bs_state s = Free \<longrightarrow> set (bs_bytes s) \<subseteq> {0} \<and> \<not> bs_poisoned s)"

definition pool_ok :: "direct_buffer_pool \<times> direct_buffer_id list \<Rightarrow> bool" where
  "pool_ok = (\<lambda>(pool, ids). length (bp_slots pool) \<le> 2 ^ 32 \<and> (\<forall>s\<in>set (bp_slots pool). slot_ok s) \<and> distinct ids \<and>
     (\<forall>buffer_id\<in>set ids. bi_slot buffer_id < length (bp_slots pool) \<and> bi_generation buffer_id \<noteq> 0 \<and>
        bi_generation buffer_id \<le> map bs_generation (bp_slots pool) ! bi_slot buffer_id))"

lemma slot_of_Inr: "slot_of pool buffer_id = Inr slot \<longleftrightarrow> is_valid buffer_id \<and> bi_slot buffer_id < length (bp_slots pool) \<and>
    slot = bp_slots pool ! bi_slot buffer_id \<and> bs_generation slot = bi_generation buffer_id"
  by (auto simp: slot_of_def validate_id_def result_simps)

lemma zero_fill_zero: "set (zero_fill bytes) \<subseteq> {0}"
  by (auto simp: zero_fill_def)

lemma pool_ok_set_slot:
  assumes "pool_ok (pool, ids)" and "slot_of pool buffer_id = Inr slot" and "bs_generation slot' = bs_generation slot" and "slot_ok slot'"
  shows "pool_ok (set_slot buffer_id slot' pool, ids)"
proof -
  have "map bs_generation (bp_slots (set_slot buffer_id slot' pool)) = map bs_generation (bp_slots pool)"
    using assms(2,3) by (simp add: set_slot_def slot_of_Inr map_update list_update_same_conv)
  then show ?thesis
    using assms(1,4) by (auto simp: pool_ok_def set_slot_def dest!: set_update_subset_insert [THEN subsetD])
qed

lemma pool_ok_transact:
  assumes "pool_ok (pool, ids)" and "\<And>pool' x. inner pool = Inr (pool', x) \<Longrightarrow> pool_ok (pool', ids)"
  shows "pool_ok (snd (transact inner pool), ids)"
  using assms by (cases "inner pool") (auto simp: transact_def)

lemma slot_of_ok: "pool_ok (pool, ids) \<Longrightarrow> slot_of pool buffer_id = Inr slot \<Longrightarrow> slot_ok slot"
  by (auto simp: pool_ok_def slot_of_Inr)

lemma ages_slot_ok: "slot_ok s \<Longrightarrow> ages s t \<Longrightarrow> slot_ok t"
  by (auto simp: slot_ok_def ages_def)

lemma ages_generations: "list_all2 ages ss ts \<Longrightarrow> map bs_generation ts = map bs_generation ss"
  by (auto simp: list_all2_conv_all_nth ages_def intro!: nth_equalityI)

lemma pool_ok_aged:
  assumes "pool_ok (pool, ids)" and "list_all2 ages (bp_slots pool) (bp_slots pool')"
  shows "pool_ok (pool', ids)"
proof -
  have "length (bp_slots pool') = length (bp_slots pool)"
    using assms(2) by (simp add: list_all2_lengthD)
  moreover have "\<forall>s\<in>set (bp_slots pool'). slot_ok s"
  proof
    fix s
    assume "s \<in> set (bp_slots pool')"
    then obtain i where i: "i < length (bp_slots pool')" "s = bp_slots pool' ! i"
      by (auto simp: in_set_conv_nth)
    then have "ages (bp_slots pool ! i) s" "slot_ok (bp_slots pool ! i)"
      using assms by (auto simp: list_all2_conv_all_nth pool_ok_def)
    then show "slot_ok s"
      by (rule ages_slot_ok [rotated])
  qed
  ultimately show ?thesis
    using assms(1) ages_generations [OF assms(2)] by (auto simp: pool_ok_def)
qed

lemma pool_ok_reserves:
  assumes "pool_ok (pool, ids)" and "reserves usage (bp_slots pool) buffer_id (bp_slots pool')"
  shows "pool_ok (pool', buffer_id # ids)" and "buffer_id \<notin> set ids"
proof -
  obtain us where us: "list_all2 ages (bp_slots pool) us" "bi_slot buffer_id < length (bp_slots pool)"
      "bi_generation buffer_id = Suc (bs_generation (us ! bi_slot buffer_id))" "bi_generation buffer_id < 2 ^ 64"
      "bp_slots pool' = us[bi_slot buffer_id := taken usage (us ! bi_slot buffer_id)]"
    using assms(2) by (auto simp: reserves_def)
  have aged: "pool_ok (pool\<lparr>bp_slots := us\<rparr>, ids)"
    by (rule pool_ok_aged [OF assms(1)]) (simp add: us(1))
  have len: "bi_slot buffer_id < length us"
    using us(1,2) by (simp add: list_all2_lengthD)
  have gens: "map bs_generation (bp_slots pool') = (map bs_generation us)[bi_slot buffer_id := bi_generation buffer_id]"
    using us(3,5) by (simp add: map_update taken_def)
  have new: "slot_ok (taken usage (us ! bi_slot buffer_id))"
    using us(3,4) zero_fill_zero by (cases usage) (simp_all add: slot_ok_def taken_def)
  show fresh: "buffer_id \<notin> set ids"
    using aged us(3) len by (auto simp: pool_ok_def)
  have "bi_generation x \<le> map bs_generation (bp_slots pool') ! bi_slot x" if "x \<in> set (buffer_id # ids)" for x
    using that aged us(3) len unfolding gens by (auto simp: pool_ok_def nth_list_update)
  moreover have "\<forall>s\<in>set (bp_slots pool'). slot_ok s"
    using aged new unfolding us(5) by (auto simp: pool_ok_def dest!: set_update_subset_insert [THEN subsetD])
  ultimately show "pool_ok (pool', buffer_id # ids)"
    using aged us(3,5) len fresh by (simp add: pool_ok_def)
qed

lemma pool_ok_write:
  assumes "pool_ok (pool, ids)" and "with_bytes_mut_inner buffer_id writer pool = Inr (pool', x)"
  shows "pool_ok (pool', ids)" and "pool_ok (poison buffer_id pool', ids)"
proof -
  obtain slot where slot: "slot_of pool buffer_id = Inr slot" "is_active (bs_state slot)"
      "pool' = set_slot buffer_id (slot\<lparr>bs_bytes := fst (writer (bs_bytes slot))\<rparr>) pool"
    using assms(2) by (auto simp: with_bytes_mut_inner_def result_simps split: if_splits)
  have ok: "slot_ok slot" "bs_state slot \<noteq> Free"
    using slot_of_ok [OF assms(1) slot(1)] slot(2) by (auto simp: is_active_def)
  show written: "pool_ok (pool', ids)"
    unfolding slot(3) using ok by (intro pool_ok_set_slot [OF assms(1) slot(1)]) (simp_all add: slot_ok_def)
  let ?slot = "slot\<lparr>bs_bytes := fst (writer (bs_bytes slot))\<rparr>"
  have new: "slot_of pool' buffer_id = Inr ?slot" "bp_slots pool' ! bi_slot buffer_id = ?slot"
    using slot(1) unfolding slot(3) by (auto simp: slot_of_Inr set_slot_def)
  show "pool_ok (poison buffer_id pool', ids)"
    unfolding poison_def new(2) using ok
    by (intro pool_ok_set_slot [OF written new(1)]) (simp_all add: slot_ok_def)
qed

lemma pool_ok_exec: "pool_ok s \<Longrightarrow> pool_ok (pool_exec c s)"
proof (induction c s rule: pool_exec.induct)
  case (1 usage pool ids)
  obtain r pool' where r: "reserve usage pool = (r, pool')"
    by (cases "reserve usage pool")
  have "length (bp_slots pool) \<le> 2 ^ 32"
    using 1 by (simp add: pool_ok_def)
  from reserve_result [OF this r] show ?case
    using 1 r by (cases r) (auto intro: pool_ok_aged pool_ok_reserves)
next
  case (2 buffer_id "next" pool ids)
  then show ?case
    unfolding pool_exec.simps transition_buffer_def
    by (intro pool_ok_transact)
      (auto simp: transition_inner_def result_simps slot_ok_def zero_fill_def split: if_splits
        intro!: pool_ok_set_slot dest: slot_of_ok)
next
  case (3 buffer_id pool ids)
  then show ?case
    unfolding pool_exec.simps release_abandoned_read_def
    by (intro pool_ok_transact)
      (auto simp: release_abandoned_inner_def result_simps slot_ok_def zero_fill_def split: if_splits
        intro!: pool_ok_set_slot dest: slot_of_ok)
next
  case (4 buffer_id writer pool ids)
  then show ?case
    unfolding pool_exec.simps with_bytes_mut_def by (intro pool_ok_transact) (auto intro: pool_ok_write)
next
  case (5 buffer_id writer pool ids)
  then show ?case
    by (cases "with_bytes_mut_inner buffer_id (\<lambda>bytes. (writer bytes, ())) pool")
      (auto simp: with_bytes_mut_def transact_def intro: pool_ok_write)
qed

interpretation buffers: machine pool_ok pool_exec
  by unfold_locales (rule pool_ok_exec)

section \<open>Buffers are not shared\<close>

lemma new_pool_ok:
  assumes "new_pool addresses capacity = Inr pool" and "capacity < 2 ^ 32"
  shows "pool_ok (pool, [])"
proof -
  obtain buffers where b: "list_all2 (\<lambda>i b. new_buffer (addresses i) Mtp = Inr b) [0..<capacity] buffers"
      "bp_slots pool = map (\<lambda>b. \<lparr>bs_generation = 0, bs_state = Free, bs_bytes = as_slice b, bs_poisoned = False\<rparr>) buffers"
    using assms(1) by (auto simp: new_pool_def result_simps split: if_splits)
  have "set (as_slice b) \<subseteq> {0}" if "b \<in> set buffers" for b
  proof -
    obtain i where "i < length buffers" "b = buffers ! i"
      using \<open>b \<in> set buffers\<close> by (auto simp: in_set_conv_nth)
    then have "new_buffer (addresses i) Mtp = Inr b"
      using b(1) by (auto simp: list_all2_conv_all_nth)
    then have "set (xb_storage b) \<subseteq> {0}"
      by (auto simp: new_buffer_def result_simps Let_def)
    then show ?thesis
      by (auto simp: as_slice_def slice_def dest!: in_set_takeD in_set_dropD)
  qed
  then show ?thesis
    using b assms(2) by (auto simp: pool_ok_def slot_ok_def dest!: list_all2_lengthD)
qed

text \<open>
  Buffers are not shared (C39). After any calls on a new pool, a buffer that is reserved has an identifier
  that was never given out before, every older identifier of its slot is refused as stale by the operations,
  and its bytes are all zero, whatever was written to the slot earlier.
\<close>

theorem reserved_buffer_is_private:
  assumes "new_pool addresses capacity = Inr pool0" and "capacity < 2 ^ 32"
    and "fold pool_exec calls (pool0, []) = (pool, ids)" and "reserve usage pool = (Inr fresh, pool')"
  shows "distinct (fresh # ids) \<and>
    (\<forall>old\<in>set ids. bi_slot old = bi_slot fresh \<longrightarrow> slot_of pool' old = Inl (Err StaleGeneration)) \<and>
    (\<exists>bytes. with_bytes pool' fresh (\<lambda>bytes. bytes) = Inr bytes \<and> set bytes \<subseteq> {0})"
proof -
  have ok: "pool_ok (pool, ids)"
    using buffers.run_keeps [OF new_pool_ok [OF assms(1,2)], of calls] assms(3) by simp
  then have "length (bp_slots pool) \<le> 2 ^ 32"
    by (simp add: pool_ok_def)
  from reserve_result [OF this assms(4)] have r: "reserves usage (bp_slots pool) fresh (bp_slots pool')"
    by simp
  then obtain us where us: "list_all2 ages (bp_slots pool) us" "bi_slot fresh < length (bp_slots pool)" "\<not> bs_poisoned (us ! bi_slot fresh)"
      "bi_generation fresh = Suc (bs_generation (us ! bi_slot fresh))"
      "bp_slots pool' = us[bi_slot fresh := taken usage (us ! bi_slot fresh)]"
    by (auto simp: reserves_def)
  have len: "bi_slot fresh < length us"
    using us(1,2) by (simp add: list_all2_lengthD)
  have "slot_of pool' fresh = Inr (taken usage (us ! bi_slot fresh))"
    using len us(4,5) by (simp add: slot_of_Inr is_valid_def taken_def)
  then have bytes: "with_bytes pool' fresh (\<lambda>bytes. bytes) = Inr (zero_fill (bs_bytes (us ! bi_slot fresh)))"
    using us(3) by (cases usage) (simp_all add: with_bytes_def taken_def is_active_def)
  have "slot_of pool' old = Inl (Err StaleGeneration)" if "old \<in> set ids" "bi_slot old = bi_slot fresh" for old
  proof -
    have "bi_generation old \<noteq> 0" "bi_generation old \<le> map bs_generation us ! bi_slot fresh"
      using ok that ages_generations [OF us(1)] by (auto simp: pool_ok_def)
    then show ?thesis
      using len us(4,5) that(2) by (simp add: slot_of_def validate_id_def is_valid_def taken_def)
  qed
  then show ?thesis
    using pool_ok_reserves [OF ok r] bytes zero_fill_zero by (auto simp: pool_ok_def)
qed

text \<open>
  A free slot is always found. After any calls on a new pool, \<open>reserve\<close> returns a buffer whenever some slot
  is free and has a generation left, wherever the search starts.
\<close>

theorem free_buffer_is_found:
  assumes "new_pool addresses capacity = Inr pool0" and "capacity < 2 ^ 32"
    and "fold pool_exec calls (pool0, []) = (pool, ids)" and "slot \<in> set (bp_slots pool)" and "bs_state slot = Free"
    and "bs_generation slot + 1 < 2 ^ 64"
  shows "\<exists>buffer_id. fst (reserve usage pool) = Inr buffer_id"
proof -
  have ok: "pool_ok (pool, ids)"
    using buffers.run_keeps [OF new_pool_ok [OF assms(1,2)], of calls] assms(3) by simp
  obtain k where k: "k < length (bp_slots pool)" "slot = bp_slots pool ! k"
    using assms(4) by (auto simp: in_set_conv_nth)
  let ?n = "length (bp_slots pool)" and ?s = "bp_next_search pool"
  have "\<exists>d\<in>set [0..<?n]. k = (?s + d) mod ?n"
  proof (rule bexI)
    let ?d = "(k + ?n - ?s mod ?n) mod ?n"
    have "?s mod ?n < ?n"
      using k(1) mod_less_divisor [of ?n ?s] by linarith
    then have "(?s mod ?n + (k + ?n - ?s mod ?n)) mod ?n = k"
      using k(1) by simp
    then show "k = (?s + ?d) mod ?n"
      by (simp add: mod_simps)
    show "?d \<in> set [0..<?n]"
      using k(1) mod_less_divisor [of ?n "k + ?n - ?s mod ?n"] unfolding set_upt atLeastLessThan_iff by linarith
  qed
  then show ?thesis
    unfolding reserve_def using ok k assms(5,6)
    by (intro reserve_search_finds [of _ k]) (auto simp: pool_ok_def slot_ok_def reservable_def)
qed

section \<open>Sample runs\<close>

definition sample_slot :: direct_buffer_slot where
  "sample_slot = \<lparr>bs_generation = 0, bs_state = Free, bs_bytes = replicate (physical_bytes Mtp) 0, bs_poisoned = False\<rparr>"

definition sample_pool :: direct_buffer_pool where
  "sample_pool = \<lparr>bp_slots = [sample_slot], bp_next_search = 0\<rparr>"

definition sample_id :: "nat \<Rightarrow> direct_buffer_id" where
  "sample_id g = \<lparr>bi_slot = 0, bi_generation = g\<rparr>"

definition sample_pool_calls :: "pool_call list" where
  "sample_pool_calls = [Reserve CpuWrite, Write_Bytes (sample_id 1) (map (\<lambda>_. 1)), Transition (sample_id 1) WriteQueued,
     Transition (sample_id 1) Free]"

lemma new_sample_pool: "new_pool (\<lambda>_. 4096) 1 = Inr sample_pool"
  by (simp add: new_pool_def new_buffer_def sample_pool_def sample_slot_def as_slice_def slice_def try_uint_def checked_add_def
      checked_sub_def validate_direct_io_span_def result_simps physical_bytes_def Let_def)

lemma sample_pool_run:
  "\<exists>pool pool'. fold pool_exec sample_pool_calls (sample_pool, []) = (pool, [sample_id 1]) \<and>
     reserve CpuRead pool = (Inr (sample_id 2), pool') \<and> bp_slots pool = [sample_slot\<lparr>bs_generation := 1\<rparr>]"
  by (simp add: sample_pool_calls_def sample_pool_def sample_slot_def sample_id_def reserve_def checked_add_def try_uint_def
      upt_rec with_bytes_mut_def with_bytes_mut_inner_def transact_def slot_of_def validate_id_def is_valid_def is_active_def
      set_slot_def transition_buffer_def transition_inner_def valid_transition_def zero_fill_def Let_def map_replicate_const)

theorem reserved_buffer_is_private_witness:
  "\<exists>pool pool' bytes. fold pool_exec sample_pool_calls (sample_pool, []) = (pool, [sample_id 1]) \<and>
     reserve CpuRead pool = (Inr (sample_id 2), pool') \<and> slot_of pool' (sample_id 1) = Inl (Err StaleGeneration) \<and>
     with_bytes pool' (sample_id 2) (\<lambda>bytes. bytes) = Inr bytes \<and> set bytes \<subseteq> {0}"
proof -
  obtain pool pool' where run: "fold pool_exec sample_pool_calls (sample_pool, []) = (pool, [sample_id 1])"
      "reserve CpuRead pool = (Inr (sample_id 2), pool')"
    using sample_pool_run by blast
  show ?thesis
    using reserved_buffer_is_private [OF new_sample_pool _ run] run by (auto simp: sample_id_def)
qed

theorem free_buffer_is_found_witness:
  "\<exists>pool buffer_id. fold pool_exec sample_pool_calls (sample_pool, []) = (pool, [sample_id 1]) \<and>
     fst (reserve CpuWrite pool) = Inr buffer_id"
proof -
  obtain pool where run: "fold pool_exec sample_pool_calls (sample_pool, []) = (pool, [sample_id 1])"
      "bp_slots pool = [sample_slot\<lparr>bs_generation := 1\<rparr>]"
    using sample_pool_run by blast
  show ?thesis
    using free_buffer_is_found [OF new_sample_pool _ run(1), of "sample_slot\<lparr>bs_generation := 1\<rparr>" CpuWrite] run
    by (auto simp: sample_slot_def)
qed

end
