(* ===== verification/Direct_Descriptor.thy ===== *)
theory Direct_Descriptor
  imports Direct_State
begin

text \<open>
  The descriptor table of \<open>crates/glm-cache/src/direct_state.rs\<close>: every I/O operation in flight has a
  descriptor and a token that the kernel hands back on completion, and an operation that is
  cancelled has a second token. Tokens are 64-bit words.
\<close>

section \<open>Tokens\<close>

datatype direct_operation_kind = Read | Write | Fsync

datatype direct_completion_kind = Original | AsyncCancel

type_synonym direct_completion_token = "64 word"

definition CANCEL_BIT :: "64 word" where [simp]: "CANCEL_BIT = 1"
definition SLOT_MASK :: "64 word" where [simp]: "SLOT_MASK = 0x7fffffff"

definition new_token :: "nat \<Rightarrow> nat \<Rightarrow> direct_completion_kind \<Rightarrow> direct_completion_token" where
  "new_token slot generation kind =
     (let role = (case kind of Original \<Rightarrow> 0 | AsyncCancel \<Rightarrow> CANCEL_BIT) in
      push_bit 32 (of_nat generation) OR push_bit 1 (of_nat slot) OR role)"

definition token_kind :: "direct_completion_token \<Rightarrow> direct_completion_kind" where
  "token_kind token = (if token AND CANCEL_BIT = 0 then Original else AsyncCancel)"

definition token_slot :: "direct_completion_token \<Rightarrow> nat" where
  "token_slot token = unat (drop_bit 1 token AND SLOT_MASK)"

definition token_generation :: "direct_completion_token \<Rightarrow> nat" where
  "token_generation token = unat (drop_bit 32 token)"

section \<open>The table\<close>

record direct_descriptor_binding =
  db_buffer :: direct_buffer_id
  db_operation_generation :: nat
  db_operation :: direct_operation_kind

record direct_descriptor_entry =
  de_binding :: direct_descriptor_binding
  de_original_pending :: bool
  de_cancel_pending :: bool

record direct_descriptor_slot =
  ds_generation :: nat
  ds_retired :: bool
  ds_entry :: "direct_descriptor_entry option"

record direct_descriptor_table =
  dt_slots :: "direct_descriptor_slot list"
  dt_next_search :: nat

datatype direct_descriptor_error =
    Capacity | Allocation | Identity | UnknownSlot | StaleGeneration | Role | Missing | NoPendingCompletion

definition from_user_data :: "64 word \<Rightarrow> (direct_descriptor_error, direct_completion_token) result" where
  "from_user_data user_data = (if token_generation user_data = 0 then Inl (Err Identity) else Inr user_data)"

definition new_descriptors :: "nat \<Rightarrow> (direct_descriptor_error, direct_descriptor_table) result" where
  "new_descriptors capacity =
     (if capacity = 0 \<or> capacity > 0x80000000 then Inl (Err Capacity)
      else Inr \<lparr>dt_slots = replicate capacity \<lparr>ds_generation = 0, ds_retired = False, ds_entry = None\<rparr>, dt_next_search = 0\<rparr>)"

fun allocate_search :: "direct_descriptor_binding \<Rightarrow> nat list \<Rightarrow> direct_descriptor_table \<Rightarrow>
    (direct_descriptor_error, direct_completion_token) result \<times> direct_descriptor_table" where
  "allocate_search binding [] table = (Inl (Err Capacity), table)"
| "allocate_search binding (distance # rest) table =
     (let capacity = length (dt_slots table);
          slot_index = (dt_next_search table + distance) mod capacity;
          slot = dt_slots table ! slot_index;
          retired = table\<lparr>dt_slots := (dt_slots table)[slot_index := slot\<lparr>ds_retired := True\<rparr>]\<rparr>
      in
      if ds_retired slot \<or> ds_entry slot \<noteq> None then allocate_search binding rest table
      else case checked_add 32 (ds_generation slot) 1 of
        None \<Rightarrow> allocate_search binding rest retired
      | Some generation \<Rightarrow>
          if generation = 0 then allocate_search binding rest retired
          else
            let table = table\<lparr>dt_slots := (dt_slots table)[slot_index := slot\<lparr>ds_generation := generation,
                     ds_entry := Some \<lparr>de_binding = binding, de_original_pending = True, de_cancel_pending = False\<rparr>\<rparr>],
                   dt_next_search := (slot_index + 1) mod capacity\<rparr>
            in (rbind (ok_or (try_uint 32 slot_index) Capacity) (\<lambda>s. Inr (new_token s generation Original)), table))"

definition allocate :: "direct_descriptor_binding \<Rightarrow> direct_descriptor_table \<Rightarrow>
    (direct_descriptor_error, direct_completion_token) result \<times> direct_descriptor_table" where
  "allocate binding table =
     (if \<not> is_valid (db_buffer binding) \<or> db_operation_generation binding = 0 then (Inl (Err Identity), table)
      else allocate_search binding [0..<length (dt_slots table)] table)"

definition descriptor_slot :: "direct_descriptor_table \<Rightarrow> direct_completion_token \<Rightarrow>
    (direct_descriptor_error, direct_descriptor_slot) result" where
  "descriptor_slot table token =
     (if token_generation token = 0 then Inl (Err Identity)
      else
        rbind (ok_or (if token_slot token < length (dt_slots table) then Some (dt_slots table ! token_slot token) else None)
          UnknownSlot) (\<lambda>slot.
        if ds_generation slot \<noteq> token_generation token then Inl (Err StaleGeneration) else Inr slot))"

definition set_descriptor :: "nat \<Rightarrow> direct_descriptor_slot \<Rightarrow> direct_descriptor_table \<Rightarrow> direct_descriptor_table" where
  "set_descriptor i slot table = table\<lparr>dt_slots := (dt_slots table)[i := slot]\<rparr>"

definition issue_cancel_inner :: "direct_completion_token \<Rightarrow> direct_descriptor_table \<Rightarrow>
    (direct_descriptor_error, direct_descriptor_table \<times> direct_completion_token) result" where
  "issue_cancel_inner original table =
     (if token_kind original \<noteq> Original then Inl (Err Role)
      else
        rbind (descriptor_slot table original) (\<lambda>slot.
        rbind (ok_or (ds_entry slot) Missing) (\<lambda>entry.
        if \<not> de_original_pending entry \<or> de_cancel_pending entry then Inl (Err NoPendingCompletion)
        else Inr (set_descriptor (token_slot original) (slot\<lparr>ds_entry := Some (entry\<lparr>de_cancel_pending := True\<rparr>)\<rparr>) table,
               new_token (token_slot original) (token_generation original) AsyncCancel))))"

definition issue_cancel :: "direct_completion_token \<Rightarrow> direct_descriptor_table \<Rightarrow>
    (direct_descriptor_error, direct_completion_token) result \<times> direct_descriptor_table" where
  "issue_cancel original = transact (issue_cancel_inner original)"

definition entry_pending :: "direct_completion_kind \<Rightarrow> direct_descriptor_entry \<Rightarrow> bool" where
  "entry_pending kind entry = (case kind of Original \<Rightarrow> de_original_pending entry | AsyncCancel \<Rightarrow> de_cancel_pending entry)"

definition resolve :: "direct_descriptor_table \<Rightarrow> direct_completion_token \<Rightarrow>
    (direct_descriptor_error, direct_descriptor_binding) result" where
  "resolve table token =
     rbind (descriptor_slot table token) (\<lambda>slot.
     rbind (ok_or (ds_entry slot) Missing) (\<lambda>entry.
     if \<not> entry_pending (token_kind token) entry then Inl (Err NoPendingCompletion) else Inr (de_binding entry)))"

definition complete_inner :: "direct_completion_token \<Rightarrow> direct_descriptor_table \<Rightarrow>
    (direct_descriptor_error, direct_descriptor_table \<times> direct_descriptor_binding) result" where
  "complete_inner token table =
     rbind (descriptor_slot table token) (\<lambda>slot.
     rbind (ok_or (ds_entry slot) Missing) (\<lambda>entry.
     if \<not> entry_pending (token_kind token) entry then Inl (Err NoPendingCompletion)
     else
       let entry = (case token_kind token of Original \<Rightarrow> entry\<lparr>de_original_pending := False\<rparr>
             | AsyncCancel \<Rightarrow> entry\<lparr>de_cancel_pending := False\<rparr>)
       in Inr (set_descriptor (token_slot token) (slot\<lparr>ds_entry :=
                if \<not> de_original_pending entry \<and> \<not> de_cancel_pending entry then None else Some entry\<rparr>) table,
              de_binding entry)))"

definition complete :: "direct_completion_token \<Rightarrow> direct_descriptor_table \<Rightarrow>
    (direct_descriptor_error, direct_descriptor_binding) result \<times> direct_descriptor_table" where
  "complete token = transact (complete_inner token)"

definition outstanding_descriptors :: "direct_descriptor_table \<Rightarrow> nat" where
  "outstanding_descriptors table = length (filter (\<lambda>slot. ds_entry slot \<noteq> None) (dt_slots table))"

definition retired_descriptors :: "direct_descriptor_table \<Rightarrow> nat" where
  "retired_descriptors table = length (filter ds_retired (dt_slots table))"

section \<open>Tokens are exact\<close>

lemma bit_less:
  assumes "bit (n :: nat) k" and "n < 2 ^ w"
  shows "k < w"
proof (rule ccontr)
  assume "\<not> k < w"
  then have "n < 2 ^ k"
    using assms(2) power_increasing [of w k "2 :: nat"] by linarith
  with assms(1) show False
    by (simp add: bit_nat_def)
qed

lemma bit_role: "bit (case k of Original \<Rightarrow> 0 | AsyncCancel \<Rightarrow> CANCEL_BIT) n \<longleftrightarrow> n = 0 \<and> k = AsyncCancel"
  by (cases k) (auto simp: bit_simps)

lemma bit_new_token:
  assumes "s < 2 ^ 31" and "g < 2 ^ 32"
  shows "bit (new_token s g k) n \<longleftrightarrow>
    (if n = 0 then k = AsyncCancel else if n < 32 then bit s (n - 1) else n < 64 \<and> bit g (n - 32))"
  using bit_less [OF _ assms(1), of "n - 1"] bit_less [OF _ assms(2), of "n - 32"]
  unfolding new_token_def Let_def bit_or_iff bit_push_bit_iff bit_role
  by (auto simp: bit_simps)

lemma token_fields:
  assumes "s < 2 ^ 31" and "g < 2 ^ 32"
  shows "token_slot (new_token s g k) = s" and "token_generation (new_token s g k) = g" and "token_kind (new_token s g k) = k"
proof -
  have mask: "SLOT_MASK = mask 31"
    by (simp add: mask_eq_exp_minus_1)
  have "drop_bit 1 (new_token s g k) AND SLOT_MASK = of_nat s"
    unfolding mask
    by (rule bit_word_eqI)
      (auto simp: bit_and_iff bit_drop_bit_eq bit_new_token [OF assms] bit_mask_iff bit_simps dest: bit_less [OF _ assms(1)])
  then show "token_slot (new_token s g k) = s"
    using assms(1) by (simp add: token_slot_def unat_of_nat)
  have "drop_bit 32 (new_token s g k) = of_nat g"
    by (rule bit_word_eqI)
      (auto simp: bit_drop_bit_eq bit_new_token [OF assms] bit_simps dest: bit_less [OF _ assms(2)])
  then show "token_generation (new_token s g k) = g"
    using assms(2) by (simp add: token_generation_def unat_of_nat)
  have "bit (new_token s g k AND CANCEL_BIT) 0 \<longleftrightarrow> k = AsyncCancel"
    by (simp add: bit_and_iff bit_new_token [OF assms])
  moreover have "new_token s g k AND CANCEL_BIT \<in> {0, 1}"
    by (simp add: and_one_eq mod2_eq_if)
  ultimately show "token_kind (new_token s g k) = k"
    by (cases k) (auto simp: token_kind_def)
qed

lemma token_slot_bound: "token_slot t < 2 ^ 31"
proof -
  have mask: "SLOT_MASK = mask 31"
    by (simp add: mask_eq_exp_minus_1)
  have "token_slot t = take_bit 31 (unat (drop_bit 1 t))"
    unfolding token_slot_def mask take_bit_eq_mask [symmetric]
    by (simp add: unsigned_take_bit_eq)
  then show ?thesis
    by (simp only: take_bit_nat_less_exp)
qed

lemma token_generation_bound: "token_generation t < 2 ^ 32"
proof -
  have "unat t < 2 ^ 32 * 2 ^ 32"
    using unsigned_less [of t, where ?'a = nat] by simp
  then show ?thesis
    unfolding token_generation_def
    by (simp add: drop_bit_eq_div unat_div_distrib div_less_iff_less_mult)
qed

lemma token_eq: "new_token (token_slot t) (token_generation t) (token_kind t) = t"
proof (rule bit_word_eqI)
  fix n
  assume "n < LENGTH(64)"
  have mask: "SLOT_MASK = mask 31"
    by (simp add: mask_eq_exp_minus_1)
  have "bit (token_slot t) (n - 1) \<longleftrightarrow> bit t n" if "n \<noteq> 0" and "n < 32"
    using that unfolding token_slot_def mask by (auto simp: bit_unsigned_iff bit_and_iff bit_drop_bit_eq bit_mask_iff)
  moreover have "bit (token_generation t) (n - 32) \<longleftrightarrow> bit t n" if "\<not> n < 32"
    using that unfolding token_generation_def by (simp add: bit_unsigned_iff bit_drop_bit_eq)
  moreover have "token_kind t = AsyncCancel \<longleftrightarrow> bit t 0"
    by (simp add: token_kind_def and_one_eq bit_0 mod2_eq_if)
  ultimately show "bit (new_token (token_slot t) (token_generation t) (token_kind t)) n \<longleftrightarrow> bit t n"
    using \<open>n < LENGTH(64)\<close> by (simp add: bit_new_token [OF token_slot_bound token_generation_bound])
qed

end
