(* ===== verification/Direct_Descriptor_Props.thy ===== *)
theory Direct_Descriptor_Props
  imports Direct_Descriptor
begin

text \<open>
  The descriptor table refines a history of the operations: a token is waiting from the time it is
  issued until its completion is taken, and the table knows exactly the waiting tokens.
\<close>

section \<open>The specification\<close>

text \<open>
  A history lists the events newest first. A cancellation has a token of its own, which stands for the
  operation of the token it cancels.
\<close>

datatype descriptor_event =
    Issue direct_completion_token direct_descriptor_binding
  | Cancel direct_completion_token direct_completion_token
  | Done direct_completion_token direct_descriptor_binding

fun waiting :: "descriptor_event list \<Rightarrow> direct_completion_token \<Rightarrow> direct_descriptor_binding option" where
  "waiting [] = Map.empty"
| "waiting (Issue t b # log) = (waiting log)(t \<mapsto> b)"
| "waiting (Cancel c t # log) = (waiting log)(c := waiting log t)"
| "waiting (Done t b # log) = (waiting log)(t := None)"

fun allocated :: "descriptor_event list \<Rightarrow> direct_completion_token set" where
  "allocated [] = {}"
| "allocated (Issue t b # log) = insert t (allocated log)"
| "allocated (Cancel c t # log) = allocated log"
| "allocated (Done t b # log) = allocated log"

text \<open>
  In a legal history no operation gets a token that an operation had before, a cancellation is issued for a waiting
  operation and never while another one of it is waiting, and only waiting tokens complete, with
  the binding they were issued for.
\<close>

fun legal :: "descriptor_event list \<Rightarrow> bool" where
  "legal [] \<longleftrightarrow> True"
| "legal (Issue t b # log) \<longleftrightarrow> t \<notin> allocated log \<and> waiting log t = None \<and> legal log"
| "legal (Cancel c t # log) \<longleftrightarrow> t \<in> allocated log \<and> c \<notin> allocated log \<and> waiting log t \<noteq> None \<and> waiting log c = None \<and> legal log"
| "legal (Done t b # log) \<longleftrightarrow> waiting log t = Some b \<and> legal log"

section \<open>Calls and their histories\<close>

datatype descriptor_call =
    Allocate direct_descriptor_binding
  | Issue_Cancel direct_completion_token
  | Complete direct_completion_token

fun descriptor_exec :: "descriptor_call \<Rightarrow> direct_descriptor_table \<times> descriptor_event list \<Rightarrow>
    direct_descriptor_table \<times> descriptor_event list" where
  "descriptor_exec (Allocate b) (table, log) =
     (case allocate b table of (Inr t, table') \<Rightarrow> (table', Issue t b # log) | (Inl _, table') \<Rightarrow> (table', log))"
| "descriptor_exec (Issue_Cancel t) (table, log) =
     (case issue_cancel t table of (Inr c, table') \<Rightarrow> (table', Cancel c t # log) | (Inl _, table') \<Rightarrow> (table', log))"
| "descriptor_exec (Complete t) (table, log) =
     (case complete t table of (Inr b, table') \<Rightarrow> (table', Done t b # log) | (Inl _, table') \<Rightarrow> (table', log))"

section \<open>What the table knows\<close>

text \<open>The search only retires slots on its way, so the generations and the entries are what matters.\<close>

definition view :: "direct_descriptor_table \<Rightarrow> (nat \<times> direct_descriptor_entry option) list" where
  "view table = map (\<lambda>slot. (ds_generation slot, ds_entry slot)) (dt_slots table)"

definition known :: "(nat \<times> direct_descriptor_entry option) list \<Rightarrow> direct_completion_token \<Rightarrow> direct_descriptor_binding option" where
  "known v t =
     (if token_generation t \<noteq> 0 \<and> token_slot t < length v \<and> fst (v ! token_slot t) = token_generation t
      then case snd (v ! token_slot t) of
          Some e \<Rightarrow> if entry_pending (token_kind t) e then Some (de_binding e) else None
        | None \<Rightarrow> None
      else None)"

definition table_ok :: "(nat \<times> direct_descriptor_entry option) list \<Rightarrow> bool" where
  "table_ok v \<longleftrightarrow> length v \<le> 2 ^ 31 \<and> (\<forall>i<length v. fst (v ! i) < 2 ^ 32 \<and> (snd (v ! i) \<noteq> None \<longrightarrow> fst (v ! i) \<noteq> 0))"

lemma length_view [simp]: "length (view table) = length (dt_slots table)"
  by (simp add: view_def)

lemma nth_view [simp]: "i < length (dt_slots table) \<Longrightarrow>
    view table ! i = (ds_generation (dt_slots table ! i), ds_entry (dt_slots table ! i))"
  by (simp add: view_def)

lemma view_set_descriptor [simp]:
  "view (set_descriptor i slot table) = (view table)[i := (ds_generation slot, ds_entry slot)]"
  by (simp add: view_def set_descriptor_def map_update)

lemma view_retired [simp]:
  "i < length (dt_slots table) \<Longrightarrow>
   view (table\<lparr>dt_slots := (dt_slots table)[i := (dt_slots table ! i)\<lparr>ds_retired := r\<rparr>]\<rparr>) = view table"
  by (rule nth_equalityI) (auto simp: view_def nth_list_update)

lemma resolve_known: "resolve table t = Inr b \<longleftrightarrow> known (view table) t = Some b"
  by (auto simp: resolve_def descriptor_slot_def known_def result_simps split: option.splits if_splits)

lemma complete_known: "fst (complete t table) = Inr b \<longleftrightarrow> known (view table) t = Some b"
  by (auto simp: complete_def transact_def complete_inner_def descriptor_slot_def known_def result_simps Let_def
      split: option.splits if_splits sum.splits direct_completion_kind.splits)

section \<open>Every call refines its event\<close>

definition new_entry :: "direct_descriptor_binding \<Rightarrow> direct_descriptor_entry" where
  "new_entry b = \<lparr>de_binding = b, de_original_pending = True, de_cancel_pending = False\<rparr>"

definition allocates :: "direct_descriptor_binding \<Rightarrow> (nat \<times> direct_descriptor_entry option) list \<Rightarrow>
    direct_completion_token \<Rightarrow> (nat \<times> direct_descriptor_entry option) list \<Rightarrow> bool" where
  "allocates b v t v' \<longleftrightarrow> (\<exists>i<length v. snd (v ! i) = None \<and> Suc (fst (v ! i)) < 2 ^ 32 \<and>
     t = new_token i (Suc (fst (v ! i))) Original \<and> v' = v[i := (Suc (fst (v ! i)), Some (new_entry b))])"

lemma allocate_search_view:
  assumes "dt_slots table \<noteq> []" and "length (dt_slots table) \<le> 2 ^ 31"
    and "allocate_search b ds table = (r, table')"
  shows "case r of Inl _ \<Rightarrow> view table' = view table | Inr t \<Rightarrow> allocates b (view table) t (view table')"
  using assms
proof (induction ds arbitrary: table)
  case Nil
  then show ?case by auto
next
  case (Cons d ds)
  let ?n = "length (dt_slots table)"
  let ?i = "(dt_next_search table + d) mod ?n"
  let ?slot = "dt_slots table ! ?i"
  let ?retired = "table\<lparr>dt_slots := (dt_slots table)[?i := ?slot\<lparr>ds_retired := True\<rparr>]\<rparr>"
  have i: "?i < ?n"
    using Cons.prems(1) by simp
  consider (skip) "ds_retired ?slot \<or> ds_entry ?slot \<noteq> None"
    | (retire) "\<not> (ds_retired ?slot \<or> ds_entry ?slot \<noteq> None)" "checked_add 32 (ds_generation ?slot) 1 = None"
    | (take) "\<not> (ds_retired ?slot \<or> ds_entry ?slot \<noteq> None)" "checked_add 32 (ds_generation ?slot) 1 = Some (Suc (ds_generation ?slot))"
    using checked_add_Some [of 32 "ds_generation ?slot" 1]
    by (cases "checked_add 32 (ds_generation ?slot) 1") fastforce+
  then show ?case
  proof cases
    case skip
    then have "allocate_search b ds table = (r, table')"
      using Cons.prems(3) by (simp add: Let_def)
    then show ?thesis
      using Cons.IH Cons.prems(1,2) by simp
  next
    case retire
    then have "allocate_search b ds ?retired = (r, table')"
      using Cons.prems(3) by (simp add: Let_def)
    from Cons.IH [OF _ _ this] show ?thesis
      using Cons.prems(1,2) unfolding view_retired [OF i] by simp
  next
    case take
    let ?g = "Suc (ds_generation ?slot)"
    let ?taken = "table\<lparr>dt_slots := (dt_slots table)[?i := ?slot\<lparr>ds_generation := ?g, ds_entry := Some (new_entry b)\<rparr>],
      dt_next_search := (?i + 1) mod ?n\<rparr>"
    have "try_uint 32 ?i = Some ?i"
      using i Cons.prems(2) by (simp add: result_simps)
    then have r: "r = Inr (new_token ?i ?g Original)" "table' = ?taken"
      using take Cons.prems(3) by (auto simp: Let_def new_entry_def)
    have "?g < 2 ^ 32"
      using take(2) by (simp add: result_simps)
    moreover have "view ?taken = (view table)[?i := (?g, Some (new_entry b))]"
      by (simp add: view_def map_update)
    ultimately show ?thesis
      using take(1) i unfolding r by (auto simp: allocates_def intro!: exI [of _ ?i])
  qed
qed

lemma allocate_view:
  assumes "length (dt_slots table) \<le> 2 ^ 31" and "allocate b table = (r, table')"
  shows "case r of Inl _ \<Rightarrow> view table' = view table | Inr t \<Rightarrow> allocates b (view table) t (view table')"
  using assms allocate_search_view [of table b "[0..<length (dt_slots table)]" r table']
  by (cases "dt_slots table = []") (auto simp: allocate_def split: if_splits)

lemma known_update:
  "i < length v \<Longrightarrow> known (v[i := (g, entry)]) x =
     (if token_slot x = i
      then if token_generation x \<noteq> 0 \<and> token_generation x = g
        then case entry of None \<Rightarrow> None | Some e \<Rightarrow> if entry_pending (token_kind x) e then Some (de_binding e) else None
        else None
      else known v x)"
  by (simp add: known_def)

lemma token_eq_iff: "x = t \<longleftrightarrow> token_slot x = token_slot t \<and> token_generation x = token_generation t \<and> token_kind x = token_kind t"
  using token_eq [of x] token_eq [of t] by metis

lemma allocates_known:
  assumes "table_ok v" and "allocates b v t v'"
  shows "known v' = (known v)(t \<mapsto> b)" and "known v t = None" and "table_ok v'" and "token_kind t = Original"
    and "token_slot t < length v" and "token_generation t = Suc (fst (v ! token_slot t))"
    and "v' = v[token_slot t := (token_generation t, Some (new_entry b))]"
proof -
  obtain i where i: "i < length v" "snd (v ! i) = None" "Suc (fst (v ! i)) < 2 ^ 32"
      "t = new_token i (Suc (fst (v ! i))) Original" "v' = v[i := (Suc (fst (v ! i)), Some (new_entry b))]"
    using assms(2) by (auto simp: allocates_def)
  have "i < 2 ^ 31"
    using assms(1) i(1) by (simp add: table_ok_def)
  note fields = token_fields [OF this i(3), of Original, folded i(4)]
  show "token_kind t = Original" "token_slot t < length v" "token_generation t = Suc (fst (v ! token_slot t))"
    "v' = v[token_slot t := (token_generation t, Some (new_entry b))]" "known v t = None"
    using fields i by (simp_all add: known_def)
  show "table_ok v'"
    using assms(1) i by (auto simp: table_ok_def nth_list_update)
  show "known v' = (known v)(t \<mapsto> b)"
  proof
    fix x
    have "x = t \<longleftrightarrow> token_slot x = i \<and> token_generation x = Suc (fst (v ! i)) \<and> token_kind x = Original"
      using token_eq_iff [of x t] fields by simp
    moreover have "known v x = None" if "token_slot x = i"
      using that i by (simp add: known_def)
    ultimately show "known v' x = ((known v)(t \<mapsto> b)) x"
      unfolding i(5) known_update [OF i(1)]
      by (cases "token_kind x") (simp_all add: new_entry_def entry_pending_def)
  qed
qed

lemma knownE:
  assumes "known v t = Some b"
  obtains e where "token_generation t \<noteq> 0" "token_slot t < length v" "v ! token_slot t = (token_generation t, Some e)"
    "entry_pending (token_kind t) e" "de_binding e = b"
  using assms by (cases "v ! token_slot t") (auto simp: known_def split: if_splits option.splits)

lemma issue_cancel_view:
  assumes "issue_cancel t table = (Inr c, table')"
  obtains e where "token_kind t = Original" "token_generation t \<noteq> 0" "token_slot t < length (view table)"
    "view table ! token_slot t = (token_generation t, Some e)" "de_original_pending e" "\<not> de_cancel_pending e"
    "c = new_token (token_slot t) (token_generation t) AsyncCancel"
    "view table' = (view table)[token_slot t := (token_generation t, Some (e\<lparr>de_cancel_pending := True\<rparr>))]"
  using assms
  by (auto simp: issue_cancel_def transact_Inr issue_cancel_inner_def descriptor_slot_def result_simps split: if_splits)

lemma issue_cancel_known:
  assumes "issue_cancel t table = (Inr c, table')" and "table_ok (view table)"
  shows "known (view table') = (known (view table))(c := known (view table) t)"
    and "known (view table) t \<noteq> None" and "known (view table) c = None" and "table_ok (view table')"
    and "token_kind t = Original" and "token_kind c = AsyncCancel" and "map fst (view table') = map fst (view table)"
proof -
  obtain e where e: "token_kind t = Original" "token_generation t \<noteq> 0" "token_slot t < length (view table)"
    "view table ! token_slot t = (token_generation t, Some e)" "de_original_pending e" "\<not> de_cancel_pending e"
    "c = new_token (token_slot t) (token_generation t) AsyncCancel"
    "view table' = (view table)[token_slot t := (token_generation t, Some (e\<lparr>de_cancel_pending := True\<rparr>))]"
    using issue_cancel_view [OF assms(1)] by blast
  note fields = token_fields [OF token_slot_bound token_generation_bound, of t t AsyncCancel, folded e(7)]
  show "token_kind t = Original" "token_kind c = AsyncCancel"
    using e(1) fields by auto
  have t: "known (view table) t = Some (de_binding e)"
    using e by (simp add: known_def entry_pending_def)
  then show "known (view table) t \<noteq> None"
    by simp
  show "known (view table) c = None"
    using e(2-6) fields by (simp add: known_def entry_pending_def)
  show "map fst (view table') = map fst (view table)"
    unfolding e(8) map_update using e(3,4) by (simp add: list_update_same_conv)
  show "table_ok (view table')"
    using assms(2) e(2-4) unfolding e(8) by (auto simp: table_ok_def nth_list_update)
  show "known (view table') = (known (view table))(c := known (view table) t)"
  proof
    fix x
    have "x = c \<longleftrightarrow> token_slot x = token_slot t \<and> token_generation x = token_generation t \<and> token_kind x = AsyncCancel"
      using token_eq_iff [of x c] fields by simp
    moreover have "known (view table) x = (if token_generation x = token_generation t \<and> token_kind x = Original
        then Some (de_binding e) else None)" if "token_slot x = token_slot t"
      using that e(2-6) by (cases "token_kind x") (auto simp: known_def entry_pending_def)
    ultimately show "known (view table') x = ((known (view table))(c := known (view table) t)) x"
      unfolding e(8) known_update [OF e(3)] t using e(2,5,6)
      by (cases "token_kind x") (simp_all add: entry_pending_def)
  qed
qed

definition settle :: "direct_completion_kind \<Rightarrow> direct_descriptor_entry \<Rightarrow> direct_descriptor_entry" where
  "settle kind e = (case kind of Original \<Rightarrow> e\<lparr>de_original_pending := False\<rparr> | AsyncCancel \<Rightarrow> e\<lparr>de_cancel_pending := False\<rparr>)"

lemma complete_view:
  assumes "complete t table = (Inr b, table')"
  obtains e where "token_generation t \<noteq> 0" "token_slot t < length (view table)"
    "view table ! token_slot t = (token_generation t, Some e)" "entry_pending (token_kind t) e" "de_binding e = b"
    "view table' = (view table)[token_slot t := (token_generation t,
       if de_original_pending (settle (token_kind t) e) \<or> de_cancel_pending (settle (token_kind t) e)
       then Some (settle (token_kind t) e) else None)]"
  using assms
  by (cases "token_kind t")
    (auto simp: complete_def transact_Inr complete_inner_def descriptor_slot_def result_simps Let_def settle_def split: if_splits)

lemma complete_known_update:
  assumes "complete t table = (Inr b, table')" and "table_ok (view table)"
  shows "known (view table') = (known (view table))(t := None)" and "known (view table) t = Some b"
    and "table_ok (view table')" and "map fst (view table') = map fst (view table)"
proof -
  obtain e where e: "token_generation t \<noteq> 0" "token_slot t < length (view table)"
    "view table ! token_slot t = (token_generation t, Some e)" "entry_pending (token_kind t) e" "de_binding e = b"
    "view table' = (view table)[token_slot t := (token_generation t,
       if de_original_pending (settle (token_kind t) e) \<or> de_cancel_pending (settle (token_kind t) e)
       then Some (settle (token_kind t) e) else None)]"
    using complete_view [OF assms(1)] by blast
  show "known (view table) t = Some b"
    using e(1-5) by (simp add: known_def)
  show "map fst (view table') = map fst (view table)"
    unfolding e(6) map_update using e(2,3) by (simp add: list_update_same_conv)
  show "table_ok (view table')"
    using assms(2) e(1-3) unfolding e(6) by (auto simp: table_ok_def nth_list_update)
  show "known (view table') = (known (view table))(t := None)"
  proof
    fix x
    have "known (view table) x = (if token_generation x = token_generation t \<and> entry_pending (token_kind x) e
        then Some b else None)" if "token_slot x = token_slot t"
      using that e(1-3,5) by (auto simp: known_def)
    moreover have "entry_pending (token_kind x) (settle (token_kind t) e) \<longleftrightarrow> entry_pending (token_kind x) e \<and> token_kind x \<noteq> token_kind t"
      "entry_pending (token_kind x) (settle (token_kind t) e) \<Longrightarrow>
         de_original_pending (settle (token_kind t) e) \<or> de_cancel_pending (settle (token_kind t) e)"
      "de_binding (settle (token_kind t) e) = b"
      using e(5) by (cases "token_kind x"; cases "token_kind t"; simp add: entry_pending_def settle_def)+
    ultimately show "known (view table') x = ((known (view table))(t := None)) x"
      unfolding e(6) known_update [OF e(2)] using e(1) token_eq_iff [of x t] by auto
  qed
qed

section \<open>The refinement\<close>

definition refined :: "(nat \<times> direct_descriptor_entry option) list \<Rightarrow> descriptor_event list \<Rightarrow> bool" where
  "refined v log \<longleftrightarrow> table_ok v \<and> known v = waiting log \<and> legal log \<and>
     (\<forall>t. waiting log t \<noteq> None \<and> token_kind t = Original \<longrightarrow> t \<in> allocated log) \<and>
     (\<forall>t\<in>allocated log. token_kind t = Original \<and> token_slot t < length v \<and> token_generation t \<le> map fst v ! token_slot t)"

definition refines :: "direct_descriptor_table \<times> descriptor_event list \<Rightarrow> bool" where
  "refines = (\<lambda>(table, log). refined (view table) log)"

lemma refined_issue:
  assumes "refined v log" and "allocates b v t v'"
  shows "refined v' (Issue t b # log)"
proof -
  have "table_ok v"
    using assms(1) by (simp add: refined_def)
  note k = allocates_known [OF this assms(2)]
  have "t \<notin> allocated log"
    using assms(1) k(5,6) by (auto simp: refined_def)
  moreover have "token_generation u \<le> map fst v' ! token_slot u" if "u \<in> insert t (allocated log)" for u
    using that assms(1) k(5,6) unfolding k(7) map_update by (auto simp: refined_def nth_list_update)
  moreover have "length v' = length v"
    unfolding k(7) by simp
  ultimately show ?thesis
    using assms(1) k(1-5) by (auto simp: refined_def)
qed

lemma refined_cancel:
  assumes "refined (view table) log" and "issue_cancel t table = (Inr c, table')"
  shows "refined (view table') (Cancel c t # log)"
proof -
  have "table_ok (view table)"
    using assms(1) by (simp add: refined_def)
  note k = issue_cancel_known [OF assms(2) this]
  have "length (view table') = length (view table)"
    using k(7) by (metis length_map)
  moreover have "t \<in> allocated log"
    using assms(1) k(2,5) by (auto simp: refined_def)
  moreover have "c \<notin> allocated log"
    using assms(1) k(6) by (auto simp: refined_def)
  ultimately show ?thesis
    using assms(1) k unfolding refined_def by (auto split: if_splits)
qed

lemma refined_done:
  assumes "refined (view table) log" and "complete t table = (Inr b, table')"
  shows "refined (view table') (Done t b # log)"
proof -
  have "table_ok (view table)"
    using assms(1) by (simp add: refined_def)
  note k = complete_known_update [OF assms(2) this]
  have "length (view table') = length (view table)"
    using k(4) by (metis length_map)
  then show ?thesis
    using assms(1) k unfolding refined_def by (auto split: if_splits)
qed

lemma failed_call_keeps:
  "issue_cancel t table = (Inl f, table') \<Longrightarrow> table' = table"
  "complete t table = (Inl f, table') \<Longrightarrow> table' = table"
  by (simp_all add: issue_cancel_def complete_def transact_Inl)

lemma refines_exec: "refines s \<Longrightarrow> refines (descriptor_exec c s)"
proof (induction c s rule: descriptor_exec.induct)
  case (1 b table log)
  obtain r table' where a: "allocate b table = (r, table')"
    by (cases "allocate b table")
  have "length (dt_slots table) \<le> 2 ^ 31"
    using 1 by (simp add: refines_def refined_def table_ok_def)
  from allocate_view [OF this a] show ?case
    using 1 a by (cases r) (simp_all add: refines_def refined_issue)
next
  case (2 t table log)
  obtain r table' where a: "issue_cancel t table = (r, table')"
    by (cases "issue_cancel t table")
  then show ?case
    using 2 refined_cancel [of table log t] failed_call_keeps(1) by (cases r) (fastforce simp: refines_def)+
next
  case (3 t table log)
  obtain r table' where a: "complete t table = (r, table')"
    by (cases "complete t table")
  then show ?case
    using 3 refined_done [of table log t] failed_call_keeps(2) by (cases r) (fastforce simp: refines_def)+
qed

interpretation descriptors: machine refines descriptor_exec
  by unfold_locales (rule refines_exec)

lemma new_refines: "new_descriptors capacity = Inr table \<Longrightarrow> refines (table, [])"
  by (auto simp: new_descriptors_def refines_def refined_def table_ok_def known_def view_def split: if_splits)

text \<open>
  The descriptor table implements completion exactly once (C38). After any calls on a new table, allocations,
  cancellations and completions with any 64-bit user data, the history is legal: no operation ever
  gets a token that another had, so a late completion cannot be taken for a newer operation's; and
  \<open>complete\<close> succeeds on a token exactly when it has been issued and not yet completed, with the binding
  of the operation it was issued for.
\<close>

theorem completion_exactly_once:
  assumes "new_descriptors capacity = Inr table0"
    and "fold descriptor_exec calls (table0, []) = (table, log)"
  shows "legal log \<and> (\<forall>token binding. fst (complete token table) = Inr binding \<longleftrightarrow> waiting log token = Some binding)"
proof -
  have "refines (table, log)"
    using descriptors.run_keeps [OF new_refines [OF assms(1)], of calls] assms(2) by simp
  then show ?thesis
    by (simp add: refines_def refined_def complete_known)
qed

definition sample_binding :: direct_descriptor_binding where
  "sample_binding = \<lparr>db_buffer = \<lparr>bi_slot = 0, bi_generation = 1\<rparr>, db_operation_generation = 1, db_operation = Read\<rparr>"

definition sample_descriptors :: direct_descriptor_table where
  "sample_descriptors = \<lparr>dt_slots = [\<lparr>ds_generation = 0, ds_retired = False, ds_entry = None\<rparr>,
     \<lparr>ds_generation = 0, ds_retired = False, ds_entry = None\<rparr>], dt_next_search = 0\<rparr>"

definition sample_calls :: "descriptor_call list" where
  "sample_calls = [Allocate sample_binding, Issue_Cancel 0x100000000, Complete 0x100000001, Complete 0x100000000,
     Complete 0x100000000, Allocate sample_binding]"

definition sample_log :: "descriptor_event list" where
  "sample_log = [Issue 0x100000002 sample_binding, Done 0x100000000 sample_binding, Done 0x100000001 sample_binding,
     Cancel 0x100000001 0x100000000, Issue 0x100000000 sample_binding]"

lemma sample_tokens:
  "token_slot 0x100000000 = 0" "token_generation 0x100000000 = 1" "token_kind 0x100000000 = Original"
  "token_slot 0x100000001 = 0" "token_generation 0x100000001 = 1" "token_kind 0x100000001 = AsyncCancel"
  by (simp_all add: token_slot_def token_generation_def token_kind_def drop_bit_eq_div)

lemma sample_run: "snd (fold descriptor_exec sample_calls (sample_descriptors, [])) = sample_log"
  by (simp add: sample_calls_def sample_descriptors_def allocate_def checked_add_def try_uint_def is_valid_def
      sample_binding_def new_token_def issue_cancel_def transact_def issue_cancel_inner_def descriptor_slot_def
      set_descriptor_def sample_tokens complete_def complete_inner_def entry_pending_def upt_rec Let_def sample_log_def)

theorem completion_exactly_once_witness:
  "new_descriptors 2 = Inr sample_descriptors \<and> legal sample_log \<and>
   fst (complete 0x100000002 (fst (fold descriptor_exec sample_calls (sample_descriptors, [])))) = Inr sample_binding \<and>
   fst (complete 0x100000000 (fst (fold descriptor_exec sample_calls (sample_descriptors, [])))) \<noteq> Inr sample_binding"
proof -
  have new: "new_descriptors 2 = Inr sample_descriptors"
    by (simp add: new_descriptors_def sample_descriptors_def numeral_2_eq_2)
  have "waiting sample_log 0x100000002 = Some sample_binding" "waiting sample_log 0x100000000 = None"
    by (simp_all add: sample_log_def)
  then show ?thesis
    using new completion_exactly_once [OF new prod.collapse [symmetric], of sample_calls, unfolded sample_run] by simp
qed

end
