(* ===== verification/Store.thy ===== *)
theory Store
  imports Tier "HOL-Library.List_Lexorder"
begin

unbundle bit_operations_syntax

text \<open>
  \<open>crates/glm-cache/src/store.rs\<close>: the append-only file store of cache pages, with
  \<open>crates/glm-format/src/crc32c.rs\<close>, the checksum of its journal records.

  The two files are byte lists. A disk keeps, for each file, what the process has written and what the
  last sync has made durable. An I/O operation may fail after some of its bytes; which operation fails is decided by
  an argument \<open>io\<close>, indexed by the number of operations so far. A publication changes the store and the
  disk on its way, also when it fails, so its steps thread both. SHA-256 is an argument.
\<close>

section \<open>Checksum\<close>

definition crc_bit :: "32 word \<Rightarrow> 32 word" where
  "crc_bit crc = drop_bit 1 crc XOR (0x82f63b78 AND (0 - (crc AND 1)))"

definition crc_byte :: "8 word \<Rightarrow> 32 word \<Rightarrow> 32 word" where
  "crc_byte byte crc = (crc_bit ^^ 8) (crc XOR ucast byte)"

definition crc32c :: "8 word list \<Rightarrow> 32 word" where
  "crc32c bytes = NOT (fold crc_byte bytes (NOT 0))"

section \<open>Bytes at offsets\<close>

definition put :: "nat \<Rightarrow> 8 word list \<Rightarrow> 8 word list \<Rightarrow> 8 word list" where
  "put offset bs output = take offset output @ bs @ drop (offset + length bs) output"

primrec from_le_bytes :: "8 word list \<Rightarrow> nat" where
  "from_le_bytes [] = 0"
| "from_le_bytes (b # bs) = unat b + 256 * from_le_bytes bs"

definition put_u16 :: "nat \<Rightarrow> nat \<Rightarrow> 8 word list \<Rightarrow> 8 word list" where
  "put_u16 offset value = put offset (le_bytes 2 value)"
definition put_u32 :: "nat \<Rightarrow> 32 word \<Rightarrow> 8 word list \<Rightarrow> 8 word list" where
  "put_u32 offset value = put offset (le_bytes 4 (unat value))"
definition put_u64 :: "nat \<Rightarrow> nat \<Rightarrow> 8 word list \<Rightarrow> 8 word list" where
  "put_u64 offset value = put offset (le_bytes 8 value)"
definition get_u16 :: "8 word list \<Rightarrow> nat \<Rightarrow> nat" where
  "get_u16 bytes offset = from_le_bytes (slice bytes offset 2)"
definition get_u32 :: "8 word list \<Rightarrow> nat \<Rightarrow> 32 word" where
  "get_u32 bytes offset = of_nat (from_le_bytes (slice bytes offset 4))"
definition get_u64 :: "8 word list \<Rightarrow> nat \<Rightarrow> nat" where
  "get_u64 bytes offset = from_le_bytes (slice bytes offset 8)"

section \<open>Types\<close>

definition JOURNAL_MAGIC :: "8 word list" where "JOURNAL_MAGIC = ascii_bytes ''GLTJRNL2''"
definition JOURNAL_VERSION :: nat where [simp]: "JOURNAL_VERSION = 2"
definition JOURNAL_RECORD_BYTES :: nat where [simp]: "JOURNAL_RECORD_BYTES = 512"
definition JOURNAL_CRC_OFFSET :: nat where [simp]: "JOURNAL_CRC_OFFSET = 508"
definition PIECE_TABLE_OFFSET :: nat where [simp]: "PIECE_TABLE_OFFSET = 96"
definition PIECE_RECORD_BYTES :: nat where [simp]: "PIECE_RECORD_BYTES = 56"
definition NVME_ALIGNMENT :: nat where [simp]: "NVME_ALIGNMENT = 4096"

record page_piece_bytes =
  pb_piece :: tier_piece
  pb_bytes :: "8 word list"

record durable_page_request =
  dq_namespace :: hash32
  dq_page_key :: hash32
  dq_generation :: nat
  dq_mtp :: bool
  dq_pieces :: "page_piece_bytes list"

record restored_page =
  rp_record :: tier_record
  rp_pieces :: "(tier_piece, 8 word list) fmap"

datatype store_error =
    Io | TierErr tier_error | Pieces | Checksum | ContentCollision | StaleGeneration | JournalSequence | JournalEncoding
  | JournalChecksum | UnjournaledData | CatalogOverlap | CatalogOutOfBounds | Overflow | InjectedCrash | WritePoisoned | WriterLocked

datatype write_failpoint = BeginJournaled | DataSynced | FirstPieceJournaled

record file_tier_store =
  st_journal :: tier_journal
  st_published :: "(hash32, tier_record) fmap"
  st_next_transaction :: nat
  st_next_data_offset :: nat
  st_write_poisoned :: bool

record file_tier_reader =
  rd_published :: "(hash32, tier_record) fmap"

section \<open>The disk\<close>

record disk =
  dk_data :: "8 word list"
  dk_journal :: "8 word list"
  dk_synced_data :: "8 word list"
  dk_synced_journal :: "8 word list"
  dk_operations :: nat

datatype disk_op = Append_Journal "8 word list" | Sync_Journal | Write_Data nat "8 word list" | Sync_Data

text \<open>Writing beyond the end of a file leaves a hole of zeros.\<close>

definition write_at :: "nat \<Rightarrow> 8 word list \<Rightarrow> 8 word list \<Rightarrow> 8 word list" where
  "write_at offset bs file = put offset bs (file @ replicate (offset - length file) 0)"

fun apply_op :: "disk_op \<Rightarrow> disk \<Rightarrow> disk" where
  "apply_op (Append_Journal bs) d = d\<lparr>dk_journal := dk_journal d @ bs\<rparr>"
| "apply_op Sync_Journal d = d\<lparr>dk_synced_journal := dk_journal d\<rparr>"
| "apply_op (Write_Data offset bs) d = d\<lparr>dk_data := write_at offset bs (dk_data d)\<rparr>"
| "apply_op Sync_Data d = d\<lparr>dk_synced_data := dk_data d\<rparr>"

text \<open>A failed write has written some of its bytes; a failed sync has made nothing durable.\<close>

fun fail_op :: "nat \<Rightarrow> disk_op \<Rightarrow> disk \<Rightarrow> disk" where
  "fail_op k (Append_Journal bs) d = apply_op (Append_Journal (take k bs)) d"
| "fail_op k (Write_Data offset bs) d = apply_op (Write_Data offset (take k bs)) d"
| "fail_op k _ d = d"

type_synonym io_faults = "nat \<Rightarrow> nat option"
type_synonym 'a store_step = "file_tier_store \<times> disk \<Rightarrow> (store_error, 'a) result \<times> (file_tier_store \<times> disk)"

definition perform :: "io_faults \<Rightarrow> disk_op \<Rightarrow> unit store_step" where
  "perform io op = (\<lambda>(st, d).
     let d' = d\<lparr>dk_operations := Suc (dk_operations d)\<rparr> in
     case io (dk_operations d) of
       None \<Rightarrow> (Inr (), st, apply_op op d')
     | Some k \<Rightarrow> (Inl (Err Io), st, fail_op k op d'))"

definition and_then :: "'a store_step \<Rightarrow> ('a \<Rightarrow> 'b store_step) \<Rightarrow> 'b store_step" where
  "and_then m f = (\<lambda>s. case m s of (Inl e, s') \<Rightarrow> (Inl e, s') | (Inr x, s') \<Rightarrow> f x s')"

definition give :: "(store_error, 'a) result \<Rightarrow> 'a store_step" where
  "give r = (\<lambda>s. (r, s))"

definition read_store :: "(file_tier_store \<Rightarrow> 'a) \<Rightarrow> 'a store_step" where
  "read_store f = (\<lambda>(st, d). (Inr (f st), st, d))"

definition write_store :: "(file_tier_store \<Rightarrow> file_tier_store) \<Rightarrow> unit store_step" where
  "write_store f = (\<lambda>(st, d). (Inr (), f st, d))"

text \<open>An operation of the journal in memory; an error leaves it as it was.\<close>

definition with_journal :: "(tier_journal \<Rightarrow> (tier_error, 'a) result \<times> tier_journal) \<Rightarrow> 'a store_step" where
  "with_journal f = (\<lambda>(st, d). let (r, j) = f (st_journal st) in (map_err TierErr r, st\<lparr>st_journal := j\<rparr>, d))"

fun for_each :: "'a list \<Rightarrow> ('a \<Rightarrow> unit store_step) \<Rightarrow> unit store_step" where
  "for_each [] body = give (Inr ())"
| "for_each (x # xs) body = and_then (body x) (\<lambda>_. for_each xs body)"

section \<open>Journal records\<close>

definition tier_code :: "tier \<Rightarrow> 8 word" where
  "tier_code t = (case t of Dram \<Rightarrow> 1 | Nvme \<Rightarrow> 2)"

definition piece_code :: "tier_piece \<Rightarrow> 8 word" where
  "piece_code p = (case p of TargetKv \<Rightarrow> 1 | TargetIndexer \<Rightarrow> 2 | DraftSidecar \<Rightarrow> 3)"

definition piece_offset :: "nat \<Rightarrow> (store_error, nat) result" where
  "piece_offset ordinal =
     rbind (ok_or (checked_mul 64 ordinal PIECE_RECORD_BYTES) Overflow) (\<lambda>skip.
       ok_or (checked_add 64 PIECE_TABLE_OFFSET skip) Overflow)"

definition encode_journal_piece :: "nat \<times> tier_piece_record \<Rightarrow> 8 word list \<Rightarrow> (store_error, 8 word list) result" where
  "encode_journal_piece = (\<lambda>(ordinal, piece) output.
     rbind (piece_offset ordinal) (\<lambda>offset.
     if offset + PIECE_RECORD_BYTES > JOURNAL_CRC_OFFSET then Inl (Err Overflow)
     else
       let output = put offset [piece_code (tp_piece piece)] output;
           output = put_u64 (offset + 8) (tp_byte_length piece) output;
           output = put_u64 (offset + 16) (tp_storage_offset piece) output
       in Inr (put (offset + 24) (tp_sha256 piece) output)))"

definition journal_header :: "8 word list" where
  "journal_header = put_u16 8 JOURNAL_VERSION (put 0 JOURNAL_MAGIC (replicate JOURNAL_RECORD_BYTES 0))"

fun encode_journal_body :: "journal_event \<Rightarrow> (store_error, 8 word list) result" where
  "encode_journal_body (Begin transaction r) =
     rbind (map_err TierErr (validate_record r)) (\<lambda>_.
     let output = put 10 [1] journal_header;
         output = put 11 [tier_code (tr_tier r)] output;
         output = put_u64 12 transaction output;
         output = put 20 (tr_namespace r) output;
         output = put 52 (tr_page_key r) output;
         output = put_u64 84 (tr_generation r) output;
         output = put 92 [if tr_mtp r then 1 else 0] output
     in
     rbind (ok_or (try_uint 8 (length (tr_pieces r))) Overflow) (\<lambda>count.
       rfold encode_journal_piece (enumerate 0 (tr_pieces r)) (put 93 [of_nat count] output)))"
| "encode_journal_body (PieceDurable transaction piece sha256) =
     (let output = put_u64 12 transaction (put 10 [2] journal_header) in
      encode_journal_piece (0, \<lparr>tp_piece = piece, tp_byte_length = expected_bytes piece, tp_storage_offset = 0,
        tp_sha256 = sha256\<rparr>) output)"
| "encode_journal_body (Publish transaction) = Inr (put_u64 12 transaction (put 10 [3] journal_header))"

definition encode_journal_event :: "journal_event \<Rightarrow> (store_error, 8 word list) result" where
  "encode_journal_event event =
     rbind (encode_journal_body event) (\<lambda>output. Inr (put_u32 JOURNAL_CRC_OFFSET (crc32c output) output))"

definition decode_journal_piece :: "8 word list \<Rightarrow> nat \<Rightarrow> (store_error, tier_piece_record) result" where
  "decode_journal_piece bytes ordinal =
     rbind (piece_offset ordinal) (\<lambda>offset.
     rbind (ok_or (if offset < length bytes
          then find (\<lambda>p. piece_code p = bytes ! offset) [TargetKv, TargetIndexer, DraftSidecar] else None) JournalEncoding) (\<lambda>piece.
     rbind (ok_or (if offset + 56 \<le> length bytes then Some (slice bytes (offset + 24) 32) else None) JournalEncoding) (\<lambda>sha256.
       Inr \<lparr>tp_piece = piece, tp_byte_length = get_u64 bytes (offset + 8), tp_storage_offset = get_u64 bytes (offset + 16),
         tp_sha256 = sha256\<rparr>)))"

definition decode_begin :: "8 word list \<Rightarrow> nat \<Rightarrow> (store_error, journal_event) result" where
  "decode_begin bytes transaction =
     rbind (ok_or (find (\<lambda>t. tier_code t = bytes ! 11) [Dram, Nvme]) JournalEncoding) (\<lambda>tier.
     let piece_count = unat (bytes ! 93) in
     if piece_count = 0 \<or> piece_count > 3 then Inl (Err JournalEncoding)
     else
       rbind (rmap (decode_journal_piece bytes) [0..<piece_count]) (\<lambda>pieces.
       if bytes ! 92 \<notin> {0, 1} then Inl (Err JournalEncoding)
       else
         let r = \<lparr>tr_namespace = slice bytes 20 32, tr_page_key = slice bytes 52 32, tr_generation = get_u64 bytes 84,
                tr_tier = tier, tr_mtp = (bytes ! 92 = 1), tr_pieces = pieces\<rparr>
         in rbind (map_err TierErr (validate_record r)) (\<lambda>_. Inr (Begin transaction r))))"

definition decode_journal_event :: "8 word list \<Rightarrow> (store_error, journal_event) result" where
  "decode_journal_event bytes =
     (if length bytes \<noteq> JOURNAL_RECORD_BYTES then Inl (Err JournalEncoding)
      else if crc32c (put JOURNAL_CRC_OFFSET (replicate 4 0) bytes) \<noteq> get_u32 bytes JOURNAL_CRC_OFFSET
      then Inl (Err JournalChecksum)
      else if slice bytes 0 8 \<noteq> JOURNAL_MAGIC \<or> get_u16 bytes 8 \<noteq> JOURNAL_VERSION then Inl (Err JournalEncoding)
      else
        let transaction = get_u64 bytes 12 in
        if transaction = 0 then Inl (Err JournalEncoding)
        else if bytes ! 10 = 1 then decode_begin bytes transaction
        else if bytes ! 10 = 2
        then rbind (decode_journal_piece bytes 0) (\<lambda>piece. Inr (PieceDurable transaction (tp_piece piece) (tp_sha256 piece)))
        else if bytes ! 10 = 3 then Inr (Publish transaction)
        else Inl (Err JournalEncoding))"

definition decode_step :: "8 word list \<Rightarrow> journal_event list \<times> nat \<Rightarrow> (store_error, journal_event list \<times> nat) result" where
  "decode_step frame = (\<lambda>(events, current_transaction).
     rbind (decode_journal_event frame) (\<lambda>event.
     let transaction = event_transaction event in
     if transaction = current_transaction then Inr (events @ [event], current_transaction)
     else
       rbind (ok_or (checked_add 64 current_transaction 1) Overflow) (\<lambda>expected.
       if transaction \<noteq> expected \<or> \<not> (case event of Begin _ _ \<Rightarrow> True | _ \<Rightarrow> False) then Inl (Err JournalSequence)
       else Inr (events @ [event], transaction))))"

definition decode_journal :: "8 word list \<Rightarrow> (store_error, journal_event list \<times> nat) result" where
  "decode_journal bytes =
     rbind (rfold decode_step (chunks_exact JOURNAL_RECORD_BYTES bytes) ([], 0)) (\<lambda>(events, current_transaction).
     rbind (ok_or (checked_add 64 current_transaction 1) Overflow) (\<lambda>next_transaction. Inr (events, next_transaction)))"

section \<open>Publishing\<close>

definition align_up :: "nat \<Rightarrow> nat \<Rightarrow> (store_error, nat) result" where
  "align_up value alignment =
     ok_or (map_option (\<lambda>v. v div alignment * alignment) (checked_add 64 value (alignment - 1))) Overflow"

definition piece_rank :: "tier_piece \<Rightarrow> nat" where
  "piece_rank p = (case p of TargetKv \<Rightarrow> 1 | TargetIndexer \<Rightarrow> 2 | DraftSidecar \<Rightarrow> 3)"

text \<open>The loop that lays the pieces out behind the data: the records so far and the next offset.\<close>

definition place_piece :: "(8 word list \<Rightarrow> hash32) \<Rightarrow> page_piece_bytes \<Rightarrow> tier_piece_record list \<times> nat \<Rightarrow>
    (store_error, tier_piece_record list \<times> nat) result" where
  "place_piece sha piece = (\<lambda>(piece_records, next_offset).
     if length (pb_bytes piece) \<noteq> expected_bytes (pb_piece piece) then Inl (Err Pieces)
     else
       rbind (align_up next_offset NVME_ALIGNMENT) (\<lambda>next_offset.
       rbind (ok_or (try_uint 64 (length (pb_bytes piece))) Overflow) (\<lambda>byte_length.
       let r = \<lparr>tp_piece = pb_piece piece, tp_byte_length = byte_length, tp_storage_offset = next_offset,
              tp_sha256 = sha (pb_bytes piece)\<rparr>
       in
       rbind (ok_or (checked_add 64 next_offset (expected_bytes (pb_piece piece))) Overflow) (\<lambda>next_offset.
         Inr (piece_records @ [r], next_offset)))))"

fun adjacent :: "('a \<Rightarrow> 'a \<Rightarrow> bool) \<Rightarrow> 'a list \<Rightarrow> bool" where
  "adjacent P (x # y # zs) \<longleftrightarrow> P x y \<or> adjacent P (y # zs)"
| "adjacent P _ \<longleftrightarrow> False"

definition append_journal_record :: "io_faults \<Rightarrow> journal_event \<Rightarrow> unit store_step" where
  "append_journal_record io event =
     and_then (give (encode_journal_event event)) (\<lambda>bytes. perform io (Append_Journal bytes))"

definition journal_synced :: "io_faults \<Rightarrow> journal_event \<Rightarrow> unit store_step" where
  "journal_synced io event = and_then (append_journal_record io event) (\<lambda>_. perform io Sync_Journal)"

definition write_piece :: "io_faults \<Rightarrow> page_piece_bytes \<times> tier_piece_record \<Rightarrow> unit store_step" where
  "write_piece io = (\<lambda>(piece, descriptor). perform io (Write_Data (tp_storage_offset descriptor) (pb_bytes piece)))"

definition journal_piece :: "io_faults \<Rightarrow> write_failpoint option \<Rightarrow> nat \<Rightarrow> nat \<times> tier_piece_record \<Rightarrow> unit store_step" where
  "journal_piece io failpoint transaction = (\<lambda>(ordinal, descriptor).
     and_then (with_journal (piece_durable transaction (tp_piece descriptor) (tp_sha256 descriptor))) (\<lambda>_.
     and_then (journal_synced io (PieceDurable transaction (tp_piece descriptor) (tp_sha256 descriptor))) (\<lambda>_.
     give (if ordinal = 0 \<and> failpoint = Some FirstPieceJournaled then Inl (Err InjectedCrash) else Inr ()))))"

definition publish_prevalidated :: "io_faults \<Rightarrow> write_failpoint option \<Rightarrow> page_piece_bytes list \<Rightarrow> tier_record \<Rightarrow> nat \<Rightarrow>
    tier_record store_step" where
  "publish_prevalidated io failpoint pieces r next_data_offset =
     and_then (read_store st_next_transaction) (\<lambda>transaction.
     and_then (give (ok_or (checked_add 64 transaction 1) Overflow)) (\<lambda>next_transaction.
     and_then (with_journal (begin_transaction r)) (\<lambda>in_memory_transaction.
     and_then (give (ensure (in_memory_transaction = transaction) JournalSequence)) (\<lambda>_.
     and_then (write_store (\<lambda>st. st\<lparr>st_next_transaction := next_transaction\<rparr>)) (\<lambda>_.
     and_then (journal_synced io (Begin transaction r)) (\<lambda>_.
     and_then (give (ensure (failpoint \<noteq> Some BeginJournaled) InjectedCrash)) (\<lambda>_.
     and_then (for_each (zip pieces (tr_pieces r)) (write_piece io)) (\<lambda>_.
     and_then (perform io Sync_Data) (\<lambda>_.
     and_then (give (ensure (failpoint \<noteq> Some DataSynced) InjectedCrash)) (\<lambda>_.
     and_then (for_each (enumerate 0 (tr_pieces r)) (journal_piece io failpoint transaction)) (\<lambda>_.
     and_then (with_journal (publish transaction)) (\<lambda>_.
     and_then (journal_synced io (Publish transaction)) (\<lambda>_.
     and_then (write_store (\<lambda>st. st\<lparr>st_next_data_offset := next_data_offset,
         st_published := fmupd (tr_page_key r) r (st_published st)\<rparr>)) (\<lambda>_.
       give (Inr r)))))))))))))))"

definition poison_on_error :: "'a store_step \<Rightarrow> 'a store_step" where
  "poison_on_error m = (\<lambda>s. case m s of
     (Inl e, st, d) \<Rightarrow> (Inl e, st\<lparr>st_write_poisoned := True\<rparr>, d) | (Inr x, s') \<Rightarrow> (Inr x, s'))"

definition collision_error :: "tier_error \<Rightarrow> store_error" where
  "collision_error e = (if e = Collision then ContentCollision else TierErr e)"

text \<open>The page that is published under the key already and makes the new record superfluous, if any.\<close>

definition published_already :: "(hash32, tier_record) fmap \<Rightarrow> tier_record \<Rightarrow> (store_error, tier_record option) result" where
  "published_already published r =
     (case fmlookup published (tr_page_key r) of
        None \<Rightarrow> Inr None
      | Some existing \<Rightarrow>
          rbind (map_err collision_error (relation_to existing r)) (\<lambda>relation.
          case relation of
            ExactDedup \<Rightarrow> Inr (Some existing)
          | RetainMtp \<Rightarrow> Inr (Some existing)
          | MtpUpgrade \<Rightarrow> if tr_generation r \<le> tr_generation existing then Inl (Err StaleGeneration) else Inr None))"

text \<open>
  What is decided before anything is written: the sorted pieces, the record and the next offset, or the
  record that is published already.
\<close>

definition plan_publication :: "(8 word list \<Rightarrow> hash32) \<Rightarrow> durable_page_request \<Rightarrow> file_tier_store \<Rightarrow>
    (store_error, tier_record + page_piece_bytes list \<times> tier_record \<times> nat) result" where
  "plan_publication sha request st =
     (if st_write_poisoned st then Inl (Err WritePoisoned)
      else
        let pieces = sort_by (\<lambda>a b. piece_rank (pb_piece a) \<le> piece_rank (pb_piece b)) (dq_pieces request) in
        if pieces = [] \<or> adjacent (\<lambda>a b. pb_piece a = pb_piece b) pieces then Inl (Err Pieces)
        else
          rbind (rfold (place_piece sha) pieces ([], st_next_data_offset st)) (\<lambda>(piece_records, next_offset).
          let r = \<lparr>tr_namespace = dq_namespace request, tr_page_key = dq_page_key request, tr_generation = dq_generation request,
                 tr_tier = Nvme, tr_mtp = dq_mtp request, tr_pieces = piece_records\<rparr>
          in
          rbind (map_err TierErr (validate_record r)) (\<lambda>_.
          rbind (published_already (st_published st) r) (\<lambda>retained.
          case retained of
            Some existing \<Rightarrow> Inr (Inl existing)
          | None \<Rightarrow> rbind (align_up next_offset NVME_ALIGNMENT) (\<lambda>next_data_offset. Inr (Inr (pieces, r, next_data_offset)))))))"

definition store_publish_inner :: "(8 word list \<Rightarrow> hash32) \<Rightarrow> io_faults \<Rightarrow> write_failpoint option \<Rightarrow> durable_page_request \<Rightarrow>
    tier_record store_step" where
  "store_publish_inner sha io failpoint request =
     and_then (read_store (plan_publication sha request)) (\<lambda>planned.
     and_then (give planned) (\<lambda>plan.
     case plan of
       Inl existing \<Rightarrow> give (Inr existing)
     | Inr (pieces, r, next_data_offset) \<Rightarrow>
         poison_on_error (publish_prevalidated io failpoint pieces r next_data_offset)))"

definition store_publish :: "(8 word list \<Rightarrow> hash32) \<Rightarrow> io_faults \<Rightarrow> durable_page_request \<Rightarrow> tier_record store_step" where
  "store_publish sha io request = store_publish_inner sha io None request"

section \<open>Opening and restoring\<close>

definition validate_journal_data_presence :: "nat \<Rightarrow> nat \<Rightarrow> (store_error, unit) result" where
  "validate_journal_data_presence valid_journal_bytes data_bytes =
     (if valid_journal_bytes = 0 \<and> data_bytes \<noteq> 0 then Inl (Err UnjournaledData) else Inr ())"

definition catalog_extent :: "nat \<Rightarrow> tier_piece_record \<Rightarrow> (store_error, nat \<times> nat) result" where
  "catalog_extent data_bytes piece =
     rbind (ok_or (checked_add 64 (tp_storage_offset piece) (tp_byte_length piece)) Overflow) (\<lambda>piece_end.
     if piece_end > data_bytes then Inl (Err CatalogOutOfBounds) else Inr (tp_storage_offset piece, piece_end))"

definition extent_le :: "nat \<times> nat \<Rightarrow> nat \<times> nat \<Rightarrow> bool" where
  "extent_le a b \<longleftrightarrow> fst a < fst b \<or> fst a = fst b \<and> snd a \<le> snd b"

definition validate_catalog_extents :: "(hash32, tier_record) fmap \<Rightarrow> nat \<Rightarrow> (store_error, unit) result" where
  "validate_catalog_extents published data_bytes =
     rbind (rmap (catalog_extent data_bytes) (concat (map (tr_pieces \<circ> snd) (entries_of published)))) (\<lambda>extents.
     if adjacent (\<lambda>a b. fst b < snd a) (sort_by extent_le extents) then Inl (Err CatalogOverlap) else Inr ())"

definition load_catalog :: "disk \<Rightarrow> (store_error, tier_journal \<times> (hash32, tier_record) fmap \<times> nat) result" where
  "load_catalog d =
     (let valid_journal_bytes = length (dk_journal d) div JOURNAL_RECORD_BYTES * JOURNAL_RECORD_BYTES in
      rbind (validate_journal_data_presence valid_journal_bytes (length (dk_data d))) (\<lambda>_.
      rbind (decode_journal (dk_journal d)) (\<lambda>(events, next_transaction).
      rbind (map_err TierErr (from_events events)) (\<lambda>journal.
      rbind (map_err TierErr (recover journal)) (\<lambda>published.
      rbind (validate_catalog_extents published (length (dk_data d))) (\<lambda>_.
        Inr (journal, published, next_transaction)))))))"

text \<open>
  Opening for writing cuts a torn record off the journal and syncs the cut. Whether another process holds the lock
  is an argument.
\<close>

definition open_store :: "bool \<Rightarrow> disk \<Rightarrow> (store_error, file_tier_store \<times> disk) result" where
  "open_store locked d =
     (if locked then Inl (Err WriterLocked)
      else
        rbind (load_catalog d) (\<lambda>(journal, published, next_transaction).
        rbind (align_up (length (dk_data d)) NVME_ALIGNMENT) (\<lambda>next_data_offset.
        let valid_journal_bytes = length (dk_journal d) div JOURNAL_RECORD_BYTES * JOURNAL_RECORD_BYTES;
            cut = take valid_journal_bytes (dk_journal d);
            d = (if valid_journal_bytes \<noteq> length (dk_journal d)
                 then d\<lparr>dk_journal := cut, dk_synced_journal := cut\<rparr> else d)
        in Inr (\<lparr>st_journal = journal, st_published = published, st_next_transaction = next_transaction,
                 st_next_data_offset = next_data_offset, st_write_poisoned = False\<rparr>, d))))"

definition open_reader :: "bool \<Rightarrow> disk \<Rightarrow> (store_error, file_tier_reader) result" where
  "open_reader locked d =
     (if locked then Inl (Err WriterLocked)
      else rbind (load_catalog d) (\<lambda>(_, published, _). Inr \<lparr>rd_published = published\<rparr>))"

definition restore_piece :: "(8 word list \<Rightarrow> hash32) \<Rightarrow> disk \<Rightarrow> tier_piece_record \<Rightarrow> (tier_piece, 8 word list) fmap \<Rightarrow>
    (store_error, (tier_piece, 8 word list) fmap) result" where
  "restore_piece sha d piece pieces =
     rbind (ok_or (try_uint 64 (tp_byte_length piece)) Overflow) (\<lambda>len.
     if tp_storage_offset piece + len > length (dk_data d) then Inl (Err Io)
     else
       let bytes = slice (dk_data d) (tp_storage_offset piece) len in
       if sha bytes \<noteq> tp_sha256 piece then Inl (Err Checksum)
       else Inr (fmupd (tp_piece piece) bytes pieces))"

definition restore_published :: "(8 word list \<Rightarrow> hash32) \<Rightarrow> disk \<Rightarrow> (hash32, tier_record) fmap \<Rightarrow> hash32 \<Rightarrow>
    (store_error, restored_page option) result" where
  "restore_published sha d published page_key =
     (case fmlookup published page_key of
        None \<Rightarrow> Inr None
      | Some r \<Rightarrow>
          rbind (rfold (restore_piece sha d) (tr_pieces r) fmempty) (\<lambda>pieces. Inr (Some \<lparr>rp_record = r, rp_pieces = pieces\<rparr>)))"

definition restore :: "(8 word list \<Rightarrow> hash32) \<Rightarrow> hash32 \<Rightarrow> file_tier_store \<times> disk \<Rightarrow> (store_error, restored_page option) result" where
  "restore sha page_key = (\<lambda>(st, d). restore_published sha d (st_published st) page_key)"

definition reader_restore :: "(8 word list \<Rightarrow> hash32) \<Rightarrow> hash32 \<Rightarrow> file_tier_reader \<times> disk \<Rightarrow> (store_error, restored_page option) result" where
  "reader_restore sha page_key = (\<lambda>(rd, d). restore_published sha d (rd_published rd) page_key)"

definition record_of_key :: "file_tier_store \<Rightarrow> hash32 \<Rightarrow> tier_record option" where
  "record_of_key st page_key = fmlookup (st_published st) page_key"

definition resident_bytes :: "file_tier_store \<Rightarrow> nat" where
  "resident_bytes st = sum_list (map tp_byte_length (concat (map (tr_pieces \<circ> snd) (entries_of (st_published st)))))"

end
