(* ===== verification/Store_Codec.thy ===== *)
theory Store_Codec
  imports Store
begin

text \<open>
  The byte format of the journal: every record is decoded to the event it was made from, and a journal
  file with a torn record at its end is decoded to the events that were written in full.
\<close>

section \<open>Bytes at offsets\<close>

named_theorems byte_simps \<open>reading back bytes that were put at an offset\<close>

lemma length_put [simp]: "offset + length bs \<le> length xs \<Longrightarrow> length (put offset bs xs) = length xs"
  by (simp add: put_def)

lemma nth_put [byte_simps]:
  "offset + length bs \<le> length xs \<Longrightarrow> i < length xs \<Longrightarrow>
   put offset bs xs ! i = (if offset \<le> i \<and> i < offset + length bs then bs ! (i - offset) else xs ! i)"
  by (auto simp: put_def nth_append min_def)

lemma length_slice: "o' + n \<le> length xs \<Longrightarrow> length (slice xs o' n) = n"
  by (simp add: slice_def)

lemma nth_slice: "o' + n \<le> length xs \<Longrightarrow> i < n \<Longrightarrow> slice xs o' n ! i = xs ! (o' + i)"
  by (simp add: slice_def)

lemma slice_eqI:
  assumes "o' + n \<le> length xs" and "n = length bs" and "\<And>i. i < n \<Longrightarrow> xs ! (o' + i) = bs ! i"
  shows "slice xs o' n = bs"
  using assms by (auto simp: length_slice nth_slice intro: nth_equalityI)

lemma slice_put [byte_simps]:
  "offset + length bs \<le> length xs \<Longrightarrow> n = length bs \<Longrightarrow> slice (put offset bs xs) offset n = bs"
  by (rule slice_eqI) (simp_all add: nth_put)

lemma slice_put_other [byte_simps]:
  assumes "offset + length bs \<le> length xs" and "o' + n \<le> length xs" and "o' + n \<le> offset \<or> offset + length bs \<le> o'"
  shows "slice (put offset bs xs) o' n = slice xs o' n"
  using assms by (intro slice_eqI) (auto simp: nth_put nth_slice length_slice)

lemma slice_cong:
  assumes "length xs = length ys" and "o' + n \<le> length xs" and "\<And>i. o' \<le> i \<Longrightarrow> i < o' + n \<Longrightarrow> xs ! i = ys ! i"
  shows "slice xs o' n = slice ys o' n"
  using assms by (intro slice_eqI) (auto simp: nth_slice length_slice)

lemma from_le_bytes: "from_le_bytes (le_bytes n x) = x mod 256 ^ n"
proof (induction n arbitrary: x)
  case (Suc n)
  have "unat (of_nat x :: 8 word) = x mod 256"
    by (simp add: unat_of_nat)
  then show ?case
    using Suc by (simp add: mod_mult2_eq)
qed simp

lemma get_u64_put [byte_simps]:
  "offset + 8 \<le> length xs \<Longrightarrow> x < 2 ^ 64 \<Longrightarrow> get_u64 (put_u64 offset x xs) offset = x"
  by (simp add: get_u64_def put_u64_def slice_put from_le_bytes)

lemma get_u32_put [byte_simps]: "offset + 4 \<le> length xs \<Longrightarrow> get_u32 (put_u32 offset x xs) offset = x"
  using unsigned_less [of x, where ?'a = nat] by (simp add: get_u32_def put_u32_def slice_put from_le_bytes)

section \<open>Pieces\<close>

definition piece_typed :: "tier_piece_record \<Rightarrow> bool" where
  "piece_typed p \<longleftrightarrow> tp_byte_length p < 2 ^ 64 \<and> tp_storage_offset p < 2 ^ 64 \<and> length (tp_sha256 p) = 32"

lemma piece_offset_eq: "i < 7 \<Longrightarrow> piece_offset i = Inr (96 + 56 * i)"
  by (simp add: piece_offset_def checked_mul_def checked_add_def mult.commute)

lemma find_piece_code: "find (\<lambda>q. piece_code q = piece_code p) [TargetKv, TargetIndexer, DraftSidecar] = Some p"
  by (cases p) (simp_all add: piece_code_def)

lemma encode_piece_frame:
  assumes "length out = 512" and "i < 7" and "piece_typed p"
  obtains out' where "encode_journal_piece (i, p) out = Inr out'" "length out' = 512"
    "\<forall>j<512. j < 96 + 56 * i \<or> 152 + 56 * i \<le> j \<longrightarrow> out' ! j = out ! j" "decode_journal_piece out' i = Inr p"
proof
  let ?o = "96 + 56 * i"
  let ?a = "put ?o [piece_code (tp_piece p)] out"
  let ?b = "put_u64 (?o + 8) (tp_byte_length p) ?a"
  let ?c = "put_u64 (?o + 16) (tp_storage_offset p) ?b"
  let ?d = "put (?o + 24) (tp_sha256 p) ?c"
  have len: "length ?a = 512" "length ?b = 512" "length ?c = 512" "length ?d = 512"
    using assms by (simp_all add: put_u64_def piece_typed_def)
  show "encode_journal_piece (i, p) out = Inr ?d"
    using assms(2) by (simp add: encode_journal_piece_def piece_offset_eq Let_def)
  show "length ?d = 512"
    by (rule len)
  show "\<forall>j<512. j < 96 + 56 * i \<or> 152 + 56 * i \<le> j \<longrightarrow> ?d ! j = out ! j"
    using assms by (auto simp: put_u64_def piece_typed_def nth_put)
  have "?d ! ?o = piece_code (tp_piece p)"
    using assms by (simp add: put_u64_def piece_typed_def nth_put)
  moreover have "slice ?d (?o + 24) 32 = tp_sha256 p"
    using assms len by (intro slice_put) (simp_all add: piece_typed_def)
  moreover have "get_u64 ?d (?o + 16) = tp_storage_offset p"
  proof -
    have "slice ?d (?o + 16) 8 = slice ?c (?o + 16) 8"
      using assms len by (intro slice_put_other) (simp_all add: piece_typed_def)
    then show ?thesis
      using assms len get_u64_put [of "?o + 16" ?b "tp_storage_offset p"] by (simp add: get_u64_def piece_typed_def)
  qed
  moreover have "get_u64 ?d (?o + 8) = tp_byte_length p"
  proof -
    have "slice ?d (?o + 8) 8 = slice ?c (?o + 8) 8"
      using assms len by (intro slice_put_other) (simp_all add: piece_typed_def)
    also have "\<dots> = slice ?b (?o + 8) 8"
      unfolding put_u64_def [of "?o + 16"] using assms len by (intro slice_put_other) simp_all
    finally show ?thesis
      using assms len get_u64_put [of "?o + 8" ?a "tp_byte_length p"] by (simp add: get_u64_def piece_typed_def)
  qed
  ultimately show "decode_journal_piece ?d i = Inr p"
    using assms(2) len find_piece_code [of "tp_piece p"]
    by (simp add: decode_journal_piece_def piece_offset_eq)
qed

lemma decode_piece_cong:
  assumes "length xs = 512" and "length ys = 512" and "i < 7" and "\<And>j. 96 + 56 * i \<le> j \<Longrightarrow> j < 152 + 56 * i \<Longrightarrow> xs ! j = ys ! j"
  shows "decode_journal_piece xs i = decode_journal_piece ys i"
proof -
  have "slice xs o' n = slice ys o' n" if "96 + 56 * i \<le> o'" "o' + n \<le> 152 + 56 * i" for o' n
    using that assms by (intro slice_cong) auto
  then show ?thesis
    using assms by (simp add: decode_journal_piece_def piece_offset_eq get_u64_def)
qed

lemma encode_pieces_frame:
  assumes "length out = 512" and "i + length ps \<le> 7" and "\<forall>p\<in>set ps. piece_typed p"
  shows "\<exists>out'. rfold encode_journal_piece (enumerate i ps) out = Inr out' \<and> length out' = 512 \<and>
    (\<forall>j<512. j < 96 + 56 * i \<or> 96 + 56 * (i + length ps) \<le> j \<longrightarrow> out' ! j = out ! j) \<and>
    (\<forall>k<length ps. decode_journal_piece out' (i + k) = Inr (ps ! k))"
  using assms
proof (induction ps arbitrary: i out)
  case Nil
  then show ?case by simp
next
  case (Cons p ps)
  obtain mid where mid: "encode_journal_piece (i, p) out = Inr mid" "length mid = 512"
      "\<forall>j<512. j < 96 + 56 * i \<or> 152 + 56 * i \<le> j \<longrightarrow> mid ! j = out ! j" "decode_journal_piece mid i = Inr p"
    using Cons.prems by (auto intro: encode_piece_frame [of out i p])
  obtain out' where out': "rfold encode_journal_piece (enumerate (Suc i) ps) mid = Inr out'" "length out' = 512"
      "\<forall>j<512. j < 96 + 56 * Suc i \<or> 96 + 56 * (Suc i + length ps) \<le> j \<longrightarrow> out' ! j = mid ! j"
      "\<forall>k<length ps. decode_journal_piece out' (Suc i + k) = Inr (ps ! k)"
    using Cons.IH [of mid "Suc i"] mid(2) Cons.prems by auto
  have "decode_journal_piece out' i = Inr p"
    using decode_piece_cong [of out' mid i] out'(2,3) mid(2,4) Cons.prems(2) by auto
  then have "decode_journal_piece out' (i + k) = Inr ((p # ps) ! k)" if "k < length (p # ps)" for k
    using that out'(4) by (cases k) auto
  then show ?case
    using mid(1,3) out'(1-3) by auto
qed

section \<open>Events\<close>

definition record_typed :: "tier_record \<Rightarrow> bool" where
  "record_typed r \<longleftrightarrow> length (tr_namespace r) = 32 \<and> length (tr_page_key r) = 32 \<and> tr_generation r < 2 ^ 64 \<and>
     (\<forall>p\<in>set (tr_pieces r). piece_typed p)"

fun event_typed :: "journal_event \<Rightarrow> bool" where
  "event_typed (Begin t r) \<longleftrightarrow> t \<noteq> 0 \<and> t < 2 ^ 64 \<and> record_typed r \<and> validate_record r = Inr ()"
| "event_typed (PieceDurable t p h) \<longleftrightarrow> t \<noteq> 0 \<and> t < 2 ^ 64 \<and> length h = 32"
| "event_typed (Publish t) \<longleftrightarrow> t \<noteq> 0 \<and> t < 2 ^ 64"

text \<open>What the decoder reads before it looks at the kind of the event.\<close>

definition headed :: "nat \<Rightarrow> 8 word \<Rightarrow> 8 word list \<Rightarrow> bool" where
  "headed t kind out \<longleftrightarrow> length out = 512 \<and> slice out 0 8 = JOURNAL_MAGIC \<and> get_u16 out 8 = 2 \<and> out ! 10 = kind \<and>
     get_u64 out 12 = t \<and> (\<forall>j<512. 508 \<le> j \<longrightarrow> out ! j = 0)"

lemma length_magic [simp]: "length JOURNAL_MAGIC = 8"
  by (simp add: JOURNAL_MAGIC_def ascii_bytes_def)

lemma length_header [simp]: "length journal_header = 512"
  by (simp add: journal_header_def put_u16_def)

lemma header_headed:
  assumes "t < 2 ^ 64" and "length pre = 512" and "\<forall>j<512. j < 10 \<or> 12 \<le> j \<longrightarrow> pre ! j = journal_header ! j" and "pre ! 10 = kind"
  shows "headed t kind (put_u64 12 t pre)"
proof -
  have "slice journal_header 0 8 = JOURNAL_MAGIC" "get_u16 journal_header 8 = 2"
    by (simp_all add: journal_header_def put_u16_def get_u16_def slice_put_other slice_put from_le_bytes)
  moreover have "slice pre o' n = slice journal_header o' n" if "o' + n \<le> 10" for o' n
    using that assms by (intro slice_cong) auto
  moreover have "\<forall>j<512. 508 \<le> j \<longrightarrow> pre ! j = 0"
    using assms(3) by (simp add: journal_header_def put_u16_def nth_put)
  ultimately show ?thesis
    using assms get_u64_put [of 12 pre t]
    by (auto simp: headed_def put_u64_def get_u16_def nth_put slice_put_other)
qed

lemma headed_cong:
  assumes "headed t kind out" and "length out' = 512" and "\<forall>j<512. j < 20 \<or> 508 \<le> j \<longrightarrow> out' ! j = out ! j"
  shows "headed t kind out'"
proof -
  have "slice out' o' n = slice out o' n" if "o' + n \<le> 20" for o' n
    using that assms by (intro slice_cong) (auto simp: headed_def)
  then show ?thesis
    using assms by (simp add: headed_def get_u16_def get_u64_def)
qed

text \<open>The checksum covers the record with zeros in its own place.\<close>

lemma sealed_frame:
  assumes "headed t kind body"
  defines "out \<equiv> put_u32 508 (crc32c body) body"
  shows "length out = 512" and "\<forall>j<508. out ! j = body ! j"
    and "t \<noteq> 0 \<Longrightarrow> decode_journal_event out =
      (if kind = 1 then decode_begin out t
       else if kind = 2 then rbind (decode_journal_piece out 0) (\<lambda>piece. Inr (PieceDurable t (tp_piece piece) (tp_sha256 piece)))
       else if kind = 3 then Inr (Publish t) else Inl (Err JournalEncoding))"
proof -
  have len: "length body = 512"
    using assms(1) by (simp add: headed_def)
  then show length: "length out = 512" and same: "\<forall>j<508. out ! j = body ! j"
    by (simp_all add: out_def put_u32_def nth_put)
  have "put 508 (replicate 4 0) out = body"
    using assms(1) len length same by (intro nth_equalityI) (auto simp: headed_def nth_put nth_Cons split: nat.splits)
  moreover have "get_u32 out 508 = crc32c body"
    unfolding out_def using len by (simp add: get_u32_put)
  moreover have "slice out o' n = slice body o' n" if "o' + n \<le> 508" for o' n
    using that len length same by (intro slice_cong) auto
  moreover have "out ! 10 = kind"
    using assms(1) same by (simp add: headed_def)
  ultimately show "t \<noteq> 0 \<Longrightarrow> decode_journal_event out =
      (if kind = 1 then decode_begin out t
       else if kind = 2 then rbind (decode_journal_piece out 0) (\<lambda>piece. Inr (PieceDurable t (tp_piece piece) (tp_sha256 piece)))
       else if kind = 3 then Inr (Publish t) else Inl (Err JournalEncoding))"
    using assms(1) length by (simp add: decode_journal_event_def headed_def get_u16_def get_u64_def)
qed

definition begin_fields :: "tier_record \<Rightarrow> 8 word list \<Rightarrow> 8 word list" where
  "begin_fields r out =
     put 92 [if tr_mtp r then 1 else 0] (put_u64 84 (tr_generation r) (put 52 (tr_page_key r) (put 20 (tr_namespace r) out)))"

lemma begin_fields_read:
  assumes "length out = 512" and "record_typed r"
  shows "length (begin_fields r out) = 512" and "\<forall>j<512. j < 20 \<or> 93 \<le> j \<longrightarrow> begin_fields r out ! j = out ! j"
    and "slice (begin_fields r out) 20 32 = tr_namespace r" and "slice (begin_fields r out) 52 32 = tr_page_key r"
    and "get_u64 (begin_fields r out) 84 = tr_generation r" and "begin_fields r out ! 92 = (if tr_mtp r then 1 else 0)"
proof -
  let ?a = "put 20 (tr_namespace r) out"
  let ?b = "put 52 (tr_page_key r) ?a"
  let ?c = "put_u64 84 (tr_generation r) ?b"
  have typed: "length (tr_namespace r) = 32" "length (tr_page_key r) = 32" "tr_generation r < 2 ^ 64"
    using assms(2) by (simp_all add: record_typed_def)
  have len: "length ?a = 512" "length ?b = 512" "length ?c = 512"
    using assms(1) typed by (simp_all add: put_u64_def)
  show "length (begin_fields r out) = 512"
    using len by (simp add: begin_fields_def)
  show "\<forall>j<512. j < 20 \<or> 93 \<le> j \<longrightarrow> begin_fields r out ! j = out ! j"
    using assms(1) typed by (auto simp: begin_fields_def put_u64_def nth_put)
  show "begin_fields r out ! 92 = (if tr_mtp r then 1 else 0)"
    using len by (simp add: begin_fields_def nth_put)
  have c: "slice (begin_fields r out) o' n = slice ?c o' n" if "o' + n \<le> 92" for o' n
    unfolding begin_fields_def using that len by (intro slice_put_other) simp_all
  have b: "slice ?c o' n = slice ?b o' n" if "o' + n \<le> 84" for o' n
    unfolding put_u64_def using that len by (intro slice_put_other) simp_all
  have "get_u64 ?c 84 = tr_generation r"
    using len(2) typed(3) by (intro get_u64_put) simp_all
  then show "get_u64 (begin_fields r out) 84 = tr_generation r"
    unfolding get_u64_def c [of 84 8, simplified] .
  have "slice ?b 52 32 = tr_page_key r"
    using len(1) typed(2) by (intro slice_put) simp_all
  then show "slice (begin_fields r out) 52 32 = tr_page_key r"
    using c [of 52 32] b [of 52 32] by simp
  have "slice ?b 20 32 = slice ?a 20 32"
    using len(1) typed(2) by (intro slice_put_other) simp_all
  moreover have "slice ?a 20 32 = tr_namespace r"
    using assms(1) typed(1) by (intro slice_put) simp_all
  ultimately show "slice (begin_fields r out) 20 32 = tr_namespace r"
    using c [of 20 32] b [of 20 32] by simp
qed

lemma required_count: "validate_record r = Inr () \<Longrightarrow> length (tr_pieces r) \<in> {2, 3}"
  by (erule validate_record_fold) (simp add: required_pieces_def)

lemma rmap_cong_set: "(\<And>x. x \<in> set xs \<Longrightarrow> f x = g x) \<Longrightarrow> rmap f xs = rmap g xs"
  by (induction xs) simp_all

lemma decode_begin_cong:
  assumes "length out = 512" and "length body = 512" and "\<forall>j<508. out ! j = body ! j"
  shows "decode_begin out t = decode_begin body t"
proof -
  have slices: "slice out o' n = slice body o' n" if "o' + n \<le> 508" for o' n
    using that assms by (intro slice_cong) auto
  have pieces: "rmap (decode_journal_piece out) [0..<n] = rmap (decode_journal_piece body) [0..<n]" if "\<not> (n = 0 \<or> n > 3)" for n
    using that assms decode_piece_cong [of out body] by (intro rmap_cong_set) auto
  have same: "out ! 11 = body ! 11" "out ! 92 = body ! 92" "out ! 93 = body ! 93"
    using assms(3) by simp_all
  have fields: "slice out 20 32 = slice body 20 32" "slice out 52 32 = slice body 52 32" "get_u64 out 84 = get_u64 body 84"
    unfolding get_u64_def by (rule slices, simp)+ (simp add: slices)
  show ?thesis
  proof (cases "unat (body ! 93) = 0 \<or> unat (body ! 93) > 3")
    case True
    then show ?thesis
      unfolding decode_begin_def Let_def same by simp
  next
    case False
    then show ?thesis
      unfolding decode_begin_def Let_def same fields pieces [OF False] by simp
  qed
qed

lemma decode_encode_event:
  assumes "event_typed e"
  shows "\<exists>bs. encode_journal_event e = Inr bs \<and> length bs = 512 \<and> decode_journal_event bs = Inr e"
proof (cases e)
  case (Publish t)
  have "headed t 3 (put_u64 12 t (put 10 [3] journal_header))"
    using assms Publish by (intro header_headed) (simp_all add: nth_put)
  from sealed_frame [OF this] show ?thesis
    using assms Publish by (simp add: encode_journal_event_def)
next
  case (PieceDurable t p h)
  then have typed: "piece_typed \<lparr>tp_piece = p, tp_byte_length = expected_bytes p, tp_storage_offset = 0, tp_sha256 = h\<rparr>"
    using assms by (cases p) (simp_all add: piece_typed_def)
  let ?h = "put_u64 12 t (put 10 [2] journal_header)"
  have head: "headed t 2 ?h"
    using assms PieceDurable by (intro header_headed) (simp_all add: nth_put)
  then have "length ?h = 512"
    by (simp add: headed_def)
  then obtain body where body: "encode_journal_piece (0, \<lparr>tp_piece = p, tp_byte_length = expected_bytes p, tp_storage_offset = 0,
        tp_sha256 = h\<rparr>) ?h = Inr body" "length body = 512" "\<forall>j<512. j < 96 \<or> 152 \<le> j \<longrightarrow> body ! j = ?h ! j"
      "decode_journal_piece body 0 = Inr \<lparr>tp_piece = p, tp_byte_length = expected_bytes p, tp_storage_offset = 0, tp_sha256 = h\<rparr>"
    using encode_piece_frame [OF _ _ typed, of ?h 0] by auto
  have "headed t 2 body"
    using body by (intro headed_cong [OF head]) auto
  note sealed = sealed_frame [OF this]
  have "decode_journal_piece (put_u32 508 (crc32c body) body) 0 = decode_journal_piece body 0"
    using sealed(1,2) body(2) by (intro decode_piece_cong) auto
  then show ?thesis
    using sealed body assms PieceDurable by (simp add: encode_journal_event_def)
next
  case (Begin t r)
  then have typed: "t \<noteq> 0" "t < 2 ^ 64" "record_typed r" "validate_record r = Inr ()"
    using assms by auto
  let ?ps = "tr_pieces r"
  let ?h = "put_u64 12 t (put 11 [tier_code (tr_tier r)] (put 10 [1] journal_header))"
  let ?f = "begin_fields r ?h"
  let ?g = "put 93 [of_nat (length ?ps)] ?f"
  have head: "headed t 1 ?h"
    using typed(2) by (intro header_headed) (simp_all add: nth_put)
  have tier: "?h ! 11 = tier_code (tr_tier r)"
    by (simp add: nth_put put_u64_def)
  from head have len: "length ?h = 512"
    by (simp add: headed_def)
  note f = begin_fields_read [OF len typed(3)]
  have count: "length ?ps \<in> {2, 3}"
    using typed(4) by (rule required_count)
  have "length ?g = 512"
    using f(1) by simp
  then obtain body where body: "rfold encode_journal_piece (enumerate 0 ?ps) ?g = Inr body" "length body = 512"
      "\<forall>j<512. j < 96 \<or> 96 + 56 * length ?ps \<le> j \<longrightarrow> body ! j = ?g ! j"
      "\<forall>k<length ?ps. decode_journal_piece body k = Inr (?ps ! k)"
    using encode_pieces_frame [of ?g 0 ?ps] count typed(3) by (auto simp: record_typed_def)
  have g: "body ! j = ?f ! j" if "j < 93" for j
    using that body(3) f(1) by (simp add: nth_put)
  have "body ! j = ?h ! j" if "j < 512" "j < 20 \<or> 508 \<le> j" for j
    using that body(3) count f(1,2) by (auto simp: nth_put)
  then have "headed t 1 body"
    using body(2) by (intro headed_cong [OF head]) auto
  note sealed = sealed_frame [OF this]
  have "slice body o' n = slice ?f o' n" if "o' + n \<le> 93" for o' n
    using that g f(1) body(2) by (intro slice_cong) auto
  then have fields: "slice body 20 32 = tr_namespace r" "slice body 52 32 = tr_page_key r" "get_u64 body 84 = tr_generation r"
    using f(3-5) by (simp_all add: get_u64_def)
  have mtp: "body ! 92 \<in> {0, 1}" "(body ! 92 = 1) = tr_mtp r"
    using g [of 92] f(6) by simp_all
  have pieces: "rmap (decode_journal_piece body) [0..<length ?ps] = Inr ?ps"
    using rmap_Inr_total [of "[0..<length ?ps]" "decode_journal_piece body" "(!) ?ps"] body(4) by (simp add: map_nth)
  have n: "unat (body ! 93) = length ?ps"
    using body(3) count f(1) by (auto simp: nth_put unat_of_nat)
  have collapse: "\<lparr>tr_namespace = tr_namespace r, tr_page_key = tr_page_key r, tr_generation = tr_generation r,
      tr_tier = tr_tier r, tr_mtp = tr_mtp r, tr_pieces = tr_pieces r\<rparr> = r"
    by (cases r) simp
  have "find (\<lambda>x. tier_code x = body ! 11) [Dram, Nvme] = Some (tr_tier r)"
    using g f(2) tier by (cases "tr_tier r") (simp_all add: tier_code_def)
  then have "decode_begin body t = rbind (map_err TierErr (validate_record r)) (\<lambda>_. Inr (Begin t r))"
    using count mtp(1) unfolding decode_begin_def Let_def fields mtp(2) n pieces by (auto simp: collapse)
  then have "decode_begin body t = Inr (Begin t r)"
    using typed(4) by simp
  then have "decode_journal_event (put_u32 508 (crc32c body) body) = Inr e"
    using sealed typed(1) body(2) decode_begin_cong [of "put_u32 508 (crc32c body) body" body t] Begin by simp
  moreover have "encode_journal_event e = Inr (put_u32 508 (crc32c body) body)"
    using typed(4) count body(1) Begin
    by (auto simp: encode_journal_event_def Let_def try_uint_def begin_fields_def)
  ultimately show ?thesis
    using sealed(1) by blast
qed

section \<open>The journal file\<close>

definition frame :: "journal_event \<Rightarrow> 8 word list" where
  "frame e = (case encode_journal_event e of Inr bs \<Rightarrow> bs | Inl _ \<Rightarrow> [])"

definition frames :: "journal_event list \<Rightarrow> 8 word list" where
  "frames es = concat (map frame es)"

lemma frames_simps [simp]: "frames [] = []" "frames (e # es) = frame e @ frames es" "frames (es @ fs) = frames es @ frames fs"
  by (simp_all add: frames_def)

lemma frame_typed:
  assumes "event_typed e"
  shows "encode_journal_event e = Inr (frame e)" and "length (frame e) = 512" and "decode_journal_event (frame e) = Inr e"
  using decode_encode_event [OF assms] by (auto simp: frame_def)

lemma length_frames: "\<forall>e\<in>set es. event_typed e \<Longrightarrow> length (frames es) = 512 * length es"
  by (induction es) (simp_all add: frame_typed)

text \<open>The transaction that the next event may belong to, if the events are in sequence.\<close>

fun in_sequence :: "nat \<Rightarrow> journal_event list \<Rightarrow> nat option" where
  "in_sequence t [] = Some t"
| "in_sequence t (e # es) =
     (if event_transaction e = t then in_sequence t es
      else if event_transaction e = Suc t \<and> (case e of Begin _ _ \<Rightarrow> True | _ \<Rightarrow> False) then in_sequence (Suc t) es else None)"

lemma in_sequence_append: "in_sequence t (es @ fs) = (case in_sequence t es of None \<Rightarrow> None | Some u \<Rightarrow> in_sequence u fs)"
  by (induction es arbitrary: t) auto

lemma typed_transaction: "event_typed e \<Longrightarrow> event_transaction e < 2 ^ 64"
  by (cases e) auto

lemma chunks_frames:
  "\<forall>e\<in>set es. event_typed e \<Longrightarrow> length torn < 512 \<Longrightarrow> chunks_exact 512 (frames es @ torn) = map frame es"
proof (induction es)
  case Nil
  then show ?case
    by (subst chunks_exact.simps) simp
next
  case (Cons e es)
  then show ?case
    by (subst chunks_exact.simps) (simp add: frame_typed)
qed

lemma decode_steps:
  assumes "\<forall>e\<in>set es. event_typed e" and "in_sequence t es = Some u"
  shows "rfold decode_step (map frame es) (done, t) = Inr (done @ es, u)"
  using assms
proof (induction es arbitrary: t "done")
  case Nil
  then show ?case by simp
next
  case (Cons e es)
  have "event_transaction e < 2 ^ 64"
    using Cons.prems(1) typed_transaction by simp
  then have "decode_step (frame e) (done, t) = Inr (done @ [e], event_transaction e)"
    using Cons.prems by (auto simp: decode_step_def frame_typed Let_def checked_add_def split: if_splits)
  moreover have "in_sequence (event_transaction e) es = Some u"
    using Cons.prems(2) by (auto split: if_splits)
  ultimately show ?case
    using Cons.IH [of "event_transaction e" "done @ [e]"] Cons.prems(1) by simp
qed

text \<open>A journal file with a torn record at its end is decoded to the events that were written in full.\<close>

lemma decode_frames:
  assumes "\<forall>e\<in>set es. event_typed e" and "in_sequence 0 es = Some t" and "t + 1 < 2 ^ 64" and "length torn < 512"
  shows "decode_journal (frames es @ torn) = Inr (es, t + 1)"
  using decode_steps [OF assms(1,2), of "[]"] chunks_frames [OF assms(1,4)] assms(3)
  by (simp add: decode_journal_def checked_add_def)

end
