(* ===== verification/Store_Catalog.thy ===== *)
theory Store_Catalog
  imports Store_Codec
begin

text \<open>
  What recovery makes of the events that a publication appends: nothing changes until the last one, which
  adds the new record.
\<close>

section \<open>Appending a transaction\<close>

lemma keys_of_append:
  assumes "\<And>k. k \<in> fmdom' m \<Longrightarrow> k < t"
  shows "keys_of (fmupd t x m) = keys_of m @ [t]"
proof (rule sorted_distinct_set_unique)
  show "sorted (keys_of (fmupd t x m))" "distinct (keys_of (fmupd t x m))"
    by simp_all
  show "sorted (keys_of m @ [t])"
    using assms by (auto simp: sorted_append less_imp_le)
  show "distinct (keys_of m @ [t])"
    using assms by auto
  show "set (keys_of (fmupd t x m)) = set (keys_of m @ [t])"
    by auto
qed

lemma entries_of_append:
  assumes "\<And>k. k \<in> fmdom' m \<Longrightarrow> k < t"
  shows "entries_of (fmupd t x m) = entries_of m @ [(t, x)]"
  using keys_of_append [of m t x] assms by (auto simp: entries_of_def intro!: map_cong)

lemma in_sequence_bound: "in_sequence t es = Some u \<Longrightarrow> t \<le> u \<and> (\<forall>e\<in>set es. event_transaction e \<le> u)"
proof (induction es arbitrary: t)
  case (Cons e es)
  then show ?case
    by (auto split: if_splits) (metis Suc_leD le_trans)+
qed simp

lemma replay_dom:
  assumes "replay es = Inr txs" and "k \<in> fmdom' txs"
  shows "\<exists>e\<in>set es. event_transaction e = k"
proof -
  obtain st where "fmlookup txs k = Some st"
    using assms(2) by (auto simp: fmlookup_dom'_iff)
  then have "find_begin k es = Some (fst st)"
    using replay_reflects [OF assms(1), of k] by (cases st) (auto simp: tx_reflects_def)
  then show ?thesis
    using find_begin_event by force
qed

definition piece_event :: "nat \<Rightarrow> tier_piece_record \<Rightarrow> journal_event" where
  "piece_event t p = PieceDurable t (tp_piece p) (tp_sha256 p)"

lemma replay_transaction:
  assumes "replay es = Inr txs" and "fmlookup txs t = None" and "validate_record r = Inr ()" and "ps @ rest = tr_pieces r"
  shows "\<exists>D. replay (es @ Begin t r # map (piece_event t) ps) = Inr (fmupd t (r, D, False) txs) \<and> fmdom' D = tp_piece ` set ps"
  using assms(4)
proof (induction ps arbitrary: rest rule: rev_induct)
  case Nil
  show ?case
    using assms(1-3) by (auto simp: replay_def rbind_def split: sum.splits)
next
  case (snoc p ps)
  obtain D where D: "replay (es @ Begin t r # map (piece_event t) ps) = Inr (fmupd t (r, D, False) txs)" "fmdom' D = tp_piece ` set ps"
    using snoc.IH [of "p # rest"] snoc.prems by auto
  have dist: "distinct (map tp_piece (tr_pieces r))"
    using validate_record_distinct assms(3) by blast
  then have "find (\<lambda>e. tp_piece e = tp_piece p) (tr_pieces r) = Some p"
    by (rule find_distinct) (simp add: snoc.prems [symmetric])
  moreover have "fmlookup D (tp_piece p) = None"
    using dist D(2) unfolding snoc.prems [symmetric] by (auto simp: fmlookup_dom'_iff)
  ultimately have "replay_event (piece_event t p) (fmupd t (r, D, False) txs) = Inr (fmupd t (r, fmupd (tp_piece p) (tp_sha256 p) D, False) txs)"
    by (simp add: piece_event_def fmupd_idem)
  then show ?case
    using D replay_snoc [of "es @ Begin t r # map (piece_event t) ps" "piece_event t p"]
    by (intro exI [of _ "fmupd (tp_piece p) (tp_sha256 p) D"]) simp
qed

lemma rbind_rfold_Nil [simp]: "rbind x (rfold f []) = x"
  by (cases x) simp_all

lemma recover_open_transaction:
  assumes "in_sequence 0 es = Some u" and "recover_events es = Inr m" and "validate_record r = Inr ()" and "ps @ rest = tr_pieces r"
  shows "recover_events (es @ Begin (Suc u) r # map (piece_event (Suc u)) ps) = Inr m"
    and "rest = [] \<Longrightarrow> recover_events (es @ Begin (Suc u) r # map (piece_event (Suc u)) ps @ [Publish (Suc u)]) =
      recover_transaction (Suc u, r, fmempty, True) m"
proof -
  obtain txs where txs: "replay es = Inr txs" "rfold recover_transaction (entries_of txs) fmempty = Inr m"
    using assms(2) by (auto simp: recover_events_def result_simps)
  have less: "k < Suc u" if "k \<in> fmdom' txs" for k
    using replay_dom [OF txs(1) that] in_sequence_bound [OF assms(1)] by force
  then have "fmlookup txs (Suc u) = None"
    by (metis fmdom'_notD less_irrefl)
  from replay_transaction [OF txs(1) this assms(3,4)]
  obtain D where D: "replay (es @ Begin (Suc u) r # map (piece_event (Suc u)) ps) = Inr (fmupd (Suc u) (r, D, False) txs)"
      "fmdom' D = tp_piece ` set ps"
    by blast
  have ent: "entries_of (fmupd (Suc u) x txs) = entries_of txs @ [(Suc u, x)]" for x
    using less by (rule entries_of_append)
  show "recover_events (es @ Begin (Suc u) r # map (piece_event (Suc u)) ps) = Inr m"
    using D(1) txs(2) by (simp add: recover_events_def ent)
  assume "rest = []"
  then have "list_ex (\<lambda>p. fmlookup D (tp_piece p) = None) (tr_pieces r) = False"
    using D(2) assms(4) by (auto simp: list_ex_iff fmlookup_dom'_iff)
  then have "replay_event (Publish (Suc u)) (fmupd (Suc u) (r, D, False) txs) = Inr (fmupd (Suc u) (r, D, True) txs)"
    by (simp add: fmupd_idem)
  then have "replay (es @ Begin (Suc u) r # map (piece_event (Suc u)) ps @ [Publish (Suc u)]) = Inr (fmupd (Suc u) (r, D, True) txs)"
    using D(1) replay_snoc [of "es @ Begin (Suc u) r # map (piece_event (Suc u)) ps" "Publish (Suc u)"] by simp
  then show "recover_events (es @ Begin (Suc u) r # map (piece_event (Suc u)) ps @ [Publish (Suc u)]) =
      recover_transaction (Suc u, r, fmempty, True) m"
    using txs(2) by (simp add: recover_events_def ent)
qed

section \<open>The journal in memory\<close>

definition journal_of :: "journal_event list \<Rightarrow> nat \<Rightarrow> tier_journal" where
  "journal_of es n = \<lparr>tj_events = es, tj_next_transaction = n\<rparr>"

lemma journal_of_simps [simp]: "tj_events (journal_of es n) = es" "tj_next_transaction (journal_of es n) = n"
  by (simp_all add: journal_of_def)

lemma fresh_transaction:
  assumes "in_sequence 0 es = Some u"
  shows "Publish (Suc u) \<notin> set es" and "find_begin (Suc u) es = None" and "PieceDurable (Suc u) p h \<notin> set es"
  using in_sequence_bound [OF assms] by (force simp: find_begin_None)+

lemma begin_journal:
  "validate_record r = Inr () \<Longrightarrow> Suc u + 1 < 2 ^ 64 \<Longrightarrow>
   begin_transaction r (journal_of es (Suc u)) = (Inr (Suc u), journal_of (es @ [Begin (Suc u) r]) (Suc u + 1))"
  by (simp add: begin_transaction_def transact_def begin_inner_def checked_add_def journal_of_def)

lemma open_record_eq:
  assumes "in_sequence 0 es = Some u"
  shows "open_record (journal_of (es @ Begin (Suc u) r # map (piece_event (Suc u)) ps) n) (Suc u) = Inr r"
  using fresh_transaction [OF assms] by (auto simp: open_record_def find_begin_append piece_event_def)

lemma piece_journal:
  assumes "in_sequence 0 es = Some u" and "validate_record r = Inr ()" and "ps @ p # rest = tr_pieces r"
  shows "piece_durable (Suc u) (tp_piece p) (tp_sha256 p) (journal_of (es @ Begin (Suc u) r # map (piece_event (Suc u)) ps) n) =
    (Inr (), journal_of (es @ Begin (Suc u) r # map (piece_event (Suc u)) (ps @ [p])) n)"
proof -
  have dist: "distinct (map tp_piece (tr_pieces r))"
    using validate_record_distinct assms(2) by blast
  have "find (\<lambda>e. tp_piece e = tp_piece p) (tr_pieces r) = Some p"
    using dist by (rule find_distinct) (simp add: assms(3) [symmetric])
  moreover have "tp_piece p \<notin> tp_piece ` set ps"
    using dist unfolding assms(3) [symmetric] by auto
  then have "\<not> list_ex (\<lambda>e. case e of PieceDurable v q _ \<Rightarrow> v = Suc u \<and> q = tp_piece p | _ \<Rightarrow> False)
      (es @ Begin (Suc u) r # map (piece_event (Suc u)) ps)"
    using fresh_transaction(3) [OF assms(1)] by (auto simp: list_ex_iff piece_event_def split: journal_event.splits)
  ultimately show ?thesis
    using open_record_eq [OF assms(1), of r ps n]
    by (simp add: piece_durable_def transact_def piece_inner_def) (simp add: journal_of_def piece_event_def)
qed

lemma publish_journal:
  assumes "in_sequence 0 es = Some u"
  shows "publish (Suc u) (journal_of (es @ Begin (Suc u) r # map (piece_event (Suc u)) (tr_pieces r)) n) =
    (Inr (), journal_of (es @ Begin (Suc u) r # map (piece_event (Suc u)) (tr_pieces r) @ [Publish (Suc u)]) n)"
proof -
  have "\<not> list_ex (\<lambda>p. tp_piece p \<notin> durable_pieces (Suc u) (es @ Begin (Suc u) r # map (piece_event (Suc u)) (tr_pieces r))) (tr_pieces r)"
    by (auto simp: list_ex_iff durable_pieces_iff piece_event_def)
  then show ?thesis
    using open_record_eq [OF assms, of r "tr_pieces r" n]
    by (simp add: publish_def transact_def publish_inner_def journal_of_def)
qed

lemma max_transaction: "in_sequence t es = Some u \<Longrightarrow> fold max (map event_transaction es) t = u"
  by (induction es arbitrary: t) (auto split: if_splits)

lemma from_events_eq:
  assumes "in_sequence 0 es = Some u" and "u + 1 < 2 ^ 64" and "recover_events es = Inr m"
  shows "from_events es = Inr (journal_of es (u + 1))" and "recover (journal_of es (u + 1)) = Inr m"
  using assms max_transaction [OF assms(1)]
  by (simp_all add: from_events_def checked_add_def recover_def journal_of_def Let_def)

end
