(* ===== verification/Store_Inv.thy ===== *)
theory Store_Inv
  imports Store_Catalog
begin

text \<open>
  What a crash may leave on the disk, the invariant of the store and its disk, and that opening
  succeeds on every disk that a crash may leave.
\<close>

section \<open>Crashes\<close>

text \<open>
  After a crash the journal is what was synced, followed by some of the bytes appended since. Of the data file, every byte
  that was synced and not overwritten since is still there; everything else is arbitrary.
\<close>

definition survives :: "disk \<Rightarrow> disk \<Rightarrow> bool" where
  "survives d d' \<longleftrightarrow>
     (\<exists>k. length (dk_synced_journal d) \<le> k \<and> dk_journal d' = take k (dk_journal d)) \<and>
     length (dk_synced_data d) \<le> length (dk_data d') \<and> length (dk_data d') \<le> length (dk_data d) \<and>
     (\<forall>i<length (dk_synced_data d). dk_data d ! i = dk_synced_data d ! i \<longrightarrow> dk_data d' ! i = dk_synced_data d ! i) \<and>
     dk_synced_journal d' = dk_journal d' \<and> dk_synced_data d' = dk_data d'"

section \<open>The invariant\<close>

text \<open>The bytes of a piece are synced, unchanged since, and have the recorded hash.\<close>

definition stored :: "(8 word list \<Rightarrow> hash32) \<Rightarrow> disk \<Rightarrow> tier_piece_record \<Rightarrow> bool" where
  "stored sha d p \<longleftrightarrow> piece_end p \<le> length (dk_synced_data d) \<and> piece_end p \<le> length (dk_data d) \<and>
     slice (dk_data d) (tp_storage_offset p) (tp_byte_length p) = slice (dk_synced_data d) (tp_storage_offset p) (tp_byte_length p) \<and>
     sha (slice (dk_data d) (tp_storage_offset p) (tp_byte_length p)) = tp_sha256 p"

definition record_fits :: "hash32 \<Rightarrow> tier_record \<Rightarrow> bool" where
  "record_fits k r \<longleftrightarrow> tr_page_key r = k \<and> record_typed r \<and> validate_record r = Inr () \<and> tr_tier r = Nvme"

definition catalog_pieces :: "(hash32, tier_record) fmap \<Rightarrow> (hash32 \<times> tier_piece_record) set" where
  "catalog_pieces m = {(k, p). \<exists>r. fmlookup m k = Some r \<and> p \<in> set (tr_pieces r)}"

definition catalog_ok :: "(8 word list \<Rightarrow> hash32) \<Rightarrow> disk \<Rightarrow> (hash32, tier_record) fmap \<Rightarrow> bool" where
  "catalog_ok sha d m \<longleftrightarrow>
     (\<forall>k r. fmlookup m k = Some r \<longrightarrow> record_fits k r) \<and>
     (\<forall>(k, p)\<in>catalog_pieces m. stored sha d p) \<and>
     (\<forall>(k, p)\<in>catalog_pieces m. \<forall>(k', p')\<in>catalog_pieces m. (k, tp_piece p) \<noteq> (k', tp_piece p') \<longrightarrow>
        apart (tp_storage_offset p) (piece_end p) (tp_storage_offset p') (piece_end p'))"

text \<open>A request whose page the catalog holds: its own bytes, or bytes with the same hash.\<close>

definition holds :: "(8 word list \<Rightarrow> hash32) \<Rightarrow> (hash32, tier_record) fmap \<Rightarrow> durable_page_request \<Rightarrow> bool" where
  "holds sha m q \<longleftrightarrow> (\<exists>r. fmlookup m (dq_page_key q) = Some r \<and> tr_namespace r = dq_namespace q \<and>
     (\<forall>pb\<in>set (dq_pieces q). \<exists>p\<in>set (tr_pieces r). tp_piece p = pb_piece pb \<and> tp_sha256 p = sha (pb_bytes pb)))"

definition events_ok :: "(8 word list \<Rightarrow> hash32) \<Rightarrow> durable_page_request set \<Rightarrow> disk \<Rightarrow> journal_event list \<Rightarrow> bool" where
  "events_ok sha acked d es \<longleftrightarrow> (\<forall>e\<in>set es. event_typed e) \<and>
     (\<exists>u m. in_sequence 0 es = Some u \<and> u + 1 < 2 ^ 64 \<and> recover_events es = Inr m \<and> catalog_ok sha d m \<and> (\<forall>q\<in>acked. holds sha m q))"

definition disk_ok :: "(8 word list \<Rightarrow> hash32) \<Rightarrow> durable_page_request set \<Rightarrow> disk \<Rightarrow> bool" where
  "disk_ok sha acked d \<longleftrightarrow> (\<exists>es fs torn. dk_synced_journal d = frames es \<and> dk_journal d = frames (es @ fs) @ torn \<and> length torn < 512 \<and>
     (\<forall>k\<le>length fs. events_ok sha acked d (es @ take k fs)) \<and> (es = [] \<longrightarrow> dk_data d = [])) \<and>
     length (dk_synced_data d) \<le> length (dk_data d) \<and> length (dk_data d) + 4095 < 2 ^ 64"

text \<open>A store that may write: memory and disk agree, nothing is unsynced, and the next offset is behind all data.\<close>

definition live :: "file_tier_store \<Rightarrow> disk \<Rightarrow> bool" where
  "live st d \<longleftrightarrow> (\<exists>es u. st_journal st = journal_of es (u + 1) \<and> st_next_transaction st = u + 1 \<and>
     dk_journal d = frames es \<and> dk_synced_journal d = frames es \<and> dk_synced_data d = dk_data d \<and>
     (\<forall>e\<in>set es. event_typed e) \<and> in_sequence 0 es = Some u \<and> u + 1 < 2 ^ 64 \<and> recover_events es = Inr (st_published st)) \<and>
     length (dk_data d) \<le> st_next_data_offset st \<and> st_next_data_offset st + 4095 < 2 ^ 64"

definition store_ok :: "(8 word list \<Rightarrow> hash32) \<Rightarrow> durable_page_request set \<Rightarrow> file_tier_store \<times> disk \<Rightarrow> bool" where
  "store_ok sha acked = (\<lambda>(st, d). disk_ok sha acked d \<and> catalog_ok sha d (st_published st) \<and> (\<forall>q\<in>acked. holds sha (st_published st) q) \<and>
     (\<not> st_write_poisoned st \<longrightarrow> live st d))"

section \<open>Opening\<close>

lemma align_up_Inr [result_simps]:
  "align_up v 4096 = Inr w \<longleftrightarrow> v + 4095 < 2 ^ 64 \<and> w = (v + 4095) div 4096 * 4096"
  by (auto simp: align_up_def result_simps)

lemma align_up_bounds: "v \<le> (v + 4095) div 4096 * (4096 :: nat)" "(v + 4095) div 4096 * (4096 :: nat) < v + 4096"
  using div_mult_mod_eq [of "v + 4095" 4096] mod_less_divisor [of 4096 "v + 4095"] by linarith+

lemma align_up_fits:
  assumes "v + 4095 < 2 ^ 64"
  shows "(v + 4095) div 4096 * (4096 :: nat) + 4095 < 2 ^ 64"
proof -
  have "(v + 4095) div 4096 < 4503599627370496"
    using assms by (simp add: less_mult_imp_div_less)
  then show ?thesis
    by simp
qed

lemma stored_survives:
  assumes "survives d d'" and "stored sha d p"
  shows "stored sha d' p"
proof -
  have len: "piece_end p \<le> length (dk_data d')" "piece_end p \<le> length (dk_synced_data d)" "piece_end p \<le> length (dk_data d)"
    using assms by (auto simp: survives_def stored_def)
  have eq: "dk_data d ! i = dk_synced_data d ! i" if "tp_storage_offset p \<le> i" "i < piece_end p" for i
  proof -
    have "slice (dk_data d) (tp_storage_offset p) (tp_byte_length p) ! (i - tp_storage_offset p) =
      slice (dk_synced_data d) (tp_storage_offset p) (tp_byte_length p) ! (i - tp_storage_offset p)"
      using assms(2) by (simp add: stored_def)
    then show ?thesis
      using that len by (simp add: nth_slice piece_end_def)
  qed
  then have "dk_data d' ! i = dk_data d ! i" if "tp_storage_offset p \<le> i" "i < piece_end p" for i
    using that len assms(1) by (auto simp: survives_def)
  then have "slice (dk_data d') (tp_storage_offset p) (tp_byte_length p) = slice (dk_data d) (tp_storage_offset p) (tp_byte_length p)"
    using len by (intro slice_eqI) (auto simp: length_slice nth_slice piece_end_def)
  then show ?thesis
    using assms len by (auto simp: survives_def stored_def)
qed

lemma catalog_ok_survives: "survives d d' \<Longrightarrow> catalog_ok sha d m \<Longrightarrow> catalog_ok sha d' m"
  using stored_survives by (fastforce simp: catalog_ok_def)

lemma events_ok_survives: "survives d d' \<Longrightarrow> events_ok sha acked d es \<Longrightarrow> events_ok sha acked d' es"
  by (auto simp: events_ok_def dest: catalog_ok_survives)

text \<open>The extents of a catalog, sorted, do not overlap.\<close>

lemma not_adjacent:
  assumes "sorted_wrt le xs" and "distinct xs" and "\<And>x y. x \<in> set xs \<Longrightarrow> y \<in> set xs \<Longrightarrow> x \<noteq> y \<Longrightarrow> le x y \<Longrightarrow> \<not> P x y"
  shows "\<not> adjacent P xs"
  using assms by (induction P xs rule: adjacent.induct) auto

definition keyed_pieces :: "(hash32, tier_record) fmap \<Rightarrow> (hash32 \<times> tier_piece_record) list" where
  "keyed_pieces m = concat (map (\<lambda>(k, r). map (Pair k) (tr_pieces r)) (entries_of m))"

lemma set_keyed_pieces: "set (keyed_pieces m) = catalog_pieces m"
proof -
  have "(k, p) \<in> set (keyed_pieces m) \<longleftrightarrow> (k, p) \<in> catalog_pieces m" for k p
    unfolding keyed_pieces_def catalog_pieces_def by force
  then show ?thesis
    by auto
qed

lemma map_snd_keyed_pieces: "map snd (keyed_pieces m) = concat (map (tr_pieces \<circ> snd) (entries_of m))"
  by (simp add: keyed_pieces_def map_concat comp_def case_prod_beta)

lemma distinct_keyed_pieces:
  assumes "\<forall>k r. fmlookup m k = Some r \<longrightarrow> record_fits k r"
  shows "distinct (keyed_pieces m)"
proof -
  have "distinct (concat (map (\<lambda>(k, r). map (Pair k) (tr_pieces r)) xs))"
    if "distinct (map fst xs)" "\<forall>(k, r)\<in>set xs. distinct (tr_pieces r)" for xs :: "(hash32 \<times> tier_record) list"
    using that by (induction xs) (auto simp: distinct_map inj_on_def image_iff)
  moreover have "distinct (tr_pieces r)" if "fmlookup m k = Some r" for k r
    using that assms validate_record_distinct by (auto simp: record_fits_def distinct_map)
  ultimately show ?thesis
    unfolding keyed_pieces_def by (metis (mono_tags, lifting) case_prodI2 distinct_keys_of map_fst_entries_of set_entries_of)
qed

lemma piece_nonempty: "record_fits k r \<Longrightarrow> p \<in> set (tr_pieces r) \<Longrightarrow> tp_storage_offset p < piece_end p"
  by (auto simp: record_fits_def piece_end_def piece_ok_def elim!: validate_record_fold dest!: validate_pieces_Inr)
    (cases "tp_piece p"; force)

lemma catalog_extents_ok:
  assumes "catalog_ok sha d m" and "length (dk_data d) < 2 ^ 64"
  shows "validate_catalog_extents m (length (dk_data d)) = Inr ()"
proof -
  let ?ext = "\<lambda>p. (tp_storage_offset p, piece_end p)"
  let ?ps = "concat (map (tr_pieces \<circ> snd) (entries_of m))"
  have fits: "\<forall>k r. fmlookup m k = Some r \<longrightarrow> record_fits k r"
    using assms(1) by (simp add: catalog_ok_def)
  have pieces: "(k, p) \<in> catalog_pieces m \<Longrightarrow> stored sha d p \<and> tp_storage_offset p < piece_end p" for k p
    using assms(1) piece_nonempty by (fastforce simp: catalog_ok_def catalog_pieces_def)
  have ps: "set ?ps = snd ` catalog_pieces m" "?ps = map snd (keyed_pieces m)"
    using set_keyed_pieces [of m] map_snd_keyed_pieces [of m] by (metis list.set_map)+
  have "catalog_extent (length (dk_data d)) p = Inr (?ext p)" if "p \<in> set ?ps" for p
    using that pieces assms(2) unfolding ps(1)
    by (force simp: catalog_extent_def checked_add_def stored_def piece_end_def)
  then have exts: "rmap (catalog_extent (length (dk_data d))) ?ps = Inr (map ?ext ?ps)"
    by (rule rmap_Inr_total)
  have disjoint: "snd (?ext p) \<le> fst (?ext p') \<or> snd (?ext p') \<le> fst (?ext p)"
    if kp: "(k, p) \<in> catalog_pieces m" "(k', p') \<in> catalog_pieces m" "(k, p) \<noteq> (k', p')" for k p k' p'
  proof -
    have "(k, tp_piece p) \<noteq> (k', tp_piece p')"
    proof
      assume eq: "(k, tp_piece p) = (k', tp_piece p')"
      then obtain r where r: "fmlookup m k = Some r" "p \<in> set (tr_pieces r)" "p' \<in> set (tr_pieces r)"
        using kp(1,2) by (auto simp: catalog_pieces_def)
      then have "distinct (map tp_piece (tr_pieces r))"
        using fits validate_record_distinct by (auto simp: record_fits_def)
      then have "p = p'"
        using r eq by (auto simp: distinct_map inj_on_def)
      then show False
        using kp(3) eq by simp
    qed
    then show ?thesis
      using assms(1) kp(1,2) by (fastforce simp: catalog_ok_def apart_def)
  qed
  have "distinct (map ?ext ?ps)"
    unfolding ps(2) map_map distinct_map
    using distinct_keyed_pieces [OF fits] disjoint pieces
    by (fastforce simp: inj_on_def set_keyed_pieces)
  moreover have "sorted_wrt extent_le (sort_by extent_le (map ?ext ?ps))"
    by (rule sorted_sort_by) (auto simp: extent_le_def)
  ultimately have "\<not> adjacent (\<lambda>a b. fst b < snd a) (sort_by extent_le (map ?ext ?ps))"
  proof (intro not_adjacent)
    fix x y
    assume xy: "x \<in> set (sort_by extent_le (map ?ext ?ps))" "y \<in> set (sort_by extent_le (map ?ext ?ps))" "x \<noteq> y" "extent_le x y"
    have "x \<in> ?ext ` snd ` catalog_pieces m" "y \<in> ?ext ` snd ` catalog_pieces m"
      using xy(1,2) unfolding set_sort_by set_map ps(1) .
    then obtain kp kp' where k: "kp \<in> catalog_pieces m" "x = ?ext (snd kp)" "kp' \<in> catalog_pieces m" "y = ?ext (snd kp')"
      by blast
    then have "kp \<noteq> kp'"
      using xy(3) by auto
    then show "\<not> fst y < snd x"
      using disjoint [of "fst kp" "snd kp" "fst kp'" "snd kp'"] pieces [of "fst kp'" "snd kp'"] xy(4) k
      by (auto simp: extent_le_def)
  qed auto
  then show ?thesis
    unfolding validate_catalog_extents_def exts by simp
qed

lemma take_frames:
  assumes "\<forall>e\<in>set es. event_typed e" and "length torn < 512" and "k \<le> length (frames es @ torn)"
  shows "\<exists>torn'. take k (frames es @ torn) = frames (take (k div 512) es) @ torn' \<and> length torn' < 512"
proof -
  let ?n = "k div 512"
  have "?n \<le> length es"
    using assms length_frames [OF assms(1)] by simp
  then have len: "length (frames (take ?n es)) = 512 * ?n"
    using length_frames [of "take ?n es"] assms(1) by (auto dest: in_set_takeD)
  have "frames es @ torn = frames (take ?n es) @ frames (drop ?n es) @ torn"
    using frames_simps(3) [of "take ?n es" "drop ?n es"] by simp
  then have "take k (frames es @ torn) = frames (take ?n es) @ take (k - 512 * ?n) (frames (drop ?n es) @ torn)"
    using len by simp
  moreover have "length (take (k - 512 * ?n) (frames (drop ?n es) @ torn)) < 512"
    using div_mult_mod_eq [of k 512] mod_less_divisor [of 512 k] by (simp add: minus_mult_div_eq_mod)
  ultimately show ?thesis
    by blast
qed

lemma survives_journal:
  assumes "disk_ok sha acked d" and "survives d d'"
  obtains es torn where "dk_journal d' = frames es @ torn" "length torn < 512" "events_ok sha acked d es" "es = [] \<Longrightarrow> dk_data d' = []"
proof -
  obtain es fs torn where j: "dk_synced_journal d = frames es" "dk_journal d = frames (es @ fs) @ torn" "length torn < 512"
      "\<forall>k\<le>length fs. events_ok sha acked d (es @ take k fs)" "es = [] \<longrightarrow> dk_data d = []"
    using assms(1) unfolding disk_ok_def by blast
  obtain k where k: "length (frames es) \<le> k" "dk_journal d' = take k (frames (es @ fs) @ torn)"
    using assms(2) unfolding survives_def j(1,2) by blast
  let ?k = "min k (length (frames (es @ fs) @ torn))"
  have typed: "\<forall>e\<in>set (es @ fs). event_typed e"
    using j(4) by (auto simp: events_ok_def dest!: spec [of _ "length fs"])
  have k': "dk_journal d' = take ?k (frames (es @ fs) @ torn)" "length (frames es) \<le> ?k"
    using k by (simp_all add: min_def)
  obtain torn' where t: "dk_journal d' = frames (take (?k div 512) (es @ fs)) @ torn'" "length torn' < 512"
    using take_frames [OF typed j(3), of ?k] unfolding k'(1) [symmetric] by auto
  have "512 * length es \<le> ?k"
    using k'(2) length_frames [of es] typed by simp
  then have n: "length es \<le> ?k div 512"
    by (simp add: less_eq_div_iff_mult_less_eq mult.commute)
  show ?thesis
  proof
    show "dk_journal d' = frames (es @ take (?k div 512 - length es) fs) @ torn'"
      using t(1) n by simp
    have "es @ take (?k div 512 - length es) fs = es @ take (min (?k div 512 - length es) (length fs)) fs"
      by (simp add: min_def)
    then show "events_ok sha acked d (es @ take (?k div 512 - length es) fs)"
      using j(4) by (metis min.cobounded2)
    show "dk_data d' = []" if "es @ take (?k div 512 - length es) fs = []"
      using that j(5) assms(2) by (simp add: survives_def)
  qed (rule t(2))
qed

lemma open_survivor:
  assumes "disk_ok sha acked d" and "survives d d'"
  shows "\<exists>st d''. open_store False d' = Inr (st, d'') \<and> store_ok sha acked (st, d'')"
proof -
  obtain es torn where es: "dk_journal d' = frames es @ torn" "length torn < 512" "events_ok sha acked d es" "es = [] \<Longrightarrow> dk_data d' = []"
    using survives_journal [OF assms] by blast
  have ok: "events_ok sha acked d' es"
    by (rule events_ok_survives [OF assms(2) es(3)])
  then obtain u m where um: "\<forall>e\<in>set es. event_typed e" "in_sequence 0 es = Some u" "u + 1 < 2 ^ 64" "recover_events es = Inr m"
      "catalog_ok sha d' m" "\<forall>q\<in>acked. holds sha m q"
    unfolding events_ok_def by blast
  have len: "length (dk_data d') + 4095 < 2 ^ 64" "dk_synced_data d' = dk_data d'"
    using assms by (auto simp: disk_ok_def survives_def)
  have cut: "length (dk_journal d') div 512 * 512 = length (frames es)"
    unfolding es(1) using length_frames [OF um(1)] es(2) by simp
  let ?off = "(length (dk_data d') + 4095) div 4096 * 4096"
  let ?st = "\<lparr>st_journal = journal_of es (u + 1), st_published = m, st_next_transaction = u + 1, st_next_data_offset = ?off,
    st_write_poisoned = False\<rparr>"
  let ?d = "d'\<lparr>dk_journal := frames es, dk_synced_journal := frames es\<rparr>"
  have "validate_journal_data_presence (length (frames es)) (length (dk_data d')) = Inr ()"
    using es(4) length_frames [OF um(1)] by (cases es) (auto simp: validate_journal_data_presence_def)
  moreover have "validate_catalog_extents m (length (dk_data d')) = Inr ()"
    using catalog_extents_ok [OF um(5)] len(1) by simp
  ultimately have "load_catalog d' = Inr (journal_of es (u + 1), m, u + 1)"
    using decode_frames [OF um(1-3) es(2)] from_events_eq [OF um(2-4)] cut es(1)
    by (simp add: load_catalog_def)
  moreover have "align_up (length (dk_data d')) 4096 = Inr ?off"
    using len(1) by (simp add: align_up_Inr)
  moreover have "torn = [] \<Longrightarrow> ?d = d'"
    using es(1) assms(2) by (auto simp: survives_def)
  ultimately have "open_store False d' = Inr (?st, ?d)"
    using cut es(1) by (cases "torn = []") (simp_all add: open_store_def Let_def)
  moreover have "store_ok sha acked (?st, ?d)"
  proof -
    have same: "catalog_ok sha ?d m" "events_ok sha acked ?d es"
      using um(5) ok by (simp_all add: catalog_ok_def stored_def events_ok_def)
    have "disk_ok sha acked ?d"
      unfolding disk_ok_def
      by (rule conjI, rule exI [of _ es], rule exI [of _ "[]"], rule exI [of _ "[]"]) (use same es(4) len in simp_all)
    moreover have "live ?st ?d"
      using um(1-4) len align_up_bounds(1) [of "length (dk_data d')"] align_up_fits [of "length (dk_data d')"]
      by (auto simp: live_def)
    ultimately show ?thesis
      using same(1) um(6) by (simp add: store_ok_def)
  qed
  ultimately show ?thesis
    by blast
qed

end
