(* ===== verification/Store_Plan.thy ===== *)
theory Store_Plan
  imports Store_Inv
begin

text \<open>
  What a publication plans before it writes: where the pieces go, and what the new record has to do with
  the page that is published under its key.
\<close>

section \<open>Placement\<close>

definition placed :: "(8 word list \<Rightarrow> hash32) \<Rightarrow> nat \<Rightarrow> nat \<Rightarrow> page_piece_bytes \<Rightarrow> tier_piece_record \<Rightarrow> bool" where
  "placed sha start stop pb p \<longleftrightarrow> tp_piece p = pb_piece pb \<and> tp_byte_length p = length (pb_bytes pb) \<and> tp_sha256 p = sha (pb_bytes pb) \<and>
     start \<le> tp_storage_offset p \<and> piece_end p \<le> stop"

lemma placed_mono: "placed sha start stop pb p \<Longrightarrow> start' \<le> start \<Longrightarrow> stop \<le> stop' \<Longrightarrow> placed sha start' stop' pb p"
  by (simp add: placed_def)

lemma place_piece_Inr:
  assumes "place_piece sha pb (acc, start) = Inr (acc', stop)"
  obtains p where "acc' = acc @ [p]" "placed sha start stop pb p" "stop < 2 ^ 64"
proof -
  let ?p = "\<lparr>tp_piece = pb_piece pb, tp_byte_length = length (pb_bytes pb), tp_storage_offset = (start + 4095) div 4096 * 4096,
    tp_sha256 = sha (pb_bytes pb)\<rparr>"
  have "acc' = acc @ [?p]" "stop = piece_end ?p" "stop < 2 ^ 64"
    using assms by (auto simp: place_piece_def piece_end_def Let_def result_simps split: if_splits)
  moreover have "placed sha start (piece_end ?p) pb ?p"
    using align_up_bounds(1) [of start] by (simp add: placed_def)
  ultimately show ?thesis
    using that by blast
qed

lemma place_pieces:
  assumes "rfold (place_piece sha) pbs (acc, start) = Inr (acc', stop)" and "start < 2 ^ 64"
  shows "\<exists>ps. acc' = acc @ ps \<and> start \<le> stop \<and> stop < 2 ^ 64 \<and> list_all2 (placed sha start stop) pbs ps \<and>
    sorted_wrt (\<lambda>p q. piece_end p \<le> tp_storage_offset q) ps"
  using assms
proof (induction pbs arbitrary: acc start)
  case Nil
  then show ?case by simp
next
  case (Cons pb pbs)
  obtain acc1 mid where "place_piece sha pb (acc, start) = Inr (acc1, mid)" and rest: "rfold (place_piece sha) pbs (acc1, mid) = Inr (acc', stop)"
    using Cons.prems(1) by (auto simp: result_simps)
  then obtain p where p: "acc1 = acc @ [p]" "placed sha start mid pb p" "mid < 2 ^ 64"
    using place_piece_Inr by metis
  obtain ps where ps: "acc' = acc1 @ ps" "mid \<le> stop" "stop < 2 ^ 64" "list_all2 (placed sha mid stop) pbs ps"
      "sorted_wrt (\<lambda>p q. piece_end p \<le> tp_storage_offset q) ps"
    using Cons.IH [OF rest p(3)] by blast
  have start: "start \<le> mid" "piece_end p \<le> mid"
    using p(2) by (auto simp: placed_def piece_end_def)
  have "list_all2 (placed sha start stop) pbs ps"
    using ps(4) by (rule list_all2_mono) (use start(1) placed_mono in blast)
  moreover have "placed sha start stop pb p"
    using p(2) ps(2) placed_mono by blast
  moreover have "piece_end p \<le> tp_storage_offset q" if "q \<in> set ps" for q
  proof -
    obtain i where "i < length ps" "q = ps ! i"
      using \<open>q \<in> set ps\<close> by (auto simp: in_set_conv_nth)
    then have "mid \<le> tp_storage_offset q"
      using ps(4) by (auto simp: list_all2_conv_all_nth placed_def)
    then show ?thesis
      using start(2) by simp
  qed
  ultimately show ?case
    using ps(1-3,5) p(1) start(1) by (intro exI [of _ "p # ps"]) simp
qed

section \<open>The planned record\<close>

definition request_typed :: "durable_page_request \<Rightarrow> bool" where
  "request_typed q \<longleftrightarrow> length (dq_namespace q) = 32 \<and> length (dq_page_key q) = 32 \<and> dq_generation q < 2 ^ 64"

text \<open>What the record replaces: nothing, or a page without a draft sidecar and otherwise the same contents.\<close>

definition replaces :: "(hash32, tier_record) fmap \<Rightarrow> tier_record \<Rightarrow> bool" where
  "replaces m r \<longleftrightarrow> (case fmlookup m (tr_page_key r) of None \<Rightarrow> True
     | Some existing \<Rightarrow> relation_to existing r = Inr MtpUpgrade \<and> tr_generation existing < tr_generation r)"

lemma published_already_None: "published_already m r = Inr None \<longleftrightarrow> replaces m r"
proof (cases "fmlookup m (tr_page_key r)")
  case None
  then show ?thesis
    by (simp add: published_already_def replaces_def)
next
  case (Some existing)
  show ?thesis
  proof (cases "relation_to existing r")
    case (Inl e)
    then show ?thesis
      using Some by (cases e) (simp_all add: published_already_def replaces_def)
  next
    case (Inr relation)
    then show ?thesis
      using Some by (cases relation) (simp_all add: published_already_def replaces_def not_le)
  qed
qed

lemma published_already_Some:
  assumes "published_already m r = Inr (Some existing)"
  shows "fmlookup m (tr_page_key r) = Some existing" and "relation_to existing r \<in> {Inr ExactDedup, Inr RetainMtp}"
proof -
  obtain e relation where e: "fmlookup m (tr_page_key r) = Some e" "relation_to e r = Inr relation"
    using assms by (auto simp: published_already_def result_simps split: option.splits)
  then show "fmlookup m (tr_page_key r) = Some existing" "relation_to existing r \<in> {Inr ExactDedup, Inr RetainMtp}"
    using assms by (cases relation; auto simp: published_already_def split: if_splits)+
qed

lemma record_of_placed_typed:
  assumes "list_all2 (placed sha start stop) pbs (tr_pieces r)" and "stop < 2 ^ 64" and "\<And>x. length (sha x) = 32"
    and "length (tr_namespace r) = 32" and "length (tr_page_key r) = 32" and "tr_generation r < 2 ^ 64"
  shows "record_typed r"
proof -
  have "piece_typed p" if "p \<in> set (tr_pieces r)" for p
  proof -
    obtain i where "i < length (tr_pieces r)" "p = tr_pieces r ! i"
      using \<open>p \<in> set (tr_pieces r)\<close> by (auto simp: in_set_conv_nth)
    then have "placed sha start stop (pbs ! i) p"
      using assms(1) by (auto simp: list_all2_conv_all_nth)
    then show ?thesis
      using assms(2,3) by (auto simp: placed_def piece_typed_def piece_end_def)
  qed
  then show ?thesis
    using assms(4-6) by (simp add: record_typed_def)
qed

lemma plan_new_record:
  assumes "plan_publication sha q st = Inr (Inr (pbs, r, off))" and "request_typed q" and "\<And>x. length (sha x) = 32"
    and "st_next_data_offset st < 2 ^ 64"
  shows "tr_page_key r = dq_page_key q" and "tr_namespace r = dq_namespace q" and "record_typed r" and "validate_record r = Inr ()"
    and "set pbs = set (dq_pieces q)" and "list_all2 (placed sha (st_next_data_offset st) off) pbs (tr_pieces r)"
    and "sorted_wrt (\<lambda>p q. piece_end p \<le> tp_storage_offset q) (tr_pieces r)" and "off + 4095 < 2 ^ 64"
    and "replaces (st_published st) r" and "st_next_data_offset st \<le> off" and "tr_tier r = Nvme"
proof -
  let ?pbs = "sort_by (\<lambda>a b. piece_rank (pb_piece a) \<le> piece_rank (pb_piece b)) (dq_pieces q)"
  obtain ps stop where plan: "rfold (place_piece sha) ?pbs ([], st_next_data_offset st) = Inr (ps, stop)"
      "r = \<lparr>tr_namespace = dq_namespace q, tr_page_key = dq_page_key q, tr_generation = dq_generation q,
         tr_tier = Nvme, tr_mtp = dq_mtp q, tr_pieces = ps\<rparr>"
      "validate_record r = Inr ()" "align_up stop 4096 = Inr off" "pbs = ?pbs" "replaces (st_published st) r"
    using assms(1)
    by (auto simp: plan_publication_def Let_def result_simps published_already_None split: if_splits option.splits)
  have ps: "st_next_data_offset st \<le> stop" "stop < 2 ^ 64" "list_all2 (placed sha (st_next_data_offset st) stop) ?pbs ps"
      "sorted_wrt (\<lambda>p q. piece_end p \<le> tp_storage_offset q) ps"
    using place_pieces [OF plan(1) assms(4)] by auto
  have off: "stop + 4095 < 2 ^ 64" "off = (stop + 4095) div 4096 * 4096"
    using plan(4) by (simp_all add: align_up_Inr)
  show "tr_page_key r = dq_page_key q" "tr_namespace r = dq_namespace q" "validate_record r = Inr ()" "set pbs = set (dq_pieces q)"
    "replaces (st_published st) r" "tr_tier r = Nvme"
    using plan(2,3,5,6) by simp_all
  show "sorted_wrt (\<lambda>p q. piece_end p \<le> tp_storage_offset q) (tr_pieces r)"
    using ps(4) plan(2) by simp
  show "off + 4095 < 2 ^ 64"
    using align_up_fits [OF off(1)] off(2) by simp
  have le: "stop \<le> off"
    using align_up_bounds(1) [of stop] off(2) by simp
  then show "st_next_data_offset st \<le> off"
    using ps(1) by simp
  have "list_all2 (placed sha (st_next_data_offset st) stop) pbs (tr_pieces r)"
    using ps(3) plan(2,5) by simp
  then show "list_all2 (placed sha (st_next_data_offset st) off) pbs (tr_pieces r)"
    by (rule list_all2_mono) (use le placed_mono in blast)
  show "record_typed r"
    using assms(2) ps(3) plan(2)
    by (intro record_of_placed_typed [where pbs = ?pbs and start = "st_next_data_offset st", OF _ ps(2) assms(3)])
      (simp_all add: request_typed_def)
qed

section \<open>Held pages\<close>

lemma covers_pieces:
  assumes "covers r' r" and "validate_record r = Inr ()" and "p \<in> set (tr_pieces r)"
  shows "\<exists>p'\<in>set (tr_pieces r'). tp_piece p' = tp_piece p \<and> tp_sha256 p' = tp_sha256 p"
proof -
  have "tp_piece p \<in> set (required_pieces (tr_mtp r))"
    using validate_record_kinds [OF assms(2)] assms(3) by blast
  then have "logical_piece_identity r' (tp_piece p) = logical_piece_identity r (tp_piece p)"
    using assms(1) by (auto simp: covers_def required_pieces_def split: if_splits)
  also have "\<dots> = Some (tp_byte_length p, tp_sha256 p)"
    using validate_record_find [OF assms(2,3)] by (simp add: logical_piece_identity_def)
  finally show ?thesis
    by (auto simp: logical_piece_identity_def find_Some_iff)
qed

lemma relation_namespace: "relation_to e r = Inr relation \<Longrightarrow> tr_namespace e = tr_namespace r"
  by (auto simp: relation_to_def result_simps split: if_splits)

definition describes :: "(8 word list \<Rightarrow> hash32) \<Rightarrow> tier_record \<Rightarrow> durable_page_request \<Rightarrow> bool" where
  "describes sha r q \<longleftrightarrow> tr_page_key r = dq_page_key q \<and> tr_namespace r = dq_namespace q \<and>
     (\<forall>pb\<in>set (dq_pieces q). \<exists>p\<in>set (tr_pieces r). tp_piece p = pb_piece pb \<and> tp_sha256 p = sha (pb_bytes pb))"

lemma describes_covered:
  assumes "describes sha r q" and "covers r' r" and "tr_namespace r' = tr_namespace r" and "validate_record r = Inr ()"
  shows "describes sha r' q"
proof -
  have "\<exists>p'\<in>set (tr_pieces r'). tp_piece p' = pb_piece pb \<and> tp_sha256 p' = sha (pb_bytes pb)" if pb: "pb \<in> set (dq_pieces q)" for pb
  proof -
    obtain p where "p \<in> set (tr_pieces r)" "tp_piece p = pb_piece pb" "tp_sha256 p = sha (pb_bytes pb)"
      using assms(1) pb by (auto simp: describes_def)
    then show ?thesis
      using covers_pieces [OF assms(2,4), of p] by auto
  qed
  then show ?thesis
    using assms by (auto simp: describes_def covers_def)
qed

lemma holds_alt: "(\<forall>k r. fmlookup m k = Some r \<longrightarrow> tr_page_key r = k) \<Longrightarrow>
    holds sha m q \<longleftrightarrow> (\<exists>r. fmlookup m (dq_page_key q) = Some r \<and> describes sha r q)"
  by (auto simp: holds_def describes_def)

lemma placed_describes:
  assumes "list_all2 (placed sha start stop) pbs (tr_pieces r)" and "set pbs = set (dq_pieces q)"
    and "tr_page_key r = dq_page_key q" and "tr_namespace r = dq_namespace q"
  shows "describes sha r q"
proof -
  have "\<exists>p\<in>set (tr_pieces r). tp_piece p = pb_piece pb \<and> tp_sha256 p = sha (pb_bytes pb)" if pb: "pb \<in> set pbs" for pb
  proof -
    obtain i where "i < length pbs" "pb = pbs ! i"
      using pb by (auto simp: in_set_conv_nth)
    then have "i < length (tr_pieces r)" "placed sha start stop pb (tr_pieces r ! i)"
      using assms(1) by (auto simp: list_all2_conv_all_nth)
    then show ?thesis
      by (intro bexI [of _ "tr_pieces r ! i"]) (auto simp: placed_def)
  qed
  then show ?thesis
    using assms(2-4) by (auto simp: describes_def)
qed

lemma holds_kept:
  assumes "\<forall>k r. fmlookup m k = Some r \<longrightarrow> record_fits k r" and "replaces m r" and "holds sha m q"
  shows "holds sha (fmupd (tr_page_key r) r m) q"
proof (cases "tr_page_key r = dq_page_key q")
  case False
  then show ?thesis
    using assms(3) by (simp add: holds_def)
next
  case True
  have keys: "\<forall>k r. fmlookup m k = Some r \<longrightarrow> tr_page_key r = k"
    using assms(1) by (simp add: record_fits_def)
  then obtain e where e: "fmlookup m (dq_page_key q) = Some e" "describes sha e q"
    using assms(3) holds_alt [OF keys] by blast
  then have rel: "relation_to e r = Inr MtpUpgrade"
    using assms(2) True by (simp add: replaces_def)
  have "describes sha r q"
    using e relation_to_covers [OF rel] relation_namespace [OF rel] assms(1)
    by (intro describes_covered [OF e(2)]) (auto simp: record_fits_def)
  then show ?thesis
    using True by (auto simp: holds_def describes_def)
qed

lemma holds_deduplicated:
  assumes "\<forall>k r. fmlookup m k = Some r \<longrightarrow> record_fits k r" and "published_already m r = Inr (Some e)"
    and "describes sha r q" and "validate_record r = Inr ()"
  shows "holds sha m q"
proof -
  note e = published_already_Some [OF assms(2)]
  then obtain rel where rel: "relation_to e r = Inr rel" "rel \<noteq> MtpUpgrade"
    by auto
  have "describes sha e q"
    using relation_to_covers [OF rel(1)] relation_namespace [OF rel(1)] rel(2)
    by (intro describes_covered [OF assms(3) _ _ assms(4)]) auto
  then show ?thesis
    using e(1) assms(3) by (auto simp: holds_def describes_def)
qed

lemma plan_duplicate:
  assumes "plan_publication sha q st = Inr (Inl e)" and "st_next_data_offset st < 2 ^ 64"
    and "\<forall>k r. fmlookup (st_published st) k = Some r \<longrightarrow> record_fits k r"
  shows "holds sha (st_published st) q"
proof -
  let ?pbs = "sort_by (\<lambda>a b. piece_rank (pb_piece a) \<le> piece_rank (pb_piece b)) (dq_pieces q)"
  obtain ps stop r where plan: "rfold (place_piece sha) ?pbs ([], st_next_data_offset st) = Inr (ps, stop)"
      "r = \<lparr>tr_namespace = dq_namespace q, tr_page_key = dq_page_key q, tr_generation = dq_generation q,
         tr_tier = Nvme, tr_mtp = dq_mtp q, tr_pieces = ps\<rparr>"
      "validate_record r = Inr ()" "published_already (st_published st) r = Inr (Some e)"
    using assms(1)
    by (auto simp: plan_publication_def Let_def result_simps split: if_splits option.splits)
  have "list_all2 (placed sha (st_next_data_offset st) stop) ?pbs (tr_pieces r)"
    using place_pieces [OF plan(1) assms(2)] plan(2) by auto
  then have "describes sha r q"
    by (rule placed_describes) (simp_all add: plan(2))
  then show ?thesis
    by (rule holds_deduplicated [OF assms(3) plan(4) _ plan(3)])
qed

end
