(* ===== verification/Store_Run.thy ===== *)
theory Store_Run
  imports Store_Plan
begin

text \<open>
  The steps of a publication, by weakest preconditions: at every point where an operation may fail, the disk
  is one on which the store can be opened again.
\<close>

section \<open>Weakest preconditions\<close>

definition wp :: "'a store_step \<Rightarrow> ('a \<Rightarrow> file_tier_store \<times> disk \<Rightarrow> bool) \<Rightarrow> (file_tier_store \<times> disk \<Rightarrow> bool) \<Rightarrow>
    file_tier_store \<times> disk \<Rightarrow> bool" where
  "wp m Q E s = (case m s of (Inl e, s') \<Rightarrow> E s' | (Inr x, s') \<Rightarrow> Q x s')"

lemma wp_and_then: "wp (and_then m f) Q E s \<longleftrightarrow> wp m (\<lambda>x. wp (f x) Q E) E s"
  by (auto simp: wp_def and_then_def split: prod.splits sum.splits)

lemma wp_give: "wp (give r) Q E s \<longleftrightarrow> (case r of Inl e \<Rightarrow> E s | Inr x \<Rightarrow> Q x s)"
  by (auto simp: wp_def give_def split: sum.splits)

lemma wp_ensure: "wp (give (ensure b e)) Q E s \<longleftrightarrow> (if b then Q () s else E s)"
  by (cases b) (simp_all add: wp_give)

lemma wp_read_store: "wp (read_store f) Q E (st, d) \<longleftrightarrow> Q (f st) (st, d)"
  by (simp add: wp_def read_store_def)

lemma wp_write_store: "wp (write_store f) Q E (st, d) \<longleftrightarrow> Q () (f st, d)"
  by (simp add: wp_def write_store_def)

lemma wp_with_journal:
  "f (st_journal st) = (Inr x, j) \<Longrightarrow> wp (with_journal f) Q E (st, d) \<longleftrightarrow> Q x (st\<lparr>st_journal := j\<rparr>, d)"
  by (simp add: wp_def with_journal_def)

lemma wp_perform:
  assumes "Q () (st, apply_op op (d\<lparr>dk_operations := Suc (dk_operations d)\<rparr>))"
    and "\<And>k. io (dk_operations d) = Some k \<Longrightarrow> E (st, fail_op k op (d\<lparr>dk_operations := Suc (dk_operations d)\<rparr>))"
  shows "wp (perform io op) Q E (st, d)"
  using assms by (auto simp: wp_def perform_def Let_def split: option.splits)

lemma wp_mono: "wp m Q E s \<Longrightarrow> (\<And>x s'. Q x s' \<Longrightarrow> Q' x s') \<Longrightarrow> wp m Q' E s"
  by (auto simp: wp_def split: prod.splits sum.splits)

lemma wp_for_each_from:
  assumes "I before s"
    and "\<And>pre x rest s. before @ xs = pre @ x # rest \<Longrightarrow> I pre s \<Longrightarrow> wp (body x) (\<lambda>_. I (pre @ [x])) E s"
  shows "wp (for_each xs body) (\<lambda>_. I (before @ xs)) E s"
  using assms
proof (induction xs arbitrary: before s)
  case Nil
  then show ?case by (simp add: wp_give)
next
  case (Cons x xs)
  have "wp (body x) (\<lambda>_. I (before @ [x])) E s"
    using Cons.prems(2) [of before x xs s] Cons.prems(1) by simp
  then have "wp (body x) (\<lambda>_. wp (for_each xs body) (\<lambda>_. I (before @ x # xs)) E) E s"
  proof (rule wp_mono)
    fix s'
    assume "I (before @ [x]) s'"
    then have "wp (for_each xs body) (\<lambda>_. I ((before @ [x]) @ xs)) E s'"
      using Cons.prems(2) by (intro Cons.IH) simp_all
    then show "wp (for_each xs body) (\<lambda>_. I (before @ x # xs)) E s'"
      by simp
  qed
  then show ?case
    by (simp add: wp_and_then)
qed

lemma wp_for_each:
  assumes "I [] s" and "\<And>pre x rest s. xs = pre @ x # rest \<Longrightarrow> I pre s \<Longrightarrow> wp (body x) (\<lambda>_. I (pre @ [x])) E s"
    and "\<And>s. I xs s \<Longrightarrow> Q () s"
  shows "wp (for_each xs body) Q E s"
  using wp_for_each_from [of I "[]" s xs body E] assms by (auto intro: wp_mono)

lemma wp_outcome:
  "wp m Q E s \<Longrightarrow> m s = (Inr x, s') \<Longrightarrow> Q x s'"
  "wp m Q E s \<Longrightarrow> m s = (Inl e, s') \<Longrightarrow> E s'"
  by (simp_all add: wp_def)

section \<open>Journal records\<close>

text \<open>The catalog speaks about the data only.\<close>

definition same_data :: "disk \<Rightarrow> disk \<Rightarrow> bool" where
  "same_data d d' \<longleftrightarrow> dk_data d' = dk_data d \<and> dk_synced_data d' = dk_synced_data d"

lemma catalog_ok_same: "same_data d d' \<Longrightarrow> catalog_ok sha d' m = catalog_ok sha d m"
  by (simp add: catalog_ok_def stored_def same_data_def)

lemma events_ok_same: "same_data d d' \<Longrightarrow> events_ok sha acked d' es = events_ok sha acked d es"
  by (simp add: events_ok_def catalog_ok_same)

text \<open>A store whose publication has failed at some point.\<close>

definition abandoned :: "(8 word list \<Rightarrow> hash32) \<Rightarrow> durable_page_request set \<Rightarrow> file_tier_store \<times> disk \<Rightarrow> bool" where
  "abandoned sha acked = (\<lambda>(st, d). disk_ok sha acked d \<and> catalog_ok sha d (st_published st) \<and> (\<forall>q\<in>acked. holds sha (st_published st) q))"

text \<open>Such a state is reached only by a fault of the disk or at a failpoint.\<close>

definition failed :: "io_faults \<Rightarrow> write_failpoint option \<Rightarrow> (8 word list \<Rightarrow> hash32) \<Rightarrow> durable_page_request set \<Rightarrow>
    file_tier_store \<times> disk \<Rightarrow> bool" where
  "failed io failpoint sha acked s \<longleftrightarrow> (io \<noteq> (\<lambda>_. None) \<or> failpoint \<noteq> None) \<and> abandoned sha acked s"

lemma failedI: "io n = Some k \<Longrightarrow> abandoned sha acked s \<Longrightarrow> failed io failpoint sha acked s"
  by (auto simp: failed_def)

text \<open>Between two records: what is written is synced.\<close>

definition settled :: "(8 word list \<Rightarrow> hash32) \<Rightarrow> durable_page_request set \<Rightarrow> (hash32, tier_record) fmap \<Rightarrow> journal_event list \<Rightarrow> disk \<Rightarrow> bool" where
  "settled sha acked m es d \<longleftrightarrow> dk_journal d = frames es \<and> dk_synced_journal d = frames es \<and> events_ok sha acked d es \<and>
     (es = [] \<longrightarrow> dk_data d = []) \<and> catalog_ok sha d m \<and> (\<forall>q\<in>acked. holds sha m q) \<and>
     length (dk_synced_data d) \<le> length (dk_data d) \<and> length (dk_data d) + 4095 < 2 ^ 64"

lemma settled_disk_ok: "settled sha acked m es d \<Longrightarrow> disk_ok sha acked d"
  unfolding disk_ok_def settled_def
  by (intro conjI exI [of _ es] exI [of _ "[]"]) simp_all

lemma settled_abandoned: "settled sha acked (st_published st) es d \<Longrightarrow> abandoned sha acked (st, d)"
  using settled_disk_ok by (simp add: abandoned_def settled_def)

lemma torn_append:
  assumes "settled sha acked (st_published st) es d" and "event_typed e" and "events_ok sha acked d (es @ [e])"
    and "dk_journal d' = dk_journal d @ take k (frame e)" and "dk_synced_journal d' = dk_synced_journal d" and "same_data d d'"
  shows "abandoned sha acked (st, d')"
proof -
  have ok: "\<forall>j\<le>length [e]. events_ok sha acked d' (es @ take j [e])"
    using assms(1,3) events_ok_same [OF assms(6)] by (auto simp: settled_def le_Suc_eq)
  have data: "es = [] \<longrightarrow> dk_data d' = []" "length (dk_synced_data d') \<le> length (dk_data d')" "length (dk_data d') + 4095 < 2 ^ 64"
    using assms(1,6) by (simp_all add: settled_def same_data_def)
  have journal: "dk_synced_journal d' = frames es" "dk_journal d' = frames es @ take k (frame e)"
    using assms(1,4,5) by (simp_all add: settled_def)
  have "disk_ok sha acked d'"
  proof (cases "k < 512")
    case True
    show ?thesis
      using ok [rule_format, of 0] data journal True unfolding disk_ok_def
      by (intro conjI exI [of _ es] exI [of _ "[]"] exI [of _ "take k (frame e)"]) auto
  next
    case False
    then have "take k (frame e) = frame e"
      using frame_typed(2) [OF assms(2)] by simp
    then show ?thesis
      using ok data journal unfolding disk_ok_def
      by (intro conjI exI [of _ es] exI [of _ "[e]"] exI [of _ "[]"]) auto
  qed
  then show ?thesis
    using assms(1) catalog_ok_same [OF assms(6)] by (simp add: abandoned_def settled_def)
qed

lemma wp_journal_synced:
  assumes "settled sha acked (st_published st) es d" and "event_typed e" and "events_ok sha acked d (es @ [e])"
    and "\<And>d'. settled sha acked (st_published st) (es @ [e]) d' \<Longrightarrow> same_data d d' \<Longrightarrow> Q () (st, d')"
  shows "wp (journal_synced io e) Q (failed io failpoint sha acked) (st, d)"
proof -
  note torn = torn_append [OF assms(1-3)]
  let ?d1 = "apply_op (Append_Journal (frame e)) (d\<lparr>dk_operations := Suc (dk_operations d)\<rparr>)"
  let ?d2 = "apply_op Sync_Journal (?d1\<lparr>dk_operations := Suc (dk_operations ?d1)\<rparr>)"
  have same: "same_data d ?d2"
    by (simp add: same_data_def)
  have "settled sha acked (st_published st) (es @ [e]) ?d2"
    using assms(1,3) catalog_ok_same [OF same] events_ok_same [OF same] by (simp add: settled_def)
  then have "Q () (st, ?d2)"
    using same by (rule assms(4))
  then have sync: "wp (perform io Sync_Journal) Q (failed io failpoint sha acked) (st, ?d1)"
    using frame_typed(2) [OF assms(2)]
    by (intro wp_perform failedI torn [of _ 512]) (simp_all add: same_data_def)
  have "wp (perform io (Append_Journal (frame e))) (\<lambda>_. wp (perform io Sync_Journal) Q (failed io failpoint sha acked)) (failed io failpoint sha acked) (st, d)"
  proof (rule wp_perform)
    fix k
    assume "io (dk_operations d) = Some k"
    then show "failed io failpoint sha acked (st, fail_op k (Append_Journal (frame e)) (d\<lparr>dk_operations := Suc (dk_operations d)\<rparr>))"
      by (rule failedI, intro torn [of _ k]) (simp_all add: same_data_def)
  qed (rule sync)
  then show ?thesis
    by (simp add: journal_synced_def append_journal_record_def wp_and_then wp_give frame_typed(1) [OF assms(2)])
qed

section \<open>Data\<close>

lemma length_write_at: "length (write_at offset bs xs) = max (length xs) (offset + length bs)"
  by (auto simp: write_at_def put_def max_def min_def)

lemma take_write_at: "n \<le> offset \<Longrightarrow> n \<le> length xs \<Longrightarrow> take n (write_at offset bs xs) = take n xs"
  by (simp add: write_at_def put_def)

lemma slice_write_at: "slice (write_at offset bs xs) offset (length bs) = bs"
  by (simp add: write_at_def put_def slice_def)

lemma slice_take: "o' + n \<le> k \<Longrightarrow> slice (take k xs) o' n = slice xs o' n"
  by (simp add: slice_def take_drop min_def)

lemma slice_write_at_before:
  assumes "o' + n \<le> offset" and "o' + n \<le> length xs"
  shows "slice (write_at offset bs xs) o' n = slice xs o' n"
  using take_write_at [OF assms, of bs] slice_take [of o' n "o' + n" xs] slice_take [of o' n "o' + n" "write_at offset bs xs"] by simp

text \<open>A disk with more data behind what is synced.\<close>

definition extends :: "disk \<Rightarrow> disk \<Rightarrow> bool" where
  "extends d d' \<longleftrightarrow> dk_journal d' = dk_journal d \<and> dk_synced_journal d' = dk_synced_journal d \<and> dk_synced_data d' = dk_synced_data d \<and>
     length (dk_synced_data d) \<le> length (dk_data d') \<and>
     take (length (dk_synced_data d)) (dk_data d') = take (length (dk_synced_data d)) (dk_data d)"

lemma extends_write:
  assumes "extends d d'" and "length (dk_synced_data d) \<le> offset"
  shows "extends d (apply_op (Write_Data offset bs) (d'\<lparr>dk_operations := n\<rparr>))"
  using assms by (simp add: extends_def length_write_at take_write_at)

lemma stored_extends:
  assumes "extends d d'" and "stored sha d p"
  shows "stored sha d' p"
proof -
  have "tp_storage_offset p + tp_byte_length p \<le> length (dk_synced_data d)"
    using assms(2) by (simp add: stored_def piece_end_def)
  then have "slice (dk_data d') (tp_storage_offset p) (tp_byte_length p) = slice (dk_data d) (tp_storage_offset p) (tp_byte_length p)"
    using assms(1) slice_take [of "tp_storage_offset p" "tp_byte_length p" "length (dk_synced_data d)" "dk_data d"]
      slice_take [of "tp_storage_offset p" "tp_byte_length p" "length (dk_synced_data d)" "dk_data d'"] by (simp add: extends_def)
  then show ?thesis
    using assms by (simp add: stored_def extends_def) metis
qed

lemma catalog_ok_stored: "(\<And>p. stored sha d p \<Longrightarrow> stored sha d' p) \<Longrightarrow> catalog_ok sha d m \<Longrightarrow> catalog_ok sha d' m"
  by (fastforce simp: catalog_ok_def)

lemma extends_settled:
  assumes "settled sha acked m es d" and "extends d d'" and "es \<noteq> []" and "length (dk_data d') + 4095 < 2 ^ 64"
  shows "settled sha acked m es d'"
proof -
  have cat: "catalog_ok sha d' m'" if "catalog_ok sha d m'" for m'
    using that stored_extends [OF assms(2)] by (rule catalog_ok_stored [rotated])
  then have "events_ok sha acked d' es"
    using assms(1) by (auto simp: settled_def events_ok_def)
  then show ?thesis
    using assms cat by (simp add: settled_def extends_def)
qed

definition pieces_written :: "disk \<Rightarrow> (page_piece_bytes \<times> tier_piece_record) list \<Rightarrow> disk \<Rightarrow> bool" where
  "pieces_written d ws d' \<longleftrightarrow> extends d d' \<and>
     (\<forall>(pb, p)\<in>set ws. piece_end p \<le> length (dk_data d') \<and> slice (dk_data d') (tp_storage_offset p) (tp_byte_length p) = pb_bytes pb)"

lemma wp_write_pieces:
  assumes "settled sha acked (st_published st) es d" and "es \<noteq> []" and "length (dk_data d) \<le> start" and "start \<le> stop" and "stop + 4095 < 2 ^ 64"
    and "list_all2 (placed sha start stop) pbs ps" and "sorted_wrt (\<lambda>p q. piece_end p \<le> tp_storage_offset q) ps"
    and "\<And>d'. settled sha acked (st_published st) es d' \<Longrightarrow> pieces_written d (zip pbs ps) d' \<Longrightarrow> length (dk_data d') \<le> stop \<Longrightarrow> Q () (st, d')"
  shows "wp (for_each (zip pbs ps) (write_piece io)) Q (failed io failpoint sha acked) (st, d)"
proof (rule wp_for_each [where I = "\<lambda>ws (st', d'). st' = st \<and> pieces_written d ws d' \<and> length (dk_data d') \<le> stop"], goal_cases start step stop)
  case start
  then show ?case
    using assms(1,3,4) by (auto simp: pieces_written_def extends_def settled_def)
next
  case (step pre x rest s)
  obtain pb p where x: "x = (pb, p)"
    by (cases x)
  obtain d' where s: "s = (st, d')" "pieces_written d pre d'" "length (dk_data d') \<le> stop"
    using step(2) by (cases s) auto
  let ?i = "length pre"
  have len: "?i < length pbs" "?i < length ps"
    using arg_cong [OF step(1), of length] list_all2_lengthD [OF assms(6)] by simp_all
  moreover have "zip pbs ps ! ?i = (pb, p)"
    using step(1) x by simp
  ultimately have i: "?i < length ps" "?i < length pbs" "ps ! ?i = p" "pbs ! ?i = pb"
    by simp_all
  then have pl: "placed sha start stop pb p"
    using assms(6) by (auto simp: list_all2_conv_all_nth)
  have before: "piece_end q \<le> tp_storage_offset p" if "(qb, q) \<in> set pre" for qb q
  proof -
    obtain j where j: "j < length pre" "pre ! j = (qb, q)"
      using \<open>(qb, q) \<in> set pre\<close> by (auto simp: in_set_conv_nth)
    then have "zip pbs ps ! j = (qb, q)"
      using step(1) by (simp add: nth_append)
    then have "ps ! j = q"
      using j(1) i(1,2) by simp
    then show ?thesis
      using assms(7) j(1) i(1,3) by (auto simp: sorted_wrt_iff_nth_less)
  qed
  have safe: "settled sha acked (st_published st) es (apply_op (Write_Data (tp_storage_offset p) bs) (d'\<lparr>dk_operations := n\<rparr>))"
    if "length bs \<le> tp_byte_length p" for bs n
  proof (rule extends_settled [OF assms(1) _ assms(2)])
    show "extends d (apply_op (Write_Data (tp_storage_offset p) bs) (d'\<lparr>dk_operations := n\<rparr>))"
      using s(2) pl assms(1,3) by (intro extends_write) (auto simp: pieces_written_def placed_def settled_def)
    show "length (dk_data (apply_op (Write_Data (tp_storage_offset p) bs) (d'\<lparr>dk_operations := n\<rparr>))) + 4095 < 2 ^ 64"
      using that s(3) pl assms(5) by (auto simp: length_write_at placed_def piece_end_def)
  qed
  have "wp (perform io (Write_Data (tp_storage_offset p) (pb_bytes pb)))
    (\<lambda>_ (st', d''). st' = st \<and> pieces_written d (pre @ [(pb, p)]) d'' \<and> length (dk_data d'') \<le> stop) (failed io failpoint sha acked) (st, d')"
  proof (rule wp_perform, goal_cases ok failed)
    case ok
    have old: "piece_end q \<le> length (dk_data d')" "slice (dk_data d') (tp_storage_offset q) (tp_byte_length q) = pb_bytes qb"
      if "(qb, q) \<in> set pre" for qb q
      using s(2) that by (auto simp: pieces_written_def)
    then have "slice (write_at (tp_storage_offset p) (pb_bytes pb) (dk_data d')) (tp_storage_offset q) (tp_byte_length q) = pb_bytes qb"
      if "(qb, q) \<in> set pre" for qb q
      using that before [OF that] by (subst slice_write_at_before) (auto simp: piece_end_def)
    moreover have "extends d (apply_op (Write_Data (tp_storage_offset p) (pb_bytes pb)) (d'\<lparr>dk_operations := Suc (dk_operations d')\<rparr>))"
      using s(2) pl assms(1,3) by (intro extends_write) (auto simp: pieces_written_def placed_def settled_def)
    ultimately show ?case
      using old(1) pl s(3) slice_write_at [of "tp_storage_offset p" "pb_bytes pb"]
      by (fastforce simp: pieces_written_def placed_def length_write_at piece_end_def)
  next
    case (failed k)
    then show ?case
      using safe [of "take k (pb_bytes pb)"] pl by (auto simp: placed_def intro!: failedI settled_abandoned)
  qed
  then show ?case
    by (simp add: s(1) x write_piece_def)
next
  case (stop s)
  then show ?case
    using assms(8) extends_settled [OF assms(1) _ assms(2)] assms(5) by (cases s) (auto simp: pieces_written_def)
qed

end
