(* ===== verification/Store_Publish.thy ===== *)
theory Store_Publish
  imports Store_Run
begin

text \<open>
  A publication as a whole: it keeps the invariant whether it succeeds or fails, and a page that it
  acknowledges is held by every catalog that can be recovered from then on.
\<close>

section \<open>The catalog with the new page\<close>

lemma stored_sync: "stored sha d p \<Longrightarrow> stored sha (apply_op Sync_Data (d\<lparr>dk_operations := n\<rparr>)) p"
  by (simp add: stored_def) metis

lemma settled_sync:
  assumes "settled sha acked m es d"
  shows "settled sha acked m es (apply_op Sync_Data (d\<lparr>dk_operations := n\<rparr>))"
proof -
  let ?d = "apply_op Sync_Data (d\<lparr>dk_operations := n\<rparr>)"
  have cat: "catalog_ok sha ?d m'" if "catalog_ok sha d m'" for m'
    using that stored_sync by (rule catalog_ok_stored [rotated])
  then have "events_ok sha acked ?d es"
    using assms unfolding settled_def events_ok_def by blast
  then show ?thesis
    using assms cat by (simp add: settled_def)
qed

lemma written_stored:
  assumes "pieces_written d (zip pbs ps) d'" and "list_all2 (placed sha start stop) pbs ps" and "p \<in> set ps"
  shows "stored sha (apply_op Sync_Data (d'\<lparr>dk_operations := n\<rparr>)) p"
proof -
  obtain i where i: "i < length ps" "p = ps ! i"
    using assms(3) by (auto simp: in_set_conv_nth)
  then have "placed sha start stop (pbs ! i) p" "(pbs ! i, p) \<in> set (zip pbs ps)"
    using assms(2) by (auto simp: list_all2_conv_all_nth in_set_zip)
  then show ?thesis
    using assms(1) by (auto simp: stored_def placed_def pieces_written_def)
qed

lemma pieces_apart:
  assumes "sorted_wrt (\<lambda>p q. piece_end p \<le> tp_storage_offset q) ps" and "p \<in> set ps" and "q \<in> set ps" and "p \<noteq> q"
  shows "apart (tp_storage_offset p) (piece_end p) (tp_storage_offset q) (piece_end q)"
proof -
  obtain i j where "i < length ps" "j < length ps" "p = ps ! i" "q = ps ! j" "i \<noteq> j"
    using assms(2-4) by (metis in_set_conv_nth)
  then show ?thesis
    using assms(1) by (cases "i < j") (auto simp: apart_def sorted_wrt_iff_nth_less)
qed

lemma new_catalog_ok:
  assumes "catalog_ok sha d m" and "record_fits (tr_page_key r) r" and "\<And>p. p \<in> set (tr_pieces r) \<Longrightarrow> stored sha d p"
    and "\<And>k p. (k, p) \<in> catalog_pieces m \<Longrightarrow> piece_end p \<le> start" and "\<And>p. p \<in> set (tr_pieces r) \<Longrightarrow> start \<le> tp_storage_offset p"
    and "sorted_wrt (\<lambda>p q. piece_end p \<le> tp_storage_offset q) (tr_pieces r)"
  shows "catalog_ok sha d (fmupd (tr_page_key r) r m)"
proof -
  have new: "k = tr_page_key r \<and> p \<in> set (tr_pieces r) \<or> (k, p) \<in> catalog_pieces m"
    if "(k, p) \<in> catalog_pieces (fmupd (tr_page_key r) r m)" for k p
    using that by (auto simp: catalog_pieces_def split: if_splits)
  have "apart (tp_storage_offset p) (piece_end p) (tp_storage_offset q) (piece_end q)"
    if p: "(k, p) \<in> catalog_pieces (fmupd (tr_page_key r) r m)" and q: "(l, q) \<in> catalog_pieces (fmupd (tr_page_key r) r m)"
      and ne: "(k, tp_piece p) \<noteq> (l, tp_piece q)" for k p l q
  proof -
    have old: "apart (tp_storage_offset p) (piece_end p) (tp_storage_offset q) (piece_end q)"
      if "(k, p) \<in> catalog_pieces m" "(l, q) \<in> catalog_pieces m"
      using assms(1) that ne unfolding catalog_ok_def by blast
    show ?thesis
      using new [OF p] new [OF q] ne old pieces_apart [OF assms(6), of p q] assms(4,5) by (fastforce simp: apart_def)
  qed
  moreover have "stored sha d p" if "(k, p) \<in> catalog_pieces (fmupd (tr_page_key r) r m)" for k p
    using new [OF that] assms(1,3) by (auto simp: catalog_ok_def)
  moreover have "record_fits k e" if "fmlookup (fmupd (tr_page_key r) r m) k = Some e" for k e
    using that assms(1,2) by (auto simp: catalog_ok_def split: if_splits)
  ultimately show ?thesis
    unfolding catalog_ok_def by blast
qed

lemma wp_sync_pieces:
  assumes "settled sha acked (st_published st) es d" and "settled sha acked (st_published st) es d'" and "pieces_written d (zip pbs (tr_pieces r)) d'"
    and "length (dk_data d) \<le> start" and "list_all2 (placed sha start stop) pbs (tr_pieces r)"
    and "sorted_wrt (\<lambda>p q. piece_end p \<le> tp_storage_offset q) (tr_pieces r)" and "record_fits (tr_page_key r) r"
    and "\<And>d''. settled sha acked (st_published st) es d'' \<Longrightarrow> catalog_ok sha d'' (fmupd (tr_page_key r) r (st_published st)) \<Longrightarrow>
      dk_synced_data d'' = dk_data d'' \<Longrightarrow> dk_data d'' = dk_data d' \<Longrightarrow> Q () (st, d'')"
  shows "wp (perform io Sync_Data) Q (failed io failpoint sha acked) (st, d')"
proof (rule wp_perform, goal_cases ok failed)
  case ok
  let ?d = "apply_op Sync_Data (d'\<lparr>dk_operations := Suc (dk_operations d')\<rparr>)"
  have settled: "settled sha acked (st_published st) es ?d"
    by (rule settled_sync [OF assms(2)])
  have "catalog_ok sha ?d (fmupd (tr_page_key r) r (st_published st))"
  proof (rule new_catalog_ok [where start = start])
    show "catalog_ok sha ?d (st_published st)"
      using settled by (simp add: settled_def)
    show "stored sha ?d p" if "p \<in> set (tr_pieces r)" for p
      using written_stored [OF assms(3,5) that] .
    show "piece_end p \<le> start" if "(k, p) \<in> catalog_pieces (st_published st)" for k p
      using assms(1,4) that by (auto simp: settled_def catalog_ok_def stored_def)
    show "start \<le> tp_storage_offset p" if "p \<in> set (tr_pieces r)" for p
      using assms(5) that by (auto simp: list_all2_conv_all_nth placed_def in_set_conv_nth)
  qed (rule assms(6,7))+
  then show ?case
    using settled by (intro assms(8)) simp_all
next
  case (failed k)
  have "settled sha acked (st_published st) es (d'\<lparr>dk_operations := Suc (dk_operations d')\<rparr>)"
    using assms(2) same_data_def catalog_ok_same [of d' "d'\<lparr>dk_operations := Suc (dk_operations d')\<rparr>"]
      events_ok_same [of d' "d'\<lparr>dk_operations := Suc (dk_operations d')\<rparr>"] by (simp add: settled_def same_data_def)
  then show ?case
    using failed by (auto intro!: failedI settled_abandoned)
qed

section \<open>The events of a publication\<close>

definition opened :: "journal_event list \<Rightarrow> nat \<Rightarrow> tier_record \<Rightarrow> tier_piece_record list \<Rightarrow> journal_event list" where
  "opened es u r ps = es @ Begin (Suc u) r # map (piece_event (Suc u)) ps"

lemma opened_snoc: "opened es u r (ps @ [p]) = opened es u r ps @ [PieceDurable (Suc u) (tp_piece p) (tp_sha256 p)]"
  by (simp add: opened_def piece_event_def)

lemma opened_not_Nil [simp]: "opened es u r ps \<noteq> []"
  by (simp add: opened_def)

text \<open>A journal from which a transaction may be opened for the record.\<close>

definition may_open :: "(8 word list \<Rightarrow> hash32) \<Rightarrow> durable_page_request set \<Rightarrow> (hash32, tier_record) fmap \<Rightarrow> journal_event list \<Rightarrow> nat \<Rightarrow>
    tier_record \<Rightarrow> bool" where
  "may_open sha acked m es u r \<longleftrightarrow> (\<forall>e\<in>set es. event_typed e) \<and> in_sequence 0 es = Some u \<and> Suc u + 1 < 2 ^ 64 \<and>
     recover_events es = Inr m \<and> (\<forall>q\<in>acked. holds sha m q) \<and> record_typed r \<and> validate_record r = Inr () \<and> tr_tier r = Nvme \<and> replaces m r"

lemma opened_typed:
  assumes "may_open sha acked m es u r" and "ps @ rest = tr_pieces r"
  shows "\<forall>e\<in>set (opened es u r ps). event_typed e"
proof -
  have "piece_typed p" if "p \<in> set ps" for p
    using assms that unfolding may_open_def record_typed_def by (metis UnCI set_append)
  then show ?thesis
    using assms(1) by (auto simp: opened_def may_open_def piece_event_def piece_typed_def)
qed

lemma opened_in_sequence: "in_sequence 0 es = Some u \<Longrightarrow> in_sequence 0 (opened es u r ps) = Some (Suc u)"
  by (induction ps rule: rev_induct) (simp_all add: opened_snoc in_sequence_append, simp add: opened_def in_sequence_append)

lemma opened_events_ok:
  assumes "may_open sha acked m es u r" and "ps @ rest = tr_pieces r" and "catalog_ok sha d m"
  shows "events_ok sha acked d (opened es u r ps)"
  unfolding events_ok_def
proof (intro conjI exI)
  show "\<forall>e\<in>set (opened es u r ps). event_typed e"
    by (rule opened_typed [OF assms(1,2)])
  show "in_sequence 0 (opened es u r ps) = Some (Suc u)"
    using assms(1) by (intro opened_in_sequence) (simp add: may_open_def)
  show "recover_events (opened es u r ps) = Inr m"
    using assms(1,2) recover_open_transaction(1) by (simp add: may_open_def opened_def)
qed (use assms in \<open>auto simp: may_open_def\<close>)

lemma published_events_ok:
  assumes "may_open sha acked m es u r" and "catalog_ok sha d (fmupd (tr_page_key r) r m)" 
    and "\<And>q. q \<in> acked' \<Longrightarrow> holds sha (fmupd (tr_page_key r) r m) q"
  shows "events_ok sha acked' d (opened es u r (tr_pieces r) @ [Publish (Suc u)])"
    and "recover_events (opened es u r (tr_pieces r) @ [Publish (Suc u)]) = Inr (fmupd (tr_page_key r) r m)"
    and "in_sequence 0 (opened es u r (tr_pieces r) @ [Publish (Suc u)]) = Some (Suc u)"
proof -
  have typed: "\<forall>e\<in>set (opened es u r (tr_pieces r)). event_typed e"
    using opened_typed [OF assms(1), of "tr_pieces r" "[]"] by simp
  have "recover_transaction (Suc u, r, fmempty, True) m = Inr (fmupd (tr_page_key r) r m)"
    using assms(1) by (auto simp: may_open_def replaces_def split: option.splits)
  then show rec: "recover_events (opened es u r (tr_pieces r) @ [Publish (Suc u)]) = Inr (fmupd (tr_page_key r) r m)"
    using assms(1) recover_open_transaction(2) [of es u m r "tr_pieces r" "[]"] by (simp add: may_open_def opened_def)
  have "in_sequence 0 (opened es u r (tr_pieces r)) = Some (Suc u)"
    using assms(1) by (intro opened_in_sequence) (simp add: may_open_def)
  then show "in_sequence 0 (opened es u r (tr_pieces r) @ [Publish (Suc u)]) = Some (Suc u)"
    by (simp add: in_sequence_append)
  then show "events_ok sha acked' d (opened es u r (tr_pieces r) @ [Publish (Suc u)])"
    using rec assms typed unfolding events_ok_def by (auto simp: may_open_def)
qed

lemma wp_journal_pieces:
  assumes "may_open sha acked (st_published st) es u r" and "settled sha acked (st_published st) (opened es u r []) d"
    and "st_journal st = journal_of (opened es u r []) n"
    and "\<And>d'. settled sha acked (st_published st) (opened es u r (tr_pieces r)) d' \<Longrightarrow> same_data d d' \<Longrightarrow>
      Q () (st\<lparr>st_journal := journal_of (opened es u r (tr_pieces r)) n\<rparr>, d')"
  shows "wp (for_each (enumerate 0 (tr_pieces r)) (journal_piece io failpoint (Suc u))) Q (failed io failpoint sha acked) (st, d)"
proof (rule wp_for_each [where I = "\<lambda>pre (st', d'). st' = st\<lparr>st_journal := journal_of (opened es u r (map snd pre)) n\<rparr> \<and>
    settled sha acked (st_published st) (opened es u r (map snd pre)) d' \<and> same_data d d'"], goal_cases start step stop)
  case start
  then show ?case
    using assms(2) assms(3) [symmetric] by (simp add: same_data_def)
next
  case (step pre x rest s)
  obtain ordinal p where x: "x = (ordinal, p)"
    by (cases x)
  let ?st = "st\<lparr>st_journal := journal_of (opened es u r (map snd pre)) n\<rparr>"
  let ?st' = "st\<lparr>st_journal := journal_of (opened es u r (map snd pre @ [p])) n\<rparr>"
  let ?e = "PieceDurable (Suc u) (tp_piece p) (tp_sha256 p)"
  obtain d' where s: "s = (?st, d')" "settled sha acked (st_published st) (opened es u r (map snd pre)) d'" "same_data d d'"
    using step(2) by (cases s) auto
  have split: "map snd pre @ p # map snd rest = tr_pieces r" "(map snd pre @ [p]) @ map snd rest = tr_pieces r"
    using arg_cong [OF step(1), of "map snd"] x by simp_all
  have journal: "piece_durable (Suc u) (tp_piece p) (tp_sha256 p) (st_journal ?st) = (Inr (), st_journal ?st')"
    using assms(1) split(1) piece_journal [of es u r "map snd pre" p "map snd rest"] by (simp add: may_open_def opened_def)
  have typed: "event_typed ?e"
    using opened_typed [OF assms(1) split(2)] by (simp add: opened_snoc)
  have ok: "events_ok sha acked d' (opened es u r (map snd pre) @ [?e])"
    using opened_events_ok [OF assms(1) split(2), of d'] s(2) by (simp add: opened_snoc settled_def)
  have "wp (journal_synced io ?e) (\<lambda>_. wp (give (if ordinal = 0 \<and> failpoint = Some FirstPieceJournaled then Inl (Err InjectedCrash) else Inr ()))
      (\<lambda>_ (st', d'). st' = ?st' \<and> settled sha acked (st_published st) (opened es u r (map snd pre @ [p])) d' \<and> same_data d d')
      (failed io failpoint sha acked)) (failed io failpoint sha acked) (?st', d')"
  proof (rule wp_journal_synced [OF _ typed ok], goal_cases before after)
    case before
    then show ?case using s(2) by simp
  next
    case (after d'')
    then have "settled sha acked (st_published ?st') (opened es u r (map snd pre @ [p])) d''"
      by (simp add: opened_snoc)
    then show ?case
      using after s(3) settled_abandoned [of sha acked ?st' _ d''] by (auto simp: wp_give same_data_def failed_def)
  qed
  then show ?case
    by (simp add: x s(1) journal_piece_def wp_and_then wp_with_journal [where st = ?st and f = "piece_durable (Suc u) (tp_piece p) (tp_sha256 p)", OF journal])
next
  case (stop s)
  then show ?case
    using assms(4) by (cases s) simp
qed

section \<open>Publishing\<close>

lemma settled_store_ok:
  assumes "settled sha acked (st_published st) es d" and "live st d"
  shows "store_ok sha acked (st, d)"
  using assms settled_disk_ok [OF assms(1)] by (simp add: store_ok_def settled_def)

lemma published_store_ok:
  assumes "may_open sha acked m es u r" and "describes sha r q"
    and "settled sha acked m (opened es u r (tr_pieces r) @ [Publish (Suc u)]) d" and "catalog_ok sha d (fmupd (tr_page_key r) r m)"
    and "dk_synced_data d = dk_data d" and "length (dk_data d) \<le> st_next_data_offset st" and "st_next_data_offset st + 4095 < 2 ^ 64"
    and "st_published st = fmupd (tr_page_key r) r m" and "st_next_transaction st = Suc u + 1"
    and "st_journal st = journal_of (opened es u r (tr_pieces r) @ [Publish (Suc u)]) (Suc u + 1)"
  shows "store_ok sha (insert q acked) (st, d)"
proof -
  let ?m = "fmupd (tr_page_key r) r m" and ?es = "opened es u r (tr_pieces r) @ [Publish (Suc u)]"
  have fits: "\<forall>k r. fmlookup m k = Some r \<longrightarrow> record_fits k r"
    using assms(3) by (simp add: settled_def catalog_ok_def)
  have held: "holds sha ?m q'" if "q' \<in> insert q acked" for q'
  proof (cases "q' = q")
    case True
    then show ?thesis
      using assms(2) by (auto simp: holds_def describes_def)
  next
    case False
    then show ?thesis
      using that assms(1) by (intro holds_kept [OF fits]) (auto simp: may_open_def)
  qed
  have pub: "events_ok sha (insert q acked) d ?es" "recover_events ?es = Inr ?m" "in_sequence 0 ?es = Some (Suc u)"
    by (rule published_events_ok [OF assms(1,4)]; rule held; assumption)+
  have "settled sha (insert q acked) (st_published st) ?es d"
    using assms(3,4,8) pub(1) held by (simp add: settled_def)
  moreover have "live st d"
    using assms(1,3,5-10) pub unfolding live_def events_ok_def
    by (intro conjI exI [of _ ?es] exI [of _ "Suc u"]) (auto simp: settled_def may_open_def)
  ultimately show ?thesis
    by (rule settled_store_ok)
qed

definition finish_publication :: "io_faults \<Rightarrow> write_failpoint option \<Rightarrow> nat \<Rightarrow> tier_record \<Rightarrow> nat \<Rightarrow> tier_record store_step" where
  "finish_publication io failpoint transaction r next_data_offset =
     and_then (for_each (enumerate 0 (tr_pieces r)) (journal_piece io failpoint transaction)) (\<lambda>_.
     and_then (with_journal (publish transaction)) (\<lambda>_.
     and_then (journal_synced io (Publish transaction)) (\<lambda>_.
     and_then (write_store (\<lambda>st. st\<lparr>st_next_data_offset := next_data_offset,
         st_published := fmupd (tr_page_key r) r (st_published st)\<rparr>)) (\<lambda>_.
       give (Inr r)))))"

lemma wp_finish_publication:
  assumes "may_open sha acked (st_published st) es u r" and "describes sha r q"
    and "settled sha acked (st_published st) (opened es u r []) d" and "catalog_ok sha d (fmupd (tr_page_key r) r (st_published st))"
    and "dk_synced_data d = dk_data d" and "length (dk_data d) \<le> off" and "off + 4095 < 2 ^ 64"
    and "st_journal st = journal_of (opened es u r []) (Suc u + 1)" and "st_next_transaction st = Suc u + 1"
  shows "wp (finish_publication io failpoint (Suc u) r off) (\<lambda>_. store_ok sha (insert q acked)) (failed io failpoint sha acked) (st, d)"
  unfolding finish_publication_def wp_and_then
proof (rule wp_journal_pieces [OF assms(1,3,8)])
  fix d1
  assume d1: "settled sha acked (st_published st) (opened es u r (tr_pieces r)) d1" "same_data d d1"
  let ?es = "opened es u r (tr_pieces r)"
  let ?st = "st\<lparr>st_journal := journal_of ?es (Suc u + 1)\<rparr>" and ?st' = "st\<lparr>st_journal := journal_of (?es @ [Publish (Suc u)]) (Suc u + 1)\<rparr>"
  have journal: "publish (Suc u) (st_journal ?st) = (Inr (), st_journal ?st')"
    using assms(1) publish_journal [of es u r] by (simp add: may_open_def opened_def)
  have cat: "catalog_ok sha d1 (fmupd (tr_page_key r) r (st_published st))"
    using assms(4) catalog_ok_same [OF d1(2)] by simp
  have fits: "\<forall>k r. fmlookup (st_published st) k = Some r \<longrightarrow> record_fits k r"
    using assms(3) by (simp add: settled_def catalog_ok_def)
  have ok: "events_ok sha acked d1 (?es @ [Publish (Suc u)])"
    using assms(1) by (intro published_events_ok [OF assms(1) cat] holds_kept [OF fits]) (auto simp: may_open_def)
  have "wp (journal_synced io (Publish (Suc u))) (\<lambda>_ (st', d'). store_ok sha (insert q acked)
      (st'\<lparr>st_next_data_offset := off, st_published := fmupd (tr_page_key r) r (st_published st')\<rparr>, d')) (failed io failpoint sha acked) (?st', d1)"
  proof (rule wp_journal_synced [OF _ _ ok], goal_cases before typed after)
    case before
    then show ?case using d1(1) by simp
  next
    case typed
    then show ?case using assms(1) by (simp add: may_open_def)
  next
    case (after d2)
    have same: "same_data d d2"
      using after(2) d1(2) by (simp add: same_data_def)
    then have "catalog_ok sha d2 (fmupd (tr_page_key r) r (st_published st))" "dk_data d2 = dk_data d" "dk_synced_data d2 = dk_data d2"
      using assms(4,5) catalog_ok_same [OF same] by (simp_all add: same_data_def)
    then have "store_ok sha (insert q acked) (?st'\<lparr>st_next_data_offset := off, st_published := fmupd (tr_page_key r) r (st_published ?st')\<rparr>, d2)"
      using after(1) assms(6,7,9) by (intro published_store_ok [OF assms(1,2)]) simp_all
    then show ?case by simp
  qed
  then have synced: "wp (journal_synced io (Publish (Suc u))) (\<lambda>x. wp (write_store (\<lambda>st. st\<lparr>st_next_data_offset := off,
      st_published := fmupd (tr_page_key r) r (st_published st)\<rparr>)) (\<lambda>x. wp (give (Inr r)) (\<lambda>_. store_ok sha (insert q acked)) (failed io failpoint sha acked))
      (failed io failpoint sha acked)) (failed io failpoint sha acked) (?st', d1)"
    by (rule wp_mono) (auto simp: wp_write_store wp_give)
  then show "wp (with_journal (publish (Suc u))) (\<lambda>x. wp (journal_synced io (Publish (Suc u))) (\<lambda>x. wp (write_store (\<lambda>st. st\<lparr>st_next_data_offset := off,
      st_published := fmupd (tr_page_key r) r (st_published st)\<rparr>)) (\<lambda>x. wp (give (Inr r)) (\<lambda>_. store_ok sha (insert q acked)) (failed io failpoint sha acked))
      (failed io failpoint sha acked)) (failed io failpoint sha acked)) (failed io failpoint sha acked) (?st, d1)"
    by (subst wp_with_journal [where st = ?st and f = "publish (Suc u)", OF journal]) simp
qed

definition write_and_finish :: "io_faults \<Rightarrow> write_failpoint option \<Rightarrow> nat \<Rightarrow> page_piece_bytes list \<Rightarrow> tier_record \<Rightarrow> nat \<Rightarrow>
    tier_record store_step" where
  "write_and_finish io failpoint transaction pieces r next_data_offset =
     and_then (for_each (zip pieces (tr_pieces r)) (write_piece io)) (\<lambda>_.
     and_then (perform io Sync_Data) (\<lambda>_.
     and_then (give (ensure (failpoint \<noteq> Some DataSynced) InjectedCrash)) (\<lambda>_.
       finish_publication io failpoint transaction r next_data_offset)))"

lemma publish_prevalidated_eq:
  "publish_prevalidated io failpoint pieces r next_data_offset =
     and_then (read_store st_next_transaction) (\<lambda>transaction.
     and_then (give (ok_or (checked_add 64 transaction 1) Overflow)) (\<lambda>next_transaction.
     and_then (with_journal (begin_transaction r)) (\<lambda>in_memory_transaction.
     and_then (give (ensure (in_memory_transaction = transaction) JournalSequence)) (\<lambda>_.
     and_then (write_store (\<lambda>st. st\<lparr>st_next_transaction := next_transaction\<rparr>)) (\<lambda>_.
     and_then (journal_synced io (Begin transaction r)) (\<lambda>_.
     and_then (give (ensure (failpoint \<noteq> Some BeginJournaled) InjectedCrash)) (\<lambda>_.
       write_and_finish io failpoint transaction pieces r next_data_offset)))))))"
  by (simp add: publish_prevalidated_def finish_publication_def write_and_finish_def)

lemma wp_write_and_finish:
  assumes "may_open sha acked (st_published st) es u r" and "describes sha r q"
    and "settled sha acked (st_published st) (opened es u r []) d" and "length (dk_data d) \<le> start" and "start \<le> off"
    and "off + 4095 < 2 ^ 64" and "list_all2 (placed sha start off) pbs (tr_pieces r)"
    and "sorted_wrt (\<lambda>p q. piece_end p \<le> tp_storage_offset q) (tr_pieces r)"
    and "st_journal st = journal_of (opened es u r []) (Suc u + 1)" and "st_next_transaction st = Suc u + 1"
  shows "wp (write_and_finish io failpoint (Suc u) pbs r off) (\<lambda>_. store_ok sha (insert q acked)) (failed io failpoint sha acked) (st, d)"
  unfolding write_and_finish_def wp_and_then wp_ensure
proof (rule wp_write_pieces [OF assms(3) opened_not_Nil assms(4-8)])
  fix d1
  assume d1: "settled sha acked (st_published st) (opened es u r []) d1" "pieces_written d (zip pbs (tr_pieces r)) d1" "length (dk_data d1) \<le> off"
  have fits: "record_fits (tr_page_key r) r"
    using assms(1) by (simp add: record_fits_def may_open_def)
  show "wp (perform io Sync_Data) (\<lambda>_ s. if failpoint \<noteq> Some DataSynced
      then wp (finish_publication io failpoint (Suc u) r off) (\<lambda>_. store_ok sha (insert q acked)) (failed io failpoint sha acked) s
      else failed io failpoint sha acked s) (failed io failpoint sha acked) (st, d1)"
  proof (rule wp_sync_pieces [OF assms(3) d1(1,2) assms(4,7,8) fits])
    fix d2
    assume d2: "settled sha acked (st_published st) (opened es u r []) d2" "catalog_ok sha d2 (fmupd (tr_page_key r) r (st_published st))"
      "dk_synced_data d2 = dk_data d2" "dk_data d2 = dk_data d1"
    then show "if failpoint \<noteq> Some DataSynced
        then wp (finish_publication io failpoint (Suc u) r off) (\<lambda>_. store_ok sha (insert q acked)) (failed io failpoint sha acked) (st, d2)
        else failed io failpoint sha acked (st, d2)"
      using wp_finish_publication [OF assms(1,2) d2(1-3) _ assms(6,9,10)] d1(3) settled_abandoned [OF d2(1)] by (auto simp: failed_def)
  qed
qed

lemma wp_publish_prevalidated:
  assumes "settled sha acked (st_published st) es d" and "live st d" and "dk_journal d = frames es"
    and "st_journal st = journal_of es (Suc u)" and "st_next_transaction st = Suc u"
    and "\<forall>e\<in>set es. event_typed e" and "in_sequence 0 es = Some u" and "recover_events es = Inr (st_published st)"
    and "record_typed r" and "validate_record r = Inr ()" and "replaces (st_published st) r" and "describes sha r q"
    and "list_all2 (placed sha (st_next_data_offset st) off) pbs (tr_pieces r)" and "st_next_data_offset st \<le> off" and "off + 4095 < 2 ^ 64"
    and "sorted_wrt (\<lambda>p q. piece_end p \<le> tp_storage_offset q) (tr_pieces r)" and "tr_tier r = Nvme" and "Suc u + 1 < 2 ^ 64"
  shows "wp (publish_prevalidated io failpoint pbs r off) (\<lambda>_. store_ok sha (insert q acked)) (failed io failpoint sha acked) (st, d)"
proof -
  have may: "may_open sha acked (st_published st) es u r"
    using assms(1,6-11,17,18) by (simp add: may_open_def settled_def)
  let ?st = "st\<lparr>st_journal := journal_of (opened es u r []) (Suc (Suc u))\<rparr>"
  let ?st' = "?st\<lparr>st_next_transaction := Suc (Suc u)\<rparr>"
  have add: "checked_add 64 (Suc u) (Suc 0) = Some (Suc (Suc u))"
    using assms(18) by (simp add: checked_add_def)
  have journal: "begin_transaction r (st_journal st) = (Inr (Suc u), st_journal ?st)"
    using begin_journal [OF assms(10,18), of es] assms(4) by (simp add: opened_def)
  have ok: "events_ok sha acked d (es @ [Begin (Suc u) r])"
    using opened_events_ok [OF may, of "[]" "tr_pieces r" d] assms(1) by (simp add: opened_def settled_def)
  have typed: "event_typed (Begin (Suc u) r)"
    using opened_typed [OF may, of "[]" "tr_pieces r"] by (simp add: opened_def)
  have synced: "wp (journal_synced io (Begin (Suc u) r)) (\<lambda>_. wp (and_then (give (ensure (failpoint \<noteq> Some BeginJournaled) InjectedCrash))
      (\<lambda>_. write_and_finish io failpoint (Suc u) pbs r off)) (\<lambda>_. store_ok sha (insert q acked)) (failed io failpoint sha acked)) (failed io failpoint sha acked) (?st', d)"
  proof (rule wp_journal_synced [OF _ typed ok], goal_cases before after)
    case before
    then show ?case using assms(1) by simp
  next
    case (after d1)
    then have d1: "settled sha acked (st_published ?st') (opened es u r []) d1"
      by (simp add: opened_def)
    have "length (dk_data d1) \<le> st_next_data_offset st"
      using after(2) assms(2) by (simp add: same_data_def live_def)
    moreover have "may_open sha acked (st_published ?st') es u r"
      using may by simp
    ultimately show ?case
      using wp_write_and_finish [OF _ assms(12) d1 _ assms(14,15,13,16)] settled_abandoned [OF d1] by (auto simp: wp_and_then wp_ensure failed_def)
  qed
  then show ?thesis
    by (simp add: publish_prevalidated_eq wp_and_then wp_read_store assms(5) add wp_with_journal [where f = "begin_transaction r" and st = st, OF journal]
        wp_ensure wp_write_store wp_give)
qed

lemma frames_Nil: "frames es = [] \<Longrightarrow> \<forall>e\<in>set es. event_typed e \<Longrightarrow> es = []"
  using frame_typed(2) [of "hd es"] by (cases es) (auto simp: frames_def)

lemma store_ok_settled:
  assumes "store_ok sha acked (st, d)" and "\<not> st_write_poisoned st"
  obtains es u where "settled sha acked (st_published st) es d" "live st d" "dk_journal d = frames es"
    "st_journal st = journal_of es (Suc u)" "st_next_transaction st = Suc u" "\<forall>e\<in>set es. event_typed e" "in_sequence 0 es = Some u"
    "recover_events es = Inr (st_published st)"
proof -
  have ok: "live st d" "disk_ok sha acked d" "catalog_ok sha d (st_published st)" "\<forall>q\<in>acked. holds sha (st_published st) q"
    using assms by (simp_all add: store_ok_def)
  obtain es u where es: "st_journal st = journal_of es (u + 1)" "st_next_transaction st = u + 1"
      "dk_journal d = frames es" "dk_synced_journal d = frames es" "dk_synced_data d = dk_data d"
      "\<forall>e\<in>set es. event_typed e" "in_sequence 0 es = Some u" "u + 1 < 2 ^ 64" "recover_events es = Inr (st_published st)"
    using ok(1) unfolding live_def by blast
  obtain es' where es': "dk_synced_journal d = frames es'" "es' = [] \<longrightarrow> dk_data d = []" "\<forall>e\<in>set es'. event_typed e"
    using ok(2) unfolding disk_ok_def events_ok_def by (metis append_Nil2 le0 take_0)
  have "es = [] \<longrightarrow> dk_data d = []"
    using es(4) es' frames_Nil [of es'] by (auto simp: frames_def)
  moreover have "events_ok sha acked d es"
    using es ok unfolding events_ok_def by blast
  ultimately have "settled sha acked (st_published st) es d"
    using es ok by (simp add: settled_def disk_ok_def)
  then show ?thesis
    using that [of es u] es ok(1) by simp
qed

lemma abandoned_poisoned: "abandoned sha acked (st, d) \<Longrightarrow> store_ok sha acked (st\<lparr>st_write_poisoned := True\<rparr>, d)"
  by (simp add: abandoned_def store_ok_def)

lemma publish_planned:
  assumes "store_ok sha acked (st, d)" and "request_typed q" and "\<And>x. length (sha x) = 32"
    and "plan_publication sha q st = Inr (Inr (pbs, r, off))"
  shows "wp (publish_prevalidated io failpoint pbs r off) (\<lambda>_. store_ok sha (insert q acked)) (abandoned sha acked) (st, d)"
    and "st_next_transaction st + 1 < 2 ^ 64 \<Longrightarrow>
      wp (publish_prevalidated io failpoint pbs r off) (\<lambda>_. store_ok sha (insert q acked)) (failed io failpoint sha acked) (st, d)"
proof -
  have "\<not> st_write_poisoned st"
    using assms(4) by (auto simp: plan_publication_def)
  then obtain es u where es: "settled sha acked (st_published st) es d" "live st d" "dk_journal d = frames es"
      "st_journal st = journal_of es (Suc u)" "st_next_transaction st = Suc u" "\<forall>e\<in>set es. event_typed e" "in_sequence 0 es = Some u"
      "recover_events es = Inr (st_published st)"
    by (rule store_ok_settled [OF assms(1)])
  have "st_next_data_offset st < 2 ^ 64"
    using es(2) by (simp add: live_def)
  note plan = plan_new_record [OF assms(4,2,3) this]
  note run = wp_publish_prevalidated [OF es plan(3,4,9) placed_describes [OF plan(6,5,1,2)] plan(6,10,8,7,11)]
  show "wp (publish_prevalidated io failpoint pbs r off) (\<lambda>_. store_ok sha (insert q acked)) (failed io failpoint sha acked) (st, d)"
    if "st_next_transaction st + 1 < 2 ^ 64"
    using run that es(5) by simp
  show "wp (publish_prevalidated io failpoint pbs r off) (\<lambda>_. store_ok sha (insert q acked)) (abandoned sha acked) (st, d)"
  proof (cases "Suc u + 1 < 2 ^ 64")
    case True
    then show ?thesis
      using run [of io failpoint] by (auto simp: wp_def failed_def split: prod.splits sum.splits)
  next
    case False
    then have "checked_add 64 (Suc u) (Suc 0) = None"
      by (simp add: checked_add_def)
    then show ?thesis
      using settled_abandoned [OF es(1)] es(5)
      by (simp add: publish_prevalidated_def wp_and_then wp_read_store wp_give ok_or_def)
  qed
qed

lemma publish_retained:
  assumes "store_ok sha acked (st, d)" and "plan_publication sha q st = Inr (Inl e)"
  shows "store_ok sha (insert q acked) (st, d)"
proof -
  have "\<not> st_write_poisoned st"
    using assms(2) by (auto simp: plan_publication_def)
  then obtain es u where es: "settled sha acked (st_published st) es d" "live st d" "recover_events es = Inr (st_published st)"
    using store_ok_settled [OF assms(1)] by metis
  have "holds sha (st_published st) q"
    using es(1,2) by (intro plan_duplicate [OF assms(2)]) (simp_all add: live_def settled_def catalog_ok_def)
  then have "settled sha (insert q acked) (st_published st) es d"
    using es(1,3) by (auto simp: settled_def events_ok_def)
  then show ?thesis
    using es(2) by (rule settled_store_ok)
qed

lemma store_publish_cases:
  "store_publish_inner sha io failpoint q (st, d) = (case plan_publication sha q st of
      Inl e \<Rightarrow> (Inl e, st, d) | Inr (Inl e) \<Rightarrow> (Inr e, st, d)
    | Inr (Inr (pbs, r, off)) \<Rightarrow> poison_on_error (publish_prevalidated io failpoint pbs r off) (st, d))"
  by (auto simp: store_publish_inner_def and_then_def read_store_def give_def split: sum.splits)

text \<open>Without a fault of the disk, what can be planned is published.\<close>

lemma publish_succeeds:
  assumes "store_ok sha acked (st, d)" and "request_typed q" and "\<And>x. length (sha x) = 32"
    and "plan_publication sha q st = Inr plan" and "st_next_transaction st + 1 < 2 ^ 64"
  shows "\<exists>r s'. store_publish sha (\<lambda>_. None) q (st, d) = (Inr r, s')"
proof (cases plan)
  case (Inl e)
  then show ?thesis
    using assms(4) by (simp add: store_publish_def store_publish_cases)
next
  case (Inr p)
  then obtain pbs r off where "plan_publication sha q st = Inr (Inr (pbs, r, off))"
    using assms(4) by (cases p) auto
  then show ?thesis
    using publish_planned(2) [OF assms(1-3), of pbs r off "\<lambda>_. None" None] assms(5)
    by (auto simp: store_publish_def store_publish_cases wp_def failed_def poison_on_error_def split: prod.splits sum.splits)
qed

lemma publish_keeps:
  assumes "store_ok sha acked s" and "request_typed q" and "\<And>x. length (sha x) = 32"
    and "store_publish_inner sha io failpoint q s = (result, s')"
  shows "store_ok sha (case result of Inl _ \<Rightarrow> acked | Inr _ \<Rightarrow> insert q acked) s'"
proof -
  obtain st d where s: "s = (st, d)"
    by (cases s)
  note inner = store_publish_cases [of sha io failpoint q st d, folded s]
  show ?thesis
  proof (cases "plan_publication sha q st")
    case (Inl e)
    then show ?thesis
      using assms(1,4) inner by auto
  next
    case (Inr plan)
    show ?thesis
    proof (cases plan)
      case (Inl e)
      then show ?thesis
        using assms(1,4) inner Inr publish_retained [of sha acked st d q e] s by auto
    next
      case new: (Inr p)
      obtain pbs r off where p: "p = (pbs, r, off)"
        by (cases p)
      obtain r' st' d' where run: "publish_prevalidated io failpoint pbs r off s = (r', st', d')"
        by (metis prod.exhaust)
      have "wp (publish_prevalidated io failpoint pbs r off) (\<lambda>_. store_ok sha (insert q acked)) (abandoned sha acked) s"
        using publish_planned(1) [OF assms(1) [unfolded s] assms(2,3)] Inr new p s by blast
      then show ?thesis
        using assms(4) inner Inr new p run abandoned_poisoned
        by (auto simp: wp_def poison_on_error_def split: sum.splits)
    qed
  qed
qed

end
