(* ===== verification/Store_Props.thy ===== *)
theory Store_Props
  imports Store_Publish
begin

text \<open>
  What the durable tier promises across failed writes and crashes: acknowledged pages are restored, the store can
  be opened again, and nothing that is published is ever found damaged.
\<close>

section \<open>Runs\<close>

text \<open>
  The states that a store may reach from an empty disk by publications, failed publications and crashes, with the requests
  that were acknowledged. Disk faults, failpoints and what a crash leaves are arbitrary at every step.
\<close>

definition empty_disk :: disk where
  "empty_disk = \<lparr>dk_data = [], dk_journal = [], dk_synced_data = [], dk_synced_journal = [], dk_operations = 0\<rparr>"

inductive reached :: "(8 word list \<Rightarrow> hash32) \<Rightarrow> file_tier_store \<times> disk \<Rightarrow> durable_page_request set \<Rightarrow> bool"
  for sha :: "8 word list \<Rightarrow> hash32" where
  created: "open_store False empty_disk = Inr s \<Longrightarrow> reached sha s {}"
| acknowledged: "reached sha s acked \<Longrightarrow> request_typed q \<Longrightarrow> store_publish_inner sha io failpoint q s = (Inr r, s') \<Longrightarrow>
    reached sha s' (insert q acked)"
| refused: "reached sha s acked \<Longrightarrow> request_typed q \<Longrightarrow> store_publish_inner sha io failpoint q s = (Inl e, s') \<Longrightarrow> reached sha s' acked"
| crashed: "reached sha (st, d) acked \<Longrightarrow> survives d d' \<Longrightarrow> open_store False d' = Inr s' \<Longrightarrow> reached sha s' acked"

lemma recover_nothing: "recover_events [] = Inr fmempty"
proof -
  have "entries_of (fmempty :: (nat, recovery_state) fmap) = []"
    by (simp add: entries_of_def keys_of_def sorted_list_of_fset.rep_eq)
  then show ?thesis
    by (simp add: recover_events_def replay_def)
qed

lemma empty_disk_ok: "disk_ok sha {} empty_disk"
proof -
  have "catalog_ok sha empty_disk fmempty"
    by (simp add: catalog_ok_def catalog_pieces_def)
  then have "events_ok sha {} empty_disk []"
    by (simp add: events_ok_def recover_nothing)
  then show ?thesis
    unfolding disk_ok_def by (intro conjI exI [of _ "[]"]) (simp_all add: empty_disk_def frames_def)
qed

lemma survives_refl: "dk_synced_journal d = dk_journal d \<Longrightarrow> dk_synced_data d = dk_data d \<Longrightarrow> survives d d"
  by (auto simp: survives_def)

lemma reopen_ok:
  assumes "disk_ok sha acked d" and "survives d d'" and "open_store False d' = Inr s"
  shows "store_ok sha acked s"
  using open_survivor [OF assms(1,2)] assms(3) by auto

lemma reached_ok:
  assumes "reached sha s acked" and "\<And>x. length (sha x) = 32"
  shows "store_ok sha acked s"
  using assms(1)
proof induction
  case (created s)
  show ?case
    by (rule reopen_ok [OF empty_disk_ok survives_refl created]) (simp_all add: empty_disk_def)
next
  case (acknowledged s acked q io failpoint r s')
  then show ?case
    using publish_keeps [OF acknowledged.IH acknowledged.hyps(2) assms(2) acknowledged.hyps(3)] by simp
next
  case (refused s acked q io failpoint e s')
  then show ?case
    using publish_keeps [OF refused.IH refused.hyps(2) assms(2) refused.hyps(3)] by simp
next
  case (crashed st d acked d' s')
  then show ?case
    by (intro reopen_ok [of sha acked d d']) (simp_all add: store_ok_def)
qed

section \<open>Restoring\<close>

lemma stored_reads:
  assumes "stored sha d p"
  shows "tp_storage_offset p + tp_byte_length p \<le> length (dk_data d)"
    and "sha (slice (dk_data d) (tp_storage_offset p) (tp_byte_length p)) = tp_sha256 p"
  using assms unfolding stored_def piece_end_def by blast+

lemma restore_pieces:
  assumes "\<forall>p\<in>set ps. stored sha d p \<and> piece_typed p" and "distinct (map tp_piece ps)"
  shows "\<exists>m'. rfold (restore_piece sha d) ps m = Inr m' \<and> (\<forall>k. k \<notin> tp_piece ` set ps \<longrightarrow> fmlookup m' k = fmlookup m k) \<and>
    (\<forall>p\<in>set ps. fmlookup m' (tp_piece p) = Some (slice (dk_data d) (tp_storage_offset p) (tp_byte_length p)))"
  using assms
proof (induction ps arbitrary: m)
  case Nil
  then show ?case by simp
next
  case (Cons p ps)
  let ?m = "fmupd (tp_piece p) (slice (dk_data d) (tp_storage_offset p) (tp_byte_length p)) m"
  have "restore_piece sha d p m = Inr ?m"
    using Cons.prems(1) stored_reads [of sha d p] by (simp add: restore_piece_def piece_typed_def try_uint_def Let_def not_less)
  moreover obtain m' where "rfold (restore_piece sha d) ps ?m = Inr m'" "\<forall>k. k \<notin> tp_piece ` set ps \<longrightarrow> fmlookup m' k = fmlookup ?m k"
      "\<forall>p\<in>set ps. fmlookup m' (tp_piece p) = Some (slice (dk_data d) (tp_storage_offset p) (tp_byte_length p))"
    using Cons.IH [of ?m] Cons.prems by auto
  ultimately show ?case
    using Cons.prems(2) by auto
qed

lemma restore_catalog:
  assumes "catalog_ok sha d m" and "fmlookup m key = Some r"
  shows "\<exists>pieces. restore_published sha d m key = Inr (Some \<lparr>rp_record = r, rp_pieces = pieces\<rparr>) \<and>
    (\<forall>p\<in>set (tr_pieces r). \<exists>bytes. fmlookup pieces (tp_piece p) = Some bytes \<and> sha bytes = tp_sha256 p)"
proof -
  have fits: "record_fits key r"
    using assms by (auto simp: catalog_ok_def)
  have stored: "stored sha d p" if "p \<in> set (tr_pieces r)" for p
    using assms that by (fastforce simp: catalog_ok_def catalog_pieces_def)
  have "\<exists>pieces. rfold (restore_piece sha d) (tr_pieces r) fmempty = Inr pieces \<and>
      (\<forall>p\<in>set (tr_pieces r). fmlookup pieces (tp_piece p) = Some (slice (dk_data d) (tp_storage_offset p) (tp_byte_length p)))"
    using restore_pieces [of "tr_pieces r" sha d fmempty] fits stored validate_record_distinct
    by (auto simp: record_fits_def record_typed_def)
  then show ?thesis
    using assms(2) stored_reads(2) [OF stored] by (auto simp: restore_published_def)
qed

text \<open>The page of a request, as it is given back.\<close>

definition page_of_request :: "(8 word list \<Rightarrow> hash32) \<Rightarrow> durable_page_request \<Rightarrow> restored_page \<Rightarrow> bool" where
  "page_of_request sha q page \<longleftrightarrow> tr_page_key (rp_record page) = dq_page_key q \<and> tr_namespace (rp_record page) = dq_namespace q \<and>
     (\<forall>pb\<in>set (dq_pieces q). \<exists>bytes. fmlookup (rp_pieces page) (pb_piece pb) = Some bytes \<and>
        (bytes = pb_bytes pb \<or> collides sha bytes (pb_bytes pb)))"

lemma restore_held:
  assumes "catalog_ok sha d m" and "holds sha m q"
  shows "\<exists>page. restore_published sha d m (dq_page_key q) = Inr (Some page) \<and> page_of_request sha q page"
proof -
  obtain r where r: "fmlookup m (dq_page_key q) = Some r" "tr_namespace r = dq_namespace q"
      "\<forall>pb\<in>set (dq_pieces q). \<exists>p\<in>set (tr_pieces r). tp_piece p = pb_piece pb \<and> tp_sha256 p = sha (pb_bytes pb)"
    using assms(2) by (auto simp: holds_def)
  obtain pieces where pieces: "restore_published sha d m (dq_page_key q) = Inr (Some \<lparr>rp_record = r, rp_pieces = pieces\<rparr>)"
      "\<forall>p\<in>set (tr_pieces r). \<exists>bytes. fmlookup pieces (tp_piece p) = Some bytes \<and> sha bytes = tp_sha256 p"
    using restore_catalog [OF assms(1) r(1)] by blast
  have "tr_page_key r = dq_page_key q"
    using assms(1) r(1) by (auto simp: catalog_ok_def record_fits_def)
  moreover have "\<exists>bytes. fmlookup pieces (pb_piece pb) = Some bytes \<and> (bytes = pb_bytes pb \<or> collides sha bytes (pb_bytes pb))"
    if "pb \<in> set (dq_pieces q)" for pb
  proof -
    obtain p where p: "p \<in> set (tr_pieces r)" "tp_piece p = pb_piece pb" "tp_sha256 p = sha (pb_bytes pb)"
      using r(3) \<open>pb \<in> set (dq_pieces q)\<close> by blast
    then show ?thesis
      using pieces(2) by (fastforce simp: collides_def)
  qed
  ultimately show ?thesis
    using pieces(1) r(2) by (intro exI [of _ "\<lparr>rp_record = r, rp_pieces = pieces\<rparr>"]) (simp add: page_of_request_def)
qed

section \<open>Crash safety\<close>




text \<open>
  (C34) A journal whose last record was torn by a crash is decoded to the events that were written in full, and the
  next transaction number follows the last one.
\<close>

theorem decode_torn_journal:
  assumes "\<forall>e\<in>set es. event_typed e" and "in_sequence 0 es = Some t" and "t + 1 < 2 ^ 64" and "k < 512"
    and "encode_journal_event torn = Inr bytes" and "rmap encode_journal_event es = Inr chunks"
  shows "decode_journal (concat chunks @ take k bytes) = Inr (es, t + 1)"
proof -
  have "chunks = map frame es"
    using assms(1,6) frame_typed(1) by (induction es arbitrary: chunks) (auto simp: result_simps)
  then show ?thesis
    using decode_frames [OF assms(1-3), of "take k bytes"] assms(4) by (simp add: frames_def)
qed

subsection \<open>A concrete run\<close>

definition sample_sha :: "8 word list \<Rightarrow> hash32" where
  "sample_sha bytes = take 32 (bytes @ replicate 32 7)"

definition sample_request :: durable_page_request where
  "sample_request = \<lparr>dq_namespace = replicate 32 1, dq_page_key = replicate 32 2, dq_generation = 1, dq_mtp = False,
     dq_pieces = [\<lparr>pb_piece = TargetKv, pb_bytes = replicate TARGET_KV_PAGE_BYTES 3\<rparr>,
       \<lparr>pb_piece = TargetIndexer, pb_bytes = replicate TARGET_INDEXER_PAGE_BYTES 4\<rparr>]\<rparr>"

definition sample_opened :: file_tier_store where
  "sample_opened = \<lparr>st_journal = \<lparr>tj_events = [], tj_next_transaction = 1\<rparr>, st_published = fmempty, st_next_transaction = 1,
     st_next_data_offset = 0, st_write_poisoned = False\<rparr>"

lemma sample_open: "open_store False empty_disk = Inr (sample_opened, empty_disk)"
proof -
  have "entries_of (fmempty :: (hash32, tier_record) fmap) = []"
    by (simp add: entries_of_def keys_of_def sorted_list_of_fset.rep_eq)
  then have "load_catalog empty_disk = Inr (journal_of [] 1, fmempty, 1)"
    using decode_frames [of "[]" 0 "[]"] from_events_eq [of "[]" 0 fmempty]
    by (simp add: load_catalog_def empty_disk_def recover_nothing validate_journal_data_presence_def validate_catalog_extents_def
        sort_by_def)
  then show ?thesis
    by (simp add: open_store_def align_up_def NVME_ALIGNMENT_def checked_add_def empty_disk_def sample_opened_def journal_of_def Let_def)
qed

lemma sample_sha_replicate: "sample_sha (replicate 1837056 3) = replicate 32 3" "sample_sha (replicate 177408 4) = replicate 32 4"
  by (simp_all add: sample_sha_def)

lemma sample_sha_length: "\<forall>x. length (sample_sha x) = 32"
  by (auto simp: sample_sha_def min_def)

lemma sample_plan: "\<exists>plan. plan_publication sample_sha sample_request sample_opened = Inr plan"
proof -
  have "rfold (place_piece sample_sha) [\<lparr>pb_piece = TargetKv, pb_bytes = replicate 1837056 3\<rparr>,
      \<lparr>pb_piece = TargetIndexer, pb_bytes = replicate 177408 4\<rparr>] ([], 0) =
    Inr ([\<lparr>tp_piece = TargetKv, tp_byte_length = 1837056, tp_storage_offset = 0, tp_sha256 = replicate 32 3\<rparr>,
      \<lparr>tp_piece = TargetIndexer, tp_byte_length = 177408, tp_storage_offset = 1839104, tp_sha256 = replicate 32 4\<rparr>], 2016512)"
    by (simp add: place_piece_def sample_sha_replicate align_up_def checked_add_def try_uint_def Let_def)
  then show ?thesis
    by (simp add: plan_publication_def sample_opened_def sample_request_def piece_rank_def Let_def published_already_def
        validate_record_def required_pieces_def validate_piece_def tier_alignment_def checked_add_def align_up_def zero_hash_def)
qed

lemma sample_store_run:
  obtains st d where "reached sample_sha (st, d) {sample_request}"
proof -
  have start: "reached sample_sha (sample_opened, empty_disk) {}"
    by (rule created [OF sample_open])
  have typed: "request_typed sample_request"
    by (simp add: request_typed_def sample_request_def)
  have len: "length (sample_sha x) = 32" for x
    using sample_sha_length by simp
  obtain plan where "plan_publication sample_sha sample_request sample_opened = Inr plan"
    using sample_plan by blast
  then obtain r s where "store_publish_inner sample_sha (\<lambda>_. None) None sample_request (sample_opened, empty_disk) = (Inr r, s)"
    using publish_succeeds [OF reached_ok [OF start len] typed len] by (auto simp: store_publish_def sample_opened_def)
  then have "reached sample_sha s {sample_request}"
    by (rule acknowledged [OF start typed])
  then show ?thesis
    using that by (cases s) blast
qed

lemma survives_everything:
  assumes "reached sample_sha (st, d) {sample_request}"
  shows "survives d (d\<lparr>dk_synced_journal := dk_journal d, dk_synced_data := dk_data d\<rparr>)"
proof -
  have "disk_ok sample_sha {sample_request} d"
    using reached_ok [OF assms] sample_sha_length by (simp add: store_ok_def)
  then have "length (dk_synced_journal d) \<le> length (dk_journal d)" "length (dk_synced_data d) \<le> length (dk_data d)"
    by (auto simp: disk_ok_def)
  then show ?thesis
    by (auto simp: survives_def intro!: exI [of _ "length (dk_journal d)"])
qed




definition sample_record :: tier_record where
  "sample_record = \<lparr>tr_namespace = replicate 32 1, tr_page_key = replicate 32 2, tr_generation = 1, tr_tier = Nvme, tr_mtp = False,
     tr_pieces = [\<lparr>tp_piece = TargetKv, tp_byte_length = 1837056, tp_storage_offset = 0, tp_sha256 = replicate 32 3\<rparr>,
       \<lparr>tp_piece = TargetIndexer, tp_byte_length = 177408, tp_storage_offset = 1839104, tp_sha256 = replicate 32 4\<rparr>]\<rparr>"

theorem decode_torn_journal_witness:
  "\<exists>bytes chunks. rmap encode_journal_event [Begin 1 sample_record] = Inr chunks \<and>
     encode_journal_event (PieceDurable 1 TargetKv (replicate 32 3)) = Inr bytes \<and>
     decode_journal (concat chunks @ take 100 bytes) = Inr ([Begin 1 sample_record], 2)"
proof -
  let ?e = "Begin 1 sample_record" and ?torn = "PieceDurable 1 TargetKv (replicate 32 3)"
  have typed: "event_typed ?e" "event_typed ?torn"
    by (simp_all add: sample_record_def record_typed_def piece_typed_def validate_record_def required_pieces_def validate_piece_def
        tier_alignment_def checked_add_def zero_hash_def)
  have chunks: "rmap encode_journal_event [?e] = Inr [frame ?e]"
    using frame_typed(1) [OF typed(1)] by simp
  have "in_sequence 0 [?e] = Some 1"
    by simp
  then have "decode_journal (concat [frame ?e] @ take 100 (frame ?torn)) = Inr ([?e], 1 + 1)"
    using typed(1) by (intro decode_torn_journal [OF _ _ _ _ frame_typed(1) [OF typed(2)] chunks]) simp_all
  then show ?thesis
    using chunks frame_typed(1) [OF typed(2)] by simp
qed

end
