(* ===== verification/Residency.thy ===== *)
theory Residency
  imports Store Page
begin

text \<open>
  \<open>crates/glm-cache/src/residency.rs\<close>: where the pages of the durable store are, in HBM, in DRAM or on NVMe only, with
  budgets, pins and eviction; and the quota of the restore service.

  Every operation of the manager checks everything before it changes anything, so it is a transaction over an inner
  computation. The memory of the service's threads is reduced to its quota word and its queue.
\<close>

section \<open>State\<close>

datatype residency = Hbm | Dram | Nvme | Restoring

datatype residency_error = Config | Record | Request | Missing | State | Stale | Pinned | Overflow

record residency_config =
  rc_hbm_bytes :: nat
  rc_dram_bytes :: nat

record pending_restore_identity =
  pr_request_id :: nat
  pr_page_ordinal :: nat

record resident_entry =
  re_record :: tier_record
  re_residency :: residency
  re_restored :: "restored_page option"
  re_pending_restore :: "pending_restore_identity option"
  re_pin_count :: nat
  re_last_touch :: nat

record residency_manager =
  rm_config :: residency_config
  rm_entries :: "(hash32, resident_entry) fmap"
  rm_hbm_bytes :: nat
  rm_dram_bytes :: nat
  rm_clock :: nat
  rm_state_generation :: nat

record hbm_admission_plan =
  hp_victims :: "(hash32, residency) fmap"
  hp_hbm_bytes :: nat
  hp_dram_bytes :: nat

record nvme_registration_plan =
  np_records :: "tier_record list"
  np_hbm_bytes :: nat
  np_dram_bytes :: nat
  np_expected_state_generation :: nat

datatype registration_action = Insert | Replace | Retain

record restore_request =
  rr_request_id :: nat
  rr_page_key :: hash32
  rr_expected_namespace :: hash32
  rr_minimum_generation :: nat
  rr_page_ordinal :: nat
  rr_worker_rank :: nat

record restore_result =
  rs_request_id :: nat
  rs_page_ordinal :: nat
  rs_page :: restored_page

section \<open>Registration\<close>

definition new_manager :: "residency_config \<Rightarrow> (residency_error, residency_manager) result" where
  "new_manager config =
     (if rc_hbm_bytes config = 0 then Inl (Err Config)
      else Inr \<lparr>rm_config = config, rm_entries = fmempty, rm_hbm_bytes = 0, rm_dram_bytes = 0, rm_clock = 0, rm_state_generation = 0\<rparr>)"

definition entry_bytes :: "tier_record \<Rightarrow> (residency_error, nat) result" where
  "entry_bytes r = rfold (\<lambda>piece total. ok_or (checked_add 64 total (tp_byte_length piece)) Overflow) (tr_pieces r) 0"

definition next_state_generation :: "residency_manager \<Rightarrow> (residency_error, nat) result" where
  "next_state_generation mgr = ok_or (checked_add 64 (rm_state_generation mgr) 1) Overflow"

definition entry_of :: "residency_manager \<Rightarrow> hash32 \<Rightarrow> (residency_error, resident_entry) result" where
  "entry_of mgr page_key = ok_or (fmlookup (rm_entries mgr) page_key) Missing"

definition nvme_registration_action :: "residency_manager \<Rightarrow> tier_record \<Rightarrow> (residency_error, registration_action) result" where
  "nvme_registration_action mgr r =
     rbind (map_err (\<lambda>_. Record) (validate_record r)) (\<lambda>_.
     if tr_tier r \<noteq> tier.Nvme then Inl (Err Record)
     else case fmlookup (rm_entries mgr) (tr_page_key r) of
       None \<Rightarrow> Inr Insert
     | Some entry \<Rightarrow>
         rbind (map_err (\<lambda>_. Record) (relation_to (re_record entry) r)) (\<lambda>relation.
         case relation of
           ExactDedup \<Rightarrow> Inr Retain
         | RetainMtp \<Rightarrow> Inr Retain
         | MtpUpgrade \<Rightarrow>
             if tr_generation r \<le> tr_generation (re_record entry) then Inl (Err Stale)
             else if re_pin_count entry \<noteq> 0 then Inl (Err Pinned)
             else if re_residency entry = Restoring then Inl (Err State)
             else rbind (entry_bytes (re_record entry)) (\<lambda>_. Inr Replace)))"

definition validate_nvme_registration :: "residency_manager \<Rightarrow> tier_record \<Rightarrow> (residency_error, unit) result" where
  "validate_nvme_registration mgr r = rbind (nvme_registration_action mgr r) (\<lambda>_. Inr ())"

text \<open>One turn of the planning loop: the bytes after it, the keys seen and the records to register.\<close>

definition plan_record :: "residency_manager \<Rightarrow> tier_record \<Rightarrow> nat \<times> nat \<times> hash32 set \<times> tier_record list \<Rightarrow>
    (residency_error, nat \<times> nat \<times> hash32 set \<times> tier_record list) result" where
  "plan_record mgr r = (\<lambda>(next_hbm_bytes, next_dram_bytes, page_keys, planned_records).
     if tr_page_key r \<in> page_keys then Inl (Err Record)
     else
       let page_keys = insert (tr_page_key r) page_keys in
       rbind (nvme_registration_action mgr r) (\<lambda>action.
       case action of
         Retain \<Rightarrow> Inr (next_hbm_bytes, next_dram_bytes, page_keys, planned_records)
       | Insert \<Rightarrow> Inr (next_hbm_bytes, next_dram_bytes, page_keys, planned_records @ [r])
       | Replace \<Rightarrow>
           rbind (entry_of mgr (tr_page_key r)) (\<lambda>existing.
           rbind (entry_bytes (re_record existing)) (\<lambda>bytes.
           case re_residency existing of
             Hbm \<Rightarrow> rbind (ok_or (checked_sub next_hbm_bytes bytes) Overflow) (\<lambda>next_hbm_bytes.
               Inr (next_hbm_bytes, next_dram_bytes, page_keys, planned_records @ [r]))
           | Dram \<Rightarrow> rbind (ok_or (checked_sub next_dram_bytes bytes) Overflow) (\<lambda>next_dram_bytes.
               Inr (next_hbm_bytes, next_dram_bytes, page_keys, planned_records @ [r]))
           | Nvme \<Rightarrow> Inr (next_hbm_bytes, next_dram_bytes, page_keys, planned_records @ [r])
           | Restoring \<Rightarrow> Inl (Err State)))))"

definition plan_nvme_registrations :: "residency_manager \<Rightarrow> tier_record list \<Rightarrow> (residency_error, nvme_registration_plan) result" where
  "plan_nvme_registrations mgr records =
     rbind (rfold (plan_record mgr) records (rm_hbm_bytes mgr, rm_dram_bytes mgr, {}, [])) (\<lambda>(hbm_bytes, dram_bytes, _, planned_records).
       Inr \<lparr>np_records = planned_records, np_hbm_bytes = hbm_bytes, np_dram_bytes = dram_bytes,
         np_expected_state_generation = rm_state_generation mgr\<rparr>)"

definition validate_nvme_registration_plan :: "residency_manager \<Rightarrow> nvme_registration_plan \<Rightarrow> (residency_error, unit) result" where
  "validate_nvme_registration_plan mgr plan = ensure (np_expected_state_generation plan = rm_state_generation mgr) Stale"

definition registered_entry :: "tier_record \<Rightarrow> resident_entry" where
  "registered_entry r = \<lparr>re_record = r, re_residency = Nvme, re_restored = None, re_pending_restore = None, re_pin_count = 0, re_last_touch = 0\<rparr>"

definition commit_inner :: "nvme_registration_plan \<Rightarrow> residency_manager \<Rightarrow> (residency_error, residency_manager \<times> unit) result" where
  "commit_inner plan mgr =
     rbind (validate_nvme_registration_plan mgr plan) (\<lambda>_.
     rbind (if np_records plan = [] then Inr (rm_state_generation mgr) else next_state_generation mgr) (\<lambda>generation.
       Inr (mgr\<lparr>rm_entries := fold (\<lambda>r. fmupd (tr_page_key r) (registered_entry r)) (np_records plan) (rm_entries mgr),
           rm_hbm_bytes := np_hbm_bytes plan, rm_dram_bytes := np_dram_bytes plan, rm_state_generation := generation\<rparr>, ())))"

definition commit_nvme_registrations :: "nvme_registration_plan \<Rightarrow> residency_manager \<Rightarrow> (residency_error, unit) result \<times> residency_manager" where
  "commit_nvme_registrations plan = transact (commit_inner plan)"

definition register_inner :: "tier_record \<Rightarrow> residency_manager \<Rightarrow> (residency_error, residency_manager \<times> unit) result" where
  "register_inner r mgr = rbind (plan_nvme_registrations mgr [r]) (\<lambda>plan. commit_inner plan mgr)"

definition register_nvme :: "tier_record \<Rightarrow> residency_manager \<Rightarrow> (residency_error, unit) result \<times> residency_manager" where
  "register_nvme r = transact (register_inner r)"

section \<open>Eviction\<close>

text \<open>The loop over the candidates stops as soon as the incoming bytes fit.\<close>

fun evict :: "residency_config \<Rightarrow> nat \<Rightarrow> (hash32 \<times> nat \<times> nat) list \<Rightarrow> nat \<Rightarrow> nat \<Rightarrow> (hash32, residency) fmap \<Rightarrow>
    (residency_error, nat \<times> nat \<times> (hash32, residency) fmap) result" where
  "evict config incoming [] hbm_after dram_after victims = Inr (hbm_after, dram_after, victims)"
| "evict config incoming ((key, _, bytes) # candidates) hbm_after dram_after victims =
     rbind (ok_or (checked_add 64 hbm_after incoming) Overflow) (\<lambda>total.
     if total \<le> rc_hbm_bytes config then Inr (hbm_after, dram_after, victims)
     else
       rbind (ok_or (checked_sub hbm_after bytes) Overflow) (\<lambda>hbm_after.
       rbind (ok_or (checked_add 64 dram_after bytes) Overflow) (\<lambda>dram_total.
       if dram_total \<le> rc_dram_bytes config
       then evict config incoming candidates hbm_after (dram_after + bytes) (fmupd key Dram victims)
       else evict config incoming candidates hbm_after dram_after (fmupd key Nvme victims))))"

definition candidate_le :: "hash32 \<times> nat \<times> nat \<Rightarrow> hash32 \<times> nat \<times> nat \<Rightarrow> bool" where
  "candidate_le = (\<lambda>(k, t, _) (k', t', _). t < t' \<or> t = t' \<and> k \<le> k')"

definition eviction_candidates :: "residency_manager \<Rightarrow> hash32 option \<Rightarrow> (residency_error, (hash32 \<times> nat \<times> nat) list) result" where
  "eviction_candidates mgr excluded =
     rbind (rmap (\<lambda>(key, entry). rbind (entry_bytes (re_record entry)) (\<lambda>bytes. Inr (key, re_last_touch entry, bytes)))
       (filter (\<lambda>(key, entry). Some key \<noteq> excluded \<and> re_residency entry = Hbm \<and> re_pin_count entry = 0) (entries_of (rm_entries mgr))))
     (\<lambda>candidates. Inr (sort_by candidate_le candidates))"

definition plan_hbm_admission :: "residency_manager \<Rightarrow> nat \<Rightarrow> nat \<Rightarrow> hash32 option \<Rightarrow> (residency_error, hbm_admission_plan) result" where
  "plan_hbm_admission mgr incoming_bytes dram_release_bytes excluded =
     rbind (ok_or (checked_sub (rm_dram_bytes mgr) dram_release_bytes) Overflow) (\<lambda>dram_after.
     rbind (ok_or (checked_add 64 (rm_hbm_bytes mgr) incoming_bytes) Overflow) (\<lambda>total.
     if total \<le> rc_hbm_bytes (rm_config mgr)
     then Inr \<lparr>hp_victims = fmempty, hp_hbm_bytes = rm_hbm_bytes mgr + incoming_bytes, hp_dram_bytes = dram_after\<rparr>
     else
       rbind (eviction_candidates mgr excluded) (\<lambda>candidates.
       rbind (evict (rm_config mgr) incoming_bytes candidates (rm_hbm_bytes mgr) dram_after fmempty) (\<lambda>(hbm_after, dram_after, victims).
       rbind (ok_or (checked_add 64 hbm_after incoming_bytes) Overflow) (\<lambda>total.
       if total > rc_hbm_bytes (rm_config mgr) then Inl (Err Pinned)
       else Inr \<lparr>hp_victims = victims, hp_hbm_bytes = total, hp_dram_bytes = dram_after\<rparr>)))))"

definition evict_entry :: "(hash32, residency) fmap \<Rightarrow> hash32 \<Rightarrow> resident_entry \<Rightarrow> resident_entry" where
  "evict_entry victims key entry =
     (case fmlookup victims key of
        None \<Rightarrow> entry
      | Some destination \<Rightarrow>
          entry\<lparr>re_residency := destination, re_restored := (if destination = Nvme then None else re_restored entry)\<rparr>)"

definition apply_hbm_admission :: "hbm_admission_plan \<Rightarrow> residency_manager \<Rightarrow> residency_manager" where
  "apply_hbm_admission plan mgr =
     mgr\<lparr>rm_entries := fmmap_keys (evict_entry (hp_victims plan)) (rm_entries mgr), rm_hbm_bytes := hp_hbm_bytes plan,
       rm_dram_bytes := hp_dram_bytes plan\<rparr>"

section \<open>Restoring\<close>

definition set_entry :: "hash32 \<Rightarrow> resident_entry \<Rightarrow> residency_manager \<Rightarrow> residency_manager" where
  "set_entry page_key entry mgr = mgr\<lparr>rm_entries := fmupd page_key entry (rm_entries mgr)\<rparr>"

definition begin_restore_inner :: "nat \<Rightarrow> hash32 \<Rightarrow> nat \<Rightarrow> nat \<Rightarrow> residency_manager \<Rightarrow>
    (residency_error, residency_manager \<times> restore_request) result" where
  "begin_restore_inner request_id page_key page_ordinal worker_rank mgr =
     (if request_id = 0 \<or> worker_rank \<ge> 4 \<or> owner_rank page_ordinal \<noteq> worker_rank then Inl (Err Request)
      else
        rbind (next_state_generation mgr) (\<lambda>generation.
        rbind (entry_of mgr page_key) (\<lambda>entry.
        if re_residency entry \<noteq> Nvme then Inl (Err State)
        else
          rbind (entry_bytes (re_record entry)) (\<lambda>bytes.
          if bytes > rc_hbm_bytes (rm_config mgr) then Inl (Err State)
          else
            let entry = entry\<lparr>re_residency := Restoring,
                re_pending_restore := Some \<lparr>pr_request_id = request_id, pr_page_ordinal = page_ordinal\<rparr>\<rparr>
            in Inr ((set_entry page_key entry mgr)\<lparr>rm_state_generation := generation\<rparr>,
              \<lparr>rr_request_id = request_id, rr_page_key = page_key, rr_expected_namespace = tr_namespace (re_record entry),
                rr_minimum_generation = tr_generation (re_record entry), rr_page_ordinal = page_ordinal, rr_worker_rank = worker_rank\<rparr>)))))"

definition begin_restore :: "nat \<Rightarrow> hash32 \<Rightarrow> nat \<Rightarrow> nat \<Rightarrow> residency_manager \<Rightarrow> (residency_error, restore_request) result \<times> residency_manager" where
  "begin_restore request_id page_key page_ordinal worker_rank = transact (begin_restore_inner request_id page_key page_ordinal worker_rank)"

definition abort_entry :: "resident_entry \<Rightarrow> resident_entry" where
  "abort_entry entry = entry\<lparr>re_residency := Nvme, re_pending_restore := None\<rparr>"

definition abort_restore_inner :: "hash32 \<Rightarrow> residency_manager \<Rightarrow> (residency_error, residency_manager \<times> unit) result" where
  "abort_restore_inner page_key mgr =
     rbind (next_state_generation mgr) (\<lambda>generation.
     rbind (entry_of mgr page_key) (\<lambda>entry.
     if re_residency entry \<noteq> Restoring then Inl (Err State)
     else Inr ((set_entry page_key (abort_entry entry) mgr)\<lparr>rm_state_generation := generation\<rparr>, ())))"

definition abort_restore :: "hash32 \<Rightarrow> residency_manager \<Rightarrow> (residency_error, unit) result \<times> residency_manager" where
  "abort_restore page_key = transact (abort_restore_inner page_key)"

definition validate_abort_restore_identity :: "residency_manager \<Rightarrow> hash32 \<Rightarrow> nat \<Rightarrow> nat \<Rightarrow> (residency_error, unit) result" where
  "validate_abort_restore_identity mgr page_key request_id page_ordinal =
     rbind (entry_of mgr page_key) (\<lambda>entry.
     if re_residency entry \<noteq> Restoring
        \<or> re_pending_restore entry \<noteq> Some \<lparr>pr_request_id = request_id, pr_page_ordinal = page_ordinal\<rparr>
     then Inl (Err State) else Inr ())"

definition abort_identity_inner :: "hash32 \<Rightarrow> nat \<Rightarrow> nat \<Rightarrow> residency_manager \<Rightarrow> (residency_error, residency_manager \<times> unit) result" where
  "abort_identity_inner page_key request_id page_ordinal mgr =
     rbind (validate_abort_restore_identity mgr page_key request_id page_ordinal) (\<lambda>_.
     rbind (next_state_generation mgr) (\<lambda>generation.
     rbind (entry_of mgr page_key) (\<lambda>entry.
       Inr ((set_entry page_key (abort_entry entry) mgr)\<lparr>rm_state_generation := generation\<rparr>, ()))))"

definition abort_restore_identity :: "hash32 \<Rightarrow> nat \<Rightarrow> nat \<Rightarrow> residency_manager \<Rightarrow> (residency_error, unit) result \<times> residency_manager" where
  "abort_restore_identity page_key request_id page_ordinal = transact (abort_identity_inner page_key request_id page_ordinal)"

definition complete_restore_inner :: "restore_result \<Rightarrow> residency_manager \<Rightarrow> (residency_error, residency_manager \<times> unit) result" where
  "complete_restore_inner result mgr =
     (let page_key = tr_page_key (rp_record (rs_page result)) in
      rbind (entry_of mgr page_key) (\<lambda>entry.
      if re_residency entry \<noteq> Restoring
         \<or> re_pending_restore entry \<noteq> Some \<lparr>pr_request_id = rs_request_id result, pr_page_ordinal = rs_page_ordinal result\<rparr>
         \<or> re_record entry \<noteq> rp_record (rs_page result)
      then Inl (Err Stale)
      else
        rbind (entry_bytes (re_record entry)) (\<lambda>bytes.
        rbind (ok_or (checked_add 64 (rm_clock mgr) 1) Overflow) (\<lambda>next_clock.
        rbind (next_state_generation mgr) (\<lambda>generation.
        rbind (plan_hbm_admission mgr bytes 0 (Some page_key)) (\<lambda>plan.
        rbind (entry_of mgr page_key) (\<lambda>entry.
        let entry = entry\<lparr>re_residency := Hbm, re_restored := Some (rs_page result), re_pending_restore := None, re_last_touch := next_clock\<rparr>;
            mgr = apply_hbm_admission plan (set_entry page_key entry mgr)
        in Inr (mgr\<lparr>rm_clock := next_clock, rm_state_generation := generation\<rparr>, ()))))))))"

definition complete_restore :: "restore_result \<Rightarrow> residency_manager \<Rightarrow> (residency_error, unit) result \<times> residency_manager" where
  "complete_restore result = transact (complete_restore_inner result)"

definition promote_inner :: "hash32 \<Rightarrow> residency_manager \<Rightarrow> (residency_error, residency_manager \<times> unit) result" where
  "promote_inner page_key mgr =
     rbind (entry_of mgr page_key) (\<lambda>entry.
     if re_residency entry \<noteq> Dram then Inl (Err State)
     else
       rbind (entry_bytes (re_record entry)) (\<lambda>bytes.
       rbind (ok_or (checked_add 64 (rm_clock mgr) 1) Overflow) (\<lambda>next_clock.
       rbind (next_state_generation mgr) (\<lambda>generation.
       rbind (plan_hbm_admission mgr bytes bytes (Some page_key)) (\<lambda>plan.
       rbind (entry_of mgr page_key) (\<lambda>entry.
       let mgr = apply_hbm_admission plan (set_entry page_key (entry\<lparr>re_residency := Hbm, re_last_touch := next_clock\<rparr>) mgr)
       in Inr (mgr\<lparr>rm_clock := next_clock, rm_state_generation := generation\<rparr>, ())))))))"

definition promote_dram :: "hash32 \<Rightarrow> residency_manager \<Rightarrow> (residency_error, unit) result \<times> residency_manager" where
  "promote_dram page_key = transact (promote_inner page_key)"

section \<open>Pins and views\<close>

definition pin_inner :: "hash32 \<Rightarrow> residency_manager \<Rightarrow> (residency_error, residency_manager \<times> unit) result" where
  "pin_inner page_key mgr =
     rbind (entry_of mgr page_key) (\<lambda>entry.
     if re_residency entry \<noteq> Hbm then Inl (Err State)
     else
       rbind (ok_or (checked_add 32 (re_pin_count entry) 1) Overflow) (\<lambda>next_pin_count.
       rbind (ok_or (checked_add 64 (rm_clock mgr) 1) Overflow) (\<lambda>next_clock.
       rbind (next_state_generation mgr) (\<lambda>generation.
       rbind (entry_of mgr page_key) (\<lambda>entry.
       let mgr = set_entry page_key (entry\<lparr>re_pin_count := next_pin_count, re_last_touch := next_clock\<rparr>) mgr
       in Inr (mgr\<lparr>rm_clock := next_clock, rm_state_generation := generation\<rparr>, ()))))))"

definition pin_hbm :: "hash32 \<Rightarrow> residency_manager \<Rightarrow> (residency_error, unit) result \<times> residency_manager" where
  "pin_hbm page_key = transact (pin_inner page_key)"

definition validate_unpin_count :: "residency_manager \<Rightarrow> hash32 \<Rightarrow> nat \<Rightarrow> (residency_error, unit) result" where
  "validate_unpin_count mgr page_key pins =
     (if pins = 0 then Inl (Err Request)
      else
        rbind (entry_of mgr page_key) (\<lambda>entry.
        if re_residency entry \<noteq> Hbm \<or> re_pin_count entry < pins then Inl (Err State) else Inr ()))"

definition unpin_inner :: "hash32 \<Rightarrow> nat \<Rightarrow> residency_manager \<Rightarrow> (residency_error, residency_manager \<times> unit) result" where
  "unpin_inner page_key pins mgr =
     rbind (validate_unpin_count mgr page_key pins) (\<lambda>_.
     rbind (next_state_generation mgr) (\<lambda>generation.
     rbind (entry_of mgr page_key) (\<lambda>entry.
     rbind (ok_or (checked_sub (re_pin_count entry) pins) State) (\<lambda>pin_count.
       Inr ((set_entry page_key (entry\<lparr>re_pin_count := pin_count\<rparr>) mgr)\<lparr>rm_state_generation := generation\<rparr>, ())))))"

definition unpin_count :: "hash32 \<Rightarrow> nat \<Rightarrow> residency_manager \<Rightarrow> (residency_error, unit) result \<times> residency_manager" where
  "unpin_count page_key pins = transact (unpin_inner page_key pins)"

definition unpin :: "hash32 \<Rightarrow> residency_manager \<Rightarrow> (residency_error, unit) result \<times> residency_manager" where
  "unpin page_key = unpin_count page_key 1"

definition location :: "residency_manager \<Rightarrow> hash32 \<Rightarrow> residency option" where
  "location mgr page_key = map_option re_residency (fmlookup (rm_entries mgr) page_key)"

definition manager_record :: "residency_manager \<Rightarrow> hash32 \<Rightarrow> tier_record option" where
  "manager_record mgr page_key = map_option re_record (fmlookup (rm_entries mgr) page_key)"

end
