(* ===== verification/Residency_Inv.thy ===== *)
theory Residency_Inv
  imports Residency
begin

text \<open>
  The invariant of the residency manager: the byte counts are exact and within the budgets, and every entry is in the
  state that its residency says. Every operation keeps it.
\<close>

section \<open>Sizes\<close>

definition page_bytes :: "tier_record \<Rightarrow> nat" where
  "page_bytes r = sum_list (map tp_byte_length (tr_pieces r))"

lemma sum_bytes:
  "n + sum_list (map tp_byte_length ps) < 2 ^ 64 \<Longrightarrow>
   rfold (\<lambda>piece total. ok_or (checked_add 64 total (tp_byte_length piece)) Overflow) ps n = Inr (n + sum_list (map tp_byte_length ps))"
  by (induction ps arbitrary: n) (simp_all add: checked_add_def add.assoc)

lemma page_bytes_bound: "validate_record r = Inr () \<Longrightarrow> page_bytes r \<le> 6000000"
proof -
  assume valid: "validate_record r = Inr ()"
  then obtain st where fold: "rfold (validate_piece (required_pieces (tr_mtp r)) (tier_alignment (tr_tier r))) (tr_pieces r) ({}, []) = Inr st"
      "length (tr_pieces r) = length (required_pieces (tr_mtp r))"
    by (rule validate_record_fold)
  have "tp_byte_length p \<le> 2000000" if "p \<in> set (tr_pieces r)" for p
    using validate_pieces_Inr [OF fold(1)] that by (cases "tp_piece p") (auto simp: piece_ok_def)
  then have "sum_list (map tp_byte_length (tr_pieces r)) \<le> sum_list (map (\<lambda>_. 2000000) (tr_pieces r))"
    by (intro sum_list_mono)
  also have "\<dots> = 2000000 * length (tr_pieces r)"
    by (simp add: sum_list_triv)
  also have "\<dots> \<le> 6000000"
    using fold(2) by (simp add: required_pieces_def split: if_splits)
  finally show ?thesis
    by (simp add: page_bytes_def)
qed

lemma entry_bytes_eq [simp]: "validate_record r = Inr () \<Longrightarrow> entry_bytes r = Inr (page_bytes r)"
  using page_bytes_bound [of r] sum_bytes [of 0 "tr_pieces r"] by (simp add: entry_bytes_def page_bytes_def)

section \<open>The invariant\<close>

definition entry_ok :: "nat \<Rightarrow> hash32 \<Rightarrow> resident_entry \<Rightarrow> bool" where
  "entry_ok clock key e \<longleftrightarrow> tr_page_key (re_record e) = key \<and> validate_record (re_record e) = Inr () \<and> tr_tier (re_record e) = tier.Nvme \<and>
     (case re_restored e of None \<Rightarrow> re_residency e \<in> {Nvme, Restoring}
      | Some page \<Rightarrow> re_residency e \<in> {Hbm, Dram} \<and> rp_record page = re_record e) \<and>
     (re_pending_restore e \<noteq> None \<longleftrightarrow> re_residency e = Restoring) \<and> (re_pin_count e \<noteq> 0 \<longrightarrow> re_residency e = Hbm) \<and>
     re_last_touch e \<le> clock"

definition weight :: "residency \<Rightarrow> resident_entry \<Rightarrow> nat" where
  "weight place e = (if re_residency e = place then page_bytes (re_record e) else 0)"

abbreviation bytes_in :: "residency \<Rightarrow> (hash32, resident_entry) fmap \<Rightarrow> nat" where
  "bytes_in place \<equiv> fm_sum (weight place)"

definition manager_ok :: "residency_manager \<Rightarrow> bool" where
  "manager_ok mgr \<longleftrightarrow> (\<forall>k e. fmlookup (rm_entries mgr) k = Some e \<longrightarrow> entry_ok (rm_clock mgr) k e) \<and>
     rm_hbm_bytes mgr = bytes_in Hbm (rm_entries mgr) \<and> rm_dram_bytes mgr = bytes_in Dram (rm_entries mgr) \<and>
     rm_hbm_bytes mgr \<le> rc_hbm_bytes (rm_config mgr) \<and> rm_dram_bytes mgr \<le> rc_dram_bytes (rm_config mgr) \<and>
     rc_hbm_bytes (rm_config mgr) < 2 ^ 64 \<and> rc_dram_bytes (rm_config mgr) < 2 ^ 64"

lemma entry_ok_later: "entry_ok clock k e \<Longrightarrow> clock \<le> clock' \<Longrightarrow> entry_ok clock' k e"
  by (auto simp: entry_ok_def)

lemma entry_ok_valid: "entry_ok clock k e \<Longrightarrow> validate_record (re_record e) = Inr ()"
  by (simp add: entry_ok_def)

lemma new_manager_ok:
  "new_manager config = Inr mgr \<Longrightarrow> rc_hbm_bytes config < 2 ^ 64 \<Longrightarrow> rc_dram_bytes config < 2 ^ 64 \<Longrightarrow> manager_ok mgr"
  by (auto simp: new_manager_def manager_ok_def split: if_splits)

lemma entry_of_Inr [result_simps]: "entry_of mgr k = Inr e \<longleftrightarrow> fmlookup (rm_entries mgr) k = Some e"
  by (auto simp: entry_of_def result_simps)

text \<open>One entry is replaced by one with the same weights.\<close>

lemma replace_entry_ok:
  assumes "manager_ok mgr" and "fmlookup (rm_entries mgr) k = Some e" and "entry_ok clock k e'" and "rm_clock mgr \<le> clock"
    and "\<And>place. place \<in> {Hbm, Dram} \<Longrightarrow> weight place e' = weight place e"
  shows "manager_ok ((set_entry k e' mgr)\<lparr>rm_clock := clock, rm_state_generation := g\<rparr>)"
proof -
  have "bytes_in place (fmupd k e' (rm_entries mgr)) = bytes_in place (rm_entries mgr)" if "place \<in> {Hbm, Dram}" for place
    using fm_sum_upd [OF assms(2), of "weight place" e'] assms(5) [OF that] by simp
  moreover have "entry_ok clock k' x" if "fmlookup (rm_entries mgr) k' = Some x" for k' x
    using assms(1,4) that by (auto simp: manager_ok_def intro: entry_ok_later)
  ultimately show ?thesis
    using assms(1,3) by (auto simp: manager_ok_def set_entry_def split: if_splits)
qed

lemma replace_entry_ok_now:
  assumes "manager_ok mgr" and "fmlookup (rm_entries mgr) k = Some e" and "entry_ok (rm_clock mgr) k e'"
    and "\<And>place. place \<in> {Hbm, Dram} \<Longrightarrow> weight place e' = weight place e"
  shows "manager_ok ((set_entry k e' mgr)\<lparr>rm_state_generation := g\<rparr>)"
proof -
  have "(set_entry k e' mgr)\<lparr>rm_clock := rm_clock mgr, rm_state_generation := g\<rparr> = (set_entry k e' mgr)\<lparr>rm_state_generation := g\<rparr>"
    by (simp add: set_entry_def)
  then show ?thesis
    using replace_entry_ok [OF assms(1-3) order_refl assms(4), of g] by simp
qed

section \<open>Eviction\<close>

abbreviation evicted :: "(hash32, residency) fmap \<Rightarrow> (hash32, resident_entry) fmap \<Rightarrow> (hash32, resident_entry) fmap" where
  "evicted victims es \<equiv> fmmap_keys (evict_entry victims) es"

definition candidate :: "(hash32, resident_entry) fmap \<Rightarrow> hash32 \<times> nat \<times> nat \<Rightarrow> bool" where
  "candidate es = (\<lambda>(k, t, b). \<exists>e. fmlookup es k = Some e \<and> re_residency e = Hbm \<and> re_pin_count e = 0 \<and> t = re_last_touch e \<and>
     b = page_bytes (re_record e))"

lemma evicted_upd:
  assumes "fmlookup es k = Some e" and "fmlookup v k = None"
  shows "evicted (fmupd k place v) es = fmupd k (evict_entry (fmupd k place v) k e) (evicted v es)"
proof (rule fmap_ext)
  fix x
  show "fmlookup (evicted (fmupd k place v) es) x = fmlookup (fmupd k (evict_entry (fmupd k place v) k e) (evicted v es)) x"
    using assms by (cases "fmlookup es x") (auto simp: evict_entry_def)
qed

lemma evicted_empty [simp]: "evicted fmempty es = es"
  by (rule fmap_ext) (simp add: evict_entry_def option.map_ident_strong)

text \<open>The bytes of the candidates that are evicted leave HBM; some go to DRAM.\<close>

lemma evict_step:
  assumes "candidate es (k, t, b)" and "fmlookup v k = None" and "place \<noteq> Hbm"
  shows "bytes_in Hbm (evicted (fmupd k place v) es) + b = bytes_in Hbm (evicted v es)"
    and "bytes_in Dram (evicted (fmupd k place v) es) = bytes_in Dram (evicted v es) + (if place = Dram then b else 0)"
proof -
  obtain e where e: "fmlookup es k = Some e" "re_residency e = Hbm" "b = page_bytes (re_record e)"
    using assms(1) by (auto simp: candidate_def)
  let ?e = "evict_entry (fmupd k place v) k e"
  have old: "fmlookup (evicted v es) k = Some e"
    using e(1) assms(2) by (simp add: evict_entry_def)
  have "re_record ?e = re_record e" "re_residency ?e = place"
    by (simp_all add: evict_entry_def)
  then show "bytes_in Hbm (evicted (fmupd k place v) es) + b = bytes_in Hbm (evicted v es)"
    "bytes_in Dram (evicted (fmupd k place v) es) = bytes_in Dram (evicted v es) + (if place = Dram then b else 0)"
    using fm_sum_upd [OF old, of "weight Hbm" ?e] fm_sum_upd [OF old, of "weight Dram" ?e] evicted_upd [OF e(1) assms(2), of place] e(2,3) assms(3)
    by (auto simp: weight_def)
qed

text \<open>What the loop does: it evicts the shortest front part of the candidates that makes room, or all of them.\<close>

definition evicts :: "residency_config \<Rightarrow> nat \<Rightarrow> (hash32, resident_entry) fmap \<Rightarrow> nat \<Rightarrow> (hash32 \<times> nat \<times> nat) list \<Rightarrow> (hash32, residency) fmap \<Rightarrow>
    nat \<times> nat \<times> (hash32, residency) fmap \<Rightarrow> bool" where
  "evicts config incoming es released candidates v = (\<lambda>(hbm', dram', v'). \<exists>front later. candidates = front @ later \<and>
     fmdom' v' = fmdom' v \<union> fst ` set front \<and> (\<forall>k. k \<notin> fst ` set front \<longrightarrow> fmlookup v' k = fmlookup v k) \<and>
     (\<forall>k\<in>fst ` set front. fmlookup v' k \<in> {Some Dram, Some Nvme}) \<and>
     bytes_in Hbm (evicted v' es) = hbm' \<and> bytes_in Dram (evicted v' es) = dram' + released \<and> dram' \<le> rc_dram_bytes config \<and>
     (later = [] \<or> hbm' + incoming \<le> rc_hbm_bytes config) \<and>
     (front \<noteq> [] \<longrightarrow> rc_hbm_bytes config < hbm' + snd (snd (last front)) + incoming))"

lemma evict_spec:
  assumes "\<forall>c\<in>set candidates. candidate es c \<and> fmlookup v (fst c) = None" and "distinct (map fst candidates)"
    and "bytes_in Hbm (evicted v es) = hbm" and "bytes_in Dram (evicted v es) = dram + released" and "dram \<le> rc_dram_bytes config"
    and "evict config incoming candidates hbm dram v = Inr after"
  shows "evicts config incoming es released candidates v after"
  using assms
proof (induction candidates arbitrary: hbm dram v)
  case Nil
  then show ?case
    by (auto simp: evicts_def)
next
  case (Cons c candidates)
  obtain k t b where c: "c = (k, t, b)"
    by (cases c)
  have cand: "candidate es (k, t, b)" "fmlookup v k = None"
    using Cons.prems(1) c by auto
  show ?case
  proof (cases "hbm + incoming \<le> rc_hbm_bytes config")
    case True
    then have "after = (hbm, dram, v)"
      using Cons.prems(6) c by (auto simp: result_simps)
    then show ?thesis
      using Cons.prems(3-5) True unfolding evicts_def
      by (simp, intro exI [of _ "[]"] exI [of _ "c # candidates"]) simp
  next
    case False
    define place where "place = (if dram + b \<le> rc_dram_bytes config then Dram else Nvme)"
    have place: "place \<noteq> Hbm" "place \<in> {Dram, Nvme}"
      by (simp_all add: place_def)
    note step = evict_step [OF cand place(1)]
    have run: "evict config incoming candidates (hbm - b) (dram + (if place = Dram then b else 0)) (fmupd k place v) = Inr after" "b \<le> hbm"
      using Cons.prems(6) c False by (auto simp: result_simps place_def split: if_splits)
    have "evicts config incoming es released candidates (fmupd k place v) after"
    proof (rule Cons.IH [OF _ _ _ _ _ run(1)])
      show "\<forall>c\<in>set candidates. candidate es c \<and> fmlookup (fmupd k place v) (fst c) = None"
        using Cons.prems(1,2) c by force
      show "bytes_in Hbm (evicted (fmupd k place v) es) = hbm - b"
        using step(1) Cons.prems(3) by simp
      show "bytes_in Dram (evicted (fmupd k place v) es) = dram + (if place = Dram then b else 0) + released"
        using step(2) Cons.prems(4) by simp
    qed (use Cons.prems(2,5) in \<open>auto simp: place_def\<close>)
    then obtain front later hbm' dram' v' where after: "after = (hbm', dram', v')" "candidates = front @ later"
        "fmdom' v' = fmdom' (fmupd k place v) \<union> fst ` set front" "\<forall>x. x \<notin> fst ` set front \<longrightarrow> fmlookup v' x = fmlookup (fmupd k place v) x"
        "\<forall>x\<in>fst ` set front. fmlookup v' x \<in> {Some Dram, Some Nvme}"
        "bytes_in Hbm (evicted v' es) = hbm'" "bytes_in Dram (evicted v' es) = dram' + released" "dram' \<le> rc_dram_bytes config"
        "later = [] \<or> hbm' + incoming \<le> rc_hbm_bytes config" "front \<noteq> [] \<longrightarrow> rc_hbm_bytes config < hbm' + snd (snd (last front)) + incoming"
      by (cases after) (auto simp: evicts_def)
    have k: "k \<notin> fst ` set front"
      using Cons.prems(2) c after(2) by auto
    have first: "hbm' = hbm - b" if "front = []"
    proof -
      have "v' = fmupd k place v"
        using after(4) that by (intro fmap_ext) simp
      then show ?thesis
        using after(6) step(1) Cons.prems(3) by simp
    qed
    show ?thesis
      unfolding evicts_def after(1) prod.case
    proof (intro exI conjI)
      show "c # candidates = (c # front) @ later"
        using after(2) by simp
      show "fmdom' v' = fmdom' v \<union> fst ` set (c # front)"
        using after(3) c by auto
      show "\<forall>x. x \<notin> fst ` set (c # front) \<longrightarrow> fmlookup v' x = fmlookup v x"
        using after(4) c by auto
      show "\<forall>x\<in>fst ` set (c # front). fmlookup v' x \<in> {Some Dram, Some Nvme}"
        using after(4,5) k c place(2) by simp
      show "c # front \<noteq> [] \<longrightarrow> rc_hbm_bytes config < hbm' + snd (snd (last (c # front))) + incoming"
        using after(10) first c False run(2) by simp
    qed (rule after)+
  qed
qed

section \<open>Admission to HBM\<close>

definition evictable :: "residency_manager \<Rightarrow> hash32 \<Rightarrow> hash32 \<Rightarrow> resident_entry \<Rightarrow> bool" where
  "evictable mgr key k e \<longleftrightarrow> fmlookup (rm_entries mgr) k = Some e \<and> k \<noteq> key \<and> re_residency e = Hbm \<and> re_pin_count e = 0"

definition candidates_of :: "residency_manager \<Rightarrow> hash32 \<Rightarrow> (hash32 \<times> nat \<times> nat) list" where
  "candidates_of mgr key = sort_by candidate_le (map (\<lambda>(k, e). (k, re_last_touch e, page_bytes (re_record e)))
     (filter (\<lambda>(k, e). Some k \<noteq> Some key \<and> re_residency e = Hbm \<and> re_pin_count e = 0) (entries_of (rm_entries mgr))))"

lemma eviction_candidates_eq:
  assumes "manager_ok mgr"
  shows "eviction_candidates mgr (Some key) = Inr (candidates_of mgr key)"
proof -
  have "rmap (\<lambda>(k, e). rbind (entry_bytes (re_record e)) (\<lambda>bytes. Inr (k, re_last_touch e, bytes))) xs =
      Inr (map (\<lambda>(k, e). (k, re_last_touch e, page_bytes (re_record e))) xs)" if "set xs \<subseteq> set (entries_of (rm_entries mgr))" for xs
  proof (rule rmap_Inr_total)
    fix x
    assume x: "x \<in> set xs"
    obtain k e where e: "x = (k, e)"
      by (cases x)
    then have "fmlookup (rm_entries mgr) k = Some e"
      using x that by auto
    then have "validate_record (re_record e) = Inr ()"
      using assms by (auto simp: manager_ok_def entry_ok_def)
    then show "(\<lambda>(k, e). rbind (entry_bytes (re_record e)) (\<lambda>bytes. Inr (k, re_last_touch e, bytes))) x =
        Inr ((\<lambda>(k, e). (k, re_last_touch e, page_bytes (re_record e))) x)"
      by (simp add: e)
  qed
  note sizes = this [of "filter (\<lambda>(k, e). Some k \<noteq> Some key \<and> re_residency e = Hbm \<and> re_pin_count e = 0) (entries_of (rm_entries mgr))"]
  show ?thesis
    unfolding eviction_candidates_def candidates_of_def by (subst sizes) auto
qed

lemma set_candidates: "(k, t, b) \<in> set (candidates_of mgr key) \<longleftrightarrow> (\<exists>e. evictable mgr key k e \<and> t = re_last_touch e \<and> b = page_bytes (re_record e))"
  by (force simp: candidates_of_def evictable_def)

lemma distinct_candidates: "distinct (map fst (candidates_of mgr key))"
proof -
  let ?xs = "filter (\<lambda>(k, e). Some k \<noteq> Some key \<and> re_residency e = Hbm \<and> re_pin_count e = 0) (entries_of (rm_entries mgr))"
  have "distinct (map fst (entries_of (rm_entries mgr)))"
    by simp
  then have "distinct (map fst ?xs)"
    by (rule distinct_map_filter)
  then show ?thesis
    by (simp add: candidates_of_def distinct_map inj_on_def case_prod_beta)
qed

lemma sorted_candidates: "sorted_wrt candidate_le (candidates_of mgr key)"
  unfolding candidates_of_def by (rule sorted_sort_by) (auto simp: candidate_le_def)

definition admission :: "residency_manager \<Rightarrow> hash32 \<Rightarrow> nat \<Rightarrow> nat \<Rightarrow> hbm_admission_plan \<Rightarrow> bool" where
  "admission mgr key incoming released plan \<longleftrightarrow>
     (\<exists>front later. candidates_of mgr key = front @ later \<and> fmdom' (hp_victims plan) = fst ` set front \<and>
        (front \<noteq> [] \<longrightarrow> rc_hbm_bytes (rm_config mgr) < hp_hbm_bytes plan + snd (snd (last front)))) \<and>
     (\<forall>k\<in>fmdom' (hp_victims plan). fmlookup (hp_victims plan) k \<in> {Some Dram, Some Nvme}) \<and>
     bytes_in Hbm (evicted (hp_victims plan) (rm_entries mgr)) + incoming = hp_hbm_bytes plan \<and> hp_hbm_bytes plan \<le> rc_hbm_bytes (rm_config mgr) \<and>
     bytes_in Dram (evicted (hp_victims plan) (rm_entries mgr)) = hp_dram_bytes plan + released \<and> hp_dram_bytes plan \<le> rc_dram_bytes (rm_config mgr)"

lemma candidates_ready: "\<forall>c\<in>set (candidates_of mgr key). candidate (rm_entries mgr) c \<and> fmlookup fmempty (fst c) = None"
  by (auto simp: candidate_def set_candidates evictable_def split: prod.splits)

lemma plan_admission:
  assumes "manager_ok mgr" and "plan_hbm_admission mgr incoming released (Some key) = Inr plan"
  shows "admission mgr key incoming released plan"
proof -
  have mgr: "rm_hbm_bytes mgr = bytes_in Hbm (rm_entries mgr)" "rm_dram_bytes mgr = bytes_in Dram (rm_entries mgr)"
      "rm_dram_bytes mgr \<le> rc_dram_bytes (rm_config mgr)"
    using assms(1) by (simp_all add: manager_ok_def)
  have released: "released \<le> rm_dram_bytes mgr"
    using assms(2) by (auto simp: plan_hbm_admission_def result_simps checked_sub_def split: if_splits)
  show ?thesis
  proof (cases "rm_hbm_bytes mgr + incoming \<le> rc_hbm_bytes (rm_config mgr)")
    case True
    then have "plan = \<lparr>hp_victims = fmempty, hp_hbm_bytes = rm_hbm_bytes mgr + incoming, hp_dram_bytes = rm_dram_bytes mgr - released\<rparr>"
      using assms(2) by (auto simp: plan_hbm_admission_def result_simps)
    then show ?thesis
      using True mgr released unfolding admission_def
      by (intro conjI exI [of _ "[]"] exI [of _ "candidates_of mgr key"]) simp_all
  next
    case False
    then obtain hbm' dram' victims where ev: "evict (rm_config mgr) incoming (candidates_of mgr key) (rm_hbm_bytes mgr) (rm_dram_bytes mgr - released) fmempty =
          Inr (hbm', dram', victims)"
        "hbm' + incoming \<le> rc_hbm_bytes (rm_config mgr)"
        "plan = \<lparr>hp_victims = victims, hp_hbm_bytes = hbm' + incoming, hp_dram_bytes = dram'\<rparr>"
      using assms(2) eviction_candidates_eq [OF assms(1), of key]
      by (auto simp: plan_hbm_admission_def result_simps split: if_splits)
    have "evicts (rm_config mgr) incoming (rm_entries mgr) released (candidates_of mgr key) fmempty (hbm', dram', victims)"
      using mgr released by (intro evict_spec [OF candidates_ready distinct_candidates _ _ _ ev(1)]) simp_all
    then show ?thesis
      using ev(2,3) by (auto simp: evicts_def admission_def)
  qed
qed

text \<open>The entries that an admission evicts.\<close>

lemma admission_victims:
  assumes "admission mgr key incoming released plan" and "k \<in> fmdom' (hp_victims plan)"
  obtains e where "evictable mgr key k e"
proof -
  obtain t b where "(k, t, b) \<in> set (candidates_of mgr key)"
    using assms by (fastforce simp: admission_def)
  then show ?thesis
    using that by (auto simp: set_candidates)
qed

lemma evicted_entry_ok:
  assumes "entry_ok clock k e" and "fmlookup v k \<in> {None, Some Dram, Some Nvme}"
    and "fmlookup v k \<noteq> None \<Longrightarrow> re_residency e = Hbm \<and> re_pin_count e = 0"
  shows "entry_ok clock k (evict_entry v k e)"
  using assms by (auto simp: entry_ok_def evict_entry_def split: option.splits)

lemma admitted_ok:
  assumes "manager_ok mgr" and "admission mgr key (page_bytes (re_record e)) released plan" and "fmlookup (rm_entries mgr) key = Some e"
    and "released = weight Dram e" and "re_residency e \<noteq> Hbm" and "entry_ok clock key e'" and "re_residency e' = Hbm"
    and "re_record e' = re_record e" and "rm_clock mgr \<le> clock"
  shows "manager_ok ((apply_hbm_admission plan (set_entry key e' mgr))\<lparr>rm_clock := clock, rm_state_generation := g\<rparr>)"
proof -
  let ?v = "hp_victims plan" and ?es = "rm_entries mgr"
  have key: "fmlookup ?v key = None"
    using admission_victims [OF assms(2), of key] by (auto simp: evictable_def fmdom'_notI fmdom'_notD)
  then have keep: "evict_entry ?v key x = x" for x
    by (simp add: evict_entry_def)
  have es: "evicted ?v (fmupd key e' ?es) = fmupd key e' (evicted ?v ?es)"
    by (rule fmap_ext) (auto simp: keep)
  have old: "fmlookup (evicted ?v ?es) key = Some e"
    using assms(3) by (simp add: keep)
  have bytes: "bytes_in Hbm (evicted ?v ?es) + page_bytes (re_record e) = hp_hbm_bytes plan"
      "bytes_in Dram (evicted ?v ?es) = hp_dram_bytes plan + weight Dram e"
      "hp_hbm_bytes plan \<le> rc_hbm_bytes (rm_config mgr)" "hp_dram_bytes plan \<le> rc_dram_bytes (rm_config mgr)"
    using assms(2,4) by (simp_all add: admission_def)
  have "bytes_in Hbm (fmupd key e' (evicted ?v ?es)) = hp_hbm_bytes plan" "bytes_in Dram (fmupd key e' (evicted ?v ?es)) = hp_dram_bytes plan"
    using fm_sum_upd [OF old, of "weight Hbm" e'] fm_sum_upd [OF old, of "weight Dram" e'] bytes assms(5,7,8) by (simp_all add: weight_def)
  moreover have "entry_ok clock k x" if x: "fmlookup (fmupd key e' (evicted ?v ?es)) k = Some x" for k x
  proof (cases "k = key")
    case True
    then show ?thesis
      using x assms(6) by simp
  next
    case False
    then obtain y where y: "fmlookup ?es k = Some y" "x = evict_entry ?v k y"
      using x by auto
    have "entry_ok clock k y"
      using y(1) assms(1,9) by (auto simp: manager_ok_def intro: entry_ok_later)
    moreover have "fmlookup ?v k \<in> {None, Some Dram, Some Nvme}"
      using assms(2) by (cases "k \<in> fmdom' ?v") (auto simp: admission_def fmdom'_notD)
    moreover have "re_residency y = Hbm \<and> re_pin_count y = 0" if victim: "fmlookup ?v k \<noteq> None"
    proof -
      have "k \<in> fmdom' ?v"
        using victim by (auto simp: fmlookup_dom'_iff)
      then obtain z where "evictable mgr key k z"
        by (rule admission_victims [OF assms(2)])
      then show ?thesis
        using y(1) by (simp add: evictable_def)
    qed
    ultimately show ?thesis
      unfolding y(2) by (rule evicted_entry_ok)
  qed
  ultimately show ?thesis
    using assms(1) bytes(3,4) es by (auto simp: manager_ok_def apply_hbm_admission_def set_entry_def)
qed

section \<open>Registration\<close>

abbreviation registered :: "tier_record list \<Rightarrow> (hash32, resident_entry) fmap \<Rightarrow> (hash32, resident_entry) fmap" where
  "registered rs \<equiv> fold (\<lambda>r. fmupd (tr_page_key r) (registered_entry r)) rs"

lemma registered_snoc: "registered (rs @ [r]) es = fmupd (tr_page_key r) (registered_entry r) (registered rs es)"
  by simp

lemma registered_lookup:
  "fmlookup (registered rs es) k = Some e \<Longrightarrow> fmlookup es k = Some e \<or> (\<exists>r\<in>set rs. tr_page_key r = k \<and> e = registered_entry r)"
  by (induction rs arbitrary: es) (fastforce split: if_splits)+

lemma registered_other: "k \<notin> tr_page_key ` set rs \<Longrightarrow> fmlookup (registered rs es) k = fmlookup es k"
  by (induction rs arbitrary: es) auto

text \<open>A plan that fits the manager.\<close>

definition planned :: "residency_manager \<Rightarrow> nat \<Rightarrow> nat \<Rightarrow> tier_record list \<Rightarrow> bool" where
  "planned mgr hbm dram rs \<longleftrightarrow> bytes_in Hbm (registered rs (rm_entries mgr)) = hbm \<and> bytes_in Dram (registered rs (rm_entries mgr)) = dram \<and>
     hbm \<le> rm_hbm_bytes mgr \<and> dram \<le> rm_dram_bytes mgr \<and> (\<forall>r\<in>set rs. validate_record r = Inr () \<and> tr_tier r = tier.Nvme) \<and>
     (\<forall>r\<in>set rs. \<forall>e. fmlookup (rm_entries mgr) (tr_page_key r) = Some e \<longrightarrow> re_pin_count e = 0 \<and> re_residency e \<noteq> Restoring)"

lemma action_Inr:
  assumes "nvme_registration_action mgr r = Inr action"
  shows "validate_record r = Inr ()" and "tr_tier r = tier.Nvme" and "action = Insert \<longleftrightarrow> fmlookup (rm_entries mgr) (tr_page_key r) = None"
    and "action = Replace \<Longrightarrow> fmlookup (rm_entries mgr) (tr_page_key r) = Some e \<Longrightarrow> re_pin_count e = 0 \<and> re_residency e \<noteq> Restoring"
proof -
  show valid: "validate_record r = Inr ()" "tr_tier r = tier.Nvme"
    using assms by (auto simp: nvme_registration_action_def result_simps split: if_splits)
  have some: "action \<noteq> Insert \<and> (action = Replace \<longrightarrow> re_pin_count e = 0 \<and> re_residency e \<noteq> Restoring)"
    if found: "fmlookup (rm_entries mgr) (tr_page_key r) = Some e" for e
  proof -
    obtain relation where "relation_to (re_record e) r = Inr relation"
      using assms found valid by (auto simp: nvme_registration_action_def result_simps)
    then show ?thesis
      using assms found valid by (cases relation; auto simp: nvme_registration_action_def result_simps split: if_splits)
  qed
  have none: "action = Insert" if "fmlookup (rm_entries mgr) (tr_page_key r) = None"
    using assms that valid by (simp add: nvme_registration_action_def)
  show "action = Insert \<longleftrightarrow> fmlookup (rm_entries mgr) (tr_page_key r) = None"
    using some none by (cases "fmlookup (rm_entries mgr) (tr_page_key r)") auto
  show "re_pin_count e = 0 \<and> re_residency e \<noteq> Restoring"
    if "action = Replace" "fmlookup (rm_entries mgr) (tr_page_key r) = Some e"
    using some that by blast
qed

lemma weight_registered [simp]: "place \<in> {Hbm, Dram} \<Longrightarrow> weight place (registered_entry r) = 0"
  by (auto simp: weight_def registered_entry_def)

lemma plan_record_step:
  assumes "manager_ok mgr" and "plan_record mgr r (hbm, dram, keys, ps) = Inr (hbm', dram', keys', ps')"
    and "planned mgr hbm dram ps" and "tr_page_key ` set ps \<subseteq> keys"
  shows "planned mgr hbm' dram' ps' \<and> tr_page_key ` set ps' \<subseteq> keys'"
proof -
  obtain action where action: "nvme_registration_action mgr r = Inr action"
    using assms(2) by (auto simp: plan_record_def Let_def result_simps split: if_splits)
  have fresh: "tr_page_key r \<notin> keys"
    using assms(2) by (auto simp: plan_record_def split: if_splits)
  then have same: "fmlookup (registered ps (rm_entries mgr)) (tr_page_key r) = fmlookup (rm_entries mgr) (tr_page_key r)"
    using assms(4) by (intro registered_other) auto
  show ?thesis
  proof (cases action)
    case Retain
    then show ?thesis
      using assms(2-4) action fresh by (auto simp: plan_record_def)
  next
    case Insert
    then have none: "fmlookup (registered ps (rm_entries mgr)) (tr_page_key r) = None"
      using action_Inr(3) [OF action] same by simp
    have after: "hbm' = hbm" "dram' = dram" "keys' = insert (tr_page_key r) keys" "ps' = ps @ [r]"
      using assms(2) Insert action fresh by (auto simp: plan_record_def)
    then show ?thesis
      using assms(3,4) action_Inr [OF action] Insert none by (auto simp: planned_def registered_snoc fm_sum_new [OF none])
  next
    case Replace
    then obtain e where e: "fmlookup (rm_entries mgr) (tr_page_key r) = Some e"
      using action_Inr(3) [OF action] by auto
    then have valid: "entry_bytes (re_record e) = Inr (page_bytes (re_record e))"
      using assms(1) by (auto simp: manager_ok_def entry_ok_def)
    have entry: "entry_of mgr (tr_page_key r) = Inr e"
      using e by (simp add: entry_of_def ok_or_def)
    have after: "keys' = insert (tr_page_key r) keys" "ps' = ps @ [r]" "hbm' = hbm - weight Hbm e" "dram' = dram - weight Dram e"
      using assms(2) Replace action fresh valid entry action_Inr(4) [OF action Replace e]
      by (cases "re_residency e"; auto simp: plan_record_def result_simps weight_def checked_sub_def split: if_splits)+
    have some: "fmlookup (registered ps (rm_entries mgr)) (tr_page_key r) = Some e"
      using same e by simp
    show ?thesis
      using assms(3,4) action_Inr [OF action] Replace e after fm_sum_upd [OF some, of "weight Hbm" "registered_entry r"]
        fm_sum_upd [OF some, of "weight Dram" "registered_entry r"]
      by (auto simp: planned_def registered_snoc)
  qed
qed

lemma plan_registrations:
  assumes "manager_ok mgr" and "plan_nvme_registrations mgr rs = Inr plan"
  shows "planned mgr (np_hbm_bytes plan) (np_dram_bytes plan) (np_records plan) \<and> np_expected_state_generation plan = rm_state_generation mgr"
proof -
  have "planned mgr hbm' dram' ps' \<and> tr_page_key ` set ps' \<subseteq> keys'"
    if "rfold (plan_record mgr) rs (hbm, dram, keys, ps) = Inr (hbm', dram', keys', ps')" "planned mgr hbm dram ps" "tr_page_key ` set ps \<subseteq> keys"
    for hbm dram keys ps hbm' dram' keys' ps'
    using that
  proof (induction rs arbitrary: hbm dram keys ps)
    case (Cons r rs)
    then obtain hbm1 dram1 keys1 ps1 where "plan_record mgr r (hbm, dram, keys, ps) = Inr (hbm1, dram1, keys1, ps1)"
        "rfold (plan_record mgr) rs (hbm1, dram1, keys1, ps1) = Inr (hbm', dram', keys', ps')"
      by (auto simp: result_simps)
    then show ?case
      using Cons.IH plan_record_step [OF assms(1)] Cons.prems(2,3) by blast
  qed simp
  moreover have "planned mgr (rm_hbm_bytes mgr) (rm_dram_bytes mgr) []"
    using assms(1) by (simp add: planned_def manager_ok_def)
  ultimately show ?thesis
    using assms(2) by (fastforce simp: plan_nvme_registrations_def result_simps)
qed

lemma commit_keeps:
  assumes "manager_ok mgr" and "planned mgr (np_hbm_bytes plan) (np_dram_bytes plan) (np_records plan)" and "commit_inner plan mgr = Inr (mgr', x)"
  shows "manager_ok mgr'"
proof -
  have mgr': "rm_entries mgr' = registered (np_records plan) (rm_entries mgr)" "rm_hbm_bytes mgr' = np_hbm_bytes plan"
      "rm_dram_bytes mgr' = np_dram_bytes plan" "rm_clock mgr' = rm_clock mgr" "rm_config mgr' = rm_config mgr"
    using assms(3) by (auto simp: commit_inner_def result_simps split: if_splits)
  have "entry_ok (rm_clock mgr) k e" if "fmlookup (registered (np_records plan) (rm_entries mgr)) k = Some e" for k e
    using registered_lookup [OF that] assms(1,2) by (auto simp: manager_ok_def planned_def entry_ok_def registered_entry_def)
  then show ?thesis
    using assms(1,2) by (simp add: manager_ok_def mgr' planned_def)
qed

end
