(* ===== verification/Residency_Run.thy ===== *)
theory Residency_Run
  imports Residency_Inv
begin

text \<open>
  The operations of the residency manager one by one and as a machine: each keeps the invariant, and each that changes
  anything moves the state generation on.
\<close>

section \<open>Single operations\<close>

lemma generation_Inr [result_simps]:
  "next_state_generation mgr = Inr g \<longleftrightarrow> rm_state_generation mgr + 1 < 2 ^ 64 \<and> g = rm_state_generation mgr + 1"
  by (auto simp: next_state_generation_def result_simps)

lemma manager_entry: "manager_ok mgr \<Longrightarrow> fmlookup (rm_entries mgr) k = Some e \<Longrightarrow> entry_ok (rm_clock mgr) k e"
  by (simp add: manager_ok_def)

lemma begin_restore_keeps:
  assumes "manager_ok mgr" and "begin_restore_inner request_id k page_ordinal rank mgr = Inr (mgr', request)"
  shows "manager_ok mgr'"
proof -
  obtain e where e: "fmlookup (rm_entries mgr) k = Some e" "re_residency e = Nvme"
      "mgr' = (set_entry k (e\<lparr>re_residency := Restoring, re_pending_restore := Some \<lparr>pr_request_id = request_id, pr_page_ordinal = page_ordinal\<rparr>\<rparr>) mgr)
        \<lparr>rm_state_generation := rm_state_generation mgr + 1\<rparr>"
    using assms(2) by (auto simp: begin_restore_inner_def Let_def result_simps split: if_splits)
  show ?thesis
    unfolding e(3) using manager_entry [OF assms(1) e(1)] e(2)
    by (intro replace_entry_ok_now [OF assms(1) e(1)]) (auto simp: entry_ok_def weight_def split: option.splits)
qed

lemma abort_entry_keeps:
  assumes "manager_ok mgr" and "fmlookup (rm_entries mgr) k = Some e" and "re_residency e = Restoring"
  shows "manager_ok ((set_entry k (abort_entry e) mgr)\<lparr>rm_state_generation := g\<rparr>)"
  using manager_entry [OF assms(1,2)] assms(3)
  by (intro replace_entry_ok_now [OF assms(1,2)]) (auto simp: entry_ok_def weight_def abort_entry_def split: option.splits)

lemma abort_restore_keeps: "manager_ok mgr \<Longrightarrow> abort_restore_inner k mgr = Inr (mgr', x) \<Longrightarrow> manager_ok mgr'"
  by (auto simp: abort_restore_inner_def result_simps intro: abort_entry_keeps split: if_splits)

lemma abort_identity_keeps: "manager_ok mgr \<Longrightarrow> abort_identity_inner k request_id page_ordinal mgr = Inr (mgr', x) \<Longrightarrow> manager_ok mgr'"
  by (auto simp: abort_identity_inner_def validate_abort_restore_identity_def result_simps intro: abort_entry_keeps split: if_splits)

lemma pin_keeps:
  assumes "manager_ok mgr" and "pin_inner k mgr = Inr (mgr', x)"
  shows "manager_ok mgr'"
proof -
  obtain e where e: "fmlookup (rm_entries mgr) k = Some e" "re_residency e = Hbm"
      "mgr' = (set_entry k (e\<lparr>re_pin_count := re_pin_count e + 1, re_last_touch := rm_clock mgr + 1\<rparr>) mgr)
        \<lparr>rm_clock := rm_clock mgr + 1, rm_state_generation := rm_state_generation mgr + 1\<rparr>"
    using assms(2) by (auto simp: pin_inner_def Let_def result_simps split: if_splits)
  show ?thesis
    unfolding e(3) using manager_entry [OF assms(1) e(1)] e(2)
    by (intro replace_entry_ok [OF assms(1) e(1)]) (auto simp: entry_ok_def weight_def split: option.splits)
qed

lemma unpin_keeps:
  assumes "manager_ok mgr" and "unpin_inner k n mgr = Inr (mgr', x)"
  shows "manager_ok mgr'"
proof -
  obtain e where e: "fmlookup (rm_entries mgr) k = Some e" "re_residency e = Hbm"
      "mgr' = (set_entry k (e\<lparr>re_pin_count := re_pin_count e - n\<rparr>) mgr)\<lparr>rm_state_generation := rm_state_generation mgr + 1\<rparr>"
    using assms(2) by (auto simp: unpin_inner_def validate_unpin_count_def result_simps checked_sub_def split: if_splits)
  show ?thesis
    unfolding e(3) using manager_entry [OF assms(1) e(1)] e(2)
    by (intro replace_entry_ok_now [OF assms(1) e(1)]) (auto simp: entry_ok_def weight_def split: option.splits)
qed

text \<open>The two operations that bring a page to HBM.\<close>

lemma complete_restore_Inr:
  assumes "manager_ok mgr" and "complete_restore_inner result mgr = Inr (mgr', x)"
  obtains e plan where "fmlookup (rm_entries mgr) (tr_page_key (rp_record (rs_page result))) = Some e" "re_residency e = Restoring"
    "re_record e = rp_record (rs_page result)"
    "plan_hbm_admission mgr (page_bytes (re_record e)) 0 (Some (tr_page_key (rp_record (rs_page result)))) = Inr plan"
    "mgr' = (apply_hbm_admission plan (set_entry (tr_page_key (rp_record (rs_page result)))
      (e\<lparr>re_residency := Hbm, re_restored := Some (rs_page result), re_pending_restore := None, re_last_touch := rm_clock mgr + 1\<rparr>) mgr))
      \<lparr>rm_clock := rm_clock mgr + 1, rm_state_generation := rm_state_generation mgr + 1\<rparr>"
proof -
  obtain e where e: "fmlookup (rm_entries mgr) (tr_page_key (rp_record (rs_page result))) = Some e"
    using assms(2) by (auto simp: complete_restore_inner_def Let_def result_simps)
  then have "entry_bytes (re_record e) = Inr (page_bytes (re_record e))"
    using manager_entry [OF assms(1) e] by (simp add: entry_ok_def)
  then show ?thesis
    using assms(2) e that by (auto simp: complete_restore_inner_def Let_def result_simps split: if_splits)
qed

lemma complete_restore_keeps:
  assumes "manager_ok mgr" and "complete_restore_inner result mgr = Inr (mgr', x)"
  shows "manager_ok mgr'"
proof -
  obtain e plan where e: "fmlookup (rm_entries mgr) (tr_page_key (rp_record (rs_page result))) = Some e" "re_residency e = Restoring"
    "re_record e = rp_record (rs_page result)"
    "plan_hbm_admission mgr (page_bytes (re_record e)) 0 (Some (tr_page_key (rp_record (rs_page result)))) = Inr plan"
    "mgr' = (apply_hbm_admission plan (set_entry (tr_page_key (rp_record (rs_page result)))
      (e\<lparr>re_residency := Hbm, re_restored := Some (rs_page result), re_pending_restore := None, re_last_touch := rm_clock mgr + 1\<rparr>) mgr))
      \<lparr>rm_clock := rm_clock mgr + 1, rm_state_generation := rm_state_generation mgr + 1\<rparr>"
    using complete_restore_Inr [OF assms] .
  show ?thesis
    unfolding e(5) using manager_entry [OF assms(1) e(1)] e(2,3)
    by (intro admitted_ok [OF assms(1) plan_admission [OF assms(1) e(4)] e(1)]) (auto simp: entry_ok_def weight_def split: option.splits)
qed

lemma promote_Inr:
  assumes "manager_ok mgr" and "promote_inner k mgr = Inr (mgr', x)"
  obtains e plan where "fmlookup (rm_entries mgr) k = Some e" "re_residency e = Dram"
    "plan_hbm_admission mgr (page_bytes (re_record e)) (page_bytes (re_record e)) (Some k) = Inr plan"
    "mgr' = (apply_hbm_admission plan (set_entry k (e\<lparr>re_residency := Hbm, re_last_touch := rm_clock mgr + 1\<rparr>) mgr))
      \<lparr>rm_clock := rm_clock mgr + 1, rm_state_generation := rm_state_generation mgr + 1\<rparr>"
proof -
  obtain e where e: "fmlookup (rm_entries mgr) k = Some e"
    using assms(2) by (auto simp: promote_inner_def Let_def result_simps)
  then have "entry_bytes (re_record e) = Inr (page_bytes (re_record e))"
    using manager_entry [OF assms(1) e] by (simp add: entry_ok_def)
  then show ?thesis
    using assms(2) e that by (auto simp: promote_inner_def Let_def result_simps split: if_splits)
qed

lemma promote_keeps:
  assumes "manager_ok mgr" and "promote_inner k mgr = Inr (mgr', x)"
  shows "manager_ok mgr'"
proof -
  obtain e plan where e: "fmlookup (rm_entries mgr) k = Some e" "re_residency e = Dram"
    "plan_hbm_admission mgr (page_bytes (re_record e)) (page_bytes (re_record e)) (Some k) = Inr plan"
    "mgr' = (apply_hbm_admission plan (set_entry k (e\<lparr>re_residency := Hbm, re_last_touch := rm_clock mgr + 1\<rparr>) mgr))
      \<lparr>rm_clock := rm_clock mgr + 1, rm_state_generation := rm_state_generation mgr + 1\<rparr>"
    using promote_Inr [OF assms] .
  show ?thesis
    unfolding e(4) using manager_entry [OF assms(1) e(1)] e(2)
    by (intro admitted_ok [OF assms(1) plan_admission [OF assms(1) e(3)] e(1)]) (auto simp: entry_ok_def weight_def split: option.splits)
qed

section \<open>Calls\<close>

text \<open>
  A call on the manager. A registration may be planned now and committed later, so the plans that callers hold are part
  of the state; a commit names one of them.
\<close>

datatype residency_call =
    CallRegister tier_record | CallPlan "tier_record list" | CallCommit nat | CallBegin nat hash32 nat nat | CallAbort hash32
  | CallAbortIdentity hash32 nat nat | CallComplete restore_result | CallPromote hash32 | CallPin hash32 | CallUnpin hash32 nat

type_synonym residency_state = "residency_manager \<times> nvme_registration_plan list"

fun call_inner :: "nvme_registration_plan list \<Rightarrow> residency_call \<Rightarrow> residency_manager \<Rightarrow> (residency_error, residency_manager \<times> unit) result" where
  "call_inner plans (CallRegister r) mgr = register_inner r mgr"
| "call_inner plans (CallPlan rs) mgr = Inr (mgr, ())"
| "call_inner plans (CallCommit i) mgr = (if i < length plans then commit_inner (plans ! i) mgr else Inl (Err Request))"
| "call_inner plans (CallBegin request_id k page_ordinal rank) mgr =
     rbind (begin_restore_inner request_id k page_ordinal rank mgr) (\<lambda>(mgr', _). Inr (mgr', ()))"
| "call_inner plans (CallAbort k) mgr = abort_restore_inner k mgr"
| "call_inner plans (CallAbortIdentity k request_id page_ordinal) mgr = abort_identity_inner k request_id page_ordinal mgr"
| "call_inner plans (CallComplete result) mgr = complete_restore_inner result mgr"
| "call_inner plans (CallPromote k) mgr = promote_inner k mgr"
| "call_inner plans (CallPin k) mgr = pin_inner k mgr"
| "call_inner plans (CallUnpin k n) mgr = unpin_inner k n mgr"

fun plans_after :: "residency_call \<Rightarrow> residency_manager \<Rightarrow> nvme_registration_plan list" where
  "plans_after (CallPlan rs) mgr = (case plan_nvme_registrations mgr rs of Inr plan \<Rightarrow> [plan] | Inl _ \<Rightarrow> [])"
| "plans_after _ mgr = []"

definition residency_exec :: "residency_call \<Rightarrow> residency_state \<Rightarrow> residency_state" where
  "residency_exec c = (\<lambda>(mgr, plans). (snd (transact (call_inner plans c) mgr), plans @ plans_after c mgr))"

definition fitting :: "residency_manager \<Rightarrow> nvme_registration_plan \<Rightarrow> bool" where
  "fitting mgr plan \<longleftrightarrow> np_expected_state_generation plan \<le> rm_state_generation mgr \<and>
     (np_expected_state_generation plan = rm_state_generation mgr \<longrightarrow> planned mgr (np_hbm_bytes plan) (np_dram_bytes plan) (np_records plan))"

definition state_ok :: "residency_state \<Rightarrow> bool" where
  "state_ok = (\<lambda>(mgr, plans). manager_ok mgr \<and> (\<forall>plan\<in>set plans. fitting mgr plan))"

lemma commit_validated: "commit_inner plan mgr = Inr (mgr', x) \<Longrightarrow> np_expected_state_generation plan = rm_state_generation mgr"
  by (auto simp: commit_inner_def validate_nvme_registration_plan_def result_simps)

lemma call_keeps:
  assumes "state_ok (mgr, plans)" and "call_inner plans c mgr = Inr (mgr', x)"
  shows "manager_ok mgr'"
proof -
  have ok: "manager_ok mgr" "\<forall>plan\<in>set plans. fitting mgr plan"
    using assms(1) by (simp_all add: state_ok_def)
  show ?thesis
  proof (cases c)
    case (CallRegister r)
    then obtain plan where "plan_nvme_registrations mgr [r] = Inr plan" "commit_inner plan mgr = Inr (mgr', ())"
      using assms(2) by (auto simp: register_inner_def result_simps)
    then show ?thesis
      using commit_keeps [OF ok(1)] plan_registrations [OF ok(1)] by blast
  next
    case (CallCommit i)
    then have i: "i < length plans" "commit_inner (plans ! i) mgr = Inr (mgr', x)"
      using assms(2) by (auto split: if_splits)
    then show ?thesis
      using commit_keeps [OF ok(1) _ i(2)] commit_validated [OF i(2)] ok(2) by (simp add: fitting_def)
  qed (use assms(2) ok(1) in \<open>auto simp: result_simps intro: begin_restore_keeps abort_restore_keeps abort_identity_keeps complete_restore_keeps
      promote_keeps pin_keeps unpin_keeps\<close>)
qed

text \<open>A call that changes anything moves the state generation on by one.\<close>

lemma commit_generation:
  assumes "manager_ok mgr" and "planned mgr (np_hbm_bytes plan) (np_dram_bytes plan) (np_records plan)" and "commit_inner plan mgr = Inr (mgr', x)"
  shows "mgr' = mgr \<or> rm_state_generation mgr' = rm_state_generation mgr + 1"
  using assms by (auto simp: commit_inner_def result_simps planned_def manager_ok_def split: if_splits)

lemma call_generation:
  assumes "state_ok (mgr, plans)" and "call_inner plans c mgr = Inr (mgr', x)"
  shows "mgr' = mgr \<or> rm_state_generation mgr' = rm_state_generation mgr + 1"
proof -
  have ok: "manager_ok mgr" "\<forall>plan\<in>set plans. fitting mgr plan"
    using assms(1) by (simp_all add: state_ok_def)
  show ?thesis
  proof (cases c)
    case (CallRegister r)
    then obtain plan where "plan_nvme_registrations mgr [r] = Inr plan" "commit_inner plan mgr = Inr (mgr', ())"
      using assms(2) by (auto simp: register_inner_def result_simps)
    then show ?thesis
      using commit_generation [OF ok(1)] plan_registrations [OF ok(1)] by blast
  next
    case (CallCommit i)
    then have i: "i < length plans" "commit_inner (plans ! i) mgr = Inr (mgr', x)"
      using assms(2) by (auto split: if_splits)
    then show ?thesis
      using commit_generation [OF ok(1) _ i(2)] commit_validated [OF i(2)] ok(2) by (simp add: fitting_def)
  next
    case (CallComplete result)
    then have "complete_restore_inner result mgr = Inr (mgr', x)"
      using assms(2) by simp
    then show ?thesis
      by (rule complete_restore_Inr [OF ok(1)]) simp
  next
    case (CallPromote k)
    then have "promote_inner k mgr = Inr (mgr', x)"
      using assms(2) by simp
    then show ?thesis
      by (rule promote_Inr [OF ok(1)]) simp
  qed (use assms(2) in \<open>auto simp: begin_restore_inner_def abort_restore_inner_def abort_identity_inner_def pin_inner_def
      unpin_inner_def result_simps Let_def split: if_splits\<close>)
qed

lemma exec_cases:
  assumes "state_ok (mgr, plans)"
  obtains "fst (residency_exec c (mgr, plans)) = mgr"
  | mgr' x where "call_inner plans c mgr = Inr (mgr', x)" "fst (residency_exec c (mgr, plans)) = mgr'" "manager_ok mgr'"
      "rm_state_generation mgr' = rm_state_generation mgr + 1"
proof (cases "call_inner plans c mgr")
  case (Inl e)
  then show ?thesis
    using that(1) by (simp add: residency_exec_def transact_def)
next
  case (Inr y)
  then obtain mgr' x where y: "call_inner plans c mgr = Inr (mgr', x)"
    by (cases y) simp
  then have "fst (residency_exec c (mgr, plans)) = mgr'"
    by (simp add: residency_exec_def transact_def)
  then show ?thesis
    using call_generation [OF assms y] call_keeps [OF assms y] that y by blast
qed

lemma residency_exec_keeps: "state_ok s \<Longrightarrow> state_ok (residency_exec c s)"
proof -
  assume ok: "state_ok s"
  obtain mgr plans where s: "s = (mgr, plans)"
    by (cases s)
  let ?mgr = "fst (residency_exec c (mgr, plans))"
  have mgr: "manager_ok mgr" "\<forall>plan\<in>set plans. fitting mgr plan"
    using ok s by (simp_all add: state_ok_def)
  have new: "?mgr = mgr \<and> fitting mgr plan" if "plan \<in> set (plans_after c mgr)" for plan
    using that plan_registrations [OF mgr(1)]
    by (cases c; auto simp: fitting_def residency_exec_def transact_def split: sum.splits)
  have "manager_ok ?mgr \<and> (\<forall>plan\<in>set plans. fitting ?mgr plan)"
  proof (rule exec_cases [OF ok [unfolded s], of c])
    assume "?mgr = mgr"
    then show ?thesis
      using mgr by simp
  next
    fix mgr' x
    assume "?mgr = mgr'" "manager_ok mgr'" "rm_state_generation mgr' = rm_state_generation mgr + 1"
    then show ?thesis
      using mgr(2) by (auto simp: fitting_def)
  qed
  then show ?thesis
    using new by (auto simp: s state_ok_def residency_exec_def)
qed

interpretation residency_machine: machine state_ok residency_exec
  by unfold_locales (rule residency_exec_keeps)

end
