(* ===== verification/Residency_Props.thy ===== *)
theory Residency_Props
  imports Residency_Run
begin

text \<open>
  What the residency manager promises: exact accounting within the budgets, pinned pages stay, a restored page is
  admitted exactly if the pinned pages leave room for it, the least recently used pages go first, and a plan made for another state is refused.
\<close>

section \<open>Pinned pages\<close>

lemma admission_keeps_pinned:
  assumes "admission mgr key incoming released plan" and "fmlookup (rm_entries mgr) k = Some e" and "re_pin_count e \<noteq> 0" and "k \<noteq> key"
  shows "fmlookup (rm_entries (apply_hbm_admission plan (set_entry key e' mgr))) k = Some e"
proof -
  have "k \<notin> fmdom' (hp_victims plan)"
    using admission_victims [OF assms(1), of k] assms(2,3) by (auto simp: evictable_def)
  then show ?thesis
    using assms(2,4) by (simp add: apply_hbm_admission_def set_entry_def evict_entry_def fmdom'_notD)
qed

definition still_pinned :: "hash32 \<Rightarrow> resident_entry \<Rightarrow> residency_manager \<Rightarrow> bool" where
  "still_pinned k e mgr \<longleftrightarrow> (\<exists>e'. fmlookup (rm_entries mgr) k = Some e' \<and> re_residency e' = Hbm \<and> re_restored e' = re_restored e \<and>
     re_record e' = re_record e \<and> re_pin_count e \<le> re_pin_count e')"

lemma commit_keeps_pinned:
  assumes "planned mgr (np_hbm_bytes plan) (np_dram_bytes plan) (np_records plan)" and "commit_inner plan mgr = Inr (mgr', x)"
    and "fmlookup (rm_entries mgr) k = Some e" and "re_pin_count e \<noteq> 0"
  shows "fmlookup (rm_entries mgr') k = Some e"
proof -
  have "k \<notin> tr_page_key ` set (np_records plan)"
    using assms(1,3,4) by (auto simp: planned_def)
  moreover have "rm_entries mgr' = registered (np_records plan) (rm_entries mgr)"
    using assms(2) by (auto simp: commit_inner_def result_simps split: if_splits)
  ultimately show ?thesis
    using assms(3) by (simp add: registered_other)
qed

lemma pinned_step:
  assumes "state_ok (mgr, plans)" and "fmlookup (rm_entries mgr) k = Some e" and "re_pin_count e \<noteq> 0" and "\<And>n. c \<noteq> CallUnpin k n"
    and "call_inner plans c mgr = Inr (mgr', x)"
  shows "still_pinned k e mgr'"
proof -
  have ok: "manager_ok mgr" "\<forall>plan\<in>set plans. fitting mgr plan"
    using assms(1) by (simp_all add: state_ok_def)
  have hbm: "re_residency e = Hbm"
    using manager_entry [OF ok(1) assms(2)] assms(3) by (simp add: entry_ok_def)
  have same: "still_pinned k e m" if "fmlookup (rm_entries m) k = Some e" for m
    using that hbm by (simp add: still_pinned_def)
  show ?thesis
  proof (cases c)
    case (CallRegister r)
    then obtain plan where "plan_nvme_registrations mgr [r] = Inr plan" "commit_inner plan mgr = Inr (mgr', ())"
      using assms(5) by (auto simp: register_inner_def result_simps)
    then show ?thesis
      using commit_keeps_pinned [OF _ _ assms(2,3)] plan_registrations [OF ok(1)] same by blast
  next
    case (CallCommit i)
    then have i: "i < length plans" "commit_inner (plans ! i) mgr = Inr (mgr', x)"
      using assms(5) by (auto split: if_splits)
    then show ?thesis
      using commit_keeps_pinned [OF _ i(2) assms(2,3)] commit_validated [OF i(2)] ok(2) same by (simp add: fitting_def)
  next
    case (CallComplete result)
    then have run: "complete_restore_inner result mgr = Inr (mgr', x)"
      using assms(5) by simp
    then obtain e1 plan where e1: "fmlookup (rm_entries mgr) (tr_page_key (rp_record (rs_page result))) = Some e1" "re_residency e1 = Restoring"
        "plan_hbm_admission mgr (page_bytes (re_record e1)) 0 (Some (tr_page_key (rp_record (rs_page result)))) = Inr plan"
        "rm_entries mgr' = rm_entries (apply_hbm_admission plan (set_entry (tr_page_key (rp_record (rs_page result)))
          (e1\<lparr>re_residency := Hbm, re_restored := Some (rs_page result), re_pending_restore := None, re_last_touch := rm_clock mgr + 1\<rparr>) mgr))"
      by (rule complete_restore_Inr [OF ok(1)]) simp
    then have "k \<noteq> tr_page_key (rp_record (rs_page result))"
      using assms(2) hbm by auto
    then show ?thesis
      using admission_keeps_pinned [OF plan_admission [OF ok(1) e1(3)] assms(2,3)] e1(4) same by simp
  next
    case (CallPromote k')
    then have run: "promote_inner k' mgr = Inr (mgr', x)"
      using assms(5) by simp
    then obtain e1 plan where e1: "fmlookup (rm_entries mgr) k' = Some e1" "re_residency e1 = Dram"
        "plan_hbm_admission mgr (page_bytes (re_record e1)) (page_bytes (re_record e1)) (Some k') = Inr plan"
        "rm_entries mgr' = rm_entries (apply_hbm_admission plan (set_entry k' (e1\<lparr>re_residency := Hbm, re_last_touch := rm_clock mgr + 1\<rparr>) mgr))"
      by (rule promote_Inr [OF ok(1)]) simp
    then have "k \<noteq> k'"
      using assms(2) hbm by auto
    then show ?thesis
      using admission_keeps_pinned [OF plan_admission [OF ok(1) e1(3)] assms(2,3)] e1(4) same by simp
  next
    case (CallUnpin k' n)
    then have "k' \<noteq> k"
      using assms(4) by blast
    then show ?thesis
      using CallUnpin assms(2,5) same by (auto simp: unpin_inner_def set_entry_def result_simps)
  qed (use assms hbm in \<open>auto simp: begin_restore_inner_def abort_restore_inner_def abort_identity_inner_def validate_abort_restore_identity_def
      pin_inner_def set_entry_def result_simps Let_def still_pinned_def split: if_splits\<close>)
qed

lemma still_pinned_trans: "still_pinned k e mgr \<Longrightarrow> fmlookup (rm_entries mgr) k = Some e' \<Longrightarrow> still_pinned k e' mgr' \<Longrightarrow> still_pinned k e mgr'"
  by (auto simp: still_pinned_def)

lemma pinned_run:
  assumes "state_ok (mgr, plans)" and "fmlookup (rm_entries mgr) k = Some e" and "re_pin_count e \<noteq> 0" and "\<forall>n. CallUnpin k n \<notin> set cs"
  shows "still_pinned k e (fst (fold residency_exec cs (mgr, plans)))"
  using assms
proof (induction cs arbitrary: mgr plans e)
  case Nil
  then show ?case
    using manager_entry [of mgr k e] by (auto simp: still_pinned_def state_ok_def entry_ok_def)
next
  case (Cons c cs)
  obtain mgr1 plans1 where s1: "residency_exec c (mgr, plans) = (mgr1, plans1)"
    by (cases "residency_exec c (mgr, plans)")
  have ok1: "state_ok (mgr1, plans1)"
    using residency_exec_keeps [OF Cons.prems(1), of c] s1 by simp
  have nil: "still_pinned k e mgr"
    using Cons.prems manager_entry [of mgr k e] by (auto simp: still_pinned_def state_ok_def entry_ok_def)
  have "c \<noteq> CallUnpin k n" for n
    using Cons.prems(4) by auto
  then have "still_pinned k e mgr1"
    using pinned_step [OF Cons.prems(1-3), of c] s1 nil by (cases "call_inner plans c mgr") (auto simp: residency_exec_def transact_def)
  then obtain e1 where e1: "fmlookup (rm_entries mgr1) k = Some e1" "re_pin_count e1 \<noteq> 0"
    using Cons.prems(3) by (auto simp: still_pinned_def)
  have "still_pinned k e1 (fst (fold residency_exec cs (mgr1, plans1)))"
    using Cons.prems(4) by (intro Cons.IH [OF ok1 e1]) simp
  then show ?case
    using still_pinned_trans [OF \<open>still_pinned k e mgr1\<close> e1(1)] s1 by simp
qed

section \<open>Room for a page\<close>

definition pinned_bytes :: "residency_manager \<Rightarrow> nat" where
  "pinned_bytes mgr = fm_sum (\<lambda>e. if re_pin_count e = 0 then 0 else weight Hbm e) (rm_entries mgr)"

lemma fm_sum_keys: "fm_sum g (fmmap_keys h m) = (\<Sum>k\<in>fmdom' m. g (h k (the (fmlookup m k))))"
  unfolding fm_sum_def by (rule sum.cong) (auto simp: fmlookup_dom'_iff)

lemma pinned_le_evicted:
  assumes "\<And>k e. fmlookup es k = Some e \<Longrightarrow> re_pin_count e \<noteq> 0 \<Longrightarrow> fmlookup v k = None"
  shows "fm_sum (\<lambda>e. if re_pin_count e = 0 then 0 else weight Hbm e) es \<le> bytes_in Hbm (evicted v es)"
  unfolding fm_sum_keys unfolding fm_sum_def
proof (rule sum_mono)
  fix k
  assume "k \<in> fmdom' es"
  then obtain e where e: "fmlookup es k = Some e"
    by (auto simp: fmlookup_dom'_iff)
  then show "(if re_pin_count (the (fmlookup es k)) = 0 then 0 else weight Hbm (the (fmlookup es k))) \<le> weight Hbm (evict_entry v k (the (fmlookup es k)))"
    using assms [OF e] by (auto simp: evict_entry_def)
qed

lemma pinned_eq_evicted:
  assumes "\<And>k e. fmlookup es k = Some e \<Longrightarrow> re_residency e = Hbm \<Longrightarrow> re_pin_count e = 0 \<Longrightarrow> fmlookup v k \<in> {Some Dram, Some Nvme}"
    and "\<And>k e. fmlookup es k = Some e \<Longrightarrow> re_residency e \<noteq> Hbm \<or> re_pin_count e \<noteq> 0 \<Longrightarrow> fmlookup v k = None"
  shows "bytes_in Hbm (evicted v es) = fm_sum (\<lambda>e. if re_pin_count e = 0 then 0 else weight Hbm e) es"
  unfolding fm_sum_keys unfolding fm_sum_def
proof (rule sum.cong [OF refl])
  fix k
  assume "k \<in> fmdom' es"
  then obtain e where e: "fmlookup es k = Some e"
    by (auto simp: fmlookup_dom'_iff)
  then show "weight Hbm (evict_entry v k (the (fmlookup es k))) = (if re_pin_count (the (fmlookup es k)) = 0 then 0 else weight Hbm (the (fmlookup es k)))"
    using assms [OF e] by (cases "re_residency e = Hbm \<and> re_pin_count e = 0") (auto simp: evict_entry_def weight_def)
qed

lemma evict_total:
  assumes "\<forall>c\<in>set candidates. candidate es c \<and> fmlookup v (fst c) = None" and "distinct (map fst candidates)"
    and "bytes_in Hbm (evicted v es) = hbm" and "hbm + incoming < 2 ^ 64" and "dram \<le> rc_dram_bytes config"
    and "\<forall>c\<in>set candidates. rc_dram_bytes config + snd (snd c) < 2 ^ 64"
  shows "\<exists>after. evict config incoming candidates hbm dram v = Inr after"
  using assms
proof (induction candidates arbitrary: hbm dram v)
  case (Cons c candidates)
  obtain k t b where c: "c = (k, t, b)"
    by (cases c)
  have cand: "candidate es (k, t, b)" "fmlookup v k = None"
    using Cons.prems(1) c by auto
  show ?case
  proof (cases "hbm + incoming \<le> rc_hbm_bytes config")
    case True
    then show ?thesis
      using Cons.prems(4) c by (simp add: checked_add_def)
  next
    case False
    define place where "place = (if dram + b \<le> rc_dram_bytes config then Dram else Nvme)"
    have place: "place \<noteq> Hbm"
      by (simp add: place_def)
    note step = evict_step [OF cand place]
    have "\<exists>after. evict config incoming candidates (hbm - b) (dram + (if place = Dram then b else 0)) (fmupd k place v) = Inr after"
    proof (rule Cons.IH)
      show "\<forall>c\<in>set candidates. candidate es c \<and> fmlookup (fmupd k place v) (fst c) = None"
        using Cons.prems(1,2) c by force
      show "bytes_in Hbm (evicted (fmupd k place v) es) = hbm - b"
        using step(1) Cons.prems(3) by simp
    qed (use Cons.prems in \<open>auto simp: place_def\<close>)
    moreover have "b \<le> hbm" "dram + b < 2 ^ 64"
      using step(1) Cons.prems(3,5,6) c by auto
    ultimately show ?thesis
      using c False Cons.prems(4) by (auto simp: checked_add_def checked_sub_def place_def split: if_splits)
  qed
qed simp

lemma plan_iff_room:
  assumes "manager_ok mgr" and "\<And>e. fmlookup (rm_entries mgr) key = Some e \<Longrightarrow> re_residency e \<noteq> Hbm" and "released \<le> rm_dram_bytes mgr"
    and "rc_hbm_bytes (rm_config mgr) + incoming < 2 ^ 64" and "rc_dram_bytes (rm_config mgr) + 6000000 < 2 ^ 64"
  shows "if pinned_bytes mgr + incoming \<le> rc_hbm_bytes (rm_config mgr)
    then \<exists>plan. plan_hbm_admission mgr incoming released (Some key) = Inr plan
    else plan_hbm_admission mgr incoming released (Some key) = Inl (Err Pinned)"
proof (cases "rm_hbm_bytes mgr + incoming \<le> rc_hbm_bytes (rm_config mgr)")
  case True
  have "pinned_bytes mgr \<le> rm_hbm_bytes mgr"
    using pinned_le_evicted [of "rm_entries mgr" fmempty] assms(1) by (simp add: pinned_bytes_def manager_ok_def)
  then show ?thesis
    using True assms(3,4) by (simp add: plan_hbm_admission_def checked_sub_def checked_add_def)
next
  case False
  let ?cs = "candidates_of mgr key" and ?d = "rm_dram_bytes mgr - released"
  have bytes: "bytes_in Hbm (rm_entries mgr) = rm_hbm_bytes mgr" "bytes_in Dram (rm_entries mgr) = ?d + released" "?d \<le> rc_dram_bytes (rm_config mgr)"
      "rm_hbm_bytes mgr \<le> rc_hbm_bytes (rm_config mgr)"
    using assms(1,3) by (auto simp: manager_ok_def)
  have "snd (snd c) \<le> 6000000" if in_cs: "c \<in> set ?cs" for c
  proof -
    obtain k t b where c: "c = (k, t, b)"
      by (cases c)
    then obtain e where "evictable mgr key k e" "b = page_bytes (re_record e)"
      using in_cs by (auto simp: set_candidates)
    then show ?thesis
      using manager_entry [OF assms(1), of k e] page_bytes_bound c by (simp add: evictable_def entry_ok_def)
  qed
  then have "\<forall>c\<in>set ?cs. rc_dram_bytes (rm_config mgr) + snd (snd c) < 2 ^ 64"
    using assms(5) by fastforce
  then obtain hbm' dram' v where run: "evict (rm_config mgr) incoming ?cs (rm_hbm_bytes mgr) ?d fmempty = Inr (hbm', dram', v)"
    using evict_total [where candidates = ?cs and dram = ?d and config = "rm_config mgr", OF candidates_ready distinct_candidates,
      where hbm = "rm_hbm_bytes mgr" and incoming = incoming] bytes assms(4) by auto
  then have "evicts (rm_config mgr) incoming (rm_entries mgr) released ?cs fmempty (hbm', dram', v)"
    using bytes by (intro evict_spec [OF candidates_ready distinct_candidates]) simp_all
  then obtain front later where ev: "?cs = front @ later" "\<forall>k. k \<notin> fst ` set front \<longrightarrow> fmlookup v k = None"
      "\<forall>k\<in>fst ` set front. fmlookup v k \<in> {Some Dram, Some Nvme}" "bytes_in Hbm (evicted v (rm_entries mgr)) = hbm'"
      "later = [] \<or> hbm' + incoming \<le> rc_hbm_bytes (rm_config mgr)"
    by (auto simp: evicts_def)
  have front: "evictable mgr key k e" if in_front: "k \<in> fst ` set front" "fmlookup (rm_entries mgr) k = Some e" for k e
  proof -
    obtain t b where "(k, t, b) \<in> set ?cs"
      using in_front(1) ev(1) by fastforce
    then show ?thesis
      using in_front(2) by (auto simp: set_candidates evictable_def)
  qed
  have le: "pinned_bytes mgr \<le> hbm'"
    unfolding pinned_bytes_def ev(4) [symmetric]
    by (rule pinned_le_evicted) (metis ev(2) evictable_def front)
  have eq: "hbm' = pinned_bytes mgr" if later: "later = []"
    unfolding pinned_bytes_def ev(4) [symmetric]
  proof (rule pinned_eq_evicted)
    fix k e
    assume e: "fmlookup (rm_entries mgr) k = Some e"
    show "fmlookup v k \<in> {Some Dram, Some Nvme}" if "re_residency e = Hbm" "re_pin_count e = 0"
    proof -
      have "evictable mgr key k e"
        using that e assms(2) by (auto simp: evictable_def)
      then have "(k, re_last_touch e, page_bytes (re_record e)) \<in> set front"
        using set_candidates ev(1) later by auto
      then show ?thesis
        using ev(3) by force
    qed
    show "fmlookup v k = None" if "re_residency e \<noteq> Hbm \<or> re_pin_count e \<noteq> 0"
    proof -
      have "k \<notin> fst ` set front"
        using that e front [of k e] unfolding evictable_def by blast
      then show ?thesis
        using ev(2) by blast
    qed
  qed
  have small: "hbm' + incoming < 2 ^ 64"
    using ev(5) eq assms(4) le pinned_le_evicted [of "rm_entries mgr" fmempty] bytes by (auto simp: pinned_bytes_def)
  have "hbm' + incoming \<le> rc_hbm_bytes (rm_config mgr) \<longleftrightarrow> pinned_bytes mgr + incoming \<le> rc_hbm_bytes (rm_config mgr)"
    using ev(5) eq le by auto
  then show ?thesis
    using False small run assms(3,4) bytes(4) eviction_candidates_eq [OF assms(1), of key]
    by (auto simp: plan_hbm_admission_def checked_sub_def checked_add_def)
qed

section \<open>Properties\<close>

definition reached_manager :: "residency_config \<Rightarrow> residency_state \<Rightarrow> bool" where
  "reached_manager config s \<longleftrightarrow> rc_hbm_bytes config < 2 ^ 64 \<and> rc_dram_bytes config < 2 ^ 64 \<and>
     (\<exists>start cs. new_manager config = Inr start \<and> s = fold residency_exec cs (start, []))"

lemma reached_manager_ok: "reached_manager config s \<Longrightarrow> state_ok s"
proof -
  assume "reached_manager config s"
  then obtain start cs where start: "new_manager config = Inr start" "s = fold residency_exec cs (start, [])"
      "rc_hbm_bytes config < 2 ^ 64" "rc_dram_bytes config < 2 ^ 64"
    by (auto simp: reached_manager_def)
  then have "state_ok (start, [])"
    using new_manager_ok by (simp add: state_ok_def)
  then show ?thesis
    unfolding start(2) by (rule residency_machine.run_keeps)
qed

text \<open>
  (C19) In every state that calls on a new manager reach, the two byte counts are exactly the sizes of the pages in HBM and
  in DRAM and within their budgets, every page in HBM or DRAM has its restored bytes and no other page has any, only pages that are being
  restored have a pending request, and only pages in HBM have pins.
\<close>

theorem residency_accounting:
  assumes "reached_manager config (mgr, plans)"
  shows "rm_hbm_bytes mgr = bytes_in Hbm (rm_entries mgr) \<and> rm_hbm_bytes mgr \<le> rc_hbm_bytes (rm_config mgr) \<and>
    rm_dram_bytes mgr = bytes_in Dram (rm_entries mgr) \<and> rm_dram_bytes mgr \<le> rc_dram_bytes (rm_config mgr) \<and>
    (\<forall>k e. fmlookup (rm_entries mgr) k = Some e \<longrightarrow> tr_page_key (re_record e) = k \<and> validate_record (re_record e) = Inr () \<and>
       (re_restored e \<noteq> None \<longleftrightarrow> re_residency e \<in> {Hbm, Dram}) \<and> (\<forall>page. re_restored e = Some page \<longrightarrow> rp_record page = re_record e) \<and>
       (re_pending_restore e \<noteq> None \<longleftrightarrow> re_residency e = Restoring) \<and> (re_pin_count e \<noteq> 0 \<longrightarrow> re_residency e = Hbm))"
proof -
  have ok: "manager_ok mgr"
    using reached_manager_ok [OF assms] by (simp add: state_ok_def)
  have "tr_page_key (re_record e) = k \<and> validate_record (re_record e) = Inr () \<and>
       (re_restored e \<noteq> None \<longleftrightarrow> re_residency e \<in> {Hbm, Dram}) \<and> (\<forall>page. re_restored e = Some page \<longrightarrow> rp_record page = re_record e) \<and>
       (re_pending_restore e \<noteq> None \<longleftrightarrow> re_residency e = Restoring) \<and> (re_pin_count e \<noteq> 0 \<longrightarrow> re_residency e = Hbm)"
    if "fmlookup (rm_entries mgr) k = Some e" for k e
    using manager_entry [OF ok that] by (cases "re_residency e"; auto simp: entry_ok_def split: option.splits)
  then show ?thesis
    using ok by (simp add: manager_ok_def)
qed

text \<open>
  (C20) A pinned page stays: until it is unpinned, no call moves it out of HBM, replaces its record or its bytes, or lowers its
  pin count, whatever is registered, restored, promoted or aborted meanwhile.
\<close>

theorem pinned_page_stays:
  assumes "reached_manager config (mgr, plans)" and "fmlookup (rm_entries mgr) k = Some e" and "re_pin_count e \<noteq> 0"
    and "\<forall>n. CallUnpin k n \<notin> set cs"
  shows "\<exists>e'. fmlookup (rm_entries (fst (fold residency_exec cs (mgr, plans)))) k = Some e' \<and> re_residency e' = Hbm \<and>
    re_restored e' = re_restored e \<and> re_record e' = re_record e \<and> re_pin_count e \<le> re_pin_count e'"
  using pinned_run [OF reached_manager_ok [OF assms(1)] assms(2-4)] by (simp add: still_pinned_def)

lemma complete_iff_room:
  assumes "manager_ok mgr" and "fmlookup (rm_entries mgr) k = Some e"
    and "re_pending_restore e = Some \<lparr>pr_request_id = request_id, pr_page_ordinal = page_ordinal\<rparr>" and "rp_record page = re_record e"
    and "rm_clock mgr + 1 < 2 ^ 64" and "rm_state_generation mgr + 1 < 2 ^ 64"
    and "rc_hbm_bytes (rm_config mgr) + 6000000 < 2 ^ 64" and "rc_dram_bytes (rm_config mgr) + 6000000 < 2 ^ 64"
  shows "if pinned_bytes mgr + page_bytes (re_record e) \<le> rc_hbm_bytes (rm_config mgr)
    then \<exists>mgr' e'. complete_restore \<lparr>rs_request_id = request_id, rs_page_ordinal = page_ordinal, rs_page = page\<rparr> mgr = (Inr (), mgr') \<and>
      fmlookup (rm_entries mgr') k = Some e' \<and> re_residency e' = Hbm \<and> re_restored e' = Some page
    else complete_restore \<lparr>rs_request_id = request_id, rs_page_ordinal = page_ordinal, rs_page = page\<rparr> mgr = (Inl (Err Pinned), mgr)"
proof -
  let ?result = "\<lparr>rs_request_id = request_id, rs_page_ordinal = page_ordinal, rs_page = page\<rparr>"
  note ok = assms(1)
  have e: "re_residency e = Restoring" "tr_page_key (re_record e) = k" "validate_record (re_record e) = Inr ()"
    using manager_entry [OF ok assms(2)] assms(3) by (auto simp: entry_ok_def)
  have "page_bytes (re_record e) \<le> 6000000"
    by (rule page_bytes_bound [OF e(3)])
  then have room: "if pinned_bytes mgr + page_bytes (re_record e) \<le> rc_hbm_bytes (rm_config mgr)
      then \<exists>plan. plan_hbm_admission mgr (page_bytes (re_record e)) 0 (Some k) = Inr plan
      else plan_hbm_admission mgr (page_bytes (re_record e)) 0 (Some k) = Inl (Err Pinned)"
    using assms(2,7,8) e(1) by (intro plan_iff_room [OF ok]) auto
  have inner: "complete_restore_inner ?result mgr = rbind (plan_hbm_admission mgr (page_bytes (re_record e)) 0 (Some k)) (\<lambda>plan.
      Inr ((apply_hbm_admission plan (set_entry k (e\<lparr>re_residency := Hbm, re_restored := Some page, re_pending_restore := None,
        re_last_touch := rm_clock mgr + 1\<rparr>) mgr))\<lparr>rm_clock := rm_clock mgr + 1, rm_state_generation := rm_state_generation mgr + 1\<rparr>, ()))"
    using assms(2-6) e by (simp add: complete_restore_inner_def Let_def entry_of_def next_state_generation_def checked_add_def)
  show ?thesis
  proof (cases "pinned_bytes mgr + page_bytes (re_record e) \<le> rc_hbm_bytes (rm_config mgr)")
    case True
    then obtain plan where plan: "plan_hbm_admission mgr (page_bytes (re_record e)) 0 (Some k) = Inr plan"
      using room by auto
    have "fmlookup (hp_victims plan) k = None"
      using admission_victims [OF plan_admission [OF ok plan], of k] by (auto simp: evictable_def fmdom'_notD)
    then show ?thesis
      using True inner plan by (auto simp: complete_restore_def transact_def apply_hbm_admission_def set_entry_def evict_entry_def)
  next
    case False
    then show ?thesis
      using room inner by (simp add: complete_restore_def transact_def)
  qed
qed

text \<open>
  (C21) A page whose restore has finished is admitted to HBM exactly if it fits beside the pinned pages: then it is in HBM with the bytes that
  were read; otherwise the call fails and changes nothing.
\<close>

theorem restored_page_admitted_iff_room:
  assumes "reached_manager config (mgr, plans)" and "fmlookup (rm_entries mgr) k = Some e"
    and "re_pending_restore e = Some \<lparr>pr_request_id = request_id, pr_page_ordinal = page_ordinal\<rparr>" and "rp_record page = re_record e"
    and "rm_clock mgr + 1 < 2 ^ 64" and "rm_state_generation mgr + 1 < 2 ^ 64"
    and "rc_hbm_bytes (rm_config mgr) + 6000000 < 2 ^ 64" and "rc_dram_bytes (rm_config mgr) + 6000000 < 2 ^ 64"
  shows "if pinned_bytes mgr + page_bytes (re_record e) \<le> rc_hbm_bytes (rm_config mgr)
    then \<exists>mgr' e'. complete_restore \<lparr>rs_request_id = request_id, rs_page_ordinal = page_ordinal, rs_page = page\<rparr> mgr = (Inr (), mgr') \<and>
      fmlookup (rm_entries mgr') k = Some e' \<and> re_residency e' = Hbm \<and> re_restored e' = Some page
    else complete_restore \<lparr>rs_request_id = request_id, rs_page_ordinal = page_ordinal, rs_page = page\<rparr> mgr = (Inl (Err Pinned), mgr)"
proof -
  have "manager_ok mgr"
    using reached_manager_ok [OF assms(1)] by (simp add: state_ok_def)
  then show ?thesis
    by (rule complete_iff_room [OF _ assms(2-8)])
qed

text \<open>Pages that leave HBM in an admission.\<close>

definition leaves :: "residency_manager \<Rightarrow> residency_manager \<Rightarrow> hash32 \<Rightarrow> resident_entry \<Rightarrow> bool" where
  "leaves mgr mgr' k e \<longleftrightarrow> fmlookup (rm_entries mgr) k = Some e \<and> re_residency e = Hbm \<and> location mgr' k \<noteq> Some Hbm"

lemma admission_leaves:
  assumes "admission mgr key incoming released plan" and "rm_entries mgr' = rm_entries (apply_hbm_admission plan (set_entry key e' mgr))"
    and "fmlookup (rm_entries mgr) key = Some e0" and "re_residency e0 \<noteq> Hbm"
  shows "leaves mgr mgr' k e \<longleftrightarrow> k \<in> fmdom' (hp_victims plan) \<and> evictable mgr key k e"
proof -
  have "re_residency (evict_entry (hp_victims plan) k e) = Hbm \<longleftrightarrow> k \<notin> fmdom' (hp_victims plan)" if "re_residency e = Hbm"
    using assms(1) that by (cases "k \<in> fmdom' (hp_victims plan)") (auto simp: admission_def evict_entry_def fmdom'_notD)
  moreover have "evictable mgr key k e" if "k \<in> fmdom' (hp_victims plan)" "fmlookup (rm_entries mgr) k = Some e"
    using admission_victims [OF assms(1) that(1)] that(2) by (auto simp: evictable_def)
  ultimately show ?thesis
    using assms(2-4) by (auto simp: leaves_def location_def apply_hbm_admission_def set_entry_def evictable_def)
qed

lemma admission_lru:
  assumes "admission mgr key incoming released plan" and "rm_entries mgr' = rm_entries (apply_hbm_admission plan (set_entry key e' mgr))"
    and "rm_hbm_bytes mgr' = hp_hbm_bytes plan" and "fmlookup (rm_entries mgr) key = Some e0" and "re_residency e0 \<noteq> Hbm"
    and "leaves mgr mgr' k e"
  shows "re_pin_count e = 0"
    and "fmlookup (rm_entries mgr) k2 = Some e2 \<Longrightarrow> re_residency e2 = Hbm \<Longrightarrow> re_pin_count e2 = 0 \<Longrightarrow> location mgr' k2 = Some Hbm \<Longrightarrow>
      re_last_touch e \<le> re_last_touch e2"
    and "\<exists>k0 e0. leaves mgr mgr' k0 e0 \<and> rc_hbm_bytes (rm_config mgr) < rm_hbm_bytes mgr' + page_bytes (re_record e0)"
proof -
  note out = admission_leaves [OF assms(1,2,4,5)]
  obtain front later where front: "candidates_of mgr key = front @ later" "fmdom' (hp_victims plan) = fst ` set front"
      "front \<noteq> [] \<longrightarrow> rc_hbm_bytes (rm_config mgr) < hp_hbm_bytes plan + snd (snd (last front))"
    using assms(1) by (auto simp: admission_def)
  have k: "k \<in> fst ` set front" "evictable mgr key k e"
    using out [of k e] assms(6) front(2) by auto
  then show "re_pin_count e = 0"
    by (simp add: evictable_def)
  obtain t b where c: "(k, t, b) \<in> set front"
    using k(1) by force
  then have t: "t = re_last_touch e"
    using set_candidates [of k t b mgr key] k(2) front(1) by (auto simp: evictable_def)
  show "re_last_touch e \<le> re_last_touch e2"
    if e2: "fmlookup (rm_entries mgr) k2 = Some e2" "re_residency e2 = Hbm" "re_pin_count e2 = 0" "location mgr' k2 = Some Hbm"
  proof -
    have "k2 \<noteq> key"
      using e2(1,2) assms(4,5) by auto
    then have ev: "evictable mgr key k2 e2"
      using e2 by (simp add: evictable_def)
    then have "k2 \<notin> fst ` set front"
      using out [of k2 e2] e2 front(2) by (auto simp: leaves_def)
    then have "(k2, re_last_touch e2, page_bytes (re_record e2)) \<in> set later"
      using set_candidates [of k2 _ _ mgr key] ev front(1) by force
    then show ?thesis
      using sorted_candidates [of mgr key] c t front(1) by (fastforce simp: sorted_wrt_append candidate_le_def)
  qed
  show "\<exists>k0 e0. leaves mgr mgr' k0 e0 \<and> rc_hbm_bytes (rm_config mgr) < rm_hbm_bytes mgr' + page_bytes (re_record e0)"
  proof -
    have ne: "front \<noteq> []"
      using c by auto
    obtain k0 t0 b0 where last: "last front = (k0, t0, b0)"
      by (cases "last front")
    then have in_front: "(k0, t0, b0) \<in> set front"
      using ne last_in_set by metis
    then obtain e1 where e1: "evictable mgr key k0 e1" "b0 = page_bytes (re_record e1)"
      using set_candidates [of k0 t0 b0 mgr key] front(1) by auto
    then have "leaves mgr mgr' k0 e1"
      using out in_front front(2) by force
    then show ?thesis
      using front(3) ne last e1(2) assms(3) by auto
  qed
qed

text \<open>
  (C22) Eviction is least recently used first and takes no more than needed: when a finished restore or a promotion moves a page out of HBM,
  that page is not pinned, every page without pins that stays was touched no earlier, and without the last page that left the
  new page would not have fitted.
\<close>

theorem eviction_least_recently_used:
  assumes "reached_manager config (mgr, plans)" and "c = CallComplete result \<or> c = CallPromote key"
    and "fst (residency_exec c (mgr, plans)) = mgr'" and "leaves mgr mgr' k e"
  shows "re_pin_count e = 0 \<and>
    (\<forall>k2 e2. fmlookup (rm_entries mgr) k2 = Some e2 \<longrightarrow> re_residency e2 = Hbm \<longrightarrow> re_pin_count e2 = 0 \<longrightarrow> location mgr' k2 = Some Hbm \<longrightarrow>
       re_last_touch e \<le> re_last_touch e2) \<and>
    (\<exists>k0 e0. leaves mgr mgr' k0 e0 \<and> rc_hbm_bytes (rm_config mgr) < rm_hbm_bytes mgr' + page_bytes (re_record e0))"
proof -
  have ok: "manager_ok mgr"
    using reached_manager_ok [OF assms(1)] by (simp add: state_ok_def)
  have "mgr' \<noteq> mgr"
    using assms(4) by (auto simp: leaves_def location_def)
  then obtain x where run: "call_inner plans c mgr = Inr (mgr', x)"
    using assms(3) by (cases "call_inner plans c mgr") (auto simp: residency_exec_def transact_def)
  obtain key' e0 e' incoming released plan where adm: "admission mgr key' incoming released plan"
      "rm_entries mgr' = rm_entries (apply_hbm_admission plan (set_entry key' e' mgr))" "rm_hbm_bytes mgr' = hp_hbm_bytes plan"
      "fmlookup (rm_entries mgr) key' = Some e0" "re_residency e0 \<noteq> Hbm"
  proof (cases "c = CallPromote key")
    case True
    then have "promote_inner key mgr = Inr (mgr', x)"
      using run by simp
    then show ?thesis
      by (rule promote_Inr [OF ok]) (rule that, auto intro: plan_admission [OF ok] simp: apply_hbm_admission_def)
  next
    case False
    then have "complete_restore_inner result mgr = Inr (mgr', x)"
      using run assms(2) by simp
    then show ?thesis
      by (rule complete_restore_Inr [OF ok]) (rule that, auto intro: plan_admission [OF ok] simp: apply_hbm_admission_def)
  qed
  show ?thesis
    using admission_lru [OF adm assms(4)] by blast
qed

lemma run_generation:
  assumes "state_ok (mgr, plans)" and "fold residency_exec cs (mgr, plans) = (mgr', plans')"
  shows "mgr' = mgr \<or> rm_state_generation mgr < rm_state_generation mgr'"
  using assms
proof (induction cs arbitrary: mgr plans)
  case (Cons c cs)
  obtain mgr1 plans1 where s1: "residency_exec c (mgr, plans) = (mgr1, plans1)"
    by (cases "residency_exec c (mgr, plans)")
  have ok1: "state_ok (mgr1, plans1)"
    using residency_exec_keeps [OF Cons.prems(1), of c] s1 by simp
  have "mgr1 = mgr \<or> rm_state_generation mgr < rm_state_generation mgr1"
    by (rule exec_cases [OF Cons.prems(1), of c]) (use s1 in auto)
  then show ?case
    using Cons.IH [OF ok1] Cons.prems(2) s1 by auto
qed simp

text \<open>
  A registration plan can be committed only to the state it was made for: after any calls, if the manager has changed
  since the plan was made, the commit is refused as stale and changes nothing.
\<close>

theorem stale_plan_refused:
  assumes "reached_manager config (mgr, plans)" and "plan_nvme_registrations mgr records = Inr plan"
    and "fold residency_exec cs (mgr, plans) = (mgr', plans')" and "mgr' \<noteq> mgr"
  shows "commit_nvme_registrations plan mgr' = (Inl (Err Stale), mgr')"
proof -
  have "rm_state_generation mgr < rm_state_generation mgr'"
    using run_generation [OF reached_manager_ok [OF assms(1)] assms(3)] assms(4) by blast
  moreover have "np_expected_state_generation plan = rm_state_generation mgr"
    using assms(2) by (auto simp: plan_nvme_registrations_def result_simps)
  ultimately show ?thesis
    by (simp add: commit_nvme_registrations_def transact_def commit_inner_def validate_nvme_registration_plan_def)
qed

section \<open>A concrete manager\<close>

definition sample_config :: residency_config where
  "sample_config = \<lparr>rc_hbm_bytes = 2100000, rc_dram_bytes = 2100000\<rparr>"

definition sample_record :: "8 word \<Rightarrow> tier_record" where
  "sample_record b = \<lparr>tr_namespace = replicate 32 1, tr_page_key = b # replicate 31 0, tr_generation = 1, tr_tier = tier.Nvme, tr_mtp = False,
     tr_pieces = [\<lparr>tp_piece = TargetKv, tp_byte_length = 1837056, tp_storage_offset = 0, tp_sha256 = replicate 32 3\<rparr>,
       \<lparr>tp_piece = TargetIndexer, tp_byte_length = 177408, tp_storage_offset = 1839104, tp_sha256 = replicate 32 4\<rparr>]\<rparr>"

definition sample_page :: "8 word \<Rightarrow> restored_page" where
  "sample_page b = \<lparr>rp_record = sample_record b, rp_pieces = fmempty\<rparr>"

definition sample_result :: "nat \<Rightarrow> 8 word \<Rightarrow> restore_result" where
  "sample_result i b = \<lparr>rs_request_id = i, rs_page_ordinal = 0, rs_page = sample_page b\<rparr>"

definition sample_manager :: "resident_entry \<Rightarrow> resident_entry \<Rightarrow> nat \<Rightarrow> nat \<Rightarrow> nat \<Rightarrow> nat \<Rightarrow> residency_manager" where
  "sample_manager e2 e5 hbm dram clock generation = \<lparr>rm_config = sample_config,
     rm_entries = fmupd (5 # replicate 31 0) e5 (fmupd (2 # replicate 31 0) e2 fmempty), rm_hbm_bytes = hbm, rm_dram_bytes = dram,
     rm_clock = clock, rm_state_generation = generation\<rparr>"

definition sample_entry :: "8 word \<Rightarrow> residency \<Rightarrow> pending_restore_identity option \<Rightarrow> nat \<Rightarrow> nat \<Rightarrow> resident_entry" where
  "sample_entry b place pending pins touch = \<lparr>re_record = sample_record b, re_residency = place,
     re_restored = (if place = Hbm \<or> place = Dram then Some (sample_page b) else None), re_pending_restore = pending,
     re_pin_count = pins, re_last_touch = touch\<rparr>"

lemma sample_key: "b \<noteq> 0 \<Longrightarrow> b # replicate 31 0 \<noteq> (zero_hash :: hash32)"
  using replicate_Suc [of 31 "0 :: 8 word"] by (simp add: zero_hash_def del: replicate_Suc)

lemma sample_valid: "b \<noteq> 0 \<Longrightarrow> validate_record (sample_record b) = Inr ()"
  using sample_key [of b]
  by (simp add: sample_record_def validate_record_def required_pieces_def validate_piece_def tier_alignment_def checked_add_def)
    (simp add: zero_hash_def)

lemma sample_bytes: "page_bytes (sample_record b) = 2014464"
  by (simp add: page_bytes_def sample_record_def)

lemma sample_record_fields [simp]: "tr_page_key (sample_record b) = b # replicate 31 0" "tr_tier (sample_record b) = tier.Nvme"
  by (simp_all add: sample_record_def)

lemma sample_registered:
  "fold residency_exec [CallRegister (sample_record 2), CallRegister (sample_record 5)]
     (\<lparr>rm_config = sample_config, rm_entries = fmempty, rm_hbm_bytes = 0, rm_dram_bytes = 0, rm_clock = 0, rm_state_generation = 0\<rparr>, []) =
   (sample_manager (sample_entry 2 Nvme None 0 0) (sample_entry 5 Nvme None 0 0) 0 0 0 2, [])"
  by (simp add: residency_exec_def transact_def register_inner_def plan_nvme_registrations_def plan_record_def nvme_registration_action_def sample_valid
      commit_inner_def validate_nvme_registration_plan_def next_state_generation_def checked_add_def sample_manager_def sample_entry_def
      registered_entry_def Let_def)

lemma sample_lookup:
  "fmlookup (rm_entries (sample_manager e2 e5 h d c g)) (2 # replicate 31 0) = Some e2"
  "fmlookup (rm_entries (sample_manager e2 e5 h d c g)) (5 # replicate 31 0) = Some e5"
  by (simp_all add: sample_manager_def)

lemma sample_entries: "entries_of (rm_entries (sample_manager e2 e5 h d c g)) = [(2 # replicate 31 0, e2), (5 # replicate 31 0, e5)]"
proof -
  let ?m = "rm_entries (sample_manager e2 e5 h d c g)"
  have "keys_of ?m = [2 # replicate 31 0, 5 # replicate 31 0]"
  proof (rule sorted_distinct_set_unique)
    show "sorted [2 # replicate 31 0, 5 # replicate 31 0 :: hash32]"
      by (simp add: less_eq_list_code)
    show "set (keys_of ?m) = set [2 # replicate 31 0, 5 # replicate 31 0]"
      by (auto simp: sample_manager_def)
  qed simp_all
  then show ?thesis
    by (simp add: entries_of_def sample_lookup)
qed

lemma sample_set:
  "set_entry (2 # replicate 31 0) e (sample_manager e2 e5 h d c g) = sample_manager e e5 h d c g"
  "set_entry (5 # replicate 31 0) e (sample_manager e2 e5 h d c g) = sample_manager e2 e h d c g"
  by (auto simp: set_entry_def sample_manager_def intro!: fmap_ext)

lemma sample_fields_manager:
  "rm_config (sample_manager e2 e5 h d c g) = sample_config" "rm_hbm_bytes (sample_manager e2 e5 h d c g) = h"
  "rm_dram_bytes (sample_manager e2 e5 h d c g) = d" "rm_clock (sample_manager e2 e5 h d c g) = c"
  "rm_state_generation (sample_manager e2 e5 h d c g) = g"
  "(sample_manager e2 e5 h d c g)\<lparr>rm_state_generation := g'\<rparr> = sample_manager e2 e5 h d c g'"
  "(sample_manager e2 e5 h d c g)\<lparr>rm_clock := c', rm_state_generation := g'\<rparr> = sample_manager e2 e5 h d c' g'"
  by (simp_all add: sample_manager_def)

lemma sample_apply:
  "apply_hbm_admission plan (sample_manager e2 e5 h d c g) =
     sample_manager (evict_entry (hp_victims plan) (2 # replicate 31 0) e2) (evict_entry (hp_victims plan) (5 # replicate 31 0) e5)
       (hp_hbm_bytes plan) (hp_dram_bytes plan) c g"
  by (auto simp: apply_hbm_admission_def sample_manager_def intro!: fmap_ext)

lemmas sample_simps = sample_lookup sample_entries sample_set sample_fields_manager sample_apply sample_valid sample_bytes

abbreviation restoring :: "nat \<Rightarrow> pending_restore_identity option" where
  "restoring i \<equiv> Some \<lparr>pr_request_id = i, pr_page_ordinal = 0\<rparr>"

lemma sample_begin_restore:
  "fst (residency_exec (CallBegin 1 (2 # replicate 31 0) 0 0) (sample_manager (sample_entry 2 Nvme None 0 0) e5 0 0 0 2, plans)) =
     sample_manager (sample_entry 2 Restoring (restoring 1) 0 0) e5 0 0 0 3"
  "fst (residency_exec (CallBegin 2 (5 # replicate 31 0) 0 0) (sample_manager e2 (sample_entry 5 Nvme None 0 0) h 0 1 4, plans)) =
     sample_manager e2 (sample_entry 5 Restoring (restoring 2) 0 0) h 0 1 5"
  by (simp_all add: residency_exec_def transact_def begin_restore_inner_def next_state_generation_def entry_of_def checked_add_def sample_simps
      sample_entry_def sample_config_def owner_rank_def Let_def)

lemma sample_complete:
  "fst (residency_exec (CallComplete (sample_result 1 2)) (sample_manager (sample_entry 2 Restoring (restoring 1) 0 0) (sample_entry 5 Nvme None 0 0) 0 0 0 3, plans)) =
     sample_manager (sample_entry 2 Hbm None 0 1) (sample_entry 5 Nvme None 0 0) 2014464 0 1 4"
  by (simp add: residency_exec_def transact_def complete_restore_inner_def next_state_generation_def entry_of_def checked_add_def checked_sub_def sample_simps
      sample_entry_def sample_config_def sample_result_def sample_page_def plan_hbm_admission_def evict_entry_def Let_def)

lemma sample_evict:
  "fst (residency_exec (CallComplete (sample_result 2 5)) (sample_manager (sample_entry 2 Hbm None 0 1) (sample_entry 5 Restoring (restoring 2) 0 0) 2014464 0 1 5, plans)) =
     sample_manager (sample_entry 2 Dram None 0 1) (sample_entry 5 Hbm None 0 2) 2014464 2014464 2 6"
  by (simp add: residency_exec_def transact_def complete_restore_inner_def next_state_generation_def entry_of_def checked_add_def checked_sub_def sample_simps
      sample_entry_def sample_config_def sample_result_def sample_page_def plan_hbm_admission_def eviction_candidates_def evict_entry_def Let_def) (simp add: numeral_2_eq_2)

lemma sample_pin:
  "fst (residency_exec (CallPin (2 # replicate 31 0)) (sample_manager (sample_entry 2 Hbm None 0 1) e5 2014464 0 1 4, plans)) =
     sample_manager (sample_entry 2 Hbm None 1 2) e5 2014464 0 2 5"
  by (simp add: residency_exec_def transact_def pin_inner_def next_state_generation_def entry_of_def checked_add_def sample_simps sample_entry_def Let_def) (simp add: numeral_2_eq_2)

lemma manager_start: "new_manager sample_config =
    Inr \<lparr>rm_config = sample_config, rm_entries = fmempty, rm_hbm_bytes = 0, rm_dram_bytes = 0, rm_clock = 0, rm_state_generation = 0\<rparr>"
  by (simp add: new_manager_def sample_config_def)

lemma reached_exec: "reached_manager config s \<Longrightarrow> reached_manager config (residency_exec c s)"
proof -
  assume "reached_manager config s"
  then obtain start cs where "rc_hbm_bytes config < 2 ^ 64" "rc_dram_bytes config < 2 ^ 64" "new_manager config = Inr start"
      "s = fold residency_exec cs (start, [])"
    by (auto simp: reached_manager_def)
  then show ?thesis
    unfolding reached_manager_def by (intro conjI exI [of _ start] exI [of _ "cs @ [c]"]) simp_all
qed

lemma reached_next: "reached_manager config (mgr, plans) \<Longrightarrow> fst (residency_exec c (mgr, plans)) = mgr' \<Longrightarrow> \<exists>plans'. reached_manager config (mgr', plans')"
  using reached_exec [of config "(mgr, plans)" c] by (metis prod.collapse)

lemma sample_reached:
  shows "reached_manager sample_config (sample_manager (sample_entry 2 Nvme None 0 0) (sample_entry 5 Nvme None 0 0) 0 0 0 2, [])"
    and "\<exists>plans. reached_manager sample_config (sample_manager (sample_entry 2 Restoring (restoring 1) 0 0) (sample_entry 5 Nvme None 0 0) 0 0 0 3, plans)"
    and "\<exists>plans. reached_manager sample_config (sample_manager (sample_entry 2 Hbm None 0 1) (sample_entry 5 Nvme None 0 0) 2014464 0 1 4, plans)"
    and "\<exists>plans. reached_manager sample_config (sample_manager (sample_entry 2 Hbm None 0 1) (sample_entry 5 Restoring (restoring 2) 0 0) 2014464 0 1 5, plans)"
    and "\<exists>plans. reached_manager sample_config (sample_manager (sample_entry 2 Hbm None 1 2) (sample_entry 5 Nvme None 0 0) 2014464 0 2 5, plans)"
proof -
  show start: "reached_manager sample_config (sample_manager (sample_entry 2 Nvme None 0 0) (sample_entry 5 Nvme None 0 0) 0 0 0 2, [])"
    unfolding reached_manager_def sample_registered [symmetric] manager_start
    by (intro conjI exI [of _ "[CallRegister (sample_record 2), CallRegister (sample_record 5)]"] exI) (simp_all add: sample_config_def)
  show restoring: "\<exists>plans. reached_manager sample_config (sample_manager (sample_entry 2 Restoring (restoring 1) 0 0) (sample_entry 5 Nvme None 0 0) 0 0 0 3, plans)"
    by (rule reached_next [OF start sample_begin_restore(1)])
  then show hbm: "\<exists>plans. reached_manager sample_config (sample_manager (sample_entry 2 Hbm None 0 1) (sample_entry 5 Nvme None 0 0) 2014464 0 1 4, plans)"
    using reached_next [OF _ sample_complete] by blast
  then show "\<exists>plans. reached_manager sample_config (sample_manager (sample_entry 2 Hbm None 0 1) (sample_entry 5 Restoring (restoring 2) 0 0) 2014464 0 1 5, plans)"
    using reached_next [OF _ sample_begin_restore(2)] by blast
  show "\<exists>plans. reached_manager sample_config (sample_manager (sample_entry 2 Hbm None 1 2) (sample_entry 5 Nvme None 0 0) 2014464 0 2 5, plans)"
    using hbm reached_next [OF _ sample_pin] by blast
qed

theorem residency_accounting_witness:
  "bytes_in Hbm (rm_entries (sample_manager (sample_entry 2 Hbm None 0 1) (sample_entry 5 Nvme None 0 0) 2014464 0 1 4)) = 2014464"
proof -
  obtain plans where "reached_manager sample_config (sample_manager (sample_entry 2 Hbm None 0 1) (sample_entry 5 Nvme None 0 0) 2014464 0 1 4, plans)"
    using sample_reached(3) by blast
  then show ?thesis
    using residency_accounting by (fastforce simp: sample_fields_manager)
qed

theorem pinned_page_stays_witness:
  "\<exists>plans e'. reached_manager sample_config (sample_manager (sample_entry 2 Hbm None 1 2) (sample_entry 5 Nvme None 0 0) 2014464 0 2 5, plans) \<and>
     fmlookup (rm_entries (fst (fold residency_exec [CallBegin 2 (5 # replicate 31 0) 0 0, CallComplete (sample_result 2 5)]
       (sample_manager (sample_entry 2 Hbm None 1 2) (sample_entry 5 Nvme None 0 0) 2014464 0 2 5, plans)))) (2 # replicate 31 0) = Some e' \<and>
     re_residency e' = Hbm \<and> re_restored e' = Some (sample_page 2)"
proof -
  obtain plans where reached: "reached_manager sample_config (sample_manager (sample_entry 2 Hbm None 1 2) (sample_entry 5 Nvme None 0 0) 2014464 0 2 5, plans)"
    using sample_reached(5) by blast
  show ?thesis
    using pinned_page_stays [OF reached sample_lookup(1), of "[CallBegin 2 (5 # replicate 31 0) 0 0, CallComplete (sample_result 2 5)]"] reached
    by (auto simp: sample_entry_def)
qed

theorem restored_page_admitted_iff_room_witness:
  "\<exists>mgr'. complete_restore \<lparr>rs_request_id = 1, rs_page_ordinal = 0, rs_page = sample_page 2\<rparr>
     (sample_manager (sample_entry 2 Restoring (restoring 1) 0 0) (sample_entry 5 Nvme None 0 0) 0 0 0 3) = (Inr (), mgr')"
proof -
  let ?mgr = "sample_manager (sample_entry 2 Restoring (restoring 1) 0 0) (sample_entry 5 Nvme None 0 0) 0 0 0 3"
  obtain plans where reached: "reached_manager sample_config (?mgr, plans)"
    using sample_reached(2) by blast
  have "pinned_bytes ?mgr = 0"
    by (simp add: pinned_bytes_def fm_sum_0) (auto simp: sample_manager_def sample_entry_def)
  then show ?thesis
    using restored_page_admitted_iff_room [OF reached sample_lookup(1), of 1 0 "sample_page 2"]
    by (auto simp: sample_entry_def sample_page_def sample_simps sample_config_def)
qed

theorem eviction_least_recently_used_witness:
  "leaves (sample_manager (sample_entry 2 Hbm None 0 1) (sample_entry 5 Restoring (restoring 2) 0 0) 2014464 0 1 5)
     (sample_manager (sample_entry 2 Dram None 0 1) (sample_entry 5 Hbm None 0 2) 2014464 2014464 2 6) (2 # replicate 31 0) (sample_entry 2 Hbm None 0 1) \<and>
   re_pin_count (sample_entry 2 Hbm None 0 1) = 0"
proof -
  let ?mgr = "sample_manager (sample_entry 2 Hbm None 0 1) (sample_entry 5 Restoring (restoring 2) 0 0) 2014464 0 1 5"
  obtain plans where reached: "reached_manager sample_config (?mgr, plans)"
    using sample_reached(4) by blast
  have out: "leaves ?mgr (sample_manager (sample_entry 2 Dram None 0 1) (sample_entry 5 Hbm None 0 2) 2014464 2014464 2 6) (2 # replicate 31 0)
      (sample_entry 2 Hbm None 0 1)"
    by (simp add: leaves_def location_def sample_lookup) (simp add: sample_entry_def)
  show ?thesis
    using eviction_least_recently_used [OF reached _ sample_evict out, of _ "[]"] out by blast
qed

theorem stale_plan_refused_witness:
  "\<exists>plan mgr' plans'. plan_nvme_registrations (sample_manager (sample_entry 2 Nvme None 0 0) (sample_entry 5 Nvme None 0 0) 0 0 0 2) [] = Inr plan \<and>
     fold residency_exec [CallBegin 1 (2 # replicate 31 0) 0 0] (sample_manager (sample_entry 2 Nvme None 0 0) (sample_entry 5 Nvme None 0 0) 0 0 0 2, []) =
       (mgr', plans') \<and> commit_nvme_registrations plan mgr' = (Inl (Err Stale), mgr')"
proof -
  let ?mgr = "sample_manager (sample_entry 2 Nvme None 0 0) (sample_entry 5 Nvme None 0 0) 0 0 0 2"
  let ?mgr' = "sample_manager (sample_entry 2 Restoring (restoring 1) 0 0) (sample_entry 5 Nvme None 0 0) 0 0 0 3"
  obtain plan where plan: "plan_nvme_registrations ?mgr [] = Inr plan"
    by (simp add: plan_nvme_registrations_def)
  obtain plans' where run: "fold residency_exec [CallBegin 1 (2 # replicate 31 0) 0 0] (?mgr, []) = (?mgr', plans')"
    using sample_begin_restore(1) [of "sample_entry 5 Nvme None 0 0" "[]"] by (cases "residency_exec (CallBegin 1 (2 # replicate 31 0) 0 0) (?mgr, [])") simp
  have "?mgr' \<noteq> ?mgr"
    using sample_fields_manager(5) by (metis numeral_eq_iff num.distinct(5))
  then show ?thesis
    using stale_plan_refused [OF sample_reached(1) plan run] plan run by blast
qed

end
