(* ===== verification/Restore_Service.thy ===== *)
theory Restore_Service
  imports Residency
begin

unbundle bit_operations_syntax

text \<open>
  The restore service of \<open>crates/glm-cache/src/residency.rs\<close>: a quota word that counts the outstanding
  restores in its low bits, a bounded queue, and one worker thread that answers the requests in order.

  The service is a state with the queue and the request that the worker holds. Submitting, the two halves of the worker's turn and
  receiving are its steps; they may interleave in any way. A request in the queue or with the worker carries a permit; the permit is given back
  when the worker has read the page, before the answer is sent.
\<close>

section \<open>Quota\<close>

datatype restore_error =
    Config | Request | Saturated | Poisoned | Missing | Stale | Timeout | WorkerClosed | StoreErr store_error | Thread

definition RESTORE_QUOTA_POISONED :: "64 word" where
  "RESTORE_QUOTA_POISONED = push_bit 63 1"

definition RESTORE_QUOTA_COUNT_MASK :: "64 word" where
  "RESTORE_QUOTA_COUNT_MASK = NOT RESTORE_QUOTA_POISONED"

definition release_permit :: "64 word \<Rightarrow> 64 word" where
  "release_permit current =
     (let quota = current AND RESTORE_QUOTA_COUNT_MASK in
      if quota = 0 then current OR RESTORE_QUOTA_POISONED else (current AND RESTORE_QUOTA_POISONED) OR (quota - 1))"

definition reserve_slot :: "64 word \<Rightarrow> 64 word \<Rightarrow> (restore_error, 64 word) result" where
  "reserve_slot maximum_outstanding current =
     (let quota = current AND RESTORE_QUOTA_COUNT_MASK in
      if current AND RESTORE_QUOTA_POISONED = 0 \<and> quota < maximum_outstanding then Inr (current + 1)
      else if current AND RESTORE_QUOTA_POISONED \<noteq> 0 then Inl (Err Poisoned) else Inl (Err Saturated))"

section \<open>Service\<close>

record restore_command =
  cm_request :: restore_request
  cm_response :: nat

record restore_service =
  sv_sender :: bool
  sv_worker :: bool
  sv_quota_word :: "64 word"
  sv_maximum_outstanding :: "64 word"
  sv_queue :: "restore_command list"
  sv_running :: "restore_command option"
  sv_responses :: "(nat, (restore_error, restore_result) result) fmap"
  sv_next_response :: nat

definition spawn :: "bool \<Rightarrow> disk \<Rightarrow> 64 word \<Rightarrow> (restore_error, restore_service \<times> file_tier_reader) result" where
  "spawn locked d maximum_outstanding =
     (if maximum_outstanding = 0 \<or> maximum_outstanding > RESTORE_QUOTA_COUNT_MASK then Inl (Err Config)
      else
        rbind (map_err StoreErr (open_reader locked d)) (\<lambda>store.
          Inr (\<lparr>sv_sender = True, sv_worker = True, sv_quota_word = 0, sv_maximum_outstanding = maximum_outstanding, sv_queue = [],
            sv_running = None, sv_responses = fmempty, sv_next_response = 0\<rparr>, store)))"

definition outstanding :: "restore_service \<Rightarrow> 64 word" where
  "outstanding sv = sv_quota_word sv AND RESTORE_QUOTA_COUNT_MASK"

definition quota_poisoned :: "restore_service \<Rightarrow> bool" where
  "quota_poisoned sv \<longleftrightarrow> sv_quota_word sv AND RESTORE_QUOTA_POISONED \<noteq> 0"

text \<open>The channel refuses when its buffer is full or the worker is gone; the command is dropped then, with its permit.\<close>

definition try_submit :: "restore_request \<Rightarrow> restore_service \<Rightarrow> (restore_error, nat) result \<times> restore_service" where
  "try_submit request sv =
     (if rr_request_id request = 0 \<or> rr_expected_namespace request = zero_hash \<or> rr_minimum_generation request = 0
         \<or> rr_worker_rank request \<ge> 4 \<or> owner_rank (rr_page_ordinal request) \<noteq> rr_worker_rank request
      then (Inl (Err Request), sv)
      else case reserve_slot (sv_maximum_outstanding sv) (sv_quota_word sv) of
        Inl e \<Rightarrow> (Inl e, sv)
      | Inr quota_word \<Rightarrow>
          let response = sv_next_response sv;
              sv = sv\<lparr>sv_quota_word := quota_word, sv_next_response := Suc response\<rparr>;
              dropped = sv\<lparr>sv_quota_word := release_permit quota_word\<rparr>
          in
            if \<not> sv_sender sv then (Inl (Err WorkerClosed), dropped)
            else if \<not> sv_worker sv then (Inl (Err WorkerClosed), dropped)
            else if length (sv_queue sv) \<ge> unat (sv_maximum_outstanding sv) then (Inl (Err Saturated), dropped)
            else (Inr response, sv\<lparr>sv_queue := sv_queue sv @ [\<lparr>cm_request = request, cm_response = response\<rparr>]\<rparr>))"

definition restore_one :: "(8 word list \<Rightarrow> hash32) \<Rightarrow> file_tier_reader \<times> disk \<Rightarrow> restore_request \<Rightarrow> (restore_error, restore_result) result" where
  "restore_one sha store request =
     rbind (map_err StoreErr (reader_restore sha (rr_page_key request) store)) (\<lambda>found.
     rbind (ok_or found Missing) (\<lambda>page.
     if tr_namespace (rp_record page) \<noteq> rr_expected_namespace request \<or> tr_generation (rp_record page) < rr_minimum_generation request
     then Inl (Err Stale)
     else Inr \<lparr>rs_request_id = rr_request_id request, rs_page_ordinal = rr_page_ordinal request, rs_page = page\<rparr>))"

definition worker_receive :: "restore_service \<Rightarrow> restore_service" where
  "worker_receive sv =
     (case (sv_running sv, sv_queue sv) of
        (None, command # queue) \<Rightarrow> sv\<lparr>sv_running := Some command, sv_queue := queue\<rparr>
      | _ \<Rightarrow> sv)"

definition worker_answer :: "(8 word list \<Rightarrow> hash32) \<Rightarrow> file_tier_reader \<times> disk \<Rightarrow> restore_service \<Rightarrow> restore_service" where
  "worker_answer sha store sv =
     (case sv_running sv of
        None \<Rightarrow> sv
      | Some command \<Rightarrow>
          let result = restore_one sha store (cm_request command) in
          sv\<lparr>sv_running := None, sv_quota_word := release_permit (sv_quota_word sv),
            sv_responses := fmupd (cm_response command) result (sv_responses sv)\<rparr>)"

definition awaited :: "restore_service \<Rightarrow> nat \<Rightarrow> bool" where
  "awaited sv response \<longleftrightarrow> (\<exists>command \<in> set (sv_queue sv) \<union> set_option (sv_running sv). cm_response command = response)"

definition try_receive :: "nat \<Rightarrow> restore_service \<Rightarrow> (restore_error, restore_result option) result \<times> restore_service" where
  "try_receive response sv =
     (case fmlookup (sv_responses sv) response of
        Some result \<Rightarrow> (rbind result (\<lambda>r. Inr (Some r)), sv\<lparr>sv_responses := fmdrop response (sv_responses sv)\<rparr>)
      | None \<Rightarrow> (if awaited sv response then (Inr None, sv) else (Inl (Err WorkerClosed), sv)))"

end
