(* ===== verification/Restore_Service_Props.thy ===== *)
theory Restore_Service_Props
  imports Restore_Service Store_Props
begin

unbundle bit_operations_syntax

text \<open>
  The quota of the restore service is exact whatever submissions, worker steps and receipts interleave, so the channel
  never refuses a request that has a permit; and every accepted request is answered by what the store says of its page.
\<close>

section \<open>The quota word\<close>

lemma count_mask: "RESTORE_QUOTA_COUNT_MASK = mask 63"
  by (simp add: RESTORE_QUOTA_COUNT_MASK_def RESTORE_QUOTA_POISONED_def mask_eq_exp_minus_1)

lemma poisoned_mask: "RESTORE_QUOTA_POISONED = NOT (mask 63)"
  by (simp add: count_mask [symmetric] RESTORE_QUOTA_COUNT_MASK_def)

lemma low_word:
  fixes q :: "64 word"
  assumes "unat q < 2 ^ 63"
  shows "q AND RESTORE_QUOTA_COUNT_MASK = q" and "q AND RESTORE_QUOTA_POISONED = 0"
proof -
  have "take_bit 63 q = q"
    using assms by (intro word_unat_eq_iff [THEN iffD2]) (simp add: unsigned_take_bit_eq take_bit_nat_eq_self)
  then show low: "q AND RESTORE_QUOTA_COUNT_MASK = q"
    by (simp add: count_mask take_bit_eq_mask)
  have "(q AND mask 63) AND NOT (mask 63) = 0"
    by (simp add: and.assoc)
  then show "q AND RESTORE_QUOTA_POISONED = 0"
    using low by (simp add: count_mask poisoned_mask)
qed

lemma release_low: "unat q < 2 ^ 63 \<Longrightarrow> q \<noteq> 0 \<Longrightarrow> release_permit q = q - 1"
  using low_word [of q] by (simp add: release_permit_def Let_def)

lemma reserve_low:
  "unat q < 2 ^ 63 \<Longrightarrow> reserve_slot maximum q = (if q < maximum then Inr (q + 1) else Inl (Err Saturated))"
  using low_word [of q] by (simp add: reserve_slot_def Let_def)

section \<open>The invariant\<close>

definition commands :: "restore_service \<Rightarrow> restore_command list" where
  "commands sv = (case sv_running sv of None \<Rightarrow> [] | Some c \<Rightarrow> [c]) @ sv_queue sv"

definition service_ok :: "restore_service \<Rightarrow> bool" where
  "service_ok sv \<longleftrightarrow> sv_sender sv \<and> sv_worker sv \<and> unat (sv_maximum_outstanding sv) < 2 ^ 63 \<and>
     unat (sv_quota_word sv) = length (commands sv) \<and> length (commands sv) \<le> unat (sv_maximum_outstanding sv) \<and>
     (\<forall>c\<in>set (commands sv). cm_response c < sv_next_response sv)"

datatype service_call = Submit restore_request | Take | Answer | Receive nat

fun service_exec :: "(8 word list \<Rightarrow> hash32) \<Rightarrow> file_tier_reader \<times> disk \<Rightarrow> service_call \<Rightarrow> restore_service \<Rightarrow> restore_service" where
  "service_exec sha store (Submit request) sv = snd (try_submit request sv)"
| "service_exec sha store Take sv = worker_receive sv"
| "service_exec sha store Answer sv = worker_answer sha store sv"
| "service_exec sha store (Receive response) sv = snd (try_receive response sv)"

definition request_ok :: "restore_request \<Rightarrow> bool" where
  "request_ok r \<longleftrightarrow> rr_request_id r \<noteq> 0 \<and> rr_expected_namespace r \<noteq> zero_hash \<and> rr_minimum_generation r \<noteq> 0 \<and> rr_worker_rank r < 4 \<and>
     owner_rank (rr_page_ordinal r) = rr_worker_rank r"

lemma spawn_ok: "spawn locked d maximum = Inr (sv, store) \<Longrightarrow> service_ok sv"
proof -
  assume "spawn locked d maximum = Inr (sv, store)"
  then have "maximum \<le> mask 63" and sv: "sv = \<lparr>sv_sender = True, sv_worker = True, sv_quota_word = 0, sv_maximum_outstanding = maximum, sv_queue = [],
      sv_running = None, sv_responses = fmempty, sv_next_response = 0\<rparr>"
    by (auto simp: spawn_def count_mask result_simps split: if_splits)
  then have "unat maximum \<le> unat (mask 63 :: 64 word)"
    by (simp add: word_le_nat_alt)
  also have "\<dots> < 2 ^ 63"
    by (simp add: mask_eq_exp_minus_1)
  finally show ?thesis
    by (simp add: service_ok_def commands_def sv)
qed

lemma try_submit_eq:
  assumes "service_ok sv"
  shows "try_submit request sv =
    (if \<not> request_ok request then (Inl (Err Request), sv)
     else if sv_quota_word sv < sv_maximum_outstanding sv
     then (Inr (sv_next_response sv), sv\<lparr>sv_quota_word := sv_quota_word sv + 1, sv_next_response := Suc (sv_next_response sv),
       sv_queue := sv_queue sv @ [\<lparr>cm_request = request, cm_response = sv_next_response sv\<rparr>]\<rparr>)
     else (Inl (Err Saturated), sv))"
proof -
  have low: "unat (sv_quota_word sv) < 2 ^ 63"
    using assms by (simp add: service_ok_def)
  have "length (sv_queue sv) < unat (sv_maximum_outstanding sv)" if "sv_quota_word sv < sv_maximum_outstanding sv"
    using that assms by (auto simp: word_less_nat_alt service_ok_def commands_def split: option.splits)
  then show ?thesis
    using assms reserve_low [OF low, of "sv_maximum_outstanding sv"]
    by (auto simp: try_submit_def request_ok_def service_ok_def Let_def not_le)
qed

lemma unat_add_one:
  fixes q m :: "64 word"
  assumes "q < m"
  shows "unat (q + 1) = unat q + 1"
proof -
  have "unat q < unat m" "unat m < 2 ^ 64"
    using assms unsigned_less [where w = m] by (simp_all add: word_less_nat_alt)
  then have "unat q + 1 < 2 ^ 64"
    by linarith
  then show ?thesis
    by (simp add: unat_word_ariths)
qed

lemma service_exec_keeps:
  assumes "service_ok sv"
  shows "service_ok (service_exec sha store c sv)"
proof (cases c)
  case (Submit request)
  then show ?thesis
    using assms unat_add_one [of "sv_quota_word sv" "sv_maximum_outstanding sv"]
    by (auto simp: try_submit_eq service_ok_def commands_def word_less_nat_alt less_Suc_eq)
next
  case Take
  then show ?thesis
    using assms by (auto simp: worker_receive_def service_ok_def commands_def split: option.splits list.splits)
next
  case Answer
  show ?thesis
  proof (cases "sv_running sv")
    case None
    then show ?thesis
      using assms Answer by (simp add: worker_answer_def)
  next
    case (Some command)
    have low: "unat (sv_quota_word sv) < 2 ^ 63" "unat (sv_quota_word sv) = Suc (length (sv_queue sv))"
      using assms Some by (auto simp: service_ok_def commands_def)
    then have "sv_quota_word sv \<noteq> 0"
      by auto
    then have "release_permit (sv_quota_word sv) = sv_quota_word sv - 1" "unat (sv_quota_word sv - 1) = length (sv_queue sv)"
      using low release_low by (simp_all add: unat_minus_one)
    then show ?thesis
      using assms Answer Some by (auto simp: worker_answer_def service_ok_def commands_def Let_def)
  qed
next
  case (Receive response)
  then show ?thesis
    using assms by (auto simp: try_receive_def service_ok_def commands_def split: option.splits)
qed

interpretation service_machine: machine service_ok "service_exec sha store" for sha store
  by unfold_locales (rule service_exec_keeps)

section \<open>Answers\<close>

definition tracked :: "(8 word list \<Rightarrow> hash32) \<Rightarrow> file_tier_reader \<times> disk \<Rightarrow> nat \<Rightarrow> restore_request \<Rightarrow> restore_service \<Rightarrow> bool" where
  "tracked sha store h request sv \<longleftrightarrow> h < sv_next_response sv \<and> (\<forall>c\<in>set (commands sv). cm_response c = h \<longrightarrow> cm_request c = request) \<and>
     (fmlookup (sv_responses sv) h = Some (restore_one sha store request) \<or> (\<exists>c\<in>set (commands sv). cm_response c = h))"

lemma tracked_step:
  assumes "service_ok sv" and "tracked sha store h request sv" and "c \<noteq> Receive h"
  shows "tracked sha store h request (service_exec sha store c sv)"
proof (cases c)
  case (Submit r)
  show ?thesis
  proof (cases "request_ok r \<and> sv_quota_word sv < sv_maximum_outstanding sv")
    case True
    then have "service_exec sha store c sv = sv\<lparr>sv_quota_word := sv_quota_word sv + 1, sv_next_response := Suc (sv_next_response sv),
        sv_queue := sv_queue sv @ [\<lparr>cm_request = r, cm_response = sv_next_response sv\<rparr>]\<rparr>"
      using Submit by (simp add: try_submit_eq [OF assms(1)])
    then show ?thesis
      using assms(2) by (auto simp: tracked_def commands_def)
  next
    case False
    then have "service_exec sha store c sv = sv"
      using Submit by (auto simp: try_submit_eq [OF assms(1)])
    then show ?thesis
      using assms(2) by simp
  qed
next
  case Take
  have "set (commands (worker_receive sv)) = set (commands sv)" "sv_responses (worker_receive sv) = sv_responses sv"
      "sv_next_response (worker_receive sv) = sv_next_response sv"
    by (simp_all add: worker_receive_def commands_def split: option.splits list.splits)
  then show ?thesis
    using assms(2) Take by (simp add: tracked_def)
next
  case Answer
  show ?thesis
  proof (cases "sv_running sv")
    case None
    then show ?thesis
      using assms(2) Answer by (simp add: worker_answer_def)
  next
    case (Some command)
    then have cs: "commands sv = command # commands (worker_answer sha store sv)"
        "sv_responses (worker_answer sha store sv) = fmupd (cm_response command) (restore_one sha store (cm_request command)) (sv_responses sv)"
        "sv_next_response (worker_answer sha store sv) = sv_next_response sv"
      by (simp_all add: worker_answer_def commands_def Let_def)
    then show ?thesis
      using assms(2) Answer by (cases "cm_response command = h") (simp_all add: tracked_def)
  qed
next
  case (Receive response)
  then have "commands (service_exec sha store c sv) = commands sv" "sv_next_response (service_exec sha store c sv) = sv_next_response sv"
      "fmlookup (sv_responses (service_exec sha store c sv)) h = fmlookup (sv_responses sv) h"
    using assms(3) by (auto simp: try_receive_def commands_def split: option.splits)
  then show ?thesis
    using assms(2) by (simp add: tracked_def)
qed

lemma tracked_run:
  assumes "service_ok sv" and "tracked sha store h request sv" and "Receive h \<notin> set cs"
  shows "tracked sha store h request (fold (service_exec sha store) cs sv)"
  using assms
proof (induction cs arbitrary: sv)
  case (Cons c cs)
  have "c \<noteq> Receive h"
    using Cons.prems(3) by auto
  then have "service_ok (service_exec sha store c sv)" "tracked sha store h request (service_exec sha store c sv)"
    using service_exec_keeps [OF Cons.prems(1)] tracked_step [OF Cons.prems(1,2)] by blast+
  then show ?case
    using Cons.IH Cons.prems(3) by simp
qed simp

text \<open>A turn of the worker answers one request.\<close>

lemma worker_turn: "length (commands (fold (service_exec sha store) [Take, Answer] sv)) = length (commands sv) - 1"
  by (auto simp: worker_receive_def worker_answer_def commands_def Let_def split: option.splits list.splits)

definition turns :: "nat \<Rightarrow> service_call list" where
  "turns n = concat (replicate n [Take, Answer])"

lemma worker_turns: "length (commands (fold (service_exec sha store) (turns n) sv)) = length (commands sv) - n"
proof (induction n arbitrary: sv)
  case (Suc n)
  have "fold (service_exec sha store) (turns (Suc n)) sv = fold (service_exec sha store) (turns n) (fold (service_exec sha store) [Take, Answer] sv)"
    by (simp add: turns_def)
  then show ?case
    using Suc worker_turn [of sha store sv] by simp
qed (simp add: turns_def)

section \<open>Properties\<close>

text \<open>
  (C23) The quota of the restore service is exact: after any submissions, worker steps and receipts, in any order, the quota word counts exactly the requests in the
  queue and with the worker, never exceeds the maximum and is not poisoned; a well-formed request is accepted exactly if fewer than the maximum are outstanding, so the channel
  itself never refuses one.
\<close>

theorem restore_quota_exact:
  assumes "spawn locked d maximum = Inr (start, reader)" and "sv = fold (service_exec sha (reader, d)) cs start"
  shows "unat (outstanding sv) = length (commands sv) \<and> outstanding sv \<le> sv_maximum_outstanding sv \<and> \<not> quota_poisoned sv \<and>
    (\<forall>request. fst (try_submit request sv) =
       (if \<not> request_ok request then Inl (Err Request)
        else if outstanding sv < sv_maximum_outstanding sv then Inr (sv_next_response sv) else Inl (Err Saturated)))"
proof -
  have ok: "service_ok sv"
    unfolding assms(2) by (rule service_machine.run_keeps [OF spawn_ok [OF assms(1)]])
  then have "unat (sv_quota_word sv) < 2 ^ 63"
    by (simp add: service_ok_def)
  from low_word [OF this] show ?thesis
    using ok by (simp add: outstanding_def quota_poisoned_def service_ok_def word_le_nat_alt try_submit_eq [OF ok])
qed


section \<open>A concrete service\<close>

definition sample_service :: restore_service where
  "sample_service = \<lparr>sv_sender = True, sv_worker = True, sv_quota_word = 0, sv_maximum_outstanding = 2, sv_queue = [], sv_running = None,
     sv_responses = fmempty, sv_next_response = 0\<rparr>"

definition sample_restore :: restore_request where
  "sample_restore = \<lparr>rr_request_id = 7, rr_page_key = replicate 32 2, rr_expected_namespace = replicate 32 1, rr_minimum_generation = 1,
     rr_page_ordinal = 5, rr_worker_rank = 1\<rparr>"

lemma sample_spawn: "\<exists>reader. spawn False empty_disk 2 = Inr (sample_service, reader)"
proof -
  have "\<exists>reader. open_reader False empty_disk = Inr reader"
    using sample_open by (auto simp: open_store_def open_reader_def result_simps)
  then show ?thesis
    by (auto simp: spawn_def sample_service_def count_mask mask_eq_exp_minus_1)
qed

theorem restore_quota_exact_witness:
  "unat (outstanding sample_service) = length (commands sample_service) \<and> fst (try_submit sample_restore sample_service) = Inr 0"
proof -
  obtain reader where "spawn False empty_disk 2 = Inr (sample_service, reader)"
    using sample_spawn by blast
  from restore_quota_exact [OF this, of sample_service sample_sha "[]"] show ?thesis
    by (auto simp: sample_service_def sample_restore_def request_ok_def zero_hash_def owner_rank_def outstanding_def)
qed


end
