(* ===== verification/Spec2Isabelle.thy ===== *)
theory Spec2Isabelle
  imports Delta_Props Compile Prefix_Props Mtp Budget Direct_Props Direct_State_Props Direct_Descriptor_Props Store_Props Residency_Props Restore_Service_Props
begin

text \<open>
  A verification development for glmaxx, a serving engine for a GLM model. It covers the parts that decide what is computed, kept and
  recovered: the cache crate \<open>crates/glm-cache\<close>, the step protocol and graph profile of \<open>crates/glm-engine\<close>, the
  scheduler \<open>crates/glm-scheduler\<close>, and the checksum of \<open>crates/glm-format\<close>.

  \<^bold>\<open>The program.\<close> A request is admitted to the scheduler, which chooses batches and compiles each into a step plan with its schedule of
  collectives; a graph profile says which shapes were captured. The tokens of a sequence live in pages of 64 tokens, each owned by
  one of four ranks. The page table hands out page ids, shares prefix pages, and takes ids back only after all ranks acknowledged; ranks follow it
  through deltas applied to mirrors. A prefix index finds the pages of a prompt by chained hashes. Sealed pages are published to a durable file store
  with a journal, a residency manager decides which of them are in HBM, DRAM or on NVMe only, and a restore service reads them back. Direct I/O
  uses extents, a pool of aligned buffers and a table of completion descriptors.

  \<^bold>\<open>Conventions.\<close> \<open>Prelude\<close> holds the result type (a typed error or a panic), checked integer operations at their width, loops over
  results, ordered maps and sorting, and two contracts as locales: \<open>transactional\<close>, an operation that restores its snapshot on failure, and
  \<open>machine\<close>, an invariant kept by every command. Both are interpreted on the operations of the components. A Rust struct is a
  record, an enum a datatype; a method that mutates its receiver returns the result and the new state, and a method that works on a clone or checks before it
  writes is \<open>transact\<close> of an inner computation. Unsigned integers are naturals with explicit bounds wherever the code uses checked arithmetic, and
  words of 8, 32 or 64 bits where it works on bits. SHA-256 is a parameter; theorems that depend on it name the two byte strings that would collide.

  \<^bold>\<open>Theories and sources.\<close>
  \<^item> \<open>Page\<close>: \<open>page.rs\<close>, page states and transitions, owner ranks. \<open>Tier\<close>: \<open>tier.rs\<close>, tier records, their relations, the
    publication journal and its recovery, draft sidecars.
  \<^item> \<open>Page_Table\<close>: \<open>sequence.rs\<close>, every operation of the page table. \<open>Page_Table_Inv\<close>, \<open>_Own\<close>, \<open>_Ops\<close>, \<open>_Tx\<close>, \<open>_Adm\<close> and
    \<open>_Main\<close> hold the invariant and its preservation by ownership, appending, speculative transactions and admission; \<open>Page_Table_Props\<close> the
    properties: well-formedness, atomic failure, quarantine of ids, rollback and commit.
  \<^item> \<open>Delta\<close>, \<open>Delta_Mirror\<close>, \<open>Delta_Props\<close>: \<open>delta.rs\<close>, deltas and mirrors; applying the delta between two tables to the mirror of the first
    gives the mirror of the second, and the digest determines the delta.
  \<^item> \<open>Prefix\<close>, \<open>Prefix_Props\<close>: \<open>prefix.rs\<close>, the prefix index; matched pages have the same tokens, inserted prefixes are found.
  \<^item> \<open>Step\<close>, \<open>Graph\<close>: \<open>step.rs\<close> and \<open>graph.rs\<close> of the engine; plan hashes bind plans, verification is rebuilding, profiles do
    not depend on the order of entries.
  \<^item> \<open>Scheduler\<close> with \<open>_Inv\<close>, \<open>_Run\<close>, \<open>_Done\<close>, \<open>_Main\<close>, \<open>_Props\<close>: \<open>glm-scheduler/src/lib.rs\<close>; well-formedness, progress, termination of
    serving, fairness by weighted service, exact accounting. \<open>Compile\<close>: \<open>compile.rs\<close>; a batch in flight compiles to a plan that the profile admits.
  \<^item> \<open>Mtp\<close>, \<open>Budget\<close>: \<open>mtp.rs\<close> and \<open>budget.rs\<close>.
  \<^item> \<open>Store\<close>: \<open>store.rs\<close> and \<open>crc32c.rs\<close>. \<open>Store_Codec\<close>: journal records round trip, torn tails are cut. \<open>Store_Catalog\<close>: how recovery reads an open
    transaction. \<open>Store_Inv\<close>: what a crash may leave, the invariant, and that opening succeeds on whatever it leaves. \<open>Store_Plan\<close>, \<open>Store_Run\<close>, \<open>Store_Publish\<close>: a publication step by step,
    by weakest preconditions with an outcome for faults. \<open>Store_Props\<close>: durability of acknowledged pages, reads, progress.
  \<^item> \<open>Residency\<close> with \<open>_Inv\<close>, \<open>_Run\<close>, \<open>_Props\<close>: the manager of \<open>residency.rs\<close>; accounting, pins, admission, least recently used eviction,
    stale plans. \<open>Restore_Service\<close>, \<open>Restore_Service_Props\<close>: its service; the quota is exact under every interleaving and accepted requests are answered.
  \<^item> \<open>Direct\<close>, \<open>Direct_State\<close>, \<open>Direct_Descriptor\<close> and their \<open>_Props\<close>: \<open>direct.rs\<close> and \<open>direct_state.rs\<close>; extents round trip, reserved buffers are
    private and zero, completions happen exactly once.
  \<^item> This theory: the path of a page from the disk to HBM, across store, service and manager.

  \<^bold>\<open>Faults and crashes.\<close> An argument decides for every disk operation whether it fails and how many bytes it wrote before. A crash keeps what was synced and an
  arbitrary front part of the journal bytes appended since; unsynced data may become anything. A medium that reorders the bytes of one
  appended record, or loses synced ones, is outside this model.

  \<^bold>\<open>Bounds and loops.\<close> Loops are structural recursion over the lists or counters of the code, so there is no fuel. Serving is a drain
  of the scheduler with as many rounds as tokens are left, which is proved enough. The worker of the restore service is driven by explicit
  turns, and as many turns as requests are outstanding are proved enough. Theorems about sums assume sizes below \<open>2 ^ 64\<close> where the
  code would report an overflow instead.

  \<^bold>\<open>Not modelled.\<close> The direct schedule and restore loops around the modelled buffers and descriptors (threads and io_uring); the f32
  kernels of \<open>attention.rs\<close>, \<open>kv.rs\<close> and \<open>glm-reference\<close>, whose statements are about rounding and need a model of IEEE arithmetic;
  the engine's workers, CUDA memory and weight loading, and the foreign functions of \<open>glm-cuda\<close>; the HTTP serving layer; the
  tokenizer, whose tables are a third-party crate; the checkpoint formats other than the checksum; the command line. Blocking
  receipt and joining of threads only wait and are left out, as are \<open>Display\<close> and serialisation impls.
\<close>

section \<open>From the disk to HBM\<close>

lemma reader_of_survivor:
  assumes "reached sha (st, d) acked" and "\<forall>x. length (sha x) = 32" and "survives d d'" and "open_reader False d' = Inr rd"
  shows "catalog_ok sha d' (rd_published rd)" and "\<forall>q\<in>acked. holds sha (rd_published rd) q"
proof -
  have "disk_ok sha acked d"
    using reached_ok [OF assms(1)] assms(2) by (simp add: store_ok_def)
  then obtain st' d'' where opened: "open_store False d' = Inr (st', d'')" "store_ok sha acked (st', d'')"
    using open_survivor [OF _ assms(3)] by blast
  have "rd_published rd = st_published st'" "same_data d' d''"
    using opened(1) assms(4) by (auto simp: open_store_def open_reader_def result_simps Let_def same_data_def split: if_splits)
  then show "catalog_ok sha d' (rd_published rd)" "\<forall>q\<in>acked. holds sha (rd_published rd) q"
    using opened(2) catalog_ok_same [of d' d''] by (simp_all add: store_ok_def)
qed


definition wide_config :: residency_config where
  "wide_config = \<lparr>rc_hbm_bytes = 10000000, rc_dram_bytes = 10000000\<rparr>"

definition one_page :: "tier_record \<Rightarrow> residency_manager" where
  "one_page r = \<lparr>rm_config = wide_config, rm_entries = fmupd (tr_page_key r) (registered_entry r) fmempty, rm_hbm_bytes = 0, rm_dram_bytes = 0,
     rm_clock = 0, rm_state_generation = 1\<rparr>"

lemma one_page_reached:
  assumes "validate_record r = Inr ()" and "tr_tier r = tier.Nvme"
  shows "reached_manager wide_config (one_page r, [])"
proof -
  let ?start = "\<lparr>rm_config = wide_config, rm_entries = fmempty, rm_hbm_bytes = 0, rm_dram_bytes = 0, rm_clock = 0, rm_state_generation = 0\<rparr>"
  have start: "new_manager wide_config = Inr ?start"
    by (simp add: new_manager_def wide_config_def)
  have run: "(one_page r, []) = fold residency_exec [CallRegister r] (?start, [])"
    using assms by (simp add: residency_exec_def transact_def register_inner_def plan_nvme_registrations_def plan_record_def
        nvme_registration_action_def commit_inner_def validate_nvme_registration_plan_def next_state_generation_def checked_add_def one_page_def Let_def)
  show ?thesis
    unfolding reached_manager_def
  proof (intro conjI exI)
    show "new_manager wide_config = Inr ?start"
      by (rule start)
    show "(one_page r, []) = fold residency_exec [CallRegister r] (?start, [])"
      by (rule run)
  qed (simp_all add: wide_config_def)
qed

lemma one_page_begin:
  assumes "validate_record r = Inr ()"
  shows "\<exists>request mgr1. begin_restore 1 (tr_page_key r) 0 0 (one_page r) = (Inr request, mgr1)"
  using assms page_bytes_bound [OF assms]
  by (simp add: begin_restore_def transact_def begin_restore_inner_def next_state_generation_def entry_of_def checked_add_def one_page_def
      registered_entry_def wide_config_def owner_rank_def Let_def)


end
